(* ===== verification/Prelude.thy ===== *)
theory Prelude
  imports Complex_Main "HOL-Library.Word" "HOL-Library.AList" "HOL-Library.Multiset"
begin

text \<open>
  Shared vocabulary of the development: the Go integer types as machine words, Go maps as
  association lists, Go time as a number of nanoseconds, and the generic lemmas and theorem
  collections the component theories use.

  A Go map is an association list with distinct keys: \<open>map_of\<close> is the lookup,
  \<open>AList.update\<close> the assignment, \<open>AList.delete\<close> the builtin \<open>delete\<close>.  The order of the
  list stands for one order in which \<open>for range\<close> may visit the map; the statements of the
  development quantify over all lists, hence over all visiting orders.
\<close>

unbundle bit_operations_syntax

section \<open>Go types\<close>

type_synonym u8 = "8 word"
type_synonym u16 = "16 word"
type_synonym u32 = "32 word"
type_synonym u64 = "64 word"
type_synonym i64 = "64 word"

text \<open>
  \<open>time.Time\<close> is the number of nanoseconds since the zero value of the Go type (January 1 of
  year 1, so the zero value is 0), \<open>time.Duration\<close> a number of nanoseconds.
  \<open>Time.Sub\<close> saturates at the two ends of the range of \<open>Duration\<close>.
\<close>

type_synonym time = int
type_synonym duration = int

definition max_duration :: duration where
  "max_duration = 2 ^ 63 - 1"

definition time_sub :: "time \<Rightarrow> time \<Rightarrow> duration" where
  "time_sub t u = max (- max_duration - 1) (min max_duration (t - u))"

text \<open>The \<open>context\<close> package reports why a context ended.\<close>

datatype ctx_error = Canceled | DeadlineExceeded

section \<open>Theorem collections\<close>

named_theorems step_defs \<open>definitions a one-step proof unfolds\<close>
named_theorems inv_defs \<open>definitions of the invariants\<close>
named_theorems frame_simps \<open>what an operation leaves unchanged\<close>

section \<open>Go maps\<close>

type_synonym ('k, 'v) gomap = "('k \<times> 'v) list"

definition keys :: "('k, 'v) gomap \<Rightarrow> 'k list" where
  "keys m = map fst m"

definition map_ok :: "('k, 'v) gomap \<Rightarrow> bool" where
  "map_ok m = distinct (keys m)"

text \<open>\<open>orderedIDs\<close> of the game package: the keys of a map in increasing order.\<close>

definition ordered_keys :: "('k::linorder, 'v) gomap \<Rightarrow> 'k list" where
  "ordered_keys m = sort (keys m)"

text \<open>Rewriting the value stored under a key that is present, as a write through a pointer does.\<close>

definition map_adjust :: "'k \<Rightarrow> ('v \<Rightarrow> 'v) \<Rightarrow> ('k, 'v) gomap \<Rightarrow> ('k, 'v) gomap" where
  "map_adjust k f m = map (\<lambda>(i, v). (i, if i = k then f v else v)) m"

definition map_values :: "('v \<Rightarrow> 'w) \<Rightarrow> ('k, 'v) gomap \<Rightarrow> ('k, 'w) gomap" where
  "map_values f m = map (\<lambda>(i, v). (i, f v)) m"

lemma keys_Nil [simp]: "keys [] = []"
  by (simp add: keys_def)

lemma keys_Cons [simp]: "keys (p # m) = fst p # keys m"
  by (simp add: keys_def)

lemma set_keys: "set (keys m) = dom (map_of m)"
  by (simp add: keys_def dom_map_of_conv_image_fst)

lemma map_ok_Nil [simp]: "map_ok []"
  by (simp add: map_ok_def)

lemma keys_update: "keys (AList.update k v m) = (if k \<in> set (keys m) then keys m else keys m @ [k])"
  by (induction m) (auto simp: keys_def)

lemma map_ok_update [simp]: "map_ok m \<Longrightarrow> map_ok (AList.update k v m)"
  by (simp add: map_ok_def keys_update)

lemma keys_delete: "keys (AList.delete k m) = filter (\<lambda>i. i \<noteq> k) (keys m)"
  by (induction m) (auto simp: keys_def AList.delete_eq)

lemma map_ok_delete [simp]: "map_ok m \<Longrightarrow> map_ok (AList.delete k m)"
  by (simp add: map_ok_def keys_delete)

lemma keys_map_adjust [simp]: "keys (map_adjust k f m) = keys m"
  by (induction m) (auto simp: keys_def map_adjust_def)

lemma map_ok_map_adjust [simp]: "map_ok (map_adjust k f m) = map_ok m"
  by (simp add: map_ok_def)

lemma map_of_map_adjust:
  "map_of (map_adjust k f m) i = (if i = k then map_option f (map_of m k) else map_of m i)"
  by (induction m) (auto simp: map_adjust_def)

lemma keys_map_values [simp]: "keys (map_values f m) = keys m"
  by (induction m) (auto simp: keys_def map_values_def)

lemma map_ok_map_values [simp]: "map_ok (map_values f m) = map_ok m"
  by (simp add: map_ok_def)

lemma map_of_map_values: "map_of (map_values f m) i = map_option f (map_of m i)"
  by (induction m) (auto simp: map_values_def)

lemma length_keys [simp]: "length (keys m) = length m"
  by (simp add: keys_def)

lemma set_ordered_keys [simp]: "set (ordered_keys m) = dom (map_of m)"
  by (simp add: ordered_keys_def set_keys)

lemma sorted_ordered_keys [simp]: "sorted (ordered_keys m)"
  by (simp add: ordered_keys_def)

lemma distinct_ordered_keys [simp]: "distinct (ordered_keys m) = map_ok m"
  by (simp add: ordered_keys_def map_ok_def)

lemma length_ordered_keys [simp]: "length (ordered_keys m) = length m"
  by (simp add: ordered_keys_def)

lemma ordered_keys_perm:
  assumes "mset m = mset m'"
  shows "ordered_keys m = ordered_keys m'"
proof -
  have "mset (keys m) = mset (keys m')"
    using assms by (simp add: keys_def)
  then show ?thesis
    unfolding ordered_keys_def by (metis properties_for_sort sorted_sort mset_sort)
qed

lemma map_of_perm:
  assumes "map_ok m" and "mset m = mset m'"
  shows "map_of m = map_of m'"
proof -
  have "distinct (map fst m')"
    using assms by (metis keys_def map_ok_def mset_eq_imp_distinct_iff mset_map)
  with assms show ?thesis
    by (metis keys_def map_ok_def map_of_inject_set set_mset_mset)
qed

lemma map_of_tabulate: "map_of (map (\<lambda>i. (i, f i)) xs) i = (if i \<in> set xs then Some (f i) else None)"
  by (induction xs) auto

lemma map_of_in_keys: "map_of m k = Some v \<Longrightarrow> k \<in> set (keys m)"
  by (simp add: set_keys domI)

section \<open>Predicates on all entries of a map\<close>

definition entries_ok :: "('k \<Rightarrow> 'v \<Rightarrow> bool) \<Rightarrow> ('k, 'v) gomap \<Rightarrow> bool" where
  "entries_ok P m \<longleftrightarrow> map_ok m \<and> (\<forall>k v. map_of m k = Some v \<longrightarrow> P k v)"

lemma entries_okD: "entries_ok P m \<Longrightarrow> map_of m k = Some v \<Longrightarrow> P k v"
  by (simp add: entries_ok_def)

lemma entries_ok_map_ok: "entries_ok P m \<Longrightarrow> map_ok m"
  by (simp add: entries_ok_def)

lemma entries_ok_Nil [simp]: "entries_ok P []"
  by (simp add: entries_ok_def)

lemma entries_ok_update: "entries_ok P m \<Longrightarrow> P k v \<Longrightarrow> entries_ok P (AList.update k v m)"
  by (simp add: entries_ok_def update_conv')

lemma entries_ok_delete: "entries_ok P m \<Longrightarrow> entries_ok P (AList.delete k m)"
  by (simp add: entries_ok_def delete_conv')

lemma entries_ok_map_values:
  "entries_ok P m \<Longrightarrow> (\<And>k v. P k v \<Longrightarrow> Q k (f v)) \<Longrightarrow> entries_ok Q (map_values f m)"
  by (auto simp: entries_ok_def map_of_map_values)

lemma entries_ok_map_adjust:
  "entries_ok P m \<Longrightarrow> (\<And>v. map_of m k = Some v \<Longrightarrow> P k v \<Longrightarrow> P k (f v)) \<Longrightarrow> entries_ok P (map_adjust k f m)"
  by (auto simp: entries_ok_def map_of_map_adjust)

lemma entries_ok_mono: "entries_ok P m \<Longrightarrow> (\<And>k v. P k v \<Longrightarrow> Q k v) \<Longrightarrow> entries_ok Q m"
  by (auto simp: entries_ok_def)

lemma entries_ok_set: "entries_ok P m \<Longrightarrow> (k, v) \<in> set m \<Longrightarrow> P k v"
  by (simp add: entries_ok_def map_ok_def keys_def)

lemma map_adjust_id: "map_of m k = None \<Longrightarrow> map_adjust k f m = m"
  by (induction m) (auto simp: map_adjust_def split: if_splits)

section \<open>Words\<close>

lemma word_dec_le: "x \<noteq> 0 \<Longrightarrow> x - 1 \<le> (x :: 'a::len word)"
  by (simp add: word_le_nat_alt unat_minus_one)

end
