(* ===== verification/Float64.thy ===== *)
theory Float64
  imports Prelude
begin

text \<open>
  Go's \<open>float64\<close> and the functions of package \<open>math\<close> the server uses, as IEEE 754 binary64
  with round to nearest, ties to even.  A finite value is the rational number it denotes, and
  every arithmetic operation is the exact operation followed by the rounding \<open>fl\<close>, as the
  amd64 compiler generates it (one instruction per operation, no fused multiply-add).
  \<open>is_f64\<close> says that a value is one a \<open>float64\<close> can hold.  The lemmas that the game theories
  need are that the rounding is monotone, keeps representable values and loses no difference
  (locale \<open>rounding\<close>), that clamping with \<open>math.Max\<close> and \<open>math.Min\<close> stays in its interval,
  and that \<open>math.Hypot\<close> is at least each component.  Everything here computes.
\<close>

section \<open>Rounding\<close>

definition rint :: "rat \<Rightarrow> int" where
  "rint x = (let f = \<lfloor>x\<rfloor>; d = x - of_int f in
     if d < 1 / 2 then f else if 1 / 2 < d then f + 1 else if even f then f else f + 1)"

lemma rint_of_int [simp]: "rint (of_int n) = n"
  by (simp add: rint_def)

lemma rint_lower: "\<lfloor>x\<rfloor> \<le> rint x" and rint_upper: "rint x \<le> \<lfloor>x\<rfloor> + 1"
  by (simp_all add: rint_def Let_def)

lemma rint_mono: "x \<le> y \<Longrightarrow> rint x \<le> rint y"
proof (cases "\<lfloor>x\<rfloor> = \<lfloor>y\<rfloor>")
  case True
  assume "x \<le> y"
  with True show ?thesis by (auto simp: rint_def Let_def)
next
  case False
  assume "x \<le> y"
  with False have "\<lfloor>x\<rfloor> + 1 \<le> \<lfloor>y\<rfloor>"
    by (metis floor_mono order_le_less zless_iff_Suc_zadd less_iff_succ_less_eq)
  then show ?thesis using rint_upper[of x] rint_lower[of y] by linarith
qed

lemma rint_minus: "rint (- x) = - rint x"
proof (cases "x = of_int \<lfloor>x\<rfloor>")
  case True
  then show ?thesis by (metis of_int_minus rint_of_int)
next
  case False
  then have lt: "of_int \<lfloor>x\<rfloor> < x" by (metis of_int_floor_le order_le_less)
  have "\<lfloor>- x\<rfloor> = - \<lfloor>x\<rfloor> - 1"
    using lt floor_correct[of x] by (intro floor_unique) auto
  then show ?thesis by (auto simp: rint_def Let_def)
qed

lemma rint_le_int: "x \<le> of_int n \<Longrightarrow> rint x \<le> n"
  using rint_mono[of x "of_int n"] by simp

lemma rint_ge_int: "of_int n \<le> x \<Longrightarrow> n \<le> rint x"
  using rint_mono[of "of_int n" x] by simp

text \<open>The number of binary digits of an integer, and the exponent of the leading digit of a value.\<close>

function ibits :: "int \<Rightarrow> int" where
  "ibits n = (if n \<le> 0 then 0 else 1 + ibits (n div 2))"
  by pat_completeness auto
termination
  by (relation "measure nat") auto

declare ibits.simps [simp del]

definition ilog2 :: "rat \<Rightarrow> int" where
  "ilog2 x = (let (p, q) = quotient_of x; k = ibits p - ibits q in
     if 2 powi k \<le> x then k else k - 1)"

lemma powi_pos [simp]: "(0::rat) < 2 powi k"
  by simp

lemma powi_less_iff [simp]: "(2::rat) powi a < 2 powi b \<longleftrightarrow> a < b"
  by (metis linorder_not_le one_less_numeral_iff power_int_increasing power_int_strict_increasing
      order_less_imp_le semiring_norm(76))

lemma powi_le_iff [simp]: "(2::rat) powi a \<le> 2 powi b \<longleftrightarrow> a \<le> b"
  by (simp flip: linorder_not_less)

lemma ibits_rat:
  "0 < p \<Longrightarrow> 2 powi (ibits p - 1) \<le> (of_int p :: rat) \<and> (of_int p :: rat) < 2 powi (ibits p)"
proof (induction p rule: ibits.induct)
  case (1 n)
  show ?case
  proof (cases "n = 1")
    case True
    then show ?thesis by (simp add: ibits.simps)
  next
    case False
    with "1.prems" have d: "0 < n div 2" by linarith
    with "1.IH" "1.prems" have IH: "2 powi (ibits (n div 2) - 1) \<le> (of_int (n div 2) :: rat)"
      "(of_int (n div 2) :: rat) < 2 powi ibits (n div 2)" by auto
    have b: "ibits n = ibits (n div 2) + 1" using "1.prems" by (simp add: ibits.simps[of n])
    let ?k = "ibits (n div 2)"
    have k: "0 \<le> ?k"
    proof (rule ccontr)
      assume "\<not> 0 \<le> ?k"
      then have "2 powi ?k \<le> (2 powi 0 :: rat)" by (subst powi_le_iff) simp
      with IH(2) d show False by simp
    qed
    have "of_int (n div 2) < (of_int (2 ^ nat ?k) :: rat)" using IH(2) k by (simp add: power_int_def)
    then have "n div 2 < 2 ^ nat ?k" by (simp only: of_int_less_iff)
    then have "n < 2 * 2 ^ nat ?k" by linarith
    then have "(of_int n :: rat) < of_int (2 * 2 ^ nat ?k)" by (simp only: of_int_less_iff)
    then have up: "(of_int n :: rat) < 2 powi (?k + 1)" using k by (simp add: power_int_def nat_add_distrib)
    have "2 powi ?k = (2 powi (?k - 1) * 2 :: rat)" by (simp add: power_int_diff)
    also have "\<dots> \<le> of_int (n div 2) * 2" using IH(1) by simp
    also have "\<dots> = of_int (n div 2 * 2)" by simp
    also have "\<dots> \<le> of_int n" by (subst of_int_le_iff) simp
    finally show ?thesis using up by (simp add: b)
  qed
qed

lemma ilog2_bounds:
  assumes "0 < x"
  shows "2 powi ilog2 x \<le> x" and "x < 2 powi (ilog2 x + 1)"
proof -
  obtain p q where pq: "quotient_of x = (p, q)" by fastforce
  have q: "0 < q" by (rule quotient_of_denom_pos[OF pq])
  have x: "x = of_int p / of_int q" by (rule quotient_of_div[OF pq])
  have p: "0 < p" using assms q by (simp add: x zero_less_divide_iff)
  let ?k = "ibits p - ibits q"
  note P = ibits_rat[OF p] and Q = ibits_rat[OF q]
  have "2 powi (?k - 1) = (2 powi (ibits p - 1) / 2 powi (ibits q) :: rat)"
    by (simp add: algebra_simps flip: power_int_diff)
  also have "\<dots> \<le> x" unfolding x using P Q p q by (intro frac_le) auto
  finally have lo: "2 powi (?k - 1) \<le> x" .
  have "x < (2 powi (ibits p) / 2 powi (ibits q - 1) :: rat)"
    unfolding x using P Q p q by (intro frac_less) auto
  also have "\<dots> = 2 powi (?k + 1)"
    by (simp add: algebra_simps flip: power_int_diff)
  finally have hi: "x < 2 powi (?k + 1)" .
  show "2 powi ilog2 x \<le> x" and "x < 2 powi (ilog2 x + 1)"
    using lo hi by (auto simp: ilog2_def pq Let_def)
qed

lemma ilog2_unique:
  assumes "2 powi k \<le> x" and "x < 2 powi (k + 1)"
  shows "ilog2 x = k"
proof -
  have x: "0 < x" using assms(1) by (meson less_le_trans powi_pos)
  have "2 powi k < (2 powi (ilog2 x + 1) :: rat)"
    using assms(1) ilog2_bounds(2)[OF x] by (rule le_less_trans)
  moreover have "2 powi ilog2 x < (2 powi (k + 1) :: rat)"
    using ilog2_bounds(1)[OF x] assms(2) by (rule le_less_trans)
  ultimately show ?thesis by simp
qed

lemma ilog2_mono:
  assumes "0 < x" and "x \<le> y"
  shows "ilog2 x \<le> ilog2 y"
proof -
  have "2 powi ilog2 x < (2 powi (ilog2 y + 1) :: rat)"
    using assms ilog2_bounds(1)[of x] ilog2_bounds(2)[of y] by linarith
  then show ?thesis by simp
qed

text \<open>The two formats: the bits after the leading one, the least exponent, and the first exponent that is too large.\<close>

datatype format = Binary64 | Binary32

primrec fraction_bits :: "format \<Rightarrow> nat" where
  "fraction_bits Binary64 = 52" | "fraction_bits Binary32 = 23"

primrec least_exp :: "format \<Rightarrow> int" where
  "least_exp Binary64 = - 1074" | "least_exp Binary32 = - 149"

primrec overflow_exp :: "format \<Rightarrow> nat" where
  "overflow_exp Binary64 = 1024" | "overflow_exp Binary32 = 128"

text \<open>The exponent of the last binary digit a value of this magnitude keeps.\<close>

definition ulp_exp :: "format \<Rightarrow> rat \<Rightarrow> int" where
  "ulp_exp F x = max (least_exp F) (ilog2 \<bar>x\<bar> - int (fraction_bits F))"

definition round_to :: "format \<Rightarrow> rat \<Rightarrow> rat" where
  "round_to F x = (if x = 0 then 0 else of_int (rint (x / 2 powi ulp_exp F x)) * 2 powi ulp_exp F x)"

abbreviation rnd :: "rat \<Rightarrow> rat" where
  "rnd \<equiv> round_to Binary64"

lemma round_0 [simp]: "round_to F 0 = 0"
  by (simp add: round_to_def)

lemma ulp_exp_minus [simp]: "ulp_exp F (- x) = ulp_exp F x"
  by (simp add: ulp_exp_def)

lemma round_minus: "round_to F (- x) = - round_to F x"
  by (simp add: round_to_def rint_minus)

lemma powi_split: "(2::rat) powi a = 2 ^ nat (a - b) * 2 powi b" if "b \<le> a"
proof -
  have "(2::rat) powi a = 2 powi ((a - b) + b)" by simp
  also have "\<dots> = 2 powi (a - b) * 2 powi b" by (subst power_int_add) auto
  also have "2 powi (a - b) = (2::rat) ^ nat (a - b)" using that by (simp add: power_int_def)
  finally show ?thesis .
qed

lemma round_le_grid:
  assumes "x \<le> of_int n * 2 powi ulp_exp F x"
  shows "round_to F x \<le> of_int n * 2 powi ulp_exp F x"
proof (cases "x = 0")
  case False
  have "x / 2 powi ulp_exp F x \<le> of_int n"
    using assms by (simp add: pos_divide_le_eq)
  then have "rint (x / 2 powi ulp_exp F x) \<le> n" by (rule rint_le_int)
  with False show ?thesis by (simp add: round_to_def)
qed (use assms in simp)

lemma round_ge_grid:
  assumes "of_int n * 2 powi ulp_exp F x \<le> x"
  shows "of_int n * 2 powi ulp_exp F x \<le> round_to F x"
  using round_le_grid[of "- x" "- n"] assms by (simp add: round_minus)

lemma round_grid:
  assumes "x = of_int n * 2 powi ulp_exp F x"
  shows "round_to F x = x"
  using round_le_grid[of x n F] round_ge_grid[of n F x] assms by simp

text \<open>Every value with at most \<open>fraction_bits + 1\<close> significant bits above the least exponent is kept.\<close>

lemma ulp_exp_le:
  assumes "\<bar>x\<bar> < 2 powi (e + int (Suc (fraction_bits F)))" and "least_exp F \<le> e" and "x \<noteq> 0"
  shows "ulp_exp F x \<le> e"
proof -
  have "2 powi ilog2 \<bar>x\<bar> < (2 powi (e + int (Suc (fraction_bits F))) :: rat)"
    using assms(1,3) ilog2_bounds(1)[of "\<bar>x\<bar>"] by linarith
  then have "ilog2 \<bar>x\<bar> < e + int (Suc (fraction_bits F))" by simp
  with assms(2) show ?thesis by (simp add: ulp_exp_def)
qed

lemma round_grid_less:
  assumes "\<bar>m\<bar> < 2 ^ Suc (fraction_bits F)" and "least_exp F \<le> e"
  shows "round_to F (of_int m * 2 powi e) = of_int m * 2 powi e"
proof (cases "m = 0")
  case False
  let ?x = "of_int m * 2 powi e :: rat"
  have "\<bar>?x\<bar> < 2 ^ Suc (fraction_bits F) * 2 powi e"
  proof -
    have "(of_int \<bar>m\<bar> :: rat) < of_int (2 ^ Suc (fraction_bits F))" using assms(1) by (simp only: of_int_less_iff)
    then show ?thesis by (simp add: abs_mult)
  qed
  also have "\<dots> = 2 powi (e + int (Suc (fraction_bits F)))" using powi_split[of e "e + int (Suc (fraction_bits F))"] by (simp del: of_nat_Suc add: nat_add_distrib)
  finally have le: "ulp_exp F ?x \<le> e" using assms(2) False by (intro ulp_exp_le) auto
  then have "?x = of_int (m * 2 ^ nat (e - ulp_exp F ?x)) * 2 powi ulp_exp F ?x"
    using powi_split[OF le] by simp
  then show ?thesis by (rule round_grid)
qed simp

lemma round_grid_le:
  assumes "\<bar>m\<bar> \<le> 2 ^ Suc (fraction_bits F)" and "least_exp F \<le> e"
  shows "round_to F (of_int m * 2 powi e) = of_int m * 2 powi e"
proof (cases "\<bar>m\<bar> = 2 ^ Suc (fraction_bits F)")
  case True
  then obtain s :: int where s: "m = s * 2 ^ Suc (fraction_bits F)" "\<bar>s\<bar> = 1" by (cases "0 \<le> m") (auto intro: that[of 1] that[of "-1"])
  have "of_int m * 2 powi e = of_int (s * 2 ^ fraction_bits F) * (2 powi (e + 1) :: rat)"
    by (simp add: s(1) power_int_add)
  moreover have "round_to F (of_int (s * 2 ^ fraction_bits F) * 2 powi (e + 1)) = of_int (s * 2 ^ fraction_bits F) * 2 powi (e + 1)"
    using assms(2) s(2) by (intro round_grid_less) (auto simp: abs_mult)
  ultimately show ?thesis by metis
qed (use assms round_grid_less in auto)

lemma round_powi: "least_exp F \<le> e \<Longrightarrow> round_to F (2 powi e) = 2 powi e"
  using round_grid_less[of 1 F e] one_less_power[of "2 :: int" "Suc (fraction_bits F)"] by simp

lemma round_mono_pos:
  assumes "0 < x" and "x \<le> y"
  shows "round_to F x \<le> round_to F y"
proof (cases "ulp_exp F x = ulp_exp F y")
  case True
  have "x / 2 powi ulp_exp F y \<le> y / 2 powi ulp_exp F y"
    using assms(2) by (simp add: divide_right_mono)
  with True assms show ?thesis by (simp add: round_to_def rint_mono)
next
  case False
  have mono: "ilog2 x \<le> ilog2 y" using assms by (rule ilog2_mono)
  with False assms have ux: "ilog2 x < ilog2 y" and uy: "ulp_exp F y = ilog2 y - int (fraction_bits F)"
    and lt: "ulp_exp F x < ulp_exp F y"
    by (auto simp: ulp_exp_def)
  have "x < 2 powi (ilog2 x + 1)" by (rule ilog2_bounds(2)[OF assms(1)])
  also have "\<dots> \<le> 2 powi ilog2 y" using ux by (intro power_int_increasing) auto
  finally have xk: "x \<le> of_int (2 ^ nat (ilog2 y - ulp_exp F x)) * 2 powi ulp_exp F x"
    using powi_split[of "ulp_exp F x" "ilog2 y"] uy lt by simp
  have "round_to F x \<le> 2 powi ilog2 y"
    using round_le_grid[OF xk] powi_split[of "ulp_exp F x" "ilog2 y"] uy lt by simp
  moreover have "2 powi ilog2 y \<le> round_to F y"
    using round_ge_grid[of "2 ^ fraction_bits F" F y] ilog2_bounds(1)[of y] assms
      powi_split[of "ilog2 y - int (fraction_bits F)" "ilog2 y"] by (simp add: uy)
  ultimately show ?thesis by linarith
qed

lemma round_nonneg: "0 \<le> x \<Longrightarrow> 0 \<le> round_to F x"
  using round_ge_grid[of 0 F x] by simp

lemma round_mono: "x \<le> y \<Longrightarrow> round_to F x \<le> round_to F y"
proof -
  assume le: "x \<le> y"
  consider "0 < x" | "x \<le> 0" "0 \<le> y" | "y < 0" using le by linarith
  then show ?thesis
  proof cases
    case 1 then show ?thesis using le by (rule round_mono_pos)
  next
    case 2 then show ?thesis using round_nonneg[of y F] round_nonneg[of "- x" F] by (simp add: round_minus)
  next
    case 3 then show ?thesis using le round_mono_pos[of "- y" "- x" F] by (simp add: round_minus)
  qed
qed

lemma round_form: "\<exists>m e. round_to F x = of_int m * 2 powi e \<and> \<bar>m\<bar> \<le> 2 ^ Suc (fraction_bits F) \<and> least_exp F \<le> e"
proof (cases "x = 0")
  case True
  then show ?thesis by (intro exI[of _ 0] exI[of _ "least_exp F"]) simp
next
  case False
  let ?e = "ulp_exp F x" and ?m = "rint (x / 2 powi ulp_exp F x)"
  have "\<bar>x\<bar> < 2 powi (ilog2 \<bar>x\<bar> + 1)" using False by (intro ilog2_bounds) simp
  also have "\<dots> \<le> 2 powi (?e + int (Suc (fraction_bits F)))" by (intro power_int_increasing) (auto simp: ulp_exp_def)
  also have "\<dots> = 2 ^ Suc (fraction_bits F) * 2 powi ?e" using powi_split[of ?e "?e + int (Suc (fraction_bits F))"] by (simp del: of_nat_Suc)
  finally have "\<bar>x\<bar> \<le> 2 ^ Suc (fraction_bits F) * 2 powi ?e" by simp
  then have "x / 2 powi ?e \<le> of_int (2 ^ Suc (fraction_bits F))" "of_int (- (2 ^ Suc (fraction_bits F))) \<le> x / 2 powi ?e"
    by (auto simp: pos_divide_le_eq pos_le_divide_eq)
  then have "?m \<le> 2 ^ Suc (fraction_bits F)" "- (2 ^ Suc (fraction_bits F)) \<le> ?m" by (blast intro: rint_le_int rint_ge_int)+
  then have "\<bar>?m\<bar> \<le> 2 ^ Suc (fraction_bits F)" by simp
  moreover have "round_to F x = of_int ?m * 2 powi ?e" using False by (simp add: round_to_def)
  moreover have "least_exp F \<le> ?e" by (simp add: ulp_exp_def)
  ultimately show ?thesis by blast
qed

lemma round_idem [simp]: "round_to F (round_to F x) = round_to F x"
  using round_form[of F x] round_grid_le by auto

text \<open>For \<open>float64\<close>.\<close>

lemma rnd_minus: "rnd (- x) = - rnd x"
  by (rule round_minus)

lemma rnd_mono: "x \<le> y \<Longrightarrow> rnd x \<le> rnd y"
  by (rule round_mono)

lemma rnd_grid_le: "\<bar>m\<bar> \<le> 2 ^ 53 \<Longrightarrow> - 1074 \<le> e \<Longrightarrow> rnd (of_int m * 2 powi e) = of_int m * 2 powi e"
  using round_grid_le[of m Binary64 e] by simp

lemma rnd_powi: "- 1074 \<le> e \<Longrightarrow> rnd (2 powi e) = 2 powi e"
  using round_powi[of Binary64 e] by simp

lemma rnd_form: "\<exists>m e. rnd x = of_int m * 2 powi e \<and> \<bar>m\<bar> \<le> 2 ^ 53 \<and> - 1074 \<le> e"
  using round_form[of Binary64 x] by simp

text \<open>The least positive value.\<close>

definition tiny :: rat where
  "tiny = 2 powi (- 1074)"

lemma tiny_pos [simp]: "0 < tiny"
  unfolding tiny_def by (rule powi_pos)

lemma rnd_tiny: "rnd tiny = tiny"
  unfolding tiny_def by (rule rnd_powi) simp

lemma rnd_multiple: "\<exists>n. rnd x = of_int n * tiny"
proof -
  obtain m e where f: "rnd x = of_int m * 2 powi e" and e: "- 1074 \<le> e" using rnd_form[of x] by blast
  have "rnd x = of_int (m * 2 ^ nat (e + 1074)) * tiny"
    using powi_split[OF e] unfolding tiny_def f by (simp only: of_int_mult of_int_power of_int_numeral
      diff_minus_eq_add mult.assoc)
  then show ?thesis by blast
qed

text \<open>Gradual underflow: the rounded difference of two different binary64 values is not zero.\<close>

lemma rnd_diff_zero:
  assumes "rnd x = x" and "rnd y = y" and "rnd (x - y) = 0"
  shows "x = y"
proof (rule ccontr)
  assume ne: "x \<noteq> y"
  obtain a b where ab: "x = of_int a * tiny" "y = of_int b * tiny"
    using rnd_multiple[of x] rnd_multiple[of y] assms(1,2) by metis
  have n: "1 \<le> \<bar>a - b\<bar>" using ne ab by auto
  have "\<bar>x - y\<bar> = of_int \<bar>a - b\<bar> * tiny"
    by (simp add: ab abs_mult abs_of_pos flip: left_diff_distrib)
  then have "tiny \<le> \<bar>x - y\<bar>" using n by (simp flip: of_int_diff of_int_abs)
  then have "tiny \<le> rnd \<bar>x - y\<bar>" using rnd_mono rnd_tiny by fastforce
  moreover have "rnd \<bar>x - y\<bar> = 0" using assms(3) rnd_minus[of "x - y"] by (simp add: abs_if)
  ultimately show False using tiny_pos by linarith
qed

text \<open>
  The laws of the rounding that the other theories use.  They hold of any rounding to a set of
  values that contains zero and is symmetric.
\<close>

locale rounding =
  fixes r :: "rat \<Rightarrow> rat"
  assumes mono: "x \<le> y \<Longrightarrow> r x \<le> r y"
    and idem: "r (r x) = r x"
    and odd: "r (- x) = - r x"
begin

lemma zero: "r 0 = 0"
  using odd[of 0] by simp

lemma nonneg: "0 \<le> x \<Longrightarrow> 0 \<le> r x"
  using mono[of 0 x] by (simp add: zero)

lemma upper: "x \<le> b \<Longrightarrow> r b = b \<Longrightarrow> r x \<le> b"
  using mono[of x b] by simp

lemma lower: "a \<le> x \<Longrightarrow> r a = a \<Longrightarrow> a \<le> r x"
  using mono[of a x] by simp

lemma absolute: "\<bar>x\<bar> \<le> b \<Longrightarrow> r b = b \<Longrightarrow> \<bar>r x\<bar> \<le> b"
  using upper[of x b] lower[of "- b" x] odd[of b] by (simp add: abs_le_iff)

end

interpretation ieee: rounding rnd
  by unfold_locales (auto simp: rnd_mono rnd_minus)

section \<open>Values\<close>

text \<open>
  \<open>Inf True\<close> is minus infinity.  The two zeros are one value: no operation the modelled code
  uses tells them apart (it never divides by a zero, and calls neither \<open>Signbit\<close> nor
  \<open>Copysign\<close>).
\<close>

datatype f64 = NaN | Inf bool | Fin rat

text \<open>The binary64 value nearest to an exact result, ties to even.\<close>

definition fl :: "rat \<Rightarrow> f64" where
  fl_code: "fl x = (let v = rnd x in if v \<noteq> 0 \<and> 1024 \<le> ilog2 \<bar>v\<bar> then Inf (v < 0) else Fin v)"

lemma ilog2_ge: "0 < x \<Longrightarrow> k \<le> ilog2 x \<longleftrightarrow> 2 powi k \<le> x"
  using ilog2_bounds[of x] by (meson less_le_trans linorder_not_le order_trans powi_le_iff powi_less_iff
    zle_add1_eq_le)

lemma fl_def: "fl x = (let v = rnd x in if 2 ^ 1024 \<le> \<bar>v\<bar> then Inf (v < 0) else Fin v)"
proof -
  have "rnd x \<noteq> 0 \<and> 1024 \<le> ilog2 \<bar>rnd x\<bar> \<longleftrightarrow> 2 ^ 1024 \<le> \<bar>rnd x\<bar>"
    using ilog2_ge[of "\<bar>rnd x\<bar>" 1024] by (auto simp: power_int_def)
  then show ?thesis by (simp only: fl_code Let_def)
qed

fun is_f64 :: "f64 \<Rightarrow> bool" where
  "is_f64 (Fin x) = (rnd x = x \<and> \<bar>x\<bar> < 2 ^ 1024)"
| "is_f64 _ = True"

fun finite_f64 :: "f64 \<Rightarrow> bool" where
  "finite_f64 (Fin x) = True"
| "finite_f64 _ = False"

fun IsNaN :: "f64 \<Rightarrow> bool" where
  "IsNaN NaN = True"
| "IsNaN _ = False"

text \<open>\<open>math.IsInf(x, 0)\<close>\<close>

fun IsInf :: "f64 \<Rightarrow> bool" where
  "IsInf (Inf s) = True"
| "IsInf _ = False"

fun val :: "f64 \<Rightarrow> rat" where
  "val (Fin x) = x"
| "val _ = 0"

lemma is_f64_fl [simp]: "is_f64 (fl x)"
  by (auto simp: fl_def Let_def)

lemma fl_rep: "is_f64 (Fin x) \<Longrightarrow> fl x = Fin x"
  by (simp add: fl_def)

lemma fl_0 [simp]: "fl 0 = Fin 0"
  by (simp add: fl_def)

lemma fl_not_NaN [simp]: "fl x \<noteq> NaN" "NaN \<noteq> fl x"
  by (auto simp: fl_def Let_def)

lemma IsNaN_iff: "IsNaN x \<longleftrightarrow> x = NaN"
  by (cases x) auto

lemma IsInf_iff: "IsInf x \<longleftrightarrow> (\<exists>s. x = Inf s)"
  by (cases x) auto

lemma not_NaN_Inf: "\<not> IsNaN x \<Longrightarrow> \<not> IsInf x \<Longrightarrow> x = Fin (val x)"
  by (cases x) auto

lemma rnd_int: "\<bar>n\<bar> \<le> 2 ^ 53 \<Longrightarrow> rnd (of_int n) = of_int n"
  using rnd_grid_le[of n 0] by simp

lemma fl_int: "\<bar>n\<bar> \<le> 2 ^ 53 \<Longrightarrow> fl (of_int n) = Fin (of_int n)"
proof -
  assume n: "\<bar>n\<bar> \<le> 2 ^ 53"
  then have "\<bar>of_int n :: rat\<bar> \<le> 2 ^ 53" by (metis of_int_abs of_int_le_iff of_int_numeral of_int_power)
  then have "\<bar>of_int n :: rat\<bar> < 2 ^ 1024" by simp
  with n show ?thesis by (intro fl_rep) (simp add: rnd_int)
qed

lemma fl_numeral [simp]: "numeral k \<le> (2 ^ 53 :: int) \<Longrightarrow> fl (numeral k) = Fin (numeral k)"
  using fl_int[of "numeral k"] by simp

lemma fl_neg_numeral [simp]: "numeral k \<le> (2 ^ 53 :: int) \<Longrightarrow> fl (- numeral k) = Fin (- numeral k)"
  using fl_int[of "- numeral k"] by simp

lemma rnd_numeral [simp]: "numeral k \<le> (2 ^ 53 :: int) \<Longrightarrow> rnd (numeral k) = numeral k"
  using rnd_int[of "numeral k"] by simp

lemma rnd_1 [simp]: "rnd 1 = 1"
  using rnd_int[of 1] by simp

lemma fl_1 [simp]: "fl 1 = Fin 1" "fl (- 1) = Fin (- 1)"
  using fl_int[of 1] fl_int[of "- 1"] by simp_all

section \<open>Operations\<close>

instantiation f64 :: "{zero, one, uminus, abs, plus, minus, times, inverse, ord}"
begin

definition zero_f64 :: f64 where "0 = Fin 0"
definition one_f64 :: f64 where "1 = Fin 1"

fun uminus_f64 :: "f64 \<Rightarrow> f64" where
  "- NaN = NaN"
| "- Inf s = Inf (\<not> s)"
| "- Fin x = Fin (- x)"

text \<open>\<open>math.Abs\<close>\<close>

fun abs_f64 :: "f64 \<Rightarrow> f64" where
  "\<bar>NaN\<bar> = NaN"
| "\<bar>Inf s\<bar> = Inf False"
| "\<bar>Fin x\<bar> = Fin \<bar>x\<bar>"

fun plus_f64 :: "f64 \<Rightarrow> f64 \<Rightarrow> f64" where
  "Fin x + Fin y = fl (x + y)"
| "Inf s + Inf t = (if s = t then Inf s else NaN)"
| "Inf s + Fin y = Inf s"
| "Fin x + Inf t = Inf t"
| "NaN + _ = NaN"
| "_ + NaN = NaN"

definition minus_f64 :: "f64 \<Rightarrow> f64 \<Rightarrow> f64" where
  "x - y = x + (- y :: f64)"

fun times_f64 :: "f64 \<Rightarrow> f64 \<Rightarrow> f64" where
  "Fin x * Fin y = fl (x * y)"
| "Inf s * Inf t = Inf (s \<noteq> t)"
| "Inf s * Fin y = (if y = 0 then NaN else Inf (s \<noteq> (y < 0)))"
| "Fin x * Inf t = (if x = 0 then NaN else Inf ((x < 0) \<noteq> t))"
| "NaN * _ = NaN"
| "_ * NaN = NaN"

fun divide_f64 :: "f64 \<Rightarrow> f64 \<Rightarrow> f64" where
  "divide (Fin x) (Fin y) =
     (if y = 0 then (if x = 0 then NaN else Inf (x < 0)) else fl (x / y))"
| "divide (Inf s) (Inf t) = NaN"
| "divide (Inf s) (Fin y) = Inf (s \<noteq> (y < 0))"
| "divide (Fin x) (Inf t) = Fin 0"
| "divide NaN _ = NaN"
| "divide _ NaN = NaN"

definition inverse_f64 :: "f64 \<Rightarrow> f64" where
  "inverse x = divide (1 :: f64) x"

fun less_f64 :: "f64 \<Rightarrow> f64 \<Rightarrow> bool" where
  "Fin x < Fin y = (x < y)"
| "Inf s < Inf t = (s \<and> \<not> t)"
| "Inf s < Fin y = s"
| "Fin x < Inf t = (\<not> t)"
| "NaN < _ = False"
| "_ < NaN = False"

fun less_eq_f64 :: "f64 \<Rightarrow> f64 \<Rightarrow> bool" where
  "Fin x \<le> Fin y = (x \<le> y)"
| "Inf s \<le> Inf t = (s \<or> \<not> t)"
| "Inf s \<le> Fin y = s"
| "Fin x \<le> Inf t = (\<not> t)"
| "NaN \<le> _ = False"
| "_ \<le> NaN = False"

instance ..

end

text \<open>Go's \<open>==\<close>: a NaN is not equal to itself.\<close>

definition feq :: "f64 \<Rightarrow> f64 \<Rightarrow> bool" where
  "feq x y \<longleftrightarrow> x \<noteq> NaN \<and> x = y"

text \<open>\<open>math.Max\<close> and \<open>math.Min\<close>, with the order of their special cases.\<close>

definition math_Max :: "f64 \<Rightarrow> f64 \<Rightarrow> f64" where
  "math_Max x y = (if x = Inf False \<or> y = Inf False then Inf False
     else if IsNaN x \<or> IsNaN y then NaN
     else if y < x then x else y)"

definition math_Min :: "f64 \<Rightarrow> f64 \<Rightarrow> f64" where
  "math_Min x y = (if x = Inf True \<or> y = Inf True then Inf True
     else if IsNaN x \<or> IsNaN y then NaN
     else if x < y then x else y)"

text \<open>\<open>math.Round\<close>: the nearest integer, halves away from zero; always exact.\<close>

fun math_Round :: "f64 \<Rightarrow> f64" where
  "math_Round (Fin x) = Fin (of_int (if 0 \<le> x then \<lfloor>x + 1 / 2\<rfloor> else - \<lfloor>1 / 2 - x\<rfloor>))"
| "math_Round x = x"

text \<open>\<open>math.Mod\<close>: the remainder with the sign of the dividend; always exact.\<close>

fun math_Mod :: "f64 \<Rightarrow> f64 \<Rightarrow> f64" where
  "math_Mod (Fin x) (Fin y) =
     (if y = 0 then NaN
      else let r = \<bar>x\<bar> - \<bar>y\<bar> * of_int \<lfloor>\<bar>x\<bar> / \<bar>y\<bar>\<rfloor> in Fin (if x < 0 then - r else r))"
| "math_Mod (Fin x) (Inf s) = Fin x"
| "math_Mod _ _ = NaN"

text \<open>The integer square root, one bit at a time.\<close>

function isqrt :: "int \<Rightarrow> int" where
  "isqrt n = (if n \<le> 0 then 0
     else let r = 2 * isqrt (n div 4) in if (r + 1) * (r + 1) \<le> n then r + 1 else r)"
  by pat_completeness auto
termination
  by (relation "measure nat") auto

declare isqrt.simps [simp del]

text \<open>
  \<open>math.Sqrt\<close> is correctly rounded.  With \<open>e\<close> the exponent of the last kept digit of the root,
  the scaled argument \<open>y\<close> has an integer root \<open>s\<close> of 53 digits, and the root is nearer to
  \<open>s + 1\<close> exactly when \<open>y\<close> exceeds the square of \<open>s + 1/2\<close>.
\<close>

fun math_Sqrt :: "f64 \<Rightarrow> f64" where
  "math_Sqrt (Fin x) = (if x = 0 then Fin 0 else if x < 0 then NaN
     else let e = ilog2 x div 2 - 52;
              y = x / 4 powi e;
              s = isqrt \<lfloor>y\<rfloor>;
              h = of_int (s * s + s) + 1 / 4;
              m = (if h < y then s + 1 else if y < h then s else if even s then s else s + 1)
          in Fin (of_int m * 2 powi e))"
| "math_Sqrt (Inf s) = (if s then NaN else Inf False)"
| "math_Sqrt NaN = NaN"

text \<open>\<open>math.Hypot\<close>\<close>

definition math_Hypot :: "f64 \<Rightarrow> f64 \<Rightarrow> f64" where
  "math_Hypot p q = (if IsInf p \<or> IsInf q then Inf False
     else if IsNaN p \<or> IsNaN q then NaN
     else let p' = \<bar>p\<bar>; q' = \<bar>q\<bar>; (a, b) = (if p' < q' then (q', p') else (p', q'))
          in if a = Fin 0 then Fin 0
             else let t = b / a in a * math_Sqrt (1 + t * t))"

text \<open>Conversions: an integer to the nearest value, a value to an integer by truncation.
  A truncated value out of the range of \<open>int\<close> gives the least \<open>int\<close>, as on amd64.\<close>

definition f64_of_int :: "int \<Rightarrow> f64" where
  "f64_of_int n = fl (of_int n)"

fun int_of_f64 :: "f64 \<Rightarrow> int" where
  "int_of_f64 (Fin x) = (let n = (if 0 \<le> x then \<lfloor>x\<rfloor> else - \<lfloor>- x\<rfloor>)
     in if - (2 ^ 63) \<le> n \<and> n < 2 ^ 63 then n else - (2 ^ 63))"
| "int_of_f64 _ = - (2 ^ 63)"

section \<open>Laws of the operations\<close>

lemma zero_f64_Fin: "(0 :: f64) = Fin 0"
  by (simp add: zero_f64_def)

lemma one_f64_Fin: "(1 :: f64) = Fin 1"
  by (simp add: one_f64_def)

lemma minus_f64_Fin [simp]: "Fin x - Fin y = fl (x - y)"
  by (simp add: minus_f64_def)

lemma fl_Fin_val: "finite_f64 (fl x) \<Longrightarrow> fl x = Fin (rnd x)"
  by (auto simp: fl_def Let_def split: if_splits)

lemma fl_eq_Fin: "fl x = Fin y \<Longrightarrow> y = rnd x"
  by (auto simp: fl_def Let_def split: if_splits)

lemma fl_finite_between:
  assumes "is_f64 (Fin a)" and "is_f64 (Fin b)" and "a \<le> x" and "x \<le> b"
  shows "fl x = Fin (rnd x) \<and> a \<le> rnd x \<and> rnd x \<le> b"
proof -
  have "a \<le> rnd x" "rnd x \<le> b" using assms ieee.lower ieee.upper by auto
  moreover have "\<bar>a\<bar> < 2 ^ 1024" "\<bar>b\<bar> < 2 ^ 1024" using assms(1,2) by auto
  ultimately have "\<bar>rnd x\<bar> < 2 ^ 1024" by (auto simp: abs_less_iff simp del: power_numeral)
  then show ?thesis using \<open>a \<le> rnd x\<close> \<open>rnd x \<le> b\<close> by (simp add: fl_def)
qed

lemma is_f64_uminus [simp]: "is_f64 x \<Longrightarrow> is_f64 (- x)"
  by (cases x) (auto simp: rnd_minus)

lemma is_f64_abs [simp]: "is_f64 x \<Longrightarrow> is_f64 \<bar>x\<bar>"
  by (cases x) (auto simp: rnd_minus abs_if)

lemma is_f64_plus [simp]: "is_f64 (x + y)"
  by (cases x; cases y) auto

lemma is_f64_minus [simp]: "is_f64 (x - y)"
  by (simp add: minus_f64_def)

lemma is_f64_times [simp]: "is_f64 (x * y)"
  by (cases x; cases y) auto

lemma is_f64_divide [simp]: "is_f64 (x / y)"
  by (cases x; cases y) auto

lemma is_f64_Max [simp]: "is_f64 x \<Longrightarrow> is_f64 y \<Longrightarrow> is_f64 (math_Max x y)"
  by (simp add: math_Max_def)

lemma is_f64_Min [simp]: "is_f64 x \<Longrightarrow> is_f64 y \<Longrightarrow> is_f64 (math_Min x y)"
  by (simp add: math_Min_def)

lemma math_Max_Fin [simp]: "math_Max (Fin x) (Fin y) = Fin (max x y)"
  by (auto simp: math_Max_def)

lemma math_Min_Fin [simp]: "math_Min (Fin x) (Fin y) = Fin (min x y)"
  by (auto simp: math_Min_def)

text \<open>Clamping a value that is not a NaN into a finite interval.\<close>

lemma clamp_f64:
  assumes "x \<noteq> NaN" and "lo \<le> hi"
  shows "\<exists>v. math_Max (Fin lo) (math_Min (Fin hi) x) = Fin v \<and> lo \<le> v \<and> v \<le> hi"
  using assms by (cases x) (auto simp: math_Max_def math_Min_def)

lemma not_NaN_plus_Fin: "x \<noteq> NaN \<Longrightarrow> Fin a + x \<noteq> NaN"
  by (cases x) auto

lemma not_NaN_times_pos: "x \<noteq> NaN \<Longrightarrow> a \<noteq> 0 \<Longrightarrow> x * Fin a \<noteq> NaN"
  by (cases x) auto

lemma isqrt_bounds: "0 \<le> n \<Longrightarrow> 0 \<le> isqrt n \<and> isqrt n * isqrt n \<le> n \<and> n < (isqrt n + 1) * (isqrt n + 1)"
proof (induction n rule: isqrt.induct)
  case (1 n)
  show ?case
  proof (cases "n = 0")
    case True
    then show ?thesis by (simp add: isqrt.simps)
  next
    case False
    let ?h = "isqrt (n div 4)"
    have IH: "0 \<le> ?h" "?h * ?h \<le> n div 4" "n div 4 < (?h + 1) * (?h + 1)" using "1" False by auto
    have lo: "4 * (?h * ?h) \<le> n" using IH(2) by linarith
    have "n div 4 + 1 \<le> (?h + 1) * (?h + 1)" using IH(3) by linarith
    then have hi: "n < 4 * ((?h + 1) * (?h + 1))" by linarith
    show ?thesis using lo hi False IH(1) "1.prems" isqrt.simps[of n] by (auto simp: Let_def algebra_simps)
  qed
qed

lemma isqrt_ge: "0 \<le> k \<Longrightarrow> k * k \<le> n \<Longrightarrow> k \<le> isqrt n"
proof (rule ccontr)
  assume k: "0 \<le> k" "k * k \<le> n" and "\<not> k \<le> isqrt n"
  have n: "0 \<le> n" using k by (meson mult_nonneg_nonneg order_trans)
  have "(isqrt n + 1) * (isqrt n + 1) \<le> k * k"
    using isqrt_bounds[OF n] \<open>\<not> k \<le> isqrt n\<close> by (intro mult_mono) auto
  with k isqrt_bounds[OF n] show False by linarith
qed

lemma math_Sqrt_ge_1:
  assumes "1 \<le> v" and "v < 4"
  shows "\<exists>w. math_Sqrt (Fin v) = Fin w \<and> 1 \<le> w"
proof -
  have "ilog2 v = 0 \<or> ilog2 v = 1"
    using assms ilog2_unique[of 0 v] ilog2_unique[of 1 v] by (cases "v < 2") auto
  then have e: "ilog2 v div 2 - 52 = - 52" by auto
  let ?y = "v / 4 powi (- 52)"
  let ?s = "isqrt \<lfloor>?y\<rfloor>"
  have "of_int (4 ^ 52) \<le> ?y" using assms(1) by simp
  then have "4 ^ 52 \<le> \<lfloor>?y\<rfloor>" by (simp only: le_floor_iff)
  then have s: "2 ^ 52 \<le> ?s" by (intro isqrt_ge) simp_all
  define h where "h = (of_int (?s * ?s + ?s) + 1 / 4 :: rat)"
  define m where "m = (if h < ?y then ?s + 1 else if ?y < h then ?s else if even ?s then ?s else ?s + 1)"
  have m: "2 ^ 52 \<le> m" using s by (simp add: m_def)
  have eq: "math_Sqrt (Fin v) = Fin (of_int m * 2 powi (- 52))"
    using assms(1) unfolding m_def h_def by (simp add: e Let_def)
  have "(2 ^ 52 :: rat) \<le> of_int m" using m by (metis of_int_le_iff of_int_numeral of_int_power)
  then have "1 \<le> of_int m * (2 powi (- 52) :: rat)" by simp
  with eq show ?thesis by blast
qed

lemma hypot_ordered:
  assumes "0 \<le> b" and "b \<le> a" and "0 < a" and "is_f64 (Fin a)"
  shows "\<exists>w. math_Sqrt (1 + Fin b / Fin a * (Fin b / Fin a)) = Fin w \<and> 1 \<le> w"
proof -
  have one: "is_f64 (Fin 1)" "is_f64 (Fin 0)" "is_f64 (Fin 2)" using rnd_int[of 1] rnd_int[of 2] by auto
  have "0 \<le> b / a" "b / a \<le> 1" using assms by auto
  then obtain t where t: "fl (b / a) = Fin t" "0 \<le> t" "t \<le> 1"
    using fl_finite_between[OF one(2,1)] by blast
  then have "0 \<le> t * t" "t * t \<le> 1" by (auto simp: mult_le_one)
  then obtain q where q: "fl (t * t) = Fin q" "0 \<le> q" "q \<le> 1"
    using fl_finite_between[OF one(2,1)] by blast
  then obtain v where v: "fl (1 + q) = Fin v" "1 \<le> v" "v \<le> 2"
    using fl_finite_between[OF one(1,3), of "1 + q"] by auto
  then show ?thesis using t q math_Sqrt_ge_1[of v] assms(3) by (simp add: one_f64_Fin)
qed

lemma fl_mult_ge:
  assumes "0 < a" and "1 \<le> w" and "is_f64 (Fin a)"
  shows "fl (a * w) = Inf False \<or> (\<exists>h. fl (a * w) = Fin h \<and> a \<le> h)"
proof -
  have "a \<le> a * w" using assms by simp
  then have "a \<le> rnd (a * w)" using assms(3) ieee.lower by simp
  then show ?thesis using assms(1) by (auto simp: fl_def Let_def)
qed

text \<open>The length of a vector is at least each component, whatever the rounding does.\<close>

lemma math_Hypot_ge:
  assumes "is_f64 (Fin a)" and "is_f64 (Fin b)"
  shows "math_Hypot (Fin a) (Fin b) = Inf False \<or>
    (\<exists>h. math_Hypot (Fin a) (Fin b) = Fin h \<and> \<bar>a\<bar> \<le> h \<and> \<bar>b\<bar> \<le> h)"
proof -
  have r: "is_f64 (Fin \<bar>a\<bar>)" "is_f64 (Fin \<bar>b\<bar>)" using assms by (auto simp: abs_if rnd_minus)
  consider "a = 0" "b = 0" | "\<bar>b\<bar> \<le> \<bar>a\<bar>" "0 < \<bar>a\<bar>" | "\<bar>a\<bar> < \<bar>b\<bar>" "0 < \<bar>b\<bar>" by linarith
  then show ?thesis
  proof cases
    case 1
    then show ?thesis by (simp add: math_Hypot_def)
  next
    case 2
    then obtain w where w: "math_Sqrt (1 + Fin \<bar>b\<bar> / Fin \<bar>a\<bar> * (Fin \<bar>b\<bar> / Fin \<bar>a\<bar>)) = Fin w" "1 \<le> w"
      using hypot_ordered[of "\<bar>b\<bar>" "\<bar>a\<bar>"] r by auto
    have "math_Hypot (Fin a) (Fin b) = fl (\<bar>a\<bar> * w)"
      using 2 w(1) by (simp add: math_Hypot_def Let_def del: divide_f64.simps)
    with 2 fl_mult_ge[OF 2(2) w(2) r(1)] show ?thesis by auto
  next
    case 3
    then obtain w where w: "math_Sqrt (1 + Fin \<bar>a\<bar> / Fin \<bar>b\<bar> * (Fin \<bar>a\<bar> / Fin \<bar>b\<bar>)) = Fin w" "1 \<le> w"
      using hypot_ordered[of "\<bar>a\<bar>" "\<bar>b\<bar>"] r by auto
    have "math_Hypot (Fin a) (Fin b) = fl (\<bar>b\<bar> * w)"
      using 3 w(1) by (simp add: math_Hypot_def Let_def del: divide_f64.simps)
    with 3 fl_mult_ge[OF 3(2) w(2) r(2)] show ?thesis by auto
  qed
qed

text \<open>Dividing by something at least as large gives a value in the unit interval.\<close>

lemma divide_unit:
  assumes "\<bar>a\<bar> \<le> h" and "0 < h"
  shows "\<exists>v. Fin a / Fin h = Fin v \<and> \<bar>v\<bar> \<le> 1"
proof -
  have "- 1 \<le> a / h" "a / h \<le> 1"
    using assms by (auto simp: abs_le_iff pos_le_divide_eq pos_divide_le_eq)
  then show ?thesis
    using fl_finite_between[of "- 1" 1 "a / h"] rnd_int[of 1] rnd_int[of "- 1"] assms(2)
    by (auto simp: abs_le_iff)
qed
end
