(* ===== verification/Entity.thy ===== *)
theory Entity
  imports Float64
begin

text \<open>
  The values of the simulation: package \<open>entity\<close> (vectors, combat statistics, players, monsters,
  projectiles), package \<open>systems\<close> (directions, the fixed movement step, damage, the swept
  circle test) and package \<open>stage\<close> (stage plans and their validation).
\<close>

section \<open>Package entity\<close>

type_synonym entity_id = u64

record Vec2 =
  X :: f64
  Y :: f64

abbreviation vec2 :: "f64 \<Rightarrow> f64 \<Rightarrow> Vec2" where
  "vec2 x y \<equiv> \<lparr>X = x, Y = y\<rparr>"

definition zero_vec :: Vec2 where
  "zero_vec = \<lparr>X = Fin 0, Y = Fin 0\<rparr>"

definition Vec2_Finite :: "Vec2 \<Rightarrow> bool" where
  "Vec2_Finite v \<longleftrightarrow> \<not> IsNaN (X v) \<and> \<not> IsNaN (Y v) \<and> \<not> IsInf (X v) \<and> \<not> IsInf (Y v)"

record CombatStats =
  cs_Attack :: f64
  cs_Defense :: f64
  cs_MaxHealth :: f64
  cs_MoveSpeed :: f64
  cs_AttackCooldownTicks :: u32

definition zero_stats :: CombatStats where
  "zero_stats = \<lparr>cs_Attack = Fin 0, cs_Defense = Fin 0, cs_MaxHealth = Fin 0, cs_MoveSpeed = Fin 0,
     cs_AttackCooldownTicks = 0\<rparr>"

definition CombatStats_Valid :: "CombatStats \<Rightarrow> bool" where
  "CombatStats_Valid s \<longleftrightarrow>
     list_all (\<lambda>v. \<not> (IsNaN v \<or> IsInf v \<or> v < Fin 0 \<or> Fin 1000000 < v))
       [cs_Attack s, cs_Defense s, cs_MaxHealth s, cs_MoveSpeed s] \<and>
     Fin 0 < cs_MaxHealth s \<and> 0 < cs_AttackCooldownTicks s"

record EquipmentState =
  eq_WeaponID :: u32
  eq_RelicID :: u32
  eq_PotionID :: u32

definition zero_equipment :: EquipmentState where
  "zero_equipment = \<lparr>eq_WeaponID = 0, eq_RelicID = 0, eq_PotionID = 0\<rparr>"

record Player =
  p_ID :: entity_id
  p_Position :: Vec2
  p_Velocity :: Vec2
  p_LastProcessedInputSeq :: u32
  p_BaseStats :: CombatStats
  p_CurrentStats :: CombatStats
  p_Health :: f64
  p_Alive :: bool
  p_Aim :: Vec2
  p_Equipment :: EquipmentState
  p_Ammo :: u32
  p_MagazineCapacity :: u32
  p_ReloadTicksRemaining :: u32
  p_ReloadDurationTicks :: u32

datatype MonsterState = MonsterIdle | MonsterChase | MonsterAttack | MonsterDead

record Monster =
  m_ID :: entity_id
  m_Position :: Vec2
  m_Velocity :: Vec2
  m_BaseStats :: CombatStats
  m_CurrentStats :: CombatStats
  m_Health :: f64
  m_Radius :: f64
  m_AttackRange :: f64
  m_State :: MonsterState

record Projectile =
  pr_ID :: entity_id
  pr_OwnerID :: entity_id
  pr_Position :: Vec2
  pr_Velocity :: Vec2
  pr_Attack :: f64
  pr_Radius :: f64
  pr_ExpiresAtTick :: u64

section \<open>Package systems: movement\<close>

definition UnitDirection :: "Vec2 \<Rightarrow> Vec2" where
  "UnitDirection v =
     (let scale = math_Max \<bar>X v\<bar> \<bar>Y v\<bar> in
      if feq scale (Fin 0) then zero_vec
      else let x = X v / scale; y = Y v / scale; length = math_Hypot x y
           in vec2 (x / length) (y / length))"

definition NormalizeDirection :: "Vec2 \<Rightarrow> Vec2" where
  "NormalizeDirection v =
     (let scale = math_Max \<bar>X v\<bar> \<bar>Y v\<bar>;
          v' = (if Fin 1 < scale then vec2 (X v / scale) (Y v / scale) else v);
          length = math_Hypot (X v') (Y v')
      in if Fin 1 < length then vec2 (X v' / length) (Y v' / length) else v')"

text \<open>One fixed step.  The velocity is the displacement that the map bounds left over.\<close>

definition Move :: "Player \<Rightarrow> Vec2 \<Rightarrow> f64 \<Rightarrow> f64 \<Rightarrow> Vec2 \<Rightarrow> Vec2 \<Rightarrow> Player" where
  "Move p direction speed dt mn mx =
     (let previous = p_Position p;
          x = math_Max (X mn) (math_Min (X mx) (X previous + X direction * speed * dt));
          y = math_Max (Y mn) (math_Min (Y mx) (Y previous + Y direction * speed * dt))
      in p\<lparr>p_Position := vec2 x y,
           p_Velocity := vec2 ((x - X previous) / dt) ((y - Y previous) / dt)\<rparr>)"

section \<open>Package systems: combat\<close>

record DamageRequest =
  dr_SourceID :: entity_id
  dr_TargetID :: entity_id
  dr_Attack :: f64
  dr_TargetPlayer :: bool

record DamageResolved =
  d_Amount :: f64
  d_RemainingHealth :: f64
  d_Killed :: bool

datatype combat_error = InvalidCombatValue

definition ResolveDamage :: "f64 \<Rightarrow> f64 \<Rightarrow> f64 \<Rightarrow> combat_error + DamageResolved" where
  "ResolveDamage attack defense health =
     (if list_ex (\<lambda>v. IsNaN v \<or> IsInf v \<or> v < Fin 0) [attack, defense, health]
      then Inl InvalidCombatValue
      else let amount = math_Min health (attack / (Fin 1 + defense / Fin 100))
           in Inr \<lparr>d_Amount = amount, d_RemainingHealth = health - amount,
                   d_Killed = (Fin 0 < health \<and> health \<le> amount)\<rparr>)"

text \<open>The first contact of a swept projectile with a circle, as a fraction of the segment.\<close>

definition SegmentCircle :: "Vec2 \<Rightarrow> Vec2 \<Rightarrow> Vec2 \<Rightarrow> f64 \<Rightarrow> f64 \<times> bool" where
  "SegmentCircle from to center radius =
     (let dx = X to - X from; dy = Y to - Y from;
          fx = X from - X center; fy = Y from - Y center;
          c = fx * fx + fy * fy - radius * radius
      in if c \<le> Fin 0 then (Fin 0, True)
         else let a = dx * dx + dy * dy
           in if feq a (Fin 0) then (Fin 0, False)
              else let b = fx * dx + fy * dy; discriminant = b * b - a * c
                in if discriminant < Fin 0 then (Fin 0, False)
                   else let t = (- b - math_Sqrt discriminant) / a
                     in (t, Fin 0 \<le> t \<and> t \<le> Fin 1))"

section \<open>Package stage\<close>

datatype StageState = Waiting | Playing | StageClear | Reward | PreparingNextStage | Failed | Closed

record Spawn =
  sp_Position :: Vec2
  sp_Stats :: CombatStats
  sp_Radius :: f64
  sp_AttackRange :: f64

record Plan =
  pl_Index :: u32
  pl_Seed :: i64
  pl_DifficultyScore :: f64
  pl_Monsters :: "Spawn list"
  pl_DifficultyAdjustment :: f64
  pl_PreviousClearSeconds :: f64
  pl_PreviousTeamHPPercent :: f64

definition zero_plan :: Plan where
  "zero_plan = \<lparr>pl_Index = 0, pl_Seed = 0, pl_DifficultyScore = Fin 0, pl_Monsters = [],
     pl_DifficultyAdjustment = Fin 0, pl_PreviousClearSeconds = Fin 0, pl_PreviousTeamHPPercent = Fin 0\<rparr>"

datatype plan_error = InvalidStagePlan | InvalidMonsterSpawn

definition spawn_invalid :: "Vec2 \<Rightarrow> Vec2 \<Rightarrow> Spawn \<Rightarrow> bool" where
  "spawn_invalid mn mx m \<longleftrightarrow>
     \<not> Vec2_Finite (sp_Position m) \<or> \<not> CombatStats_Valid (sp_Stats m) \<or>
     X (sp_Position m) < X mn \<or> X mx < X (sp_Position m) \<or>
     Y (sp_Position m) < Y mn \<or> Y mx < Y (sp_Position m) \<or>
     IsNaN (sp_Radius m) \<or> IsInf (sp_Radius m) \<or> sp_Radius m \<le> Fin 0 \<or> Fin 10 < sp_Radius m \<or>
     IsNaN (sp_AttackRange m) \<or> IsInf (sp_AttackRange m) \<or> sp_AttackRange m < Fin 0 \<or>
     Fin 100 < sp_AttackRange m"

definition Plan_Validate :: "Plan \<Rightarrow> Vec2 \<Rightarrow> Vec2 \<Rightarrow> int \<Rightarrow> plan_error + unit" where
  "Plan_Validate p mn mx maxMonsters =
     (if pl_Index p = 0 \<or> pl_Monsters p = [] \<or> maxMonsters < int (length (pl_Monsters p)) \<or>
         IsNaN (pl_DifficultyScore p) \<or> IsInf (pl_DifficultyScore p) \<or> pl_DifficultyScore p \<le> Fin 0
      then Inl InvalidStagePlan
      else if list_ex (spawn_invalid mn mx) (pl_Monsters p) then Inl InvalidMonsterSpawn
      else Inr ())"

record StageView =
  v_Index :: u32
  v_Seed :: i64
  v_State :: StageState
  v_MonstersRemaining :: int
  v_StageLimit :: u32
  v_DifficultyScore :: f64
  v_DifficultyAdjustment :: f64
  v_PreviousClearSeconds :: f64
  v_PreviousTeamHPPercent :: f64

definition zero_view :: StageView where
  "zero_view = \<lparr>v_Index = 0, v_Seed = 0, v_State = Waiting, v_MonstersRemaining = 0, v_StageLimit = 0,
     v_DifficultyScore = Fin 0, v_DifficultyAdjustment = Fin 0, v_PreviousClearSeconds = Fin 0,
     v_PreviousTeamHPPercent = Fin 0\<rparr>"

section \<open>What the operations keep\<close>

definition vec_ok :: "Vec2 \<Rightarrow> bool" where
  "vec_ok v \<longleftrightarrow> Vec2_Finite v \<and> is_f64 (X v) \<and> is_f64 (Y v)"

definition in_bounds :: "Vec2 \<Rightarrow> Vec2 \<Rightarrow> Vec2 \<Rightarrow> bool" where
  "in_bounds mn mx v \<longleftrightarrow> X mn \<le> X v \<and> X v \<le> X mx \<and> Y mn \<le> Y v \<and> Y v \<le> Y mx"

definition unit_box :: "Vec2 \<Rightarrow> bool" where
  "unit_box v \<longleftrightarrow> Fin (- 1) \<le> X v \<and> X v \<le> Fin 1 \<and> Fin (- 1) \<le> Y v \<and> Y v \<le> Fin 1"

lemma Vec2_Finite_iff: "Vec2_Finite v \<longleftrightarrow> (\<exists>x y. v = vec2 (Fin x) (Fin y))"
  unfolding Vec2_Finite_def by (cases v, cases "X v"; cases "Y v") auto

lemma Fin_le: "Fin a \<le> x \<Longrightarrow> x \<le> Fin b \<Longrightarrow> \<exists>v. x = Fin v \<and> a \<le> v \<and> v \<le> b"
  by (cases x) auto

lemma Fin_le_iff: "Fin a \<le> x \<and> x \<le> Fin b \<longleftrightarrow> (\<exists>v. x = Fin v \<and> a \<le> v \<and> v \<le> b)"
  by (cases x) auto

subsection \<open>Damage\<close>

lemma damage_amount:
  assumes "0 \<le> a" and "0 \<le> d" and "is_f64 (Fin d)"
  shows "\<exists>q. Fin a / (Fin 1 + Fin d / Fin 100) = Fin q \<and> 0 \<le> q \<or>
    Fin a / (Fin 1 + Fin d / Fin 100) = Inf False"
proof -
  have r: "rnd (d / 100) \<le> d" "0 \<le> rnd (d / 100)"
    using assms ieee.upper[of "d / 100" d] ieee.nonneg[of "d / 100"] by auto
  have e: "Fin d / Fin 100 = Fin (rnd (d / 100))"
    using fl_finite_between[of 0 d "d / 100"] assms by simp
  have one: "Fin 1 + Fin (rnd (d / 100)) = Inf False \<or>
    (\<exists>h. Fin 1 + Fin (rnd (d / 100)) = Fin h \<and> 1 \<le> h)"
  proof -
    have "1 \<le> rnd (1 + rnd (d / 100))" using r(2) ieee.lower[of 1] rnd_int[of 1] by simp
    then show ?thesis by (auto simp: fl_def Let_def)
  qed
  have "0 \<le> rnd (a / h)" if "1 \<le> h" for h using assms(1) that ieee.nonneg[of "a / h"] by simp
  then have "fl (a / h) = Inf False \<or> (\<exists>q. fl (a / h) = Fin q \<and> 0 \<le> q)" if "1 \<le> h" for h
    using that by (auto simp: fl_def Let_def)
  with one show ?thesis unfolding e by fastforce
qed

lemma ResolveDamage_Fin:
  assumes "0 \<le> a" and "0 \<le> d" and "is_f64 (Fin d)" and "0 \<le> h" and "is_f64 (Fin h)"
  shows "\<exists>m. 0 \<le> m \<and> m \<le> h \<and> ResolveDamage (Fin a) (Fin d) (Fin h) =
    Inr \<lparr>d_Amount = Fin m, d_RemainingHealth = Fin (rnd (h - m)),
         d_Killed = (0 < h \<and> rnd (h - m) = 0)\<rparr> \<and> (rnd (h - m) = 0 \<longrightarrow> m = h)"
proof -
  let ?q = "Fin a / (Fin 1 + Fin d / Fin 100)"
  obtain m where m: "math_Min (Fin h) ?q = Fin m" "0 \<le> m" "m \<le> h" "is_f64 (Fin m)"
  proof -
    have "is_f64 (math_Min (Fin h) ?q)" using assms(5) by (intro is_f64_Min) auto
    moreover have "\<exists>m. math_Min (Fin h) ?q = Fin m \<and> 0 \<le> m \<and> m \<le> h"
      using damage_amount[OF assms(1-3)] assms(4) by (auto simp: math_Min_def)
    ultimately show ?thesis using that by metis
  qed
  have "fl (h - m) = Fin (rnd (h - m))"
    using fl_finite_between[of 0 h "h - m"] m assms(5) by simp
  moreover have z: "rnd (h - m) = 0 \<longleftrightarrow> m = h"
    using rnd_diff_zero[of h m] m(4) assms(5) by auto
  moreover have "h \<le> m \<longleftrightarrow> m = h" using m(3) by auto
  ultimately show ?thesis
    using m assms by (intro exI[of _ m]) (simp add: ResolveDamage_def Let_def)
qed

lemma f64_valid_iff:
  "\<not> (IsNaN v \<or> IsInf v \<or> v < Fin 0) \<longleftrightarrow> (\<exists>x. v = Fin x \<and> 0 \<le> x)"
  by (cases v) auto

lemma ResolveDamage_facts:
  assumes "is_f64 attack" and "is_f64 defense" and "is_f64 health"
    and "ResolveDamage attack defense health = Inr d"
  shows "Fin 0 \<le> d_Amount d \<and> d_Amount d \<le> health \<and>
    Fin 0 \<le> d_RemainingHealth d \<and> d_RemainingHealth d \<le> health \<and> is_f64 (d_RemainingHealth d) \<and>
    (d_Killed d \<longleftrightarrow> Fin 0 < health \<and> d_RemainingHealth d = Fin 0)"
proof -
  have nn: "\<not> list_ex (\<lambda>v. IsNaN v \<or> IsInf v \<or> v < Fin 0) [attack, defense, health]"
    using assms(4) by (auto simp: ResolveDamage_def split: if_splits)
  then obtain a b h where v: "attack = Fin a" "defense = Fin b" "health = Fin h"
    and p: "0 \<le> a" "0 \<le> b" "0 \<le> h"
    by (auto simp: f64_valid_iff[unfolded de_Morgan_disj])
      (metis f64_valid_iff)
  obtain m where m: "0 \<le> m" "m \<le> h"
    "d = \<lparr>d_Amount = Fin m, d_RemainingHealth = Fin (rnd (h - m)), d_Killed = (0 < h \<and> rnd (h - m) = 0)\<rparr>"
    using ResolveDamage_Fin[OF p(1,2) _ p(3)] assms v by auto
  have "0 \<le> rnd (h - m)" "rnd (h - m) \<le> h"
    using m assms(3) v ieee.nonneg[of "h - m"] ieee.upper[of "h - m" h] by auto
  then show ?thesis
    using m assms(3) v p fl_finite_between[of 0 h "h - m"] by auto
qed

subsection \<open>Movement\<close>

lemma Move_in_bounds:
  assumes "vec_ok mn" and "vec_ok mx" and "X mn \<le> X mx" and "Y mn \<le> Y mx"
    and "Vec2_Finite (p_Position p)" and "Vec2_Finite direction" and "speed = Fin s" and "dt = Fin t" and "0 < t"
  shows "in_bounds mn mx (p_Position (Move p direction speed dt mn mx))"
proof -
  have clamp: "\<exists>v. math_Max (Fin lo) (math_Min (Fin hi) (Fin q + Fin d * speed * dt)) = Fin v \<and> lo \<le> v \<and> v \<le> hi"
    if "lo \<le> hi" for lo hi q d
  proof -
    have "Fin q + Fin d * speed * dt \<noteq> NaN"
      using assms(9) not_NaN_times_pos[of "fl (d * s)" t] unfolding assms(7,8)
      by (intro not_NaN_plus_Fin) auto
    then show ?thesis using that by (rule clamp_f64)
  qed
  obtain a b c d where m: "mn = vec2 (Fin a) (Fin b)" "mx = vec2 (Fin c) (Fin d)"
    using assms(1,2) by (auto simp: vec_ok_def Vec2_Finite_iff)
  obtain q r u w where p: "p_Position p = vec2 (Fin q) (Fin r)" "direction = vec2 (Fin u) (Fin w)"
    using assms(5,6) by (auto simp: Vec2_Finite_iff)
  have "a \<le> c" "b \<le> d" using assms(3,4) m by auto
  with clamp[of a c q u] clamp[of b d r w] show ?thesis
    by (auto simp: Move_def in_bounds_def m p Let_def simp del: plus_f64.simps times_f64.simps)
qed


lemma divide_by_length:
  assumes "is_f64 (Fin a)" and "is_f64 (Fin b)" and "0 < \<bar>a\<bar> \<or> 0 < \<bar>b\<bar>"
  shows "\<exists>u w. Fin a / math_Hypot (Fin a) (Fin b) = Fin u \<and> \<bar>u\<bar> \<le> 1 \<and>
    Fin b / math_Hypot (Fin a) (Fin b) = Fin w \<and> \<bar>w\<bar> \<le> 1"
  using math_Hypot_ge[OF assms(1,2)]
proof
  assume "math_Hypot (Fin a) (Fin b) = Inf False"
  then show ?thesis by simp
next
  assume "\<exists>h. math_Hypot (Fin a) (Fin b) = Fin h \<and> \<bar>a\<bar> \<le> h \<and> \<bar>b\<bar> \<le> h"
  then obtain h where h: "math_Hypot (Fin a) (Fin b) = Fin h" "\<bar>a\<bar> \<le> h" "\<bar>b\<bar> \<le> h" by blast
  then have "0 < h" using assms(3) by auto
  then show ?thesis using divide_unit[of a h] divide_unit[of b h] h by auto
qed

lemma unit_box_iff: "unit_box v \<longleftrightarrow> (\<exists>a b. v = vec2 (Fin a) (Fin b) \<and> \<bar>a\<bar> \<le> 1 \<and> \<bar>b\<bar> \<le> 1)"
proof -
  obtain x y where v: "v = vec2 x y" by (cases v) auto
  show ?thesis unfolding v unit_box_def by (cases x; cases y) (auto simp: abs_le_iff)
qed

lemma divide_by_max:
  assumes "0 < max \<bar>a\<bar> \<bar>b\<bar>"
  shows "\<exists>u. Fin a / Fin (max \<bar>a\<bar> \<bar>b\<bar>) = Fin u \<and> \<bar>u\<bar> \<le> 1 \<and> is_f64 (Fin u)" (is ?A)
    and "\<exists>w. Fin b / Fin (max \<bar>a\<bar> \<bar>b\<bar>) = Fin w \<and> \<bar>w\<bar> \<le> 1 \<and> is_f64 (Fin w)" (is ?B)
proof -
  have "is_f64 (Fin c / Fin (max \<bar>a\<bar> \<bar>b\<bar>))" for c by (rule is_f64_divide)
  then show ?A ?B
    using divide_unit[of a "max \<bar>a\<bar> \<bar>b\<bar>"] divide_unit[of b "max \<bar>a\<bar> \<bar>b\<bar>"] assms
    by (metis max.cobounded1, metis max.cobounded2)
qed

lemma NormalizeDirection_box:
  assumes "vec_ok v"
  shows "unit_box (NormalizeDirection v)"
proof -
  obtain a b where v: "v = vec2 (Fin a) (Fin b)" "is_f64 (Fin a)" "is_f64 (Fin b)"
    using assms by (auto simp: vec_ok_def Vec2_Finite_iff)
  define w where "w = (if Fin 1 < Fin (max \<bar>a\<bar> \<bar>b\<bar>)
    then vec2 (Fin a / Fin (max \<bar>a\<bar> \<bar>b\<bar>)) (Fin b / Fin (max \<bar>a\<bar> \<bar>b\<bar>)) else vec2 (Fin a) (Fin b))"
  obtain c d where w: "w = vec2 (Fin c) (Fin d)" "\<bar>c\<bar> \<le> 1" "\<bar>d\<bar> \<le> 1" "is_f64 (Fin c)" "is_f64 (Fin d)"
  proof (cases "1 < max \<bar>a\<bar> \<bar>b\<bar>")
    case True
    then show ?thesis using divide_by_max[of a b] that unfolding w_def by fastforce
  next
    case False
    then have "\<bar>a\<bar> \<le> 1" "\<bar>b\<bar> \<le> 1" by auto
    then show ?thesis using False v that unfolding w_def by auto
  qed
  have "NormalizeDirection v = (if Fin 1 < math_Hypot (X w) (Y w)
     then vec2 (X w / math_Hypot (X w) (Y w)) (Y w / math_Hypot (X w) (Y w)) else w)"
    unfolding NormalizeDirection_def w_def v(1) Let_def
    by (simp only: Vec2.select_convs abs_f64.simps math_Max_Fin)
  then have eq: "NormalizeDirection v = (if Fin 1 < math_Hypot (Fin c) (Fin d)
     then vec2 (Fin c / math_Hypot (Fin c) (Fin d)) (Fin d / math_Hypot (Fin c) (Fin d)) else w)"
    unfolding w(1) by (simp only: Vec2.select_convs)
  show ?thesis
  proof (cases "Fin 1 < math_Hypot (Fin c) (Fin d)")
    case True
    then have "0 < \<bar>c\<bar> \<or> 0 < \<bar>d\<bar>" by (auto simp: math_Hypot_def)
    then show ?thesis using divide_by_length[OF w(4,5)] True unfolding eq unit_box_iff by auto
  next
    case False
    then show ?thesis using w(1-3) unfolding eq unit_box_iff by auto
  qed
qed

lemma UnitDirection_box:
  assumes "vec_ok v"
  shows "unit_box (UnitDirection v)"
proof -
  obtain a b where v: "v = vec2 (Fin a) (Fin b)" "is_f64 (Fin a)" "is_f64 (Fin b)"
    using assms by (auto simp: vec_ok_def Vec2_Finite_iff)
  show ?thesis
  proof (cases "max \<bar>a\<bar> \<bar>b\<bar> = 0")
    case True
    then have "a = 0" "b = 0" by (auto simp: max_def split: if_splits)
    then show ?thesis by (simp add: UnitDirection_def v feq_def unit_box_iff zero_vec_def Let_def)
  next
    case False
    then have pos: "0 < max \<bar>a\<bar> \<bar>b\<bar>" by (auto simp: max_def)
    obtain c d where cd: "Fin a / Fin (max \<bar>a\<bar> \<bar>b\<bar>) = Fin c" "is_f64 (Fin c)"
      "Fin b / Fin (max \<bar>a\<bar> \<bar>b\<bar>) = Fin d" "is_f64 (Fin d)"
      using divide_by_max[OF pos] by blast
    have one: "\<bar>c\<bar> = 1 \<or> \<bar>d\<bar> = 1"
    proof (cases "\<bar>a\<bar> \<le> \<bar>b\<bar>")
      case True
      then have "b / max \<bar>a\<bar> \<bar>b\<bar> = 1 \<or> b / max \<bar>a\<bar> \<bar>b\<bar> = - 1" using pos by (auto simp: abs_if split: if_splits)
      then show ?thesis using cd(3) pos by auto
    next
      case False
      then have "a / max \<bar>a\<bar> \<bar>b\<bar> = 1 \<or> a / max \<bar>a\<bar> \<bar>b\<bar> = - 1" using pos by (auto simp: abs_if split: if_splits)
      then show ?thesis using cd(1) pos by auto
    qed
    then have "0 < \<bar>c\<bar> \<or> 0 < \<bar>d\<bar>" by auto
    then show ?thesis
      using divide_by_length[OF cd(2,4)] False cd(1,3)
      unfolding UnitDirection_def v Let_def unit_box_iff
      by (auto simp: feq_def simp del: divide_f64.simps)
  qed
qed

subsection \<open>The swept circle test\<close>

lemma SegmentCircle_fraction:
  "SegmentCircle from to center radius = (t, True) \<Longrightarrow> Fin 0 \<le> t \<and> t \<le> Fin 1"
  by (auto simp: SegmentCircle_def Let_def split: if_splits)

subsection \<open>Plans\<close>

lemma Plan_Validate_ok:
  "Plan_Validate p mn mx n = Inr u \<longleftrightarrow>
     pl_Index p \<noteq> 0 \<and> pl_Monsters p \<noteq> [] \<and> int (length (pl_Monsters p)) \<le> n \<and>
     \<not> IsNaN (pl_DifficultyScore p) \<and> \<not> IsInf (pl_DifficultyScore p) \<and>
     \<not> pl_DifficultyScore p \<le> Fin 0 \<and>
     (\<forall>m \<in> set (pl_Monsters p). \<not> spawn_invalid mn mx m)"
  by (auto simp: Plan_Validate_def list_ex_iff not_less)

lemma CombatStats_Valid_iff:
  "CombatStats_Valid s \<longleftrightarrow> (\<exists>a d h m. cs_Attack s = Fin a \<and> 0 \<le> a \<and> a \<le> 1000000 \<and>
     cs_Defense s = Fin d \<and> 0 \<le> d \<and> d \<le> 1000000 \<and> cs_MaxHealth s = Fin h \<and> 0 < h \<and> h \<le> 1000000 \<and>
     cs_MoveSpeed s = Fin m \<and> 0 \<le> m \<and> m \<le> 1000000) \<and> 0 < cs_AttackCooldownTicks s"
  unfolding CombatStats_Valid_def
  by (cases "cs_Attack s"; cases "cs_Defense s"; cases "cs_MaxHealth s"; cases "cs_MoveSpeed s") auto

section \<open>Properties\<close>

text \<open>Damage never makes health negative or larger, and a target counts as killed exactly when its
  health was positive and is now zero.\<close>

theorem ResolveDamage_correct:
  assumes "is_f64 attack" and "is_f64 defense" and "is_f64 health"
    and "ResolveDamage attack defense health = Inr d"
  shows "Fin 0 \<le> d_Amount d \<and> d_Amount d \<le> health \<and>
    Fin 0 \<le> d_RemainingHealth d \<and> d_RemainingHealth d \<le> health \<and> is_f64 (d_RemainingHealth d) \<and>
    (d_Killed d \<longleftrightarrow> Fin 0 < health \<and> d_RemainingHealth d = Fin 0)"
  by (rule ResolveDamage_facts[OF assms])

theorem ResolveDamage_correct_witness:
  "\<exists>d. ResolveDamage (Fin 20) (Fin 0) (Fin 100) = Inr d \<and> d_RemainingHealth d \<le> Fin 100 \<and>
     (d_Killed d \<longleftrightarrow> Fin 0 < Fin 100 \<and> d_RemainingHealth d = Fin 0)"
  using ResolveDamage_correct[of "Fin 20" "Fin 0" "Fin 100"] ResolveDamage_Fin[of 20 0 100] by auto

text \<open>The directions the server derives from a client's vector stay in the unit box, whatever finite
  vector the client sends: a client cannot move faster by sending a longer direction.\<close>

theorem directions_unit:
  assumes "vec_ok v"
  shows "unit_box (NormalizeDirection v) \<and> unit_box (UnitDirection v)"
  using NormalizeDirection_box[OF assms] UnitDirection_box[OF assms] by blast

theorem directions_unit_witness:
  "unit_box (NormalizeDirection (vec2 (Fin 3000) (Fin (- 4000)))) \<and> unit_box (UnitDirection (vec2 (Fin 3000) (Fin (- 4000))))"
  by (rule directions_unit) (simp add: vec_ok_def Vec2_Finite_def rnd_minus)

end
