(* ===== verification/Equipment.thy ===== *)
theory Equipment
  imports Entity
begin

text \<open>
  Package \<open>equipment\<close>: the immutable catalog (\<open>catalog.go\<close>) and the settlement of a loadout into
  combat statistics (\<open>loadout.go\<close>).  Decoding the JSON file is left out; \<open>NewCatalog\<close> takes the
  decoded items.  \<open>catalog_ok\<close> is what a successful \<open>NewCatalog\<close> promises, and everything a
  client relies on (no nil target, valid statistics, bounded health and magazine) follows from it.
\<close>

section \<open>Catalog\<close>

type_synonym equip_id = u32

datatype Slot = Weapon | Relic | Potion | OtherSlot string
datatype Stat = Attack | Defense | MaxHealth | MoveSpeed | AttackSpeed | OtherStat string
datatype Operation = Add | Multiply | OtherOperation string

record Modifier =
  mod_Stat :: Stat
  mod_Operation :: Operation
  mod_Value :: f64

record Definition =
  e_ID :: equip_id
  e_Key :: string
  e_Name :: string
  e_Description :: string
  e_Slot :: Slot
  e_Modifiers :: "Modifier list"
  e_Heal :: f64
  e_MagazineBonus :: u32

record Catalog =
  c_version :: u32
  c_items :: "(equip_id, Definition) gomap"
  c_ids :: "equip_id list"

definition zero_catalog :: Catalog where
  "zero_catalog = \<lparr>c_version = 0, c_items = [], c_ids = []\<rparr>"

datatype equip_error =
    ErrUnknownEquipment equip_id
  | ErrInvalidLoadout
  | ErrInvalidStats
  | ErrNoPotion
  | ErrInvalidHealth
  | BadMagazineBonus
  | MissingIdentity
  | BadPersistent
  | BadPotion
  | InvalidSlot
  | InvalidStat
  | ModifierNotBounded
  | MultiplyNotPositive
  | InvalidOperation
  | CatalogEmpty
  | DuplicateEquipmentID equip_id
  | DuplicateEquipmentKey string
  | PanicNilTarget

definition finitePositive :: "f64 \<Rightarrow> bool" where
  "finitePositive value \<longleftrightarrow> \<not> IsNaN value \<and> \<not> IsInf value \<and> Fin 0 < value \<and> value \<le> Fin 1000000"

definition Modifier_validate :: "Modifier \<Rightarrow> equip_error + unit" where
  "Modifier_validate m =
     (case mod_Stat m of OtherStat _ \<Rightarrow> Inl InvalidStat
      | _ \<Rightarrow>
        if IsNaN (mod_Value m) \<or> IsInf (mod_Value m) \<or> Fin 1000000 < \<bar>mod_Value m\<bar>
        then Inl ModifierNotBounded
        else (case mod_Operation m of
            Add \<Rightarrow> Inr ()
          | Multiply \<Rightarrow> if mod_Value m \<le> Fin 0 then Inl MultiplyNotPositive else Inr ()
          | OtherOperation _ \<Rightarrow> Inl InvalidOperation))"

fun validate_modifiers :: "Modifier list \<Rightarrow> equip_error + unit" where
  "validate_modifiers [] = Inr ()"
| "validate_modifiers (m # ms) =
     (case Modifier_validate m of Inl e \<Rightarrow> Inl e | Inr _ \<Rightarrow> validate_modifiers ms)"

definition Definition_validate :: "Definition \<Rightarrow> equip_error + unit" where
  "Definition_validate d =
     (if 108 < e_MagazineBonus d \<or> (e_Slot d = Potion \<and> e_MagazineBonus d \<noteq> 0) then Inl BadMagazineBonus
      else if e_ID d = 0 \<or> e_Key d = '''' \<or> e_Name d = '''' then Inl MissingIdentity
      else (case e_Slot d of
          OtherSlot _ \<Rightarrow> Inl InvalidSlot
        | Potion \<Rightarrow> if e_Modifiers d \<noteq> [] \<or> \<not> finitePositive (e_Heal d) then Inl BadPotion
                    else validate_modifiers (e_Modifiers d)
        | _ \<Rightarrow> if e_Modifiers d = [] \<or> \<not> feq (e_Heal d) (Fin 0) then Inl BadPersistent
               else validate_modifiers (e_Modifiers d)))"

text \<open>
  \<open>strings.TrimSpace\<close>: a string is its UTF-8 bytes, and the white space is Unicode's, each code
  point with its encoding.
\<close>

definition white_space :: "string list" where
  "white_space = map (\<lambda>c. [c]) [CHR 0x09, CHR 0x0A, CHR 0x0B, CHR 0x0C, CHR 0x0D, CHR 0x20]
     @ [[CHR 0xC2, CHR 0x85], [CHR 0xC2, CHR 0xA0], [CHR 0xE1, CHR 0x9A, CHR 0x80]]
     @ map (\<lambda>c. [CHR 0xE2, CHR 0x80, c])
         [CHR 0x80, CHR 0x81, CHR 0x82, CHR 0x83, CHR 0x84, CHR 0x85, CHR 0x86, CHR 0x87, CHR 0x88,
          CHR 0x89, CHR 0x8A, CHR 0xA8, CHR 0xA9, CHR 0xAF]
     @ [[CHR 0xE2, CHR 0x81, CHR 0x9F], [CHR 0xE3, CHR 0x80, CHR 0x80]]"

text \<open>Dropping leading occurrences of nonempty patterns; a step takes at least one byte.\<close>

fun trim_left :: "nat \<Rightarrow> string list \<Rightarrow> string \<Rightarrow> string" where
  "trim_left 0 ws s = s"
| "trim_left (Suc n) ws s =
     (case find (\<lambda>w. take (length w) s = w) ws of
        None \<Rightarrow> s
      | Some w \<Rightarrow> trim_left n ws (drop (length w) s))"

definition TrimSpace :: "string \<Rightarrow> string" where
  "TrimSpace s =
     (let l = trim_left (length s) white_space s
      in rev (trim_left (length l) (map rev white_space) (rev l)))"

definition trim_definition :: "Definition \<Rightarrow> Definition" where
  "trim_definition d = d\<lparr>e_Key := TrimSpace (e_Key d), e_Name := TrimSpace (e_Name d),
     e_Description := TrimSpace (e_Description d)\<rparr>"

text \<open>The loop of \<open>NewCatalog\<close>: the catalog built so far and the keys seen.\<close>

fun add_definitions :: "Catalog \<Rightarrow> string list \<Rightarrow> Definition list \<Rightarrow> equip_error + Catalog" where
  "add_definitions catalog ks [] = Inr catalog"
| "add_definitions catalog ks (source # rest) =
     (let d = trim_definition source in
      case Definition_validate d of
        Inl e \<Rightarrow> Inl e
      | Inr _ \<Rightarrow>
        if map_of (c_items catalog) (e_ID d) \<noteq> None then Inl (DuplicateEquipmentID (e_ID d))
        else if e_Key d \<in> set ks then Inl (DuplicateEquipmentKey (e_Key d))
        else add_definitions
               (catalog\<lparr>c_items := AList.update (e_ID d) d (c_items catalog),
                        c_ids := c_ids catalog @ [e_ID d]\<rparr>)
               (e_Key d # ks) rest)"

definition NewCatalog :: "u32 \<Rightarrow> Definition list \<Rightarrow> equip_error + Catalog" where
  "NewCatalog version definitions =
     (if version = 0 \<or> definitions = [] then Inl CatalogEmpty
      else case add_definitions \<lparr>c_version = version, c_items = [], c_ids = []\<rparr> [] definitions of
          Inl e \<Rightarrow> Inl e
        | Inr catalog \<Rightarrow> Inr (catalog\<lparr>c_ids := sort (c_ids catalog)\<rparr>))"

definition IDs :: "Catalog \<Rightarrow> equip_id list" where
  "IDs c = c_ids c"

definition Lookup :: "Catalog \<Rightarrow> equip_id \<Rightarrow> Definition option" where
  "Lookup c i = map_of (c_items c) i"

definition Require :: "Catalog \<Rightarrow> equip_id \<Rightarrow> equip_error + Definition" where
  "Require c i = (case Lookup c i of None \<Rightarrow> Inl (ErrUnknownEquipment i) | Some d \<Rightarrow> Inr d)"

section \<open>Loadout\<close>

record Loadout =
  WeaponID :: equip_id
  RelicID :: equip_id
  PotionID :: equip_id

definition zero_loadout :: Loadout where
  "zero_loadout = \<lparr>WeaponID = 0, RelicID = 0, PotionID = 0\<rparr>"

definition magazine_bonus :: "Catalog \<Rightarrow> equip_id \<Rightarrow> u64" where
  "magazine_bonus c i = (case Lookup c i of None \<Rightarrow> 0 | Some d \<Rightarrow> ucast (e_MagazineBonus d))"

definition MagazineCapacity :: "Catalog \<Rightarrow> Loadout \<Rightarrow> u32 \<Rightarrow> u32" where
  "MagazineCapacity c l base =
     (let capacity = ucast base + magazine_bonus c (WeaponID l) + magazine_bonus c (RelicID l)
      in ucast (min capacity 120))"

definition Equip :: "Loadout \<Rightarrow> Definition \<Rightarrow> equip_error + Loadout" where
  "Equip l d =
     (case Definition_validate d of
        Inl e \<Rightarrow> Inl e
      | Inr _ \<Rightarrow>
        (case e_Slot d of
           Weapon \<Rightarrow> Inr (l\<lparr>WeaponID := e_ID d\<rparr>)
         | Relic \<Rightarrow> Inr (l\<lparr>RelicID := e_ID d\<rparr>)
         | Potion \<Rightarrow> Inr (l\<lparr>PotionID := e_ID d\<rparr>)
         | OtherSlot _ \<Rightarrow> Inl ErrInvalidLoadout))"

definition modify :: "Modifier \<Rightarrow> f64 \<Rightarrow> f64" where
  "modify m target = (if mod_Operation m = Add then target + mod_Value m else target * mod_Value m)"

text \<open>
  One modifier on the statistics and the attack speed.  A statistic that is none of the five leaves
  the pointer to the target nil, and the write through it panics.
\<close>

definition apply_modifier :: "CombatStats \<times> f64 \<Rightarrow> Modifier \<Rightarrow> equip_error + CombatStats \<times> f64" where
  "apply_modifier st m =
     (case st of (resolved, attackSpeed) \<Rightarrow>
       (case mod_Stat m of
          Attack \<Rightarrow> Inr (resolved\<lparr>cs_Attack := modify m (cs_Attack resolved)\<rparr>, attackSpeed)
        | Defense \<Rightarrow> Inr (resolved\<lparr>cs_Defense := modify m (cs_Defense resolved)\<rparr>, attackSpeed)
        | MaxHealth \<Rightarrow> Inr (resolved\<lparr>cs_MaxHealth := modify m (cs_MaxHealth resolved)\<rparr>, attackSpeed)
        | MoveSpeed \<Rightarrow> Inr (resolved\<lparr>cs_MoveSpeed := modify m (cs_MoveSpeed resolved)\<rparr>, attackSpeed)
        | AttackSpeed \<Rightarrow> Inr (resolved, modify m attackSpeed)
        | OtherStat _ \<Rightarrow> Inl PanicNilTarget))"

fun apply_modifiers :: "CombatStats \<times> f64 \<Rightarrow> Modifier list \<Rightarrow> equip_error + CombatStats \<times> f64" where
  "apply_modifiers st [] = Inr st"
| "apply_modifiers st (m # ms) =
     (case apply_modifier st m of Inl e \<Rightarrow> Inl e | Inr st' \<Rightarrow> apply_modifiers st' ms)"

fun resolve_slots ::
  "Catalog \<Rightarrow> CombatStats \<times> f64 \<Rightarrow> (equip_id \<times> Slot) list \<Rightarrow> equip_error + CombatStats \<times> f64" where
  "resolve_slots c st [] = Inr st"
| "resolve_slots c st ((i, want) # slots) =
     (if i = 0 then resolve_slots c st slots
      else case Require c i of
          Inl _ \<Rightarrow> Inl ErrInvalidLoadout
        | Inr d \<Rightarrow>
          if e_Slot d \<noteq> want then Inl ErrInvalidLoadout
          else case apply_modifiers st (e_Modifiers d) of
              Inl e \<Rightarrow> Inl e
            | Inr st' \<Rightarrow> resolve_slots c st' slots)"

definition Resolve :: "CombatStats \<Rightarrow> Loadout \<Rightarrow> Catalog \<Rightarrow> u32 \<Rightarrow> equip_error + CombatStats" where
  "Resolve base l c tickRate =
     (if \<not> CombatStats_Valid base \<or> tickRate = 0 then Inl ErrInvalidStats
      else
        let rate = f64_of_int (uint tickRate);
            attackSpeed = rate / f64_of_int (uint (cs_AttackCooldownTicks base))
        in case resolve_slots c (base, attackSpeed) [(WeaponID l, Weapon), (RelicID l, Relic)] of
            Inl e \<Rightarrow> Inl e
          | Inr (resolved, speed) \<Rightarrow>
            if \<not> finitePositive speed then Inl ErrInvalidStats
            else
              let rounded = math_Round (rate / speed);
                  cooldown = (if rounded < Fin 1 then Fin 1 else rounded)
              in if Fin 4294967295 < cooldown then Inl ErrInvalidStats
                 else
                   let resolved' = resolved\<lparr>cs_AttackCooldownTicks := word_of_int (int_of_f64 cooldown)\<rparr>
                   in if \<not> CombatStats_Valid resolved' then Inl ErrInvalidStats else Inr resolved')"

definition Apply :: "CombatStats \<Rightarrow> f64 \<Rightarrow> Loadout \<Rightarrow> equip_id \<Rightarrow> Catalog \<Rightarrow> u32 \<Rightarrow>
    equip_error + Loadout \<times> CombatStats \<times> f64" where
  "Apply base currentHealth l selected c tickRate =
     (case Require c selected of
        Inl e \<Rightarrow> Inl e
      | Inr d \<Rightarrow>
        (case Equip l d of
           Inl e \<Rightarrow> Inl e
         | Inr next \<Rightarrow>
           (case Resolve base next c tickRate of
              Inl e \<Rightarrow> Inl e
            | Inr stats \<Rightarrow>
              if IsNaN currentHealth \<or> IsInf currentHealth \<or> currentHealth < Fin 0 then Inl ErrInvalidHealth
              else Inr (next, stats, math_Min currentHealth (cs_MaxHealth stats)))))"

definition UsePotion :: "Loadout \<Rightarrow> f64 \<Rightarrow> f64 \<Rightarrow> Catalog \<Rightarrow> equip_error + Loadout \<times> f64 \<times> equip_id" where
  "UsePotion l health maxHealth c =
     (if PotionID l = 0 then Inl ErrNoPotion
      else if IsNaN health \<or> IsInf health \<or> IsNaN maxHealth \<or> IsInf maxHealth \<or> health < Fin 0 \<or>
              maxHealth \<le> Fin 0 \<or> maxHealth < health then Inl ErrInvalidHealth
      else case Require c (PotionID l) of
          Inl _ \<Rightarrow> Inl ErrInvalidLoadout
        | Inr d \<Rightarrow>
          if e_Slot d \<noteq> Potion then Inl ErrInvalidLoadout
          else Inr (l\<lparr>PotionID := 0\<rparr>, math_Min maxHealth (health + e_Heal d), PotionID l))"


section \<open>What a catalog promises\<close>

definition items_ok :: "(equip_id, Definition) gomap \<Rightarrow> bool" where
  "items_ok m \<longleftrightarrow> map_ok m \<and>
     (\<forall>i d. map_of m i = Some d \<longrightarrow> e_ID d = i \<and> Definition_validate d = Inr ()) \<and>
     (\<forall>i j d e. map_of m i = Some d \<longrightarrow> map_of m j = Some e \<longrightarrow> e_Key d = e_Key e \<longrightarrow> i = j)"

definition catalog_ok :: "Catalog \<Rightarrow> bool" where
  "catalog_ok c \<longleftrightarrow> items_ok (c_items c) \<and> sorted (c_ids c) \<and> distinct (c_ids c) \<and>
     set (c_ids c) = dom (map_of (c_items c))"

lemma items_ok_add:
  assumes "items_ok m" and "Definition_validate d = Inr ()" and "map_of m (e_ID d) = None"
    and "\<forall>i e. map_of m i = Some e \<longrightarrow> e_Key e \<noteq> e_Key d"
  shows "items_ok (AList.update (e_ID d) d m)"
proof -
  have k: "e_Key e \<noteq> e_Key d" if "map_of m i = Some e" for i e
    using assms(4) that by blast
  have k': "e_Key d \<noteq> e_Key e" if "map_of m i = Some e" for i e
    using k[OF that] by (rule not_sym)
  show ?thesis
    using assms(1,2) unfolding items_ok_def by (simp add: update_conv' k k')
qed

lemma add_definitions_ok:
  assumes "add_definitions c ks ds = Inr c'"
    and "items_ok (c_items c)" and "distinct (c_ids c)" and "set (c_ids c) = dom (map_of (c_items c))"
    and "\<forall>i d. map_of (c_items c) i = Some d \<longrightarrow> e_Key d \<in> set ks"
  shows "items_ok (c_items c') \<and> distinct (c_ids c') \<and> set (c_ids c') = dom (map_of (c_items c')) \<and>
    c_version c' = c_version c \<and> length (c_ids c') = length (c_ids c) + length ds \<and>
    (\<forall>d \<in> set ds. map_of (c_items c') (e_ID d) = Some (trim_definition d)) \<and>
    (\<forall>i d. map_of (c_items c) i = Some d \<longrightarrow> map_of (c_items c') i = Some d)"
  using assms
proof (induction ds arbitrary: c ks)
  case Nil
  then show ?case by simp
next
  case (Cons s ds)
  let ?d = "trim_definition s"
  let ?c = "c\<lparr>c_items := AList.update (e_ID ?d) ?d (c_items c), c_ids := c_ids c @ [e_ID ?d]\<rparr>"
  have v: "Definition_validate ?d = Inr ()" and n: "map_of (c_items c) (e_ID ?d) = None"
    and k: "e_Key ?d \<notin> set ks" and r: "add_definitions ?c (e_Key ?d # ks) ds = Inr c'"
    using Cons.prems(1) by (auto simp: Let_def split: sum.splits if_splits)
  have fresh: "e_ID ?d \<notin> set (c_ids c)" using n Cons.prems(4) by auto
  have "\<forall>i e. map_of (c_items c) i = Some e \<longrightarrow> e_Key e \<noteq> e_Key ?d"
    using Cons.prems(5) k by metis
  then have "items_ok (c_items ?c)" using Cons.prems(2) v n items_ok_add by simp
  moreover have "distinct (c_ids ?c)" using Cons.prems(3) fresh by simp
  moreover have "set (c_ids ?c) = dom (map_of (c_items ?c))"
    using Cons.prems(4) by (auto simp: update_conv' split: if_splits)
  moreover have "\<forall>i d. map_of (c_items ?c) i = Some d \<longrightarrow> e_Key d \<in> set (e_Key ?d # ks)"
    using Cons.prems(5) by (auto simp: update_conv' split: if_splits)
  ultimately have IH: "items_ok (c_items c') \<and> distinct (c_ids c') \<and>
      set (c_ids c') = dom (map_of (c_items c')) \<and> c_version c' = c_version ?c \<and>
      length (c_ids c') = length (c_ids ?c) + length ds \<and>
      (\<forall>d \<in> set ds. map_of (c_items c') (e_ID d) = Some (trim_definition d)) \<and>
      (\<forall>i d. map_of (c_items ?c) i = Some d \<longrightarrow> map_of (c_items c') i = Some d)"
    using r by (rule Cons.IH[rotated])
  moreover have i: "e_ID ?d = e_ID s" by (simp add: trim_definition_def)
  moreover have "map_of (c_items ?c) i = Some d" if "map_of (c_items c) i = Some d" for i d
  proof -
    have "i \<noteq> e_ID ?d" using n that by auto
    then show ?thesis using that by (simp add: update_conv')
  qed
  moreover have "map_of (c_items ?c) (e_ID s) = Some ?d" using i by (simp add: update_conv')
  ultimately show ?case by simp
qed

lemma NewCatalog_ok:
  assumes "NewCatalog version ds = Inr c"
  shows "catalog_ok c \<and> c_version c = version \<and> version \<noteq> 0 \<and> length (IDs c) = length ds \<and>
    (\<forall>d \<in> set ds. Lookup c (e_ID d) = Some (trim_definition d))"
proof -
  obtain c' where c': "add_definitions \<lparr>c_version = version, c_items = [], c_ids = []\<rparr> [] ds = Inr c'"
    and c: "c = c'\<lparr>c_ids := sort (c_ids c')\<rparr>" and v: "version \<noteq> 0"
    using assms by (auto simp: NewCatalog_def split: if_splits sum.splits)
  show ?thesis
    using add_definitions_ok[OF c'] c v
    by (auto simp: catalog_ok_def items_ok_def IDs_def Lookup_def)
qed

lemma Require_ok:
  assumes "catalog_ok c" and "Require c i = Inr d"
  shows "e_ID d = i \<and> Definition_validate d = Inr () \<and> i \<in> set (IDs c)"
  using assms by (auto simp: Require_def Lookup_def catalog_ok_def items_ok_def IDs_def split: option.splits)

lemma Require_IDs: "catalog_ok c \<Longrightarrow> i \<in> set (IDs c) \<Longrightarrow> \<exists>d. Require c i = Inr d"
  by (auto simp: Require_def Lookup_def catalog_ok_def IDs_def)

section \<open>Settlement\<close>

lemma validate_modifiers_iff:
  "validate_modifiers ms = Inr () \<longleftrightarrow> (\<forall>m \<in> set ms. Modifier_validate m = Inr ())"
  by (induction ms) (auto split: sum.splits)

lemma validated_modifiers:
  "Definition_validate d = Inr () \<Longrightarrow> \<forall>m \<in> set (e_Modifiers d). Modifier_validate m = Inr ()"
  by (auto simp: Definition_validate_def simp flip: validate_modifiers_iff split: if_splits Slot.splits)

lemma apply_modifiers_no_panic:
  "\<forall>m \<in> set ms. Modifier_validate m = Inr () \<Longrightarrow> \<exists>st'. apply_modifiers st ms = Inr st'"
proof (induction ms arbitrary: st)
  case (Cons m ms)
  have "\<exists>st'. apply_modifier st m = Inr st'"
    using Cons.prems by (cases st) (auto simp: apply_modifier_def Modifier_validate_def split: Stat.splits)
  then show ?case using Cons by auto
qed simp

lemma resolve_slots_no_panic:
  "catalog_ok c \<Longrightarrow> resolve_slots c st slots \<noteq> Inl PanicNilTarget"
proof (induction slots arbitrary: st)
  case (Cons s slots)
  obtain i w where s: "s = (i, w)" by (cases s)
  have "\<exists>st'. apply_modifiers st (e_Modifiers d) = Inr st'" if "Require c i = Inr d" for d
    using Require_ok[OF Cons.prems that] by (intro apply_modifiers_no_panic validated_modifiers) simp
  with Cons show ?case by (auto simp: s split: sum.splits)
qed simp

lemma Resolve_no_panic:
  "catalog_ok c \<Longrightarrow> Resolve base l c rate \<noteq> Inl PanicNilTarget"
proof (cases "resolve_slots c
    (base, f64_of_int (uint rate) / f64_of_int (uint (cs_AttackCooldownTicks base)))
    [(WeaponID l, Weapon), (RelicID l, Relic)]")
  case (Inl e)
  assume "catalog_ok c"
  then have "e \<noteq> PanicNilTarget" using resolve_slots_no_panic Inl by metis
  then show ?thesis unfolding Resolve_def Let_def Inl by (simp only: sum.case) auto
next
  case (Inr st)
  then show ?thesis unfolding Resolve_def Let_def Inr by (simp only: sum.case prod.case_eq_if) auto
qed

lemma Apply_no_panic:
  assumes "catalog_ok c"
  shows "Apply base h l i c rate \<noteq> Inl PanicNilTarget"
proof (cases "Require c i")
  case (Inr d)
  then have "Definition_validate d = Inr ()" using Require_ok[OF assms] by simp
  then show ?thesis using Inr Resolve_no_panic[OF assms]
    by (auto simp: Apply_def Equip_def split: sum.splits Slot.splits if_splits)
qed (auto simp: Apply_def Require_def split: option.splits)

text \<open>A loadout whose slots hold items of their own kind.\<close>

definition slot_ok :: "Catalog \<Rightarrow> equip_id \<Rightarrow> Slot \<Rightarrow> bool" where
  "slot_ok c i s \<longleftrightarrow> i = 0 \<or> (\<exists>d. Require c i = Inr d \<and> e_Slot d = s)"

definition loadout_ok :: "Catalog \<Rightarrow> Loadout \<Rightarrow> bool" where
  "loadout_ok c l \<longleftrightarrow> slot_ok c (WeaponID l) Weapon \<and> slot_ok c (RelicID l) Relic \<and>
     slot_ok c (PotionID l) Potion"

lemma loadout_ok_zero [simp]: "loadout_ok c zero_loadout"
  by (simp add: loadout_ok_def slot_ok_def zero_loadout_def)

lemma Resolve_Valid: "Resolve base l c rate = Inr stats \<Longrightarrow> CombatStats_Valid stats"
  by (auto simp: Resolve_def Let_def split: if_splits sum.splits prod.splits)

lemma Equip_ok:
  assumes "catalog_ok c" and "Require c i = Inr d" and "Equip l d = Inr l'" and "loadout_ok c l"
  shows "loadout_ok c l'"
proof -
  have "slot_ok c (e_ID d) (e_Slot d)" using assms(2) Require_ok[OF assms(1,2)] by (auto simp: slot_ok_def)
  then show ?thesis
    using assms(3,4) by (auto simp: Equip_def loadout_ok_def split: sum.splits Slot.splits)
qed

lemma Apply_split:
  "Apply base h l i c rate = Inr (l', st, h') \<longleftrightarrow>
     (\<exists>d. Require c i = Inr d \<and> Equip l d = Inr l') \<and> Resolve base l' c rate = Inr st \<and>
     \<not> IsNaN h \<and> \<not> IsInf h \<and> \<not> h < Fin 0 \<and> h' = math_Min h (cs_MaxHealth st)"
  by (auto simp: Apply_def split: sum.splits)

lemma Resolve_MaxHealth:
  "Resolve base l c rate = Inr st \<Longrightarrow> \<exists>m. cs_MaxHealth st = Fin m \<and> 0 < m \<and> m \<le> 1000000"
  using Resolve_Valid[of base l c rate st] by (auto simp: CombatStats_Valid_iff)

lemma Apply_facts:
  assumes "catalog_ok c" and "loadout_ok c l" and "Apply base h l i c rate = Inr (l', st, h')"
  shows "loadout_ok c l' \<and> CombatStats_Valid st \<and> Fin 0 \<le> h' \<and> h' \<le> h \<and> h' \<le> cs_MaxHealth st \<and>
    (Fin 0 < h \<longrightarrow> Fin 0 < h') \<and> i \<in> {WeaponID l', RelicID l', PotionID l'}"
proof -
  obtain d where d: "Require c i = Inr d" "Equip l d = Inr l'" and r: "Resolve base l' c rate = Inr st"
    and h: "\<not> IsNaN h" "\<not> IsInf h" "\<not> h < Fin 0" "h' = math_Min h (cs_MaxHealth st)"
    using assms(3) unfolding Apply_split by blast
  obtain x where x: "h = Fin x" "0 \<le> x" using h by (cases h) auto
  obtain m where m: "cs_MaxHealth st = Fin m" "0 < m" using Resolve_MaxHealth[OF r] by blast
  have "e_ID d = i" using Require_ok[OF assms(1) d(1)] by simp
  then have "i \<in> {WeaponID l', RelicID l', PotionID l'}"
    using d(2) by (auto simp: Equip_def split: sum.splits Slot.splits)
  then show ?thesis using Equip_ok[OF assms(1) d assms(2)] Resolve_Valid[OF r] x m h(4) by auto
qed

lemma Equip_idem: "Equip l d = Inr l' \<Longrightarrow> Equip l' d = Inr l'"
  by (auto simp: Equip_def split: sum.splits Slot.splits)

lemma Apply_idempotent:
  assumes "Apply base h l i c rate = Inr (l', st, h')"
  shows "Apply base h' l' i c rate = Inr (l', st, h')"
proof -
  obtain d where d: "Require c i = Inr d" "Equip l d = Inr l'" and r: "Resolve base l' c rate = Inr st"
    and h: "\<not> IsNaN h" "\<not> IsInf h" "\<not> h < Fin 0" "h' = math_Min h (cs_MaxHealth st)"
    using assms unfolding Apply_split by blast
  obtain x where x: "h = Fin x" "0 \<le> x" using h by (cases h) auto
  obtain m where m: "cs_MaxHealth st = Fin m" "0 < m" using Resolve_MaxHealth[OF r] by blast
  show ?thesis unfolding Apply_split using d Equip_idem[OF d(2)] r h(4) x m by auto
qed

lemma UsePotion_facts:
  assumes "catalog_ok c" and "is_f64 health" and "is_f64 maxHealth"
    and "UsePotion l health maxHealth c = Inr (l', h', used)"
  shows "used = PotionID l \<and> used \<noteq> 0 \<and> l' = l\<lparr>PotionID := 0\<rparr> \<and> health \<le> h' \<and> h' \<le> maxHealth \<and>
    is_f64 h' \<and> UsePotion l' h' maxHealth c = Inl ErrNoPotion"
proof -
  obtain d where d: "Require c (PotionID l) = Inr d" "e_Slot d = Potion"
    and e: "l' = l\<lparr>PotionID := 0\<rparr>" "h' = math_Min maxHealth (health + e_Heal d)" "used = PotionID l" "PotionID l \<noteq> 0"
    and g: "\<not> IsNaN health" "\<not> IsInf health" "\<not> IsNaN maxHealth" "\<not> IsInf maxHealth" "\<not> maxHealth < health"
      "\<not> health < Fin 0"
    using assms(4) by (auto simp: UsePotion_def split: if_splits sum.splits)
  obtain x m where v: "health = Fin x" "maxHealth = Fin m" "x \<le> m" "0 \<le> x"
    using g by (cases health; cases maxHealth) auto
  have "finitePositive (e_Heal d)"
    using Require_ok[OF assms(1) d(1)] d(2) by (auto simp: Definition_validate_def split: if_splits)
  then obtain q where q: "e_Heal d = Fin q" "0 < q" by (cases "e_Heal d") (auto simp: finitePositive_def)
  have "x \<le> rnd (x + q)" using assms(2) v q ieee.lower[of x "x + q"] by simp
  then have "fl (x + q) = Inf False \<or> (\<exists>s. fl (x + q) = Fin s \<and> x \<le> s)"
    using v(4) by (auto simp: fl_def Let_def)
  then have "health \<le> h' \<and> h' \<le> maxHealth" using v q e(2) by (auto simp: math_Min_def)
  moreover have "is_f64 h'" using assms(3) v q unfolding e(2) by (intro is_f64_Min) auto
  moreover have "UsePotion l' h' maxHealth c = Inl ErrNoPotion" by (simp add: UsePotion_def e(1))
  ultimately show ?thesis using e by simp
qed

section \<open>Magazine\<close>

lemma magazine_bonus_le:
  assumes "catalog_ok c"
  shows "uint (magazine_bonus c i) \<le> 108"
proof (cases "Lookup c i")
  case (Some d)
  then have "Definition_validate d = Inr ()"
    using assms by (auto simp: Lookup_def catalog_ok_def items_ok_def)
  then have "e_MagazineBonus d \<le> 108" by (auto simp: Definition_validate_def split: if_splits)
  then have b: "uint (e_MagazineBonus d) \<le> 108" by (simp add: word_le_def)
  then have "uint (ucast (e_MagazineBonus d) :: u64) = uint (e_MagazineBonus d)"
    by (simp add: unsigned_ucast_eq take_bit_eq_mod)
  with b show ?thesis by (simp add: magazine_bonus_def Some)
qed (simp add: magazine_bonus_def)

lemma MagazineCapacity_bounds:
  assumes "catalog_ok c" and "12 \<le> uint base" and "uint base \<le> 120"
  shows "12 \<le> uint (MagazineCapacity c l base) \<and> uint (MagazineCapacity c l base) \<le> 120"
proof -
  let ?w = "magazine_bonus c (WeaponID l)" and ?r = "magazine_bonus c (RelicID l)"
  let ?s = "ucast base + ?w + ?r :: u64"
  note b = magazine_bonus_le[OF assms(1), of "WeaponID l"] magazine_bonus_le[OF assms(1), of "RelicID l"]
  have base: "uint (ucast base :: u64) = uint base"
    using assms(3) by (simp add: unsigned_ucast_eq take_bit_eq_mod)
  have s1: "uint (ucast base + ?w :: u64) = uint base + uint ?w"
    using b assms by (subst uint_add_lem[THEN iffD1]) (auto simp: base)
  have s: "uint ?s = uint base + uint ?w + uint ?r"
    using b assms by (subst uint_add_lem[THEN iffD1]) (auto simp: s1)
  have m: "uint (min ?s 120) = min (uint base + uint ?w + uint ?r) 120"
    using s by (auto simp: min_def word_le_def)
  have "uint (ucast (min ?s 120) :: u32) = uint (min ?s 120)"
    using m by (simp add: unsigned_ucast_eq take_bit_eq_mod min_def)
  then have "uint (MagazineCapacity c l base) = min (uint base + uint ?w + uint ?r) 120"
    using m by (simp only: MagazineCapacity_def Let_def)
  moreover have "0 \<le> uint ?w" "0 \<le> uint ?r" by (rule uint_ge_0)+
  ultimately show ?thesis using assms(2) by linarith
qed

section \<open>A catalog of one item\<close>

text \<open>The healing potion of \<open>data/equipment/catalog.json\<close>.\<close>

definition sample_potion :: Definition where
  "sample_potion = \<lparr>e_ID = 3001, e_Key = ''healing_potion'', e_Name = ''Healing Potion'', e_Description = ''Restore 30 health'',
     e_Slot = Potion, e_Modifiers = [], e_Heal = Fin 30, e_MagazineBonus = 0\<rparr>"

definition sample_catalog :: Catalog where
  "sample_catalog = \<lparr>c_version = 1, c_items = [(3001, sample_potion)], c_ids = [3001]\<rparr>"

lemma sample_potion_ok: "Definition_validate sample_potion = Inr ()"
  by (simp add: sample_potion_def Definition_validate_def finitePositive_def)

lemma sample_catalog_ok: "catalog_ok sample_catalog"
  using sample_potion_ok by (simp add: catalog_ok_def sample_catalog_def items_ok_def map_ok_def sample_potion_def)

definition sample_base :: CombatStats where
  "sample_base = \<lparr>cs_Attack = Fin 20, cs_Defense = Fin 0, cs_MaxHealth = Fin 100, cs_MoveSpeed = Fin 5,
     cs_AttackCooldownTicks = 6\<rparr>"

lemma sample_Resolve: "Resolve sample_base (zero_loadout\<lparr>PotionID := 3001\<rparr>) sample_catalog 30 = Inr sample_base"
proof -
  have h: "\<lfloor>13 / (2 :: rat)\<rfloor> = 6" by code_simp
  show ?thesis
    by (simp add: Resolve_def sample_base_def zero_loadout_def CombatStats_Valid_def f64_of_int_def Let_def finitePositive_def h)
qed

lemma sample_Require: "Require sample_catalog 3001 = Inr sample_potion"
  by (simp add: Require_def Lookup_def sample_catalog_def)

lemma sample_Equip: "Equip zero_loadout sample_potion = Inr (zero_loadout\<lparr>PotionID := 3001\<rparr>)"
  by (simp add: Equip_def sample_potion_ok) (simp add: sample_potion_def)

lemma sample_Apply:
  "Apply sample_base (Fin 80) zero_loadout 3001 sample_catalog 30 =
     Inr (zero_loadout\<lparr>PotionID := 3001\<rparr>, sample_base, Fin 80)"
  by (simp add: Apply_def sample_Require sample_Equip sample_Resolve) (simp add: sample_base_def)

section \<open>Properties\<close>

text \<open>C11: A catalog that NewCatalog accepts has a positive version and exactly the given items, each
  valid and found under its ID, IDs and keys are unique, and the ID list is sorted.\<close>

theorem NewCatalog_promises:
  assumes "NewCatalog version ds = Inr c"
  shows "catalog_ok c \<and> c_version c = version \<and> version \<noteq> 0 \<and> length (IDs c) = length ds \<and>
    (\<forall>d \<in> set ds. Lookup c (e_ID d) = Some (trim_definition d))"
  by (rule NewCatalog_ok[OF assms])

theorem NewCatalog_promises_witness:
  "\<exists>c. NewCatalog 1 [sample_potion] = Inr c \<and> catalog_ok c \<and> length (IDs c) = 1"
proof -
  have t: "trim_definition sample_potion = sample_potion" by code_simp
  have "\<exists>c. NewCatalog 1 [sample_potion] = Inr c"
    by (simp add: NewCatalog_def t sample_potion_ok)
  then show ?thesis using NewCatalog_promises[of 1 "[sample_potion]"] by auto
qed

text \<open>C10: Equipping an item settles consistently: the loadout keeps every item in a slot of its kind and
  holds the chosen item, the statistics are valid, health never rises and stays within the new maximum,
  a living player stays alive, and equipping the same item again changes nothing.\<close>

theorem Apply_correct:
  assumes "catalog_ok c" and "loadout_ok c l" and "Apply base h l i c rate = Inr (l', st, h')"
  shows "loadout_ok c l' \<and> CombatStats_Valid st \<and> Fin 0 \<le> h' \<and> h' \<le> h \<and> h' \<le> cs_MaxHealth st \<and>
    (Fin 0 < h \<longrightarrow> Fin 0 < h') \<and> i \<in> {WeaponID l', RelicID l', PotionID l'} \<and>
    Apply base h' l' i c rate = Inr (l', st, h')"
  using Apply_facts[OF assms] Apply_idempotent[OF assms(3)] by blast

theorem Apply_correct_witness:
  "loadout_ok sample_catalog (zero_loadout\<lparr>PotionID := 3001\<rparr>) \<and> CombatStats_Valid sample_base \<and>
   Apply sample_base (Fin 80) (zero_loadout\<lparr>PotionID := 3001\<rparr>) 3001 sample_catalog 30 =
     Inr (zero_loadout\<lparr>PotionID := 3001\<rparr>, sample_base, Fin 80)"
  using Apply_correct[OF sample_catalog_ok loadout_ok_zero sample_Apply] by blast

text \<open>Drinking the potion empties the slot, never lowers health, never exceeds the maximum, and the
  potion cannot be drunk twice.\<close>

theorem UsePotion_correct:
  assumes "catalog_ok c" and "is_f64 health" and "is_f64 maxHealth"
    and "UsePotion l health maxHealth c = Inr (l', h', used)"
  shows "used = PotionID l \<and> used \<noteq> 0 \<and> l' = l\<lparr>PotionID := 0\<rparr> \<and> health \<le> h' \<and> h' \<le> maxHealth \<and>
    is_f64 h' \<and> UsePotion l' h' maxHealth c = Inl ErrNoPotion"
  by (rule UsePotion_facts[OF assms])

theorem UsePotion_correct_witness:
  "\<exists>h'. UsePotion (zero_loadout\<lparr>PotionID := 3001\<rparr>) (Fin 80) (Fin 100) sample_catalog =
      Inr (zero_loadout, h', 3001) \<and> Fin 80 \<le> h' \<and> h' \<le> Fin 100"
proof -
  have u: "UsePotion (zero_loadout\<lparr>PotionID := 3001\<rparr>) (Fin 80) (Fin 100) sample_catalog = Inr (zero_loadout, Fin 100, 3001)"
    by (simp add: UsePotion_def sample_Require sample_potion_def zero_loadout_def)
  show ?thesis using UsePotion_correct[OF sample_catalog_ok _ _ u] u by simp
qed

text \<open>The magazine of any loadout over a valid catalog holds between 12 and 120 rounds; the additions
  on 64-bit words never wrap.\<close>

theorem MagazineCapacity_bounded:
  assumes "catalog_ok c" and "12 \<le> uint base" and "uint base \<le> 120"
  shows "12 \<le> uint (MagazineCapacity c l base) \<and> uint (MagazineCapacity c l base) \<le> 120"
  by (rule MagazineCapacity_bounds[OF assms])

theorem MagazineCapacity_bounded_witness:
  "12 \<le> uint (MagazineCapacity sample_catalog zero_loadout 12) \<and> uint (MagazineCapacity sample_catalog zero_loadout 12) \<le> 120"
  by (rule MagazineCapacity_bounded[OF sample_catalog_ok]) simp_all

end
