(* ===== verification/RewardRound.thy ===== *)
theory RewardRound
  imports Equipment
begin

text \<open>
  Package \<open>reward\<close> (\<open>round.go\<close>): the private offers of a stage, drawn per player by a SplitMix64
  shuffle of the catalog, and the selections made from them.  A \<open>*Round\<close> is \<open>Round option\<close>; the
  address that \<open>Selection.owner\<close> compares is the field \<open>r_self\<close>, and the caller of \<open>NewRound\<close>
  supplies the address of the allocation.
\<close>

section \<open>The generator\<close>

definition next_u64 :: "u64 \<Rightarrow> u64 \<times> u64" where
  "next_u64 state =
     (let state = state + 0x9e3779b97f4a7c15;
          z = state;
          z = (z XOR drop_bit 30 z) * 0xbf58476d1ce4e5b9;
          z = (z XOR drop_bit 27 z) * 0x94d049bb133111eb
      in (z XOR drop_bit 31 z, state))"

text \<open>The Fisher-Yates loop from index \<open>i\<close> down to 1, threading the generator's state.\<close>

definition swap :: "nat \<Rightarrow> nat \<Rightarrow> 'a list \<Rightarrow> 'a list" where
  "swap i j xs = xs[i := xs ! j, j := xs ! i]"

fun shuffle :: "nat \<Rightarrow> u64 \<Rightarrow> 'a list \<Rightarrow> 'a list" where
  "shuffle 0 state candidates = candidates"
| "shuffle (Suc i) state candidates =
     (case next_u64 state of (r, state') \<Rightarrow>
        let j = unat (r mod of_nat (Suc i + 1))
        in shuffle i state' (swap (Suc i) j candidates))"

section \<open>Rounds\<close>

record Offer =
  o_PlayerID :: entity_id
  o_EquipmentIDs :: "equip_id list"
  o_DeadlineTick :: u64
  o_SelectedID :: equip_id
  o_Defaulted :: bool

record Selection =
  s_owner :: nat
  s_playerID :: entity_id
  s_equipmentID :: equip_id
  s_defaulted :: bool

record Round =
  r_self :: nat
  r_stageIndex :: u32
  r_seed :: i64
  r_deadline :: u64
  r_offers :: "(entity_id, Offer) gomap"

datatype round_error =
    ErrInvalidRound
  | CatalogTooSmall int int
  | ErrUnknownPlayer
  | ErrChoiceNotOffered
  | ErrChoiceAlreadyMade
  | ErrChoiceExpired

definition MaxOptions :: int where
  "MaxOptions = 3"

definition offer_state :: "i64 \<Rightarrow> entity_id \<Rightarrow> u32 \<Rightarrow> u64" where
  "offer_state seed playerID stageIndex =
     seed XOR (playerID * 0x9e3779b97f4a7c15) XOR (ucast stageIndex * 0xbf58476d1ce4e5b9)"

definition new_offer :: "u32 \<Rightarrow> i64 \<Rightarrow> u64 \<Rightarrow> equip_id list \<Rightarrow> int \<Rightarrow> entity_id \<Rightarrow> Offer" where
  "new_offer stageIndex seed deadline ids optionCount playerID =
     (let candidates = shuffle (length ids - 1) (offer_state seed playerID stageIndex) ids
      in \<lparr>o_PlayerID = playerID, o_EquipmentIDs = take (nat optionCount) candidates,
          o_DeadlineTick = deadline, o_SelectedID = 0, o_Defaulted = False\<rparr>)"

definition bad_players :: "entity_id list \<Rightarrow> bool" where
  "bad_players ids \<longleftrightarrow> list_ex (\<lambda>i. ids ! i = 0 \<or> (0 < i \<and> ids ! i = ids ! (i - 1))) [0..<length ids]"

definition NewRound :: "nat \<Rightarrow> u32 \<Rightarrow> i64 \<Rightarrow> u64 \<Rightarrow> u64 \<Rightarrow> entity_id list \<Rightarrow> Catalog \<Rightarrow> int \<Rightarrow>
    round_error + Round" where
  "NewRound addr stageIndex seed openedAtTick durationTicks players catalog optionCount =
     (if stageIndex = 0 \<or> durationTicks = 0 \<or> - 1 - durationTicks < openedAtTick \<or> players = [] \<or>
         optionCount < 1 \<or> MaxOptions < optionCount
      then Inl ErrInvalidRound
      else if int (length (IDs catalog)) < optionCount
      then Inl (CatalogTooSmall (int (length (IDs catalog))) optionCount)
      else if bad_players (sort players) then Inl ErrInvalidRound
      else let deadline = openedAtTick + durationTicks
        in Inr \<lparr>r_self = addr, r_stageIndex = stageIndex, r_seed = seed, r_deadline = deadline,
                r_offers = map (\<lambda>playerID. (playerID,
                  new_offer stageIndex seed deadline (IDs catalog) optionCount playerID)) (sort players)\<rparr>)"

definition Offers :: "Round option \<Rightarrow> Offer list" where
  "Offers r = (case r of None \<Rightarrow> []
     | Some r \<Rightarrow> map (\<lambda>i. the (map_of (r_offers r) i)) (ordered_keys (r_offers r)))"

definition Offer_of :: "Round option \<Rightarrow> entity_id \<Rightarrow> Offer option" where
  "Offer_of r playerID = (case r of None \<Rightarrow> None | Some r \<Rightarrow> map_of (r_offers r) playerID)"

definition ValidateChoice :: "Round option \<Rightarrow> entity_id \<Rightarrow> equip_id \<Rightarrow> u64 \<Rightarrow> round_error + Selection" where
  "ValidateChoice r playerID equipmentID serverTick =
     (case r of None \<Rightarrow> Inl ErrInvalidRound
      | Some r \<Rightarrow>
        (case map_of (r_offers r) playerID of
           None \<Rightarrow> Inl ErrUnknownPlayer
         | Some offer \<Rightarrow>
           if o_SelectedID offer \<noteq> 0 then Inl ErrChoiceAlreadyMade
           else if o_DeadlineTick offer < serverTick then Inl ErrChoiceExpired
           else if equipmentID \<notin> set (o_EquipmentIDs offer) then Inl ErrChoiceNotOffered
           else Inr \<lparr>s_owner = r_self r, s_playerID = playerID, s_equipmentID = equipmentID,
                     s_defaulted = False\<rparr>))"

definition DueDefaults :: "Round option \<Rightarrow> u64 \<Rightarrow> Selection list" where
  "DueDefaults r serverTick =
     (case r of None \<Rightarrow> []
      | Some r \<Rightarrow>
        if serverTick \<le> r_deadline r then []
        else map (\<lambda>offer. \<lparr>s_owner = r_self r, s_playerID = o_PlayerID offer,
                     s_equipmentID = o_EquipmentIDs offer ! 0, s_defaulted = True\<rparr>)
               (filter (\<lambda>offer. o_SelectedID offer = 0) (Offers (Some r))))"

definition Commit :: "Round option \<Rightarrow> Selection \<Rightarrow> round_error + Round" where
  "Commit r selection =
     (case r of None \<Rightarrow> Inl ErrInvalidRound
      | Some r \<Rightarrow>
        if s_owner selection \<noteq> r_self r \<or> s_playerID selection = 0 \<or> s_equipmentID selection = 0
        then Inl ErrInvalidRound
        else (case map_of (r_offers r) (s_playerID selection) of
            None \<Rightarrow> Inl ErrUnknownPlayer
          | Some offer \<Rightarrow>
            if o_SelectedID offer \<noteq> 0 then Inl ErrChoiceAlreadyMade
            else if s_equipmentID selection \<notin> set (o_EquipmentIDs offer) \<or>
                (s_defaulted selection \<and> s_equipmentID selection \<noteq> o_EquipmentIDs offer ! 0)
            then Inl ErrChoiceNotOffered
            else Inr (r\<lparr>r_offers := map_adjust (s_playerID selection)
              (\<lambda>offer. offer\<lparr>o_SelectedID := s_equipmentID selection, o_Defaulted := s_defaulted selection\<rparr>)
              (r_offers r)\<rparr>)))"

definition Complete :: "Round option \<Rightarrow> bool" where
  "Complete r = (case r of None \<Rightarrow> False
     | Some r \<Rightarrow> r_offers r \<noteq> [] \<and> list_all (\<lambda>(_, offer). o_SelectedID offer \<noteq> 0) (r_offers r))"

definition RemovePlayer_round :: "Round option \<Rightarrow> entity_id \<Rightarrow> Round option \<times> bool" where
  "RemovePlayer_round r playerID =
     (case r of None \<Rightarrow> (None, False)
      | Some r \<Rightarrow>
        (case map_of (r_offers r) playerID of
           None \<Rightarrow> (Some r, False)
         | Some _ \<Rightarrow> (Some (r\<lparr>r_offers := AList.delete playerID (r_offers r)\<rparr>), True)))"

section \<open>The shuffle is a permutation\<close>

lemma mset_swap_list [simp]: "i < length xs \<Longrightarrow> j < length xs \<Longrightarrow> mset (swap i j xs) = mset xs"
  by (simp add: swap_def mset_swap)

lemma length_swap [simp]: "length (swap i j xs) = length xs"
  by (simp add: swap_def)

lemma mod_index_less:
  assumes "0 < n" and "n < 2 ^ 64"
  shows "unat (r mod (of_nat n :: u64)) < n"
proof -
  have "unat (of_nat n :: u64) = n" using assms(2) by (simp add: unat_of_nat take_bit_nat_eq_self)
  then show ?thesis using assms(1) by (metis mod_less_divisor unat_mod)
qed

lemma mset_shuffle: "i < length xs \<Longrightarrow> length xs \<le> 2 ^ 63 \<Longrightarrow> mset (shuffle i s xs) = mset xs"
proof (induction i s xs rule: shuffle.induct)
  case (2 i s xs)
  obtain r s' where n: "next_u64 s = (r, s')" by (cases "next_u64 s")
  have "unat (r mod of_nat (Suc i + 1)) < length xs"
    using mod_index_less[of "Suc i + 1" r] 2(2,3) by simp
  then show ?case using 2 by (simp add: n)
qed simp

lemma set_shuffle: "i < length xs \<Longrightarrow> length xs \<le> 2 ^ 63 \<Longrightarrow> set (shuffle i s xs) = set xs"
  by (metis mset_shuffle set_mset_mset)

lemma distinct_shuffle:
  "i < length xs \<Longrightarrow> length xs \<le> 2 ^ 63 \<Longrightarrow> distinct (shuffle i s xs) = distinct xs"
  by (metis mset_shuffle mset_eq_imp_distinct_iff)

lemma length_shuffle: "i < length xs \<Longrightarrow> length xs \<le> 2 ^ 63 \<Longrightarrow> length (shuffle i s xs) = length xs"
  by (metis mset_shuffle size_mset)

section \<open>Invariant of a round\<close>

definition offer_ok :: "equip_id list \<Rightarrow> int \<Rightarrow> entity_id \<Rightarrow> Offer \<Rightarrow> bool" where
  "offer_ok ids n i offer \<longleftrightarrow> o_PlayerID offer = i \<and> i \<noteq> 0 \<and> distinct (o_EquipmentIDs offer) \<and>
     set (o_EquipmentIDs offer) \<subseteq> set ids \<and> int (length (o_EquipmentIDs offer)) = n \<and> 1 \<le> n \<and>
     (o_SelectedID offer \<noteq> 0 \<longrightarrow> o_SelectedID offer \<in> set (o_EquipmentIDs offer)) \<and>
     (o_Defaulted offer \<longrightarrow> o_SelectedID offer = o_EquipmentIDs offer ! 0)"

definition round_ok :: "equip_id list \<Rightarrow> int \<Rightarrow> Round \<Rightarrow> bool" where
  "round_ok ids n r \<longleftrightarrow> map_ok (r_offers r) \<and> 0 \<notin> set ids \<and>
     (\<forall>i offer. map_of (r_offers r) i = Some offer \<longrightarrow>
        offer_ok ids n i offer \<and> o_DeadlineTick offer = r_deadline r)"

lemma round_okD:
  "round_ok ids n r \<Longrightarrow> map_of (r_offers r) i = Some offer \<Longrightarrow>
     offer_ok ids n i offer \<and> o_DeadlineTick offer = r_deadline r"
  by (simp add: round_ok_def)

lemma offer_ok_first: "offer_ok ids n i offer \<Longrightarrow> o_EquipmentIDs offer ! 0 \<in> set (o_EquipmentIDs offer)"
  unfolding offer_ok_def by (intro nth_mem) auto

lemma catalog_ids_pos: "catalog_ok c \<Longrightarrow> 0 \<notin> set (IDs c)"
  by (auto simp: catalog_ok_def items_ok_def IDs_def Definition_validate_def split: if_splits)

lemma catalog_ids_length: "catalog_ok c \<Longrightarrow> length (IDs c) \<le> 2 ^ 63"
proof -
  assume "catalog_ok c"
  then have "distinct (IDs c)" by (simp add: catalog_ok_def IDs_def)
  then have "length (IDs c) = card (set (IDs c))" by (simp add: distinct_card)
  also have "\<dots> \<le> card (UNIV :: u32 set)" by (intro card_mono) auto
  also have "\<dots> \<le> 2 ^ 63" by (simp add: card_word)
  finally show ?thesis .
qed

lemma new_offer_ok:
  assumes "catalog_ok c" and "1 \<le> n" and "n \<le> int (length (IDs c))" and "i \<noteq> 0"
  shows "offer_ok (IDs c) n i (new_offer si seed d (IDs c) n i)"
proof -
  have l: "length (IDs c) - 1 < length (IDs c)" using assms(2,3) by auto
  note sh = set_shuffle[OF l] distinct_shuffle[OF l] length_shuffle[OF l]
  have "distinct (IDs c)" using assms(1) by (simp add: catalog_ok_def IDs_def)
  then show ?thesis
    using assms sh catalog_ids_length[OF assms(1)]
    by (auto simp: offer_ok_def new_offer_def Let_def dest!: in_set_takeD)
qed

lemma good_players:
  assumes "sorted ps" and "\<not> bad_players ps"
  shows "distinct ps \<and> 0 \<notin> set ps"
proof -
  have nz: "0 \<notin> set ps" using assms(2) by (auto simp: bad_players_def list_ex_iff in_set_conv_nth)
  have "ps ! i \<noteq> ps ! j" if "i < j" "j < length ps" for i j
  proof -
    have "j \<in> set [0..<length ps]" "0 < j" using that by auto
    then have "ps ! j \<noteq> ps ! (j - 1)" using assms(2) unfolding bad_players_def list_ex_iff by blast
    moreover have "ps ! i \<le> ps ! (j - 1)" "ps ! (j - 1) \<le> ps ! j"
      using assms(1) that by (auto simp: sorted_iff_nth_mono)
    ultimately show ?thesis by auto
  qed
  then have "distinct ps" unfolding distinct_conv_nth by (metis nat_neq_iff)
  with nz show ?thesis by simp
qed

lemma NewRound_split:
  assumes "NewRound addr si seed t dur players c n = Inr r"
  shows "r = \<lparr>r_self = addr, r_stageIndex = si, r_seed = seed, r_deadline = t + dur,
       r_offers = map (\<lambda>i. (i, new_offer si seed (t + dur) (IDs c) n i)) (sort players)\<rparr>"
    and "1 \<le> n" "n \<le> int (length (IDs c))" "n \<le> 3" "players \<noteq> []" "si \<noteq> 0"
    and "\<not> bad_players (sort players)" "t \<le> - 1 - dur" "dur \<noteq> 0"
  using assms by (auto simp: NewRound_def MaxOptions_def Let_def split: if_splits)

lemma NewRound_ok:
  assumes "catalog_ok c" and "NewRound addr si seed t dur players c n = Inr r"
  shows "round_ok (IDs c) n r \<and> dom (map_of (r_offers r)) = set players \<and> distinct players \<and>
    r_offers r \<noteq> [] \<and> (\<forall>offer \<in> set (Offers (Some r)). o_SelectedID offer = 0)"
proof -
  note s = NewRound_split[OF assms(2)]
  have g: "distinct (sort players)" "0 \<notin> set players" using good_players[of "sort players"] s(7) by auto
  let ?f = "new_offer si seed (t + dur) (IDs c) n"
  have m: "map_of (r_offers r) i = (if i \<in> set players then Some (?f i) else None)" for i
    by (simp add: s(1) map_of_tabulate)
  have "map_ok (r_offers r)" using g(1) by (simp add: s(1) map_ok_def keys_def comp_def)
  moreover have "offer_ok (IDs c) n i (?f i)" if "i \<in> set players" for i
    using that g(2) by (intro new_offer_ok assms(1) s) auto
  moreover have d: "o_DeadlineTick (?f i) = r_deadline r" "o_SelectedID (?f i) = 0" for i
    by (simp_all add: new_offer_def Let_def s(1))
  ultimately have "round_ok (IDs c) n r"
    using catalog_ids_pos[OF assms(1)] by (simp add: round_ok_def m)
  moreover have "dom (map_of (r_offers r)) = set players" using m by (auto split: if_splits)
  moreover have "r_offers r \<noteq> []" using s(5) by (simp add: s(1)) (metis sort_key_simps(1) set_empty2 set_sort)
  moreover have "o_SelectedID offer = 0" if "offer \<in> set (Offers (Some r))" for offer
    using that d(2) by (auto simp: Offers_def m split: if_splits)
  ultimately show ?thesis using g(1) by simp
qed


section \<open>Selecting\<close>

lemma ordered_keys_lookup: "i \<in> set (ordered_keys m) \<Longrightarrow> \<exists>v. map_of m i = Some v"
  by auto

lemma set_Offers:
  "map_ok (r_offers r) \<Longrightarrow> set (Offers (Some r)) = {offer. \<exists>i. map_of (r_offers r) i = Some offer}"
  by (force simp: Offers_def image_iff)

lemma Commit_split:
  "Commit (Some r) s = Inr r' \<longleftrightarrow> s_owner s = r_self r \<and> s_playerID s \<noteq> 0 \<and> s_equipmentID s \<noteq> 0 \<and>
     (\<exists>offer. map_of (r_offers r) (s_playerID s) = Some offer \<and> o_SelectedID offer = 0 \<and>
        s_equipmentID s \<in> set (o_EquipmentIDs offer) \<and>
        (s_defaulted s \<longrightarrow> s_equipmentID s = o_EquipmentIDs offer ! 0)) \<and>
     r' = r\<lparr>r_offers := map_adjust (s_playerID s)
              (\<lambda>offer. offer\<lparr>o_SelectedID := s_equipmentID s, o_Defaulted := s_defaulted s\<rparr>) (r_offers r)\<rparr>"
  by (auto simp: Commit_def split: option.splits if_splits)

lemma Commit_offers:
  assumes "Commit (Some r) s = Inr r'"
  shows "map_of (r_offers r') i = (if i = s_playerID s
    then map_option (\<lambda>offer. offer\<lparr>o_SelectedID := s_equipmentID s, o_Defaulted := s_defaulted s\<rparr>)
      (map_of (r_offers r) i) else map_of (r_offers r) i)"
    and "keys (r_offers r') = keys (r_offers r)" "r_self r' = r_self r" "r_deadline r' = r_deadline r"
  using assms by (auto simp: Commit_split map_of_map_adjust)

lemma offer_ok_select:
  "offer_ok ids n i offer \<Longrightarrow> e \<in> set (o_EquipmentIDs offer) \<Longrightarrow> (d \<longrightarrow> e = o_EquipmentIDs offer ! 0) \<Longrightarrow>
     offer_ok ids n i (offer\<lparr>o_SelectedID := e, o_Defaulted := d\<rparr>)"
  by (simp add: offer_ok_def)

lemma offer_ok_pos: "offer_ok ids n i offer \<Longrightarrow> 0 \<notin> set ids \<Longrightarrow> e \<in> set (o_EquipmentIDs offer) \<Longrightarrow> e \<noteq> 0"
  unfolding offer_ok_def by blast

lemma Commit_round_ok:
  assumes "round_ok ids n r" and "Commit (Some r) s = Inr r'"
  shows "round_ok ids n r'"
proof -
  have "map_ok (r_offers r')" using assms Commit_offers(2)[OF assms(2)] by (simp add: round_ok_def map_ok_def)
  moreover have "offer_ok ids n i offer \<and> o_DeadlineTick offer = r_deadline r'"
    if "map_of (r_offers r') i = Some offer" for i offer
  proof (cases "i = s_playerID s")
    case True
    obtain old where old: "map_of (r_offers r) i = Some old" "s_equipmentID s \<in> set (o_EquipmentIDs old)"
      "s_defaulted s \<longrightarrow> s_equipmentID s = o_EquipmentIDs old ! 0"
      using assms(2) True by (auto simp: Commit_split)
    have "offer = old\<lparr>o_SelectedID := s_equipmentID s, o_Defaulted := s_defaulted s\<rparr>"
      using that True old by (simp add: Commit_offers[OF assms(2)])
    then show ?thesis
      using offer_ok_select[OF _ old(2,3)] round_okD[OF assms(1) old(1)] by (simp add: Commit_offers[OF assms(2)])
  next
    case False
    then show ?thesis using that round_okD[OF assms(1)] by (simp add: Commit_offers[OF assms(2)])
  qed
  ultimately show ?thesis using assms(1) by (simp add: round_ok_def)
qed

lemma RemovePlayer_round_ok:
  "round_ok ids n r \<Longrightarrow> RemovePlayer_round (Some r) i = (Some r', b) \<Longrightarrow> round_ok ids n r'"
  by (auto simp: RemovePlayer_round_def round_ok_def delete_conv' split: option.splits if_splits)

lemma Complete_iff:
  "map_ok (r_offers r) \<Longrightarrow> Complete (Some r) \<longleftrightarrow> r_offers r \<noteq> [] \<and>
     (\<forall>i offer. map_of (r_offers r) i = Some offer \<longrightarrow> o_SelectedID offer \<noteq> 0)"
  by (fastforce simp: Complete_def list_all_iff map_ok_def keys_def dest: map_of_SomeD map_of_is_SomeI)

lemma ValidateChoice_split:
  "ValidateChoice (Some r) p e t = Inr s \<longleftrightarrow>
     (\<exists>offer. map_of (r_offers r) p = Some offer \<and> o_SelectedID offer = 0 \<and> t \<le> o_DeadlineTick offer \<and>
        e \<in> set (o_EquipmentIDs offer)) \<and>
     s = \<lparr>s_owner = r_self r, s_playerID = p, s_equipmentID = e, s_defaulted = False\<rparr>"
  by (auto simp: ValidateChoice_def not_less split: option.splits)

lemma ValidateChoice_commits:
  assumes "round_ok ids n r" and "ValidateChoice (Some r) p e t = Inr s"
  shows "\<exists>r'. Commit (Some r) s = Inr r'"
  using assms by (fastforce simp: ValidateChoice_split Commit_split round_ok_def offer_ok_def)

text \<open>The loop that settles selections one after the other, as \<open>stepReward\<close> does.\<close>

fun commit_all :: "Round \<Rightarrow> Selection list \<Rightarrow> round_error + Round" where
  "commit_all r [] = Inr r"
| "commit_all r (s # ss) = (case Commit (Some r) s of Inl e \<Rightarrow> Inl e | Inr r' \<Rightarrow> commit_all r' ss)"

definition default_for :: "Round \<Rightarrow> Selection \<Rightarrow> bool" where
  "default_for r s \<longleftrightarrow> s_owner s = r_self r \<and> s_defaulted s \<and> (\<exists>offer. map_of (r_offers r) (s_playerID s) = Some offer \<and>
     o_SelectedID offer = 0 \<and> s_equipmentID s = o_EquipmentIDs offer ! 0)"

lemma default_commits:
  assumes "round_ok ids n r" and "default_for r s"
  shows "\<exists>r'. Commit (Some r) s = Inr r'"
proof -
  obtain offer where o: "map_of (r_offers r) (s_playerID s) = Some offer" "o_SelectedID offer = 0"
    "s_equipmentID s = o_EquipmentIDs offer ! 0" "s_owner s = r_self r"
    using assms(2) by (auto simp: default_for_def)
  then have "offer_ok ids n (s_playerID s) offer" "0 \<notin> set ids" using assms(1) by (auto simp: round_ok_def)
  then show ?thesis
    using o offer_ok_first[of ids n "s_playerID s" offer] by (fastforce simp: Commit_split offer_ok_def)
qed

lemma default_for_Commit:
  "Commit (Some r) s = Inr r' \<Longrightarrow> default_for r t \<Longrightarrow> s_playerID t \<noteq> s_playerID s \<Longrightarrow> default_for r' t"
  by (simp add: default_for_def Commit_offers)

lemma commit_all_defaults:
  assumes "round_ok ids n r" and "\<forall>s \<in> set ss. default_for r s" and "distinct (map s_playerID ss)"
  shows "\<exists>r'. commit_all r ss = Inr r' \<and> round_ok ids n r' \<and> keys (r_offers r') = keys (r_offers r) \<and>
    (\<forall>i. map_of (r_offers r') i = (case find (\<lambda>s. s_playerID s = i) ss of None \<Rightarrow> map_of (r_offers r) i
       | Some s \<Rightarrow> map_option (\<lambda>offer. offer\<lparr>o_SelectedID := s_equipmentID s, o_Defaulted := True\<rparr>)
           (map_of (r_offers r) i)))"
  using assms
proof (induction ss arbitrary: r)
  case (Cons s ss)
  obtain r' where c: "Commit (Some r) s = Inr r'" using default_commits Cons.prems by fastforce
  have n: "s_playerID t \<noteq> s_playerID s" if "t \<in> set ss" for t
    using Cons.prems(3) that by (metis distinct.simps(2) image_eqI list.set_map list.simps(9))
  have "\<forall>t \<in> set ss. default_for r' t" using default_for_Commit[OF c] n Cons.prems(2) by simp
  then obtain r'' where r'': "commit_all r' ss = Inr r''" "round_ok ids n r''" "keys (r_offers r'') = keys (r_offers r')"
    "\<And>i. map_of (r_offers r'') i = (case find (\<lambda>s. s_playerID s = i) ss of None \<Rightarrow> map_of (r_offers r') i
       | Some s \<Rightarrow> map_option (\<lambda>offer. offer\<lparr>o_SelectedID := s_equipmentID s, o_Defaulted := True\<rparr>)
           (map_of (r_offers r') i))"
    using Cons.IH[of r'] Commit_round_ok[OF _ c] Cons.prems by auto
  have f: "find (\<lambda>t. s_playerID t = s_playerID s) ss = None" using n by (simp add: find_None_iff)
  have d: "s_defaulted s" using Cons.prems(2) by (simp add: default_for_def)
  have "map_of (r_offers r'') i = (case find (\<lambda>s. s_playerID s = i) (s # ss) of None \<Rightarrow> map_of (r_offers r) i
       | Some s \<Rightarrow> map_option (\<lambda>offer. offer\<lparr>o_SelectedID := s_equipmentID s, o_Defaulted := True\<rparr>)
           (map_of (r_offers r) i))" for i
    by (cases "i = s_playerID s") (auto simp: r''(4) Commit_offers[OF c] f d split: option.splits)
  then show ?case using c r'' Commit_offers[OF c] by simp
qed simp

lemma DueDefaults_default_for:
  assumes "round_ok ids n r" and "s \<in> set (DueDefaults (Some r) t)"
  shows "default_for r s"
  using assms by (auto simp: DueDefaults_def set_Offers default_for_def round_ok_def offer_ok_def split: if_splits)

lemma distinct_DueDefaults:
  assumes "round_ok ids n r"
  shows "distinct (map s_playerID (DueDefaults (Some r) t))"
proof -
  have id: "o_PlayerID (the (map_of (r_offers r) i)) = i" if "i \<in> set (ordered_keys (r_offers r))" for i
    using assms that by (auto simp: round_ok_def offer_ok_def)
  have "map o_PlayerID (Offers (Some r)) = ordered_keys (r_offers r)"
    unfolding Offers_def option.case map_map comp_def using id by (intro map_idI)
  then have "distinct (map o_PlayerID (Offers (Some r)))" using assms by (simp add: round_ok_def)
  then have "distinct (map o_PlayerID (filter P (Offers (Some r))))" for P by (rule distinct_map_filter)
  then show ?thesis by (simp add: DueDefaults_def comp_def)
qed

lemma find_DueDefaults:
  assumes "round_ok ids n r" and "r_deadline r < t" and "map_of (r_offers r) i = Some offer" "o_SelectedID offer = 0"
  shows "\<exists>s. find (\<lambda>s. s_playerID s = i) (DueDefaults (Some r) t) = Some s"
proof -
  have "offer \<in> set (Offers (Some r))" "o_PlayerID offer = i"
    using assms by (auto simp: set_Offers round_ok_def offer_ok_def)
  then have "\<exists>s \<in> set (DueDefaults (Some r) t). s_playerID s = i"
    using assms(2,4) by (auto simp: DueDefaults_def)
  then show ?thesis by (metis (mono_tags, lifting) find_None_iff option.exhaust)
qed

lemma defaults_complete:
  assumes "round_ok ids n r" and "r_offers r \<noteq> []" and "r_deadline r < t"
  shows "\<exists>r'. commit_all r (DueDefaults (Some r) t) = Inr r' \<and> Complete (Some r') \<and> round_ok ids n r' \<and>
    (\<forall>i offer. map_of (r_offers r) i = Some offer \<and> o_SelectedID offer \<noteq> 0 \<longrightarrow> map_of (r_offers r') i = Some offer) \<and>
    (\<forall>i offer. map_of (r_offers r) i = Some offer \<and> o_SelectedID offer = 0 \<longrightarrow>
       map_of (r_offers r') i = Some (offer\<lparr>o_SelectedID := o_EquipmentIDs offer ! 0, o_Defaulted := True\<rparr>))"
proof -
  let ?ss = "DueDefaults (Some r) t"
  have df: "\<forall>s \<in> set ?ss. default_for r s" using DueDefaults_default_for[OF assms(1)] by blast
  obtain r' where r': "commit_all r ?ss = Inr r'" "round_ok ids n r'" "keys (r_offers r') = keys (r_offers r)"
    "\<And>i. map_of (r_offers r') i = (case find (\<lambda>s. s_playerID s = i) ?ss of None \<Rightarrow> map_of (r_offers r) i
       | Some s \<Rightarrow> map_option (\<lambda>offer. offer\<lparr>o_SelectedID := s_equipmentID s, o_Defaulted := True\<rparr>)
           (map_of (r_offers r) i))"
    using commit_all_defaults[OF assms(1) df distinct_DueDefaults[OF assms(1)]] by blast
  have sel: "map_of (r_offers r') i = Some offer"
    if "map_of (r_offers r) i = Some offer" "o_SelectedID offer \<noteq> 0" for i offer
  proof -
    have "s_playerID s \<noteq> i" if "s \<in> set ?ss" for s
      using df that \<open>map_of (r_offers r) i = Some offer\<close> \<open>o_SelectedID offer \<noteq> 0\<close> by (auto simp: default_for_def)
    then have "find (\<lambda>s. s_playerID s = i) ?ss = None" by (auto simp: find_None_iff)
    then show ?thesis using that(1) r'(4) by simp
  qed
  have uns: "map_of (r_offers r') i = Some (offer\<lparr>o_SelectedID := o_EquipmentIDs offer ! 0, o_Defaulted := True\<rparr>)"
    if o: "map_of (r_offers r) i = Some offer" "o_SelectedID offer = 0" for i offer
  proof -
    obtain s where s: "find (\<lambda>s. s_playerID s = i) ?ss = Some s"
      using find_DueDefaults[OF assms(1,3) o] by blast
    then have "default_for r s" "s_playerID s = i" using df by (auto simp: find_Some_iff)
    then show ?thesis using s o r'(4)[of i] by (auto simp: default_for_def)
  qed
  have pos: "o_EquipmentIDs offer ! 0 \<noteq> 0" if "map_of (r_offers r) i = Some offer" for i offer
    using round_okD[OF assms(1) that] assms(1) offer_ok_pos offer_ok_first[of ids n i offer]
    by (metis round_ok_def)
  have "Complete (Some r')"
  proof -
    have "r_offers r' \<noteq> []" using r'(3) assms(2) by (auto simp: keys_def)
    moreover have "o_SelectedID offer' \<noteq> 0" if "map_of (r_offers r') i = Some offer'" for i offer'
    proof -
      have "i \<in> set (keys (r_offers r))" using that r'(3) map_of_in_keys by metis
      then obtain offer where "map_of (r_offers r) i = Some offer" by (auto simp: set_keys)
      then show ?thesis using sel uns pos that by (cases "o_SelectedID offer = 0") auto
    qed
    ultimately show ?thesis using r'(2) by (simp add: Complete_iff round_ok_def)
  qed
  then show ?thesis using r' sel uns by blast
qed

section \<open>Properties\<close>

text \<open>C9: A new round makes one private offer per player, of distinct items drawn from the catalog, none
  selected yet and all with the deadline of the round, and the offers do not depend on the order in
  which the players were listed.\<close>

theorem NewRound_offers:
  assumes "catalog_ok c" and "NewRound addr si seed t dur players c n = Inr r" and "mset players' = mset players"
  shows "dom (map_of (r_offers r)) = set players \<and>
    (\<forall>i offer. map_of (r_offers r) i = Some offer \<longrightarrow> o_PlayerID offer = i \<and> distinct (o_EquipmentIDs offer) \<and>
       set (o_EquipmentIDs offer) \<subseteq> set (IDs c) \<and> int (length (o_EquipmentIDs offer)) = n \<and>
       o_SelectedID offer = 0 \<and> o_DeadlineTick offer = t + dur) \<and> t \<le> t + dur \<and>
    NewRound addr si seed t dur players' c n = Inr r"
proof -
  note ok = NewRound_ok[OF assms(1,2)] and sp = NewRound_split[OF assms(2)]
  have sort: "sort players' = sort players" using assms(3) by (metis mset_sort properties_for_sort sorted_sort)
  have "players' = [] \<longleftrightarrow> players = []" using assms(3) by auto
  then have "NewRound addr si seed t dur players' c n = NewRound addr si seed t dur players c n"
    unfolding NewRound_def by (simp only: sort)
  then have "NewRound addr si seed t dur players' c n = Inr r" using assms(2) by simp
  moreover have "map_ok (r_offers r)" using ok by (simp add: round_ok_def)
  moreover have "t \<le> t + dur"
  proof -
    have "unat t \<le> unat (- 1 - dur)" using sp(8) by (simp add: word_le_nat_alt)
    also have "unat (- 1 - dur) = 2 ^ 64 - 1 - unat dur" by (simp add: unat_sub unsigned_minus_1_eq_mask mask_eq_exp_minus_1)
    finally have "unat t + unat dur < 2 ^ 64" using unsigned_less[of dur, where ?'a = nat] by simp
    then show ?thesis by (simp add: no_olen_add_nat)
  qed
  ultimately show ?thesis using ok sp(1) set_Offers[of r] round_okD[of "IDs c" n r]
    by (auto simp: offer_ok_def)
qed

theorem NewRound_offers_witness:
  "\<exists>r. NewRound 0 1 5 0 90 [2, 1] sample_catalog 1 = Inr r \<and> dom (map_of (r_offers r)) = {1, 2} \<and>
     NewRound 0 1 5 0 90 [1, 2] sample_catalog 1 = Inr r"
proof -
  have "\<exists>r. NewRound 0 1 5 0 90 [2, 1] sample_catalog 1 = Inr r"
    by (simp add: NewRound_def MaxOptions_def IDs_def sample_catalog_def bad_players_def Let_def)
  then show ?thesis using NewRound_offers[OF sample_catalog_ok, of 0 1 5 0 90 "[2, 1]" 1 _ "[1, 2]"] by auto
qed

end
