(* ===== verification/Arena.thy ===== *)
theory Arena
  imports Equipment
begin

text \<open>
  The configuration of a world (\<open>Config\<close>, \<open>CombatConfig\<close>) and its geometry (\<open>arena.go\<close>): the cover
  blocks of a stage, movement that slides along them, spawn positions moved out of them, the first
  contact of a segment with a block, and the visibility-graph search a monster steers by.
\<close>

section \<open>Configuration\<close>

record CombatConfig =
  cc_PlayerStats :: CombatStats
  cc_ProjectileSpeed :: f64
  cc_ProjectileRadius :: f64
  cc_ProjectileLifetimeTicks :: u32
  cc_MaxMonsters :: int
  cc_MaxProjectiles :: int

record Config =
  g_Capacity :: int
  g_Min :: Vec2
  g_Max :: Vec2
  g_Spawn :: Vec2
  g_MoveSpeed :: f64
  g_InputTimeout :: duration
  g_CoverEnabled :: bool
  g_StageLimit :: u32
  g_Combat :: CombatConfig

definition DefaultCombatConfig :: CombatConfig where
  "DefaultCombatConfig = \<lparr>cc_PlayerStats = \<lparr>cs_Attack = Fin 20, cs_Defense = Fin 0, cs_MaxHealth = Fin 100,
       cs_MoveSpeed = Fin 5, cs_AttackCooldownTicks = 6\<rparr>,
     cc_ProjectileSpeed = Fin 20, cc_ProjectileRadius = fl (1 / 10), cc_ProjectileLifetimeTicks = 60,
     cc_MaxMonsters = 64, cc_MaxProjectiles = 256\<rparr>"

definition DefaultConfig :: Config where
  "DefaultConfig = \<lparr>g_Capacity = 2, g_Min = zero_vec, g_Max = vec2 (Fin 20) (Fin 20),
     g_Spawn = vec2 (Fin 10) (Fin 10), g_MoveSpeed = Fin 5, g_InputTimeout = 200 * 1000000,
     g_CoverEnabled = True, g_StageLimit = 12, g_Combat = DefaultCombatConfig\<rparr>"

definition CombatConfig_valid :: "CombatConfig \<Rightarrow> bool" where
  "CombatConfig_valid c \<longleftrightarrow> CombatStats_Valid (cc_PlayerStats c) \<and>
     \<not> IsNaN (cc_ProjectileSpeed c) \<and> \<not> IsInf (cc_ProjectileSpeed c) \<and>
     Fin 0 < cc_ProjectileSpeed c \<and> cc_ProjectileSpeed c \<le> Fin 10000 \<and>
     \<not> IsNaN (cc_ProjectileRadius c) \<and> \<not> IsInf (cc_ProjectileRadius c) \<and>
     Fin 0 < cc_ProjectileRadius c \<and> cc_ProjectileRadius c \<le> Fin 10 \<and>
     0 < cc_ProjectileLifetimeTicks c \<and> cc_ProjectileLifetimeTicks c \<le> 18000 \<and>
     0 < cc_MaxMonsters c \<and> cc_MaxMonsters c \<le> 128 \<and> 0 < cc_MaxProjectiles c \<and> cc_MaxProjectiles c \<le> 1024"

definition Config_Validate :: "Config \<Rightarrow> bool" where
  "Config_Validate c \<longleftrightarrow> \<not> (
     g_Capacity c < 1 \<or> \<not> Vec2_Finite (g_Min c) \<or> \<not> Vec2_Finite (g_Max c) \<or> \<not> Vec2_Finite (g_Spawn c) \<or>
     X (g_Max c) \<le> X (g_Min c) \<or> Y (g_Max c) \<le> Y (g_Min c) \<or>
     Fin 1000000 < \<bar>X (g_Min c)\<bar> \<or> Fin 1000000 < \<bar>Y (g_Min c)\<bar> \<or>
     Fin 1000000 < \<bar>X (g_Max c)\<bar> \<or> Fin 1000000 < \<bar>Y (g_Max c)\<bar> \<or>
     X (g_Spawn c) < X (g_Min c) \<or> X (g_Max c) < X (g_Spawn c) \<or>
     Y (g_Spawn c) < Y (g_Min c) \<or> Y (g_Max c) < Y (g_Spawn c) \<or>
     IsNaN (g_MoveSpeed c) \<or> IsInf (g_MoveSpeed c) \<or> g_MoveSpeed c \<le> Fin 0 \<or> Fin 1000000 < g_MoveSpeed c \<or>
     g_InputTimeout c \<le> 0 \<or> \<not> CombatConfig_valid (g_Combat c))"

definition TickRate :: int where "TickRate = 30"
definition SnapshotEvery :: u64 where "SnapshotEvery = 3"
definition AIDecisionEvery :: u64 where "AIDecisionEvery = 3"
definition StepSeconds :: f64 where "StepSeconds = fl (1 / 30)"

section \<open>Cover blocks\<close>

record coverBlock =
  cb_min :: Vec2
  cb_max :: Vec2

record normalizedBlock =
  minX :: f64
  minY :: f64
  maxX :: f64
  maxY :: f64

text \<open>A literal block: four constants with two decimals.\<close>

definition nblock :: "int \<Rightarrow> int \<Rightarrow> int \<Rightarrow> int \<Rightarrow> normalizedBlock" where
  "nblock a b c d = \<lparr>minX = fl (of_int a / 100), minY = fl (of_int b / 100),
     maxX = fl (of_int c / 100), maxY = fl (of_int d / 100)\<rparr>"

definition authored_blocks :: "u32 \<Rightarrow> normalizedBlock list" where
  "authored_blocks i =
     (if i = 0 then
        [nblock 23 15 28 42, nblock 23 58 28 85, nblock 72 15 77 44, nblock 72 60 77 85,
         nblock 39 27 61 32, nblock 39 68 61 73]
      else if i = 1 then
        [nblock 27 27 44 31, nblock 56 27 73 31, nblock 27 69 44 73, nblock 56 69 73 73,
         nblock 27 34 31 46, nblock 27 54 31 66, nblock 69 34 73 46, nblock 69 54 73 66]
      else if i = 2 then
        [nblock 10 30 42 35, nblock 58 30 90 35, nblock 18 65 46 70, nblock 54 65 82 70,
         nblock 18 43 23 57, nblock 77 43 82 57]
      else if i = 3 then
        [nblock 22 21 70 26, nblock 70 21 75 59, nblock 39 59 75 64, nblock 34 40 39 64,
         nblock 34 35 58 40, nblock 58 35 63 50]
      else if i = 4 then
        [nblock 14 20 35 25, nblock 14 20 19 40, nblock 65 20 86 25, nblock 81 20 86 40,
         nblock 14 75 35 80, nblock 14 60 19 80, nblock 65 75 86 80, nblock 81 60 86 80]
      else if i = 5 then
        [nblock 10 19 34 24, nblock 29 19 34 39, nblock 38 38 62 43, nblock 38 38 43 58,
         nblock 66 61 90 66, nblock 66 61 71 81]
      else [])"

definition pointInBlock :: "Vec2 \<Rightarrow> coverBlock \<Rightarrow> f64 \<Rightarrow> bool" where
  "pointInBlock point block radius \<longleftrightarrow>
     X (cb_min block) - radius < X point \<and> X point < X (cb_max block) + radius \<and>
     Y (cb_min block) - radius < Y point \<and> Y point < Y (cb_max block) + radius"

definition mirror_block :: "normalizedBlock \<Rightarrow> normalizedBlock" where
  "mirror_block b = \<lparr>minX = Fin 1 - maxX b, minY = minY b, maxX = Fin 1 - minX b, maxY = maxY b\<rparr>"

definition rotate_block :: "normalizedBlock \<Rightarrow> normalizedBlock" where
  "rotate_block b = \<lparr>minX = Fin 1 - maxY b, minY = minX b, maxX = Fin 1 - minY b, maxY = maxX b\<rparr>"

definition transform_block :: "u64 \<Rightarrow> normalizedBlock \<Rightarrow> normalizedBlock" where
  "transform_block variant block =
     (rotate_block ^^ unat (variant AND 3))
       (if drop_bit 2 variant AND 1 \<noteq> 0 then mirror_block block else block)"

definition world_block :: "Config \<Rightarrow> normalizedBlock \<Rightarrow> coverBlock" where
  "world_block config block =
     (let width = X (g_Max config) - X (g_Min config); height = Y (g_Max config) - Y (g_Min config)
      in \<lparr>cb_min = vec2 (X (g_Min config) + width * minX block) (Y (g_Min config) + height * minY block),
          cb_max = vec2 (X (g_Min config) + width * maxX block) (Y (g_Min config) + height * maxY block)\<rparr>)"

definition buildCoverBlocks :: "Config \<Rightarrow> u32 \<Rightarrow> i64 \<Rightarrow> coverBlock list" where
  "buildCoverBlocks config stageIndex stageSeed =
     (if \<not> g_CoverEnabled config \<or> stageIndex = 0 then []
      else let variant = stageSeed XOR (ucast stageIndex * 0x9e3779b97f4a7c15)
        in filter (\<lambda>b. \<not> pointInBlock (g_Spawn config) b (Fin (1 / 2)))
             (map (world_block config \<circ> transform_block variant) (authored_blocks ((stageIndex - 1) mod 6))))"

section \<open>Movement along covers\<close>

definition blocked_at :: "coverBlock list \<Rightarrow> f64 \<Rightarrow> Vec2 \<Rightarrow> bool" where
  "blocked_at covers radius candidate \<longleftrightarrow> list_ex (\<lambda>cover. pointInBlock candidate cover radius) covers"

definition move_axis :: "Config \<Rightarrow> coverBlock list \<Rightarrow> Vec2 \<Rightarrow> f64 \<Rightarrow> bool \<Rightarrow> Vec2 \<Rightarrow> Vec2" where
  "move_axis config covers delta radius axis_x result =
     (let candidate = (if axis_x
        then result\<lparr>X := math_Max (X (g_Min config)) (math_Min (X (g_Max config)) (X result + X delta))\<rparr>
        else result\<lparr>Y := math_Max (Y (g_Min config)) (math_Min (Y (g_Max config)) (Y result + Y delta))\<rparr>)
      in if blocked_at covers radius candidate then result else candidate)"

definition moveWithCover :: "Config \<Rightarrow> coverBlock list \<Rightarrow> Vec2 \<Rightarrow> Vec2 \<Rightarrow> f64 \<Rightarrow> Vec2" where
  "moveWithCover config covers from delta radius =
     fold (move_axis config covers delta radius) [True, False] from"

section \<open>Spawn positions\<close>

definition out_of_map :: "Config \<Rightarrow> Vec2 \<Rightarrow> bool" where
  "out_of_map config p \<longleftrightarrow> X p < X (g_Min config) \<or> X (g_Max config) < X p \<or>
     Y p < Y (g_Min config) \<or> Y (g_Max config) < Y p"

definition spawn_candidates :: "coverBlock \<Rightarrow> f64 \<Rightarrow> Vec2 \<Rightarrow> Vec2 list" where
  "spawn_candidates cover radius origin =
     [vec2 (X (cb_min cover) - radius - fl (2 / 100)) (Y origin),
      vec2 (X (cb_max cover) + radius + fl (2 / 100)) (Y origin),
      vec2 (X origin) (Y (cb_min cover) - radius - fl (2 / 100)),
      vec2 (X origin) (Y (cb_max cover) + radius + fl (2 / 100))]"

definition try_candidate :: "Config \<Rightarrow> coverBlock list \<Rightarrow> f64 \<Rightarrow> Vec2 \<Rightarrow> Vec2 \<Rightarrow> Vec2 \<times> f64 \<Rightarrow> Vec2 \<times> f64" where
  "try_candidate config covers radius origin candidate st =
     (case st of (position, bestDistance) \<Rightarrow>
        if out_of_map config candidate then (position, bestDistance)
        else
          let blocked = blocked_at covers radius candidate;
              distance = math_Hypot (X origin - X candidate) (Y origin - Y candidate)
          in if \<not> blocked \<and> distance < bestDistance then (candidate, distance) else (position, bestDistance))"

definition clear_one :: "Config \<Rightarrow> coverBlock list \<Rightarrow> f64 \<Rightarrow> coverBlock \<Rightarrow> Vec2 \<Rightarrow> Vec2" where
  "clear_one config covers radius cover position =
     (if \<not> pointInBlock position cover radius then position
      else fst (fold (try_candidate config covers radius position) (spawn_candidates cover radius position)
        (position, Inf False)))"

definition clearSpawnFromCover :: "Config \<Rightarrow> coverBlock list \<Rightarrow> Vec2 \<Rightarrow> f64 \<Rightarrow> Vec2" where
  "clearSpawnFromCover config covers position radius = fold (clear_one config covers radius) covers position"

section \<open>Contact of a segment with the covers\<close>

text \<open>
  One axis of \<open>segmentBlock\<close>: position, displacement and the two ends of the expanded block; None
  is the early return of (0, false).
\<close>

definition segment_axis :: "f64 \<times> f64 \<times> f64 \<times> f64 \<Rightarrow> f64 \<times> f64 \<Rightarrow> (f64 \<times> f64) option" where
  "segment_axis axis st =
     (case (axis, st) of ((p, d, lo, hi), (enter, leave)) \<Rightarrow>
        if feq d (Fin 0) then (if p < lo \<or> hi < p then None else Some (enter, leave))
        else
          let a = (lo - p) / d; b = (hi - p) / d;
              (a, b) = (if b < a then (b, a) else (a, b));
              enter = math_Max enter a; leave = math_Min leave b
          in if leave < enter then None else Some (enter, leave))"

definition segmentBlock :: "Vec2 \<Rightarrow> Vec2 \<Rightarrow> coverBlock \<Rightarrow> f64 \<Rightarrow> f64 \<times> bool" where
  "segmentBlock from to block radius =
     (case segment_axis (X from, X to - X from, X (cb_min block) - radius, X (cb_max block) + radius) (Fin 0, Fin 1) of
        None \<Rightarrow> (Fin 0, False)
      | Some st \<Rightarrow>
        (case segment_axis (Y from, Y to - Y from, Y (cb_min block) - radius, Y (cb_max block) + radius) st of
           None \<Rightarrow> (Fin 0, False)
         | Some (enter, _) \<Rightarrow> (enter, True)))"

definition firstCoverHit :: "coverBlock list \<Rightarrow> Vec2 \<Rightarrow> Vec2 \<Rightarrow> f64 \<Rightarrow> f64 \<times> bool" where
  "firstCoverHit covers from to radius =
     (let first = fold (\<lambda>cover first. case segmentBlock from to cover radius of (hit, ok) \<Rightarrow>
            if ok \<and> hit < first then hit else first) covers (Inf False)
      in (first, first \<noteq> Inf False))"

section \<open>Steering around covers\<close>

definition block_corners :: "coverBlock \<Rightarrow> f64 \<Rightarrow> Vec2 list" where
  "block_corners block padding =
     [vec2 (X (cb_min block) - padding) (Y (cb_min block) - padding),
      vec2 (X (cb_min block) - padding) (Y (cb_max block) + padding),
      vec2 (X (cb_max block) + padding) (Y (cb_min block) - padding),
      vec2 (X (cb_max block) + padding) (Y (cb_max block) + padding)]"

definition route_points :: "Config \<Rightarrow> coverBlock list \<Rightarrow> Vec2 \<Rightarrow> Vec2 \<Rightarrow> f64 \<Rightarrow> Vec2 list" where
  "route_points config covers from goal radius =
     [from, goal] @ concat (map (\<lambda>block.
        filter (\<lambda>corner. \<not> out_of_map config corner \<and> \<not> blocked_at covers (radius + fl (5 / 100)) corner)
          (block_corners block (radius + fl (2 / 10)))) covers)"

text \<open>The search keeps, per point, the distance, the predecessor (None is \<open>none\<close>) and a visited flag.\<close>

record search =
  rt_distance :: "f64 list"
  rt_previous :: "nat option list"
  rt_visited :: "bool list"

definition select_current :: "search \<Rightarrow> nat option" where
  "select_current s =
     fst (fold (\<lambda>index (current, best).
       if \<not> rt_visited s ! index \<and> rt_distance s ! index < best then (Some index, rt_distance s ! index)
       else (current, best)) [0..<length (rt_distance s)] (None, Inf False))"

definition relax :: "coverBlock list \<Rightarrow> f64 \<Rightarrow> Vec2 list \<Rightarrow> nat \<Rightarrow> nat \<Rightarrow> search \<Rightarrow> search" where
  "relax covers radius points current nxt s =
     (if nxt = current \<or> rt_visited s ! nxt then s
      else if snd (firstCoverHit covers (points ! current) (points ! nxt) radius) then s
      else
        let candidate = rt_distance s ! current + math_Hypot (X (points ! nxt) - X (points ! current))
              (Y (points ! nxt) - Y (points ! current))
        in if candidate < rt_distance s ! nxt
           then s\<lparr>rt_distance := (rt_distance s)[nxt := candidate], rt_previous := (rt_previous s)[nxt := Some current]\<rparr>
           else s)"

fun search_loop :: "coverBlock list \<Rightarrow> f64 \<Rightarrow> Vec2 list \<Rightarrow> nat \<Rightarrow> search \<Rightarrow> search" where
  "search_loop covers radius points 0 s = s"
| "search_loop covers radius points (Suc n) s =
     (case select_current s of
        None \<Rightarrow> s
      | Some current \<Rightarrow>
        if current = 1 then s
        else
          let s' = s\<lparr>rt_visited := (rt_visited s)[current := True]\<rparr>
          in search_loop covers radius points n
               (fold (relax covers radius points current) [0..<length points] s'))"

definition search_init :: "nat \<Rightarrow> search" where
  "search_init n = \<lparr>rt_distance = (replicate n (Inf False))[0 := Fin 0], rt_previous = replicate n None,
     rt_visited = replicate n False\<rparr>"

text \<open>
  Walking back from the goal while the predecessor is neither the start nor \<open>none\<close>; None when the
  fuel runs out.
\<close>

fun walk_back :: "nat option list \<Rightarrow> nat \<Rightarrow> nat \<Rightarrow> nat option" where
  "walk_back prev 0 waypoint = None"
| "walk_back prev (Suc n) waypoint =
     (case prev ! waypoint of
        None \<Rightarrow> Some waypoint
      | Some p \<Rightarrow> if p = 0 then Some waypoint else walk_back prev n p)"

definition routeAroundCover :: "Config \<Rightarrow> coverBlock list \<Rightarrow> Vec2 \<Rightarrow> Vec2 \<Rightarrow> f64 \<Rightarrow> Vec2 option" where
  "routeAroundCover config covers from goal radius =
     (if \<not> snd (firstCoverHit covers from goal radius) then Some goal
      else
        let points = route_points config covers from goal radius;
            prev = rt_previous (search_loop covers radius points (length points) (search_init (length points)))
        in if prev ! 1 \<noteq> None
           then (case walk_back prev (Suc (length points)) 1 of
               None \<Rightarrow> None
             | Some waypoint \<Rightarrow> if prev ! waypoint = Some 0 then Some (points ! waypoint) else Some goal)
           else Some goal)"

section \<open>The map\<close>

definition config_ok :: "Config \<Rightarrow> bool" where
  "config_ok c \<longleftrightarrow> Config_Validate c \<and> vec_ok (g_Min c) \<and> vec_ok (g_Max c) \<and> vec_ok (g_Spawn c) \<and>
     is_f64 (g_MoveSpeed c) \<and> is_f64 (cs_Attack (cc_PlayerStats (g_Combat c))) \<and>
     is_f64 (cs_Defense (cc_PlayerStats (g_Combat c))) \<and> is_f64 (cs_MaxHealth (cc_PlayerStats (g_Combat c)))"

abbreviation in_map :: "Config \<Rightarrow> Vec2 \<Rightarrow> bool" where
  "in_map c \<equiv> in_bounds (g_Min c) (g_Max c)"

lemma config_bounds:
  assumes "config_ok c"
  obtains a b d e where "g_Min c = vec2 (Fin a) (Fin b)" "g_Max c = vec2 (Fin d) (Fin e)" "a < d" "b < e"
    "\<bar>a\<bar> \<le> 1000000" "\<bar>b\<bar> \<le> 1000000" "\<bar>d\<bar> \<le> 1000000" "\<bar>e\<bar> \<le> 1000000"
proof -
  have "Vec2_Finite (g_Min c)" "Vec2_Finite (g_Max c)" using assms by (auto simp: config_ok_def Config_Validate_def)
  then obtain a b d e where m: "g_Min c = vec2 (Fin a) (Fin b)" "g_Max c = vec2 (Fin d) (Fin e)"
    by (auto simp: Vec2_Finite_iff)
  then show ?thesis using assms that[OF m] by (auto simp: config_ok_def Config_Validate_def not_less not_le)
qed

lemma in_bounds_iff:
  "in_bounds (vec2 (Fin a) (Fin b)) (vec2 (Fin d) (Fin e)) v \<longleftrightarrow>
     (\<exists>x y. v = vec2 (Fin x) (Fin y) \<and> a \<le> x \<and> x \<le> d \<and> b \<le> y \<and> y \<le> e)"
proof -
  obtain x y where v: "v = vec2 x y" by (cases v) auto
  show ?thesis unfolding v in_bounds_def by (cases x; cases y) auto
qed

lemma in_map_finite:
  assumes "config_ok c" and "in_map c v"
  shows "Vec2_Finite v"
proof -
  obtain a b d e where "g_Min c = vec2 (Fin a) (Fin b)" "g_Max c = vec2 (Fin d) (Fin e)"
    using config_bounds[OF assms(1)] by metis
  then show ?thesis using assms(2) by (auto simp: in_bounds_iff Vec2_Finite_iff)
qed

lemma spawn_in_map: "config_ok c \<Longrightarrow> in_map c (g_Spawn c)"
proof -
  assume c: "config_ok c"
  obtain a b d e where m: "g_Min c = vec2 (Fin a) (Fin b)" "g_Max c = vec2 (Fin d) (Fin e)"
    using config_bounds[OF c] by metis
  have "Vec2_Finite (g_Spawn c)" using c by (auto simp: config_ok_def Config_Validate_def)
  then obtain x y where "g_Spawn c = vec2 (Fin x) (Fin y)" by (auto simp: Vec2_Finite_iff)
  then show ?thesis using c m by (auto simp: in_bounds_iff config_ok_def Config_Validate_def not_less)
qed

lemma in_map_out_of_map:
  assumes "config_ok c" and "X p \<noteq> NaN" and "Y p \<noteq> NaN"
  shows "out_of_map c p \<longleftrightarrow> \<not> in_map c p"
proof -
  obtain a b d e where m: "g_Min c = vec2 (Fin a) (Fin b)" "g_Max c = vec2 (Fin d) (Fin e)"
    using config_bounds[OF assms(1)] by metis
  show ?thesis using assms(2,3)
    by (cases "X p"; cases "Y p") (auto simp: out_of_map_def in_bounds_def m not_le)
qed

lemma minus_NaN: "x - NaN = NaN"
  by (cases x) (auto simp: minus_f64_def)

lemma math_Hypot_less: "math_Hypot u v < b \<Longrightarrow> u \<noteq> NaN \<and> v \<noteq> NaN"
  by (cases u; cases v; cases b) (auto simp: math_Hypot_def)

subsection \<open>Sliding movement\<close>

lemma move_axis_in_map:
  assumes "config_ok c" and "in_map c p" and "X delta \<noteq> NaN" and "Y delta \<noteq> NaN"
  shows "in_map c (move_axis c covers delta radius ax p)"
proof -
  obtain a b d e where m: "g_Min c = vec2 (Fin a) (Fin b)" "g_Max c = vec2 (Fin d) (Fin e)" "a < d" "b < e"
    using config_bounds[OF assms(1)] by metis
  obtain x y where p: "p = vec2 (Fin x) (Fin y)" "a \<le> x" "x \<le> d" "b \<le> y" "y \<le> e"
    using assms(2) m by (auto simp: in_bounds_iff)
  have "Fin x + X delta \<noteq> NaN" "Fin y + Y delta \<noteq> NaN" by (rule not_NaN_plus_Fin[OF assms(3)], rule not_NaN_plus_Fin[OF assms(4)])
  then have "\<exists>v. math_Max (Fin a) (math_Min (Fin d) (Fin x + X delta)) = Fin v \<and> a \<le> v \<and> v \<le> d"
    "\<exists>v. math_Max (Fin b) (math_Min (Fin e) (Fin y + Y delta)) = Fin v \<and> b \<le> v \<and> v \<le> e"
    using m(3,4) by (auto intro!: clamp_f64)
  then show ?thesis using p assms(2) m
    by (auto simp: move_axis_def Let_def in_bounds_iff m(1,2) simp del: plus_f64.simps)
qed

lemma moveWithCover_in_map:
  "config_ok c \<Longrightarrow> in_map c p \<Longrightarrow> X delta \<noteq> NaN \<Longrightarrow> Y delta \<noteq> NaN \<Longrightarrow>
     in_map c (moveWithCover c covers p delta radius)"
  by (simp add: moveWithCover_def move_axis_in_map)

lemma moveWithCover_outside:
  "\<not> blocked_at covers radius p \<Longrightarrow> \<not> blocked_at covers radius (moveWithCover c covers p delta radius)"
  by (simp add: moveWithCover_def move_axis_def Let_def)

subsection \<open>Spawn positions\<close>

lemma clear_one_in_map:
  assumes "config_ok c" and "in_map c p"
  shows "in_map c (clear_one c covers radius cover p)"
proof -
  have "in_map c (fst (fold (try_candidate c covers radius p) cs (q, best)))" if "in_map c q" for cs q best
    using that
  proof (induction cs arbitrary: q best)
    case (Cons k cs)
    have "in_map c (fst (try_candidate c covers radius p k (q, best)))"
    proof (cases "\<not> out_of_map c k \<and> math_Hypot (X p - X k) (Y p - Y k) < best")
      case True
      then have "X p - X k \<noteq> NaN" "Y p - Y k \<noteq> NaN" using math_Hypot_less by metis+
      then have "X k \<noteq> NaN" "Y k \<noteq> NaN" using minus_NaN by metis+
      then show ?thesis using Cons.prems in_map_out_of_map[OF assms(1), of k] True
        by (simp add: try_candidate_def Let_def)
    next
      case False
      then show ?thesis using Cons.prems by (auto simp: try_candidate_def Let_def)
    qed
    then show ?case using Cons.IH by (cases "try_candidate c covers radius p k (q, best)") simp
  qed simp
  then show ?thesis using assms(2) by (simp add: clear_one_def)
qed

lemma clearSpawn_in_map:
  "config_ok c \<Longrightarrow> in_map c p \<Longrightarrow> in_map c (clearSpawnFromCover c covers p radius)"
  unfolding clearSpawnFromCover_def
  by (rule fold_invariant[where Q = "\<lambda>_. True"]) (auto intro: clear_one_in_map)

subsection \<open>The search ends\<close>

text \<open>
  The predecessors form a tree: every predecessor is visited, and a visited point was visited
  after its predecessor (\<open>rk\<close> is the order of the visits).  The goal, index 1, is never visited.
\<close>

definition tree_ok :: "coverBlock list \<Rightarrow> f64 \<Rightarrow> Vec2 list \<Rightarrow> nat \<Rightarrow> (nat \<Rightarrow> nat) \<Rightarrow> search \<Rightarrow> bool" where
  "tree_ok covers radius points k rk s \<longleftrightarrow>
     length (rt_distance s) = length points \<and> length (rt_previous s) = length points \<and>
     length (rt_visited s) = length points \<and>
     (\<forall>v < length points. rt_visited s ! v \<longrightarrow> rk v < k) \<and>
     (\<forall>v < length points. \<forall>u. rt_previous s ! v = Some u \<longrightarrow>
        u < length points \<and> u \<noteq> v \<and> rt_visited s ! u \<and> (rt_visited s ! v \<longrightarrow> rk u < rk v) \<and>
        \<not> snd (firstCoverHit covers (points ! u) (points ! v) radius))"

lemma tree_ok_length:
  "tree_ok covers radius points k rk s \<Longrightarrow> length (rt_distance s) = length points \<and>
     length (rt_previous s) = length points \<and> length (rt_visited s) = length points"
  unfolding tree_ok_def by blast

lemma tree_ok_rank:
  "tree_ok covers radius points k rk s \<Longrightarrow> v < length points \<Longrightarrow> rt_visited s ! v \<Longrightarrow> rk v < k"
  unfolding tree_ok_def by blast

lemma tree_ok_edge:
  "tree_ok covers radius points k rk s \<Longrightarrow> v < length points \<Longrightarrow> rt_previous s ! v = Some u \<Longrightarrow>
     u < length points \<and> u \<noteq> v \<and> rt_visited s ! u \<and> (rt_visited s ! v \<longrightarrow> rk u < rk v) \<and>
     \<not> snd (firstCoverHit covers (points ! u) (points ! v) radius)"
  unfolding tree_ok_def by blast

lemma tree_okI:
  assumes "length (rt_distance s) = length points" and "length (rt_previous s) = length points"
    and "length (rt_visited s) = length points"
    and "\<And>v. v < length points \<Longrightarrow> rt_visited s ! v \<Longrightarrow> rk v < k"
    and "\<And>v u. v < length points \<Longrightarrow> rt_previous s ! v = Some u \<Longrightarrow>
      u < length points \<and> u \<noteq> v \<and> rt_visited s ! u \<and> (rt_visited s ! v \<longrightarrow> rk u < rk v) \<and>
      \<not> snd (firstCoverHit covers (points ! u) (points ! v) radius)"
  shows "tree_ok covers radius points k rk s"
  using assms unfolding tree_ok_def by blast

lemma select_current_ok:
  assumes "select_current s = Some i"
  shows "i < length (rt_distance s) \<and> \<not> rt_visited s ! i"
proof -
  let ?P = "\<lambda>st :: nat option \<times> f64. \<forall>i. fst st = Some i \<longrightarrow> i < length (rt_distance s) \<and> \<not> rt_visited s ! i"
  have "?P (fold (\<lambda>index (current, best).
       if \<not> rt_visited s ! index \<and> rt_distance s ! index < best then (Some index, rt_distance s ! index)
       else (current, best)) [0..<length (rt_distance s)] (None, Inf False))"
    by (rule fold_invariant[where Q = "\<lambda>i. i < length (rt_distance s)"]) (auto split: if_splits)
  then show ?thesis using assms by (simp add: select_current_def)
qed

lemma relax_tree_ok:
  assumes "tree_ok covers radius points k rk s" and "rt_visited s ! current" and "current < length points"
    and "nxt < length points"
  shows "tree_ok covers radius points k rk (relax covers radius points current nxt s) \<and>
    rt_visited (relax covers radius points current nxt s) = rt_visited s"
proof (cases "nxt = current \<or> rt_visited s ! nxt \<or> snd (firstCoverHit covers (points ! current) (points ! nxt) radius)")
  case True
  then show ?thesis using assms(1) by (auto simp: relax_def)
next
  case False
  let ?s = "\<lambda>d. s\<lparr>rt_distance := (rt_distance s)[nxt := d], rt_previous := (rt_previous s)[nxt := Some current]\<rparr>"
  note l = tree_ok_length[OF assms(1)]
  have "tree_ok covers radius points k rk (?s d)" for d
  proof (rule tree_okI)
    fix v u assume v: "v < length points" "rt_previous (?s d) ! v = Some u"
    show "u < length points \<and> u \<noteq> v \<and> rt_visited (?s d) ! u \<and> (rt_visited (?s d) ! v \<longrightarrow> rk u < rk v) \<and>
      \<not> snd (firstCoverHit covers (points ! u) (points ! v) radius)"
    proof (cases "v = nxt")
      case True
      then have "u = current" using v l by simp
      then show ?thesis using False True assms(2,3) by simp
    next
      case False
      then have "rt_previous s ! v = Some u" using v by simp
      then show ?thesis using tree_ok_edge[OF assms(1) v(1)] by simp
    qed
  next
    fix v assume "v < length points" "rt_visited (?s d) ! v"
    then show "rk v < k" using tree_ok_rank[OF assms(1), of v] by simp
  qed (simp_all add: l)
  then show ?thesis using False assms(1) unfolding relax_def Let_def by simp
qed

lemma relax_all_tree_ok:
  assumes "tree_ok covers radius points k rk s" and "rt_visited s ! current" and "current < length points"
  shows "tree_ok covers radius points k rk (fold (relax covers radius points current) [0..<length points] s)"
proof -
  let ?P = "\<lambda>t. tree_ok covers radius points k rk t \<and> rt_visited t = rt_visited s"
  have "?P (fold (relax covers radius points current) [0..<length points] s)"
  proof (rule fold_invariant[where Q = "\<lambda>n. n < length points"])
    fix n t assume "n < length points" "?P t"
    then show "?P (relax covers radius points current n t)"
      using relax_tree_ok[of covers radius points k rk t current n] assms by simp
  qed (use assms in auto)
  then show ?thesis by blast
qed

lemma tree_ok_mono: "tree_ok covers radius points k rk s \<Longrightarrow> k \<le> k' \<Longrightarrow> tree_ok covers radius points k' rk s"
  unfolding tree_ok_def by (meson less_le_trans)

lemma visit_tree_ok:
  assumes "tree_ok covers radius points k rk s" and "current < length points" and "\<not> rt_visited s ! current"
  shows "tree_ok covers radius points (Suc k) (rk(current := k)) (s\<lparr>rt_visited := (rt_visited s)[current := True]\<rparr>)"
proof (rule tree_okI)
  let ?s = "s\<lparr>rt_visited := (rt_visited s)[current := True]\<rparr>"
  note l = tree_ok_length[OF assms(1)]
  fix v u assume v: "v < length points" "rt_previous ?s ! v = Some u"
  then have e: "u < length points" "u \<noteq> v" "rt_visited s ! u" "rt_visited s ! v \<longrightarrow> rk u < rk v"
    "\<not> snd (firstCoverHit covers (points ! u) (points ! v) radius)" "rk u < k"
    using tree_ok_edge[OF assms(1) v(1)] tree_ok_rank[OF assms(1)] by auto
  then have "u \<noteq> current" using assms(3) by metis
  then show "u < length points \<and> u \<noteq> v \<and> rt_visited ?s ! u \<and>
      (rt_visited ?s ! v \<longrightarrow> (rk(current := k)) u < (rk(current := k)) v) \<and>
      \<not> snd (firstCoverHit covers (points ! u) (points ! v) radius)"
    using e by (cases "v = current") simp_all
next
  fix v assume v: "v < length points" "rt_visited (s\<lparr>rt_visited := (rt_visited s)[current := True]\<rparr>) ! v"
  then show "(rk(current := k)) v < Suc k"
    using tree_ok_rank[OF assms(1), of v] by (cases "v = current") (simp_all add: less_SucI)
qed (simp_all add: tree_ok_length[OF assms(1)])

lemma search_loop_tree_ok:
  "tree_ok covers radius points k rk s \<Longrightarrow>
     \<exists>rk'. tree_ok covers radius points (k + n) rk' (search_loop covers radius points n s)"
proof (induction n arbitrary: s k rk)
  case (Suc n)
  have weaken: "tree_ok covers radius points (k + Suc n) rk s"
    using Suc.prems by (rule tree_ok_mono) simp
  show ?case
  proof (cases "select_current s")
    case (Some current)
    then have c: "current < length points" "\<not> rt_visited s ! current"
      using select_current_ok[OF Some] tree_ok_length[OF Suc.prems] by auto
    let ?s = "s\<lparr>rt_visited := (rt_visited s)[current := True]\<rparr>"
    have v: "rt_visited ?s ! current" using c tree_ok_length[OF Suc.prems] by simp
    have "tree_ok covers radius points (Suc k) (rk(current := k))
        (fold (relax covers radius points current) [0..<length points] ?s)"
      using relax_all_tree_ok[OF visit_tree_ok[OF Suc.prems c] v c(1)] .
    then obtain rk' where "tree_ok covers radius points (Suc k + n) rk' (search_loop covers radius points n
        (fold (relax covers radius points current) [0..<length points] ?s))"
      using Suc.IH by blast
    then show ?thesis using weaken Some by (auto simp add: add_Suc_right)
  next
    case None
    then show ?thesis using weaken by auto
  qed
qed auto

lemma tree_ok_init: "tree_ok covers radius points 0 rk (search_init (length points))"
  by (auto simp: tree_ok_def search_init_def)

lemma walk_back_ends:
  assumes "tree_ok covers radius points k rk s"
  shows "w < length points \<Longrightarrow> rt_visited s ! w \<Longrightarrow> rk w < n \<Longrightarrow>
    \<exists>v. walk_back (rt_previous s) n w = Some v \<and> v < length points"
proof (induction n arbitrary: w)
  case (Suc n)
  show ?case
  proof (cases "rt_previous s ! w")
    case (Some p)
    then have "p < length points" "rt_visited s ! p" "rk p < rk w"
      using tree_ok_edge[OF assms Suc.prems(1) Some] Suc.prems by auto
    then show ?thesis using Suc.IH[of p] Suc.prems Some by simp
  qed (use Suc.prems in auto)
qed simp

lemma walk_back_goal:
  assumes "tree_ok covers radius points k rk s" and "w < length points" and "k \<le> n"
  shows "\<exists>v. walk_back (rt_previous s) (Suc n) w = Some v \<and> v < length points"
proof (cases "rt_previous s ! w")
  case (Some p)
  have p: "p < length points" "rt_visited s ! p" using tree_ok_edge[OF assms(1,2) Some] by auto
  then have "rk p < n" using tree_ok_rank[OF assms(1) p] assms(3) by simp
  then show ?thesis using walk_back_ends[OF assms(1) p] Some assms(2) by auto
qed (use assms in auto)

lemma nth_after_two: "v < length ([a, b] @ cs) \<Longrightarrow> 2 \<le> v \<Longrightarrow> ([a, b] @ cs) ! v \<in> set cs"
proof -
  assume v: "v < length ([a, b] @ cs)" "2 \<le> v"
  have w: "v = Suc (Suc (v - 2))" using v(2) by simp
  show ?thesis using v by (subst w, subst (asm) w) simp
qed

lemma route_points_ok:
  assumes "v < length (route_points c covers from goal radius)" and "2 \<le> v"
  shows "\<not> out_of_map c (route_points c covers from goal radius ! v) \<and>
    \<not> blocked_at covers (radius + fl (5 / 100)) (route_points c covers from goal radius ! v) \<and>
    (\<exists>block \<in> set covers. route_points c covers from goal radius ! v \<in> set (block_corners block (radius + fl (2 / 10))))"
  using nth_after_two[OF assms[unfolded route_points_def], folded route_points_def]
  unfolding set_concat set_map by (elim UN_E imageE) (simp only: set_filter mem_Collect_eq simp_thms, blast)

lemma routeAroundCover_ok:
  assumes "config_ok c"
  shows "\<exists>p. routeAroundCover c covers from goal radius = Some p \<and>
    (p = goal \<or> (\<not> out_of_map c p \<and> \<not> blocked_at covers (radius + fl (5 / 100)) p \<and>
       \<not> snd (firstCoverHit covers from p radius) \<and>
       (\<exists>block \<in> set covers. p \<in> set (block_corners block (radius + fl (2 / 10))))))"
proof (cases "snd (firstCoverHit covers from goal radius)")
  case True
  define pts where "pts = route_points c covers from goal radius"
  define s where "s = search_loop covers radius pts (length pts) (search_init (length pts))"
  have len: "2 \<le> length pts" "pts ! 0 = from" "pts ! 1 = goal" by (simp_all add: pts_def route_points_def)
  obtain rk where t: "tree_ok covers radius pts (0 + length pts) rk s"
    using search_loop_tree_ok[OF tree_ok_init] unfolding s_def by blast
  obtain v where v: "walk_back (rt_previous s) (Suc (length pts)) 1 = Some v" "v < length pts"
    using walk_back_goal[OF t, of 1 "length pts"] len(1) by auto
  have "pts ! v = goal \<or> (\<not> out_of_map c (pts ! v) \<and> \<not> blocked_at covers (radius + fl (5 / 100)) (pts ! v) \<and>
      \<not> snd (firstCoverHit covers from (pts ! v) radius) \<and>
      (\<exists>block \<in> set covers. pts ! v \<in> set (block_corners block (radius + fl (2 / 10)))))"
    if "rt_previous s ! v = Some 0"
  proof (cases "2 \<le> v")
    case True
    have "\<not> snd (firstCoverHit covers from (pts ! v) radius)"
      using tree_ok_edge[OF t v(2) that] len(2) by simp
    then show ?thesis using route_points_ok[of v c covers "from" goal radius] True v(2)
      unfolding pts_def by blast
  next
    case False
    moreover have "v \<noteq> 0" using tree_ok_edge[OF t v(2) that] by simp
    ultimately have "v = 1" by linarith
    then show ?thesis using len(3) by simp
  qed
  then show ?thesis using True v
    unfolding routeAroundCover_def Let_def pts_def[symmetric] s_def[symmetric] by auto
qed (simp add: routeAroundCover_def)

section \<open>Properties\<close>

text \<open>C7: Movement never leaves the map and never enters a cover block: from a point on the map and
  outside the covers, any displacement that is a number ends on the map and outside the covers.\<close>

theorem moveWithCover_solid:
  assumes "config_ok c" and "in_bounds (g_Min c) (g_Max c) p" and "X delta \<noteq> NaN" and "Y delta \<noteq> NaN"
    and "\<not> blocked_at covers radius p"
  shows "in_bounds (g_Min c) (g_Max c) (moveWithCover c covers p delta radius) \<and>
    \<not> blocked_at covers radius (moveWithCover c covers p delta radius)"
  using moveWithCover_in_map[OF assms(1-4)] moveWithCover_outside[OF assms(5)] by blast

text \<open>C8: The visibility-graph search always ends, and its waypoint is the goal or a corner on the map,
  clear of every cover, that the monster reaches in a straight line without touching a cover.\<close>

theorem routeAroundCover_correct:
  assumes "config_ok c"
  shows "\<exists>p. routeAroundCover c covers from goal radius = Some p \<and>
    (p = goal \<or> (\<not> out_of_map c p \<and> \<not> blocked_at covers (radius + fl (5 / 100)) p \<and>
       \<not> snd (firstCoverHit covers from p radius)))"
  using routeAroundCover_ok[OF assms] by blast

lemma config_ok_Default: "config_ok DefaultConfig"
proof -
  have "fl (1 / 10) = Fin (3602879701896397 / 36028797018963968)" by code_simp
  then show ?thesis
    by (simp add: config_ok_def Config_Validate_def DefaultConfig_def DefaultCombatConfig_def CombatConfig_valid_def
        CombatStats_Valid_def Vec2_Finite_def zero_vec_def vec_ok_def)
qed

theorem moveWithCover_solid_witness:
  "in_bounds (g_Min DefaultConfig) (g_Max DefaultConfig) (moveWithCover DefaultConfig
     [\<lparr>cb_min = vec2 (Fin 11) (Fin 9), cb_max = vec2 (Fin 12) (Fin 11)\<rparr>] (g_Spawn DefaultConfig) (vec2 (Fin 2) (Fin 0)) (Fin (1 / 2)))"
proof -
  have h: "fl (21 / 2) = Fin (21 / 2)" by code_simp
  show ?thesis
    by (rule moveWithCover_solid[OF config_ok_Default spawn_in_map[OF config_ok_Default], THEN conjunct1])
      (simp_all add: blocked_at_def pointInBlock_def DefaultConfig_def h)
qed

theorem routeAroundCover_correct_witness:
  "\<exists>p. routeAroundCover DefaultConfig [\<lparr>cb_min = vec2 (Fin 4) (Fin 4), cb_max = vec2 (Fin 6) (Fin 6)\<rparr>]
     (vec2 (Fin 1) (Fin 5)) (vec2 (Fin 9) (Fin 5)) (Fin (1 / 2)) = Some p"
  using routeAroundCover_correct[OF config_ok_Default] by blast

end
