(* ===== verification/World.thy ===== *)
theory World
  imports RewardRound Arena
begin

text \<open>
  The authoritative world of package \<open>game\<close>: its state (\<open>world.go\<close>, \<open>combat.go\<close>, \<open>performance.go\<close>,
  \<open>result.go\<close>), membership, input, event queues, performance metrics, final results and the views
  handed to other goroutines.  A \<open>*playerState\<close> is reached only through the map \<open>players\<close>, so the maps
  hold the states themselves and a write through a pointer is an update of the map.
\<close>

section \<open>State\<close>

record Input =
  i_Seq :: u32
  i_Direction :: Vec2
  i_Aim :: Vec2
  i_Shoot :: bool
  i_UsePotion :: bool
  i_Reload :: bool

definition zero_input :: Input where
  "zero_input = \<lparr>i_Seq = 0, i_Direction = zero_vec, i_Aim = zero_vec, i_Shoot = False, i_UsePotion = False,
     i_Reload = False\<rparr>"

record playerState =
  ps_player :: Player
  ps_input :: Input
  ps_receivedAt :: time
  ps_pending :: bool
  ps_nextShot :: u64
  ps_firing :: bool
  ps_loadout :: Loadout

record monsterState =
  ms_monster :: Monster
  ms_previous :: Vec2
  ms_target :: entity_id
  ms_nextAttack :: u64

datatype PickupKind = HealthPickup | WeaponPickup | OtherPickup u8

record PickupView =
  pk_ID :: entity_id
  pk_Kind :: PickupKind
  pk_Position :: Vec2
  pk_EquipmentID :: equip_id
  pk_Value :: f64

datatype EventKind = StageStarted | ProjectileSpawned | ProjectileDestroyed | DamageDealt | EntityDied
  | StageCleared | TeamDefeated | OtherEvent u8

record Event =
  ev_Kind :: EventKind
  ev_StageIndex :: u32
  ev_ServerTick :: u64
  ev_EntityID :: entity_id
  ev_SourceID :: entity_id
  ev_TargetID :: entity_id
  ev_Position :: Vec2
  ev_Velocity :: Vec2
  ev_Amount :: f64
  ev_Health :: f64
  ev_ExpiresAtTick :: u64

definition blank_event :: "EventKind \<Rightarrow> Event" where
  "blank_event kind = \<lparr>ev_Kind = kind, ev_StageIndex = 0, ev_ServerTick = 0, ev_EntityID = 0, ev_SourceID = 0,
     ev_TargetID = 0, ev_Position = zero_vec, ev_Velocity = zero_vec, ev_Amount = Fin 0, ev_Health = Fin 0,
     ev_ExpiresAtTick = 0\<rparr>"

datatype RewardUpdateKind = RewardOptionsAvailable | RewardSelectionApplied

record RewardUpdate =
  ru_Kind :: RewardUpdateKind
  ru_StageIndex :: u32
  ru_ServerTick :: u64
  ru_PlayerID :: entity_id
  ru_EquipmentIDs :: "equip_id list"
  ru_DeadlineTick :: u64
  ru_EquipmentID :: equip_id
  ru_Defaulted :: bool

record PerformanceMetrics =
  pm_ClearTimeSeconds :: f64
  pm_TeamHPPercent :: f64
  pm_AverageDPS :: f64
  pm_DeathCount :: int
  pm_DamageTaken :: f64
  pm_EquipmentPower :: f64

definition zero_metrics :: PerformanceMetrics where
  "zero_metrics = \<lparr>pm_ClearTimeSeconds = Fin 0, pm_TeamHPPercent = Fin 0, pm_AverageDPS = Fin 0,
     pm_DeathCount = 0, pm_DamageTaken = Fin 0, pm_EquipmentPower = Fin 0\<rparr>"

record stagePerformance =
  pf_startedAtTick :: u64
  pf_damageDealt :: f64
  pf_damageTaken :: f64
  pf_deathCount :: int
  pf_equipmentPower :: f64
  pf_frozen :: PerformanceMetrics
  pf_ready :: bool

definition zero_performance :: stagePerformance where
  "zero_performance = \<lparr>pf_startedAtTick = 0, pf_damageDealt = Fin 0, pf_damageTaken = Fin 0, pf_deathCount = 0,
     pf_equipmentPower = Fin 0, pf_frozen = zero_metrics, pf_ready = False\<rparr>"

record StageSummary =
  ss_Index :: u32
  ss_Seed :: i64
  ss_DifficultyScore :: f64
  ss_ClearTick :: u64
  ss_Performance :: PerformanceMetrics

record PlayerResult =
  pr_PlayerID :: entity_id
  pr_Alive :: bool
  pr_Health :: f64
  pr_Stats :: CombatStats
  pr_Equipment :: EquipmentState

text \<open>\<open>w_rounds\<close> counts the rounds allocated so far; it gives every \<open>*Round\<close> its own address.\<close>

record World =
  w_config :: Config
  w_tick :: u64
  w_players :: "(entity_id, playerState) gomap"
  w_departedPlayers :: "(entity_id, PlayerResult) gomap"
  w_monsters :: "(entity_id, monsterState) gomap"
  w_projectiles :: "(entity_id, Projectile) gomap"
  w_pickups :: "(entity_id, PickupView) gomap"
  w_covers :: "coverBlock list"
  w_nextEntity :: entity_id
  w_stage :: StageView
  w_events :: "Event list"
  w_eventOverflow :: bool
  w_rewardRound :: "Round option"
  w_rewardCatalog :: Catalog
  w_rewardUpdates :: "RewardUpdate list"
  w_rewardOverflow :: bool
  w_performance :: stagePerformance
  w_currentPlan :: Plan
  w_completedStages :: "StageSummary list"
  w_runStarted :: bool
  w_runStartedAtTick :: u64
  w_runEndedAtTick :: u64
  w_rounds :: nat

datatype world_error =
    ErrInvalidPlayer | ErrPlayerExists | ErrPlayerMissing | ErrWorldFull | ErrInvalidInput | ErrStaleInput
  | InvalidWorldConfig
  | ErrStageState | ErrStageIndex | ErrPlan plan_error
  | ErrRewardState | EmptyCatalog_reward | CannotApply entity_id equip_id equip_error
  | ErrEquip equip_error | ErrRound round_error
  | ErrPerformanceUnavailable | ErrInvalidGameOutcome | ErrGameResultState

datatype game_panic = NilStat | InvalidDamage | RewardDefaultFailed world_error

definition FirstWorldEntityID :: entity_id where "FirstWorldEntityID = push_bit 63 1"
definition maxPendingEvents :: nat where "maxPendingEvents = 4096"
definition BaseMagazineCapacity :: u32 where "BaseMagazineCapacity = 12"
definition ReloadDurationTicks :: u32 where "ReloadDurationTicks = 45"

definition NewWorld :: "Config \<Rightarrow> Catalog list \<Rightarrow> world_error + World" where
  "NewWorld config catalogs =
     (if \<not> Config_Validate config then Inl InvalidWorldConfig
      else Inr \<lparr>w_config = config, w_tick = 0, w_players = [], w_departedPlayers = [], w_monsters = [],
        w_projectiles = [], w_pickups = [], w_covers = [], w_nextEntity = 0, w_stage = zero_view, w_events = [],
        w_eventOverflow = False, w_rewardRound = None,
        w_rewardCatalog = (case catalogs of [] \<Rightarrow> zero_catalog | c # _ \<Rightarrow> c),
        w_rewardUpdates = [], w_rewardOverflow = False, w_performance = zero_performance,
        w_currentPlan = zero_plan, w_completedStages = [], w_runStarted = False, w_runStartedAtTick = 0,
        w_runEndedAtTick = 0, w_rounds = 0\<rparr>)"

section \<open>Membership\<close>

definition PlayerCount :: "World \<Rightarrow> int" where
  "PlayerCount w = int (length (w_players w))"

definition new_player :: "Config \<Rightarrow> entity_id \<Rightarrow> playerState" where
  "new_player config i =
     (let stats = (cc_PlayerStats (g_Combat config))\<lparr>cs_MoveSpeed := g_MoveSpeed config\<rparr>
      in \<lparr>ps_player = \<lparr>p_ID = i, p_Position = g_Spawn config, p_Velocity = zero_vec, p_LastProcessedInputSeq = 0,
            p_BaseStats = stats, p_CurrentStats = stats, p_Health = cs_MaxHealth stats, p_Alive = True,
            p_Aim = vec2 (Fin 1) (Fin 0), p_Equipment = zero_equipment, p_Ammo = BaseMagazineCapacity,
            p_MagazineCapacity = BaseMagazineCapacity, p_ReloadTicksRemaining = 0,
            p_ReloadDurationTicks = ReloadDurationTicks\<rparr>,
          ps_input = zero_input, ps_receivedAt = 0, ps_pending = False, ps_nextShot = 0, ps_firing = False,
          ps_loadout = zero_loadout\<rparr>)"

definition AddPlayer :: "World \<Rightarrow> entity_id \<Rightarrow> world_error + World" where
  "AddPlayer w i =
     (if i = 0 \<or> FirstWorldEntityID \<le> i then Inl ErrInvalidPlayer
      else if map_of (w_players w) i \<noteq> None then Inl ErrPlayerExists
      else if g_Capacity (w_config w) \<le> PlayerCount w then Inl ErrWorldFull
      else if v_State (w_stage w) \<noteq> Waiting then Inl ErrStageState
      else Inr (w\<lparr>w_departedPlayers := AList.delete i (w_departedPlayers w),
                  w_players := AList.update i (new_player (w_config w) i) (w_players w)\<rparr>))"

definition playerResult :: "Player \<Rightarrow> PlayerResult" where
  "playerResult p = \<lparr>pr_PlayerID = p_ID p, pr_Alive = p_Alive p, pr_Health = p_Health p,
     pr_Stats = p_CurrentStats p, pr_Equipment = p_Equipment p\<rparr>"

definition set_stage_state :: "StageState \<Rightarrow> World \<Rightarrow> World" where
  "set_stage_state st w = w\<lparr>w_stage := (w_stage w)\<lparr>v_State := st\<rparr>\<rparr>"

definition RemovePlayer :: "World \<Rightarrow> entity_id \<Rightarrow> World" where
  "RemovePlayer w i =
     (let w = (case map_of (w_players w) i of
                 None \<Rightarrow> w
               | Some member \<Rightarrow>
                 if w_runStarted w
                 then w\<lparr>w_departedPlayers := AList.update i (playerResult (ps_player member)) (w_departedPlayers w)\<rparr>
                 else w);
          w = w\<lparr>w_players := AList.delete i (w_players w)\<rparr>
      in case w_rewardRound w of
           None \<Rightarrow> w
         | Some r \<Rightarrow>
           (case RemovePlayer_round (Some r) i of (r', removed) \<Rightarrow>
              let w = w\<lparr>w_rewardRound := r'\<rparr>
              in if removed \<and> v_State (w_stage w) = Reward \<and> 0 < PlayerCount w \<and> Complete r'
                 then set_stage_state PreparingNextStage w else w))"

definition Clear :: "World \<Rightarrow> World" where
  "Clear w = w\<lparr>w_players := [], w_departedPlayers := [], w_monsters := [], w_projectiles := [], w_pickups := [],
     w_covers := [], w_events := [], w_eventOverflow := False, w_rewardRound := None,
     w_rewardCatalog := zero_catalog, w_rewardUpdates := [], w_rewardOverflow := False,
     w_performance := zero_performance, w_currentPlan := zero_plan, w_completedStages := [],
     w_runStarted := False, w_runStartedAtTick := 0, w_runEndedAtTick := 0, w_stage := zero_view\<rparr>"

definition Close :: "World \<Rightarrow> World" where
  "Close w = set_stage_state Closed (Clear w)"

section \<open>Input\<close>

definition Input_Validate :: "Input \<Rightarrow> bool" where
  "Input_Validate i \<longleftrightarrow> \<not> (i_Seq i = 0 \<or> \<not> Vec2_Finite (i_Direction i) \<or> \<not> Vec2_Finite (i_Aim i) \<or>
     (i_Shoot i \<and> feq (X (i_Aim i)) (Fin 0) \<and> feq (Y (i_Aim i)) (Fin 0)))"

definition ApplyInput :: "World \<Rightarrow> entity_id \<Rightarrow> Input \<Rightarrow> time \<Rightarrow> world_error + World" where
  "ApplyInput w i input receivedAt =
     (if \<not> Input_Validate input then Inl ErrInvalidInput
      else case map_of (w_players w) i of
          None \<Rightarrow> Inl ErrPlayerMissing
        | Some p \<Rightarrow>
          if i_Seq input \<le> i_Seq (ps_input p) \<or> receivedAt < ps_receivedAt p then Inl ErrStaleInput
          else
            let input = input\<lparr>i_Direction := NormalizeDirection (i_Direction input),
                  i_Reload := (i_Reload input \<or> (ps_pending p \<and> i_Reload (ps_input p))),
                  i_UsePotion := (i_UsePotion input \<or> (ps_pending p \<and> i_UsePotion (ps_input p)))\<rparr>
            in Inr (w\<lparr>w_players := AList.update i
                 (p\<lparr>ps_input := input, ps_receivedAt := receivedAt, ps_pending := True\<rparr>) (w_players w)\<rparr>))"

section \<open>Entities and events\<close>

definition allocateID :: "World \<Rightarrow> entity_id \<times> World" where
  "allocateID w = (FirstWorldEntityID OR (w_nextEntity w + 1), w\<lparr>w_nextEntity := w_nextEntity w + 1\<rparr>)"

definition emit :: "Event \<Rightarrow> World \<Rightarrow> World" where
  "emit e w =
     (let e = (if ev_ServerTick e = 0 then e\<lparr>ev_ServerTick := w_tick w\<rparr> else e)
      in if maxPendingEvents \<le> length (w_events w) then w\<lparr>w_eventOverflow := True\<rparr>
         else w\<lparr>w_events := w_events w @ [e]\<rparr>)"

definition TakeEvents :: "World \<Rightarrow> (Event list \<times> bool) \<times> World" where
  "TakeEvents w = ((w_events w, w_eventOverflow w), w\<lparr>w_events := [], w_eventOverflow := False\<rparr>)"

definition emitRewardUpdate :: "RewardUpdate \<Rightarrow> World \<Rightarrow> World" where
  "emitRewardUpdate u w =
     (if maxPendingEvents \<le> length (w_rewardUpdates w) then w\<lparr>w_rewardOverflow := True\<rparr>
      else w\<lparr>w_rewardUpdates := w_rewardUpdates w @ [u]\<rparr>)"

definition TakeRewardUpdates :: "World \<Rightarrow> (RewardUpdate list \<times> bool) \<times> World" where
  "TakeRewardUpdates w =
     ((w_rewardUpdates w, w_rewardOverflow w), w\<lparr>w_rewardUpdates := [], w_rewardOverflow := False\<rparr>)"

definition livingPlayers :: "World \<Rightarrow> int" where
  "livingPlayers w = int (length (filter (\<lambda>(_, p). p_Alive (ps_player p)) (w_players w)))"

section \<open>Performance\<close>

definition statRatio :: "f64 \<Rightarrow> f64 \<Rightarrow> f64" where
  "statRatio current base =
     (if \<bar>base\<bar> < fl (1 / 1000000000000)
      then if \<bar>current\<bar> < fl (1 / 1000000000000) then Fin 1 else Fin 1 + current
      else current / base)"

definition power_ratios :: "Player \<Rightarrow> f64 list" where
  "power_ratios p =
     (let base = p_BaseStats p; current = p_CurrentStats p
      in [statRatio (cs_Attack current) (cs_Attack base),
          (Fin 100 + cs_Defense current) / (Fin 100 + cs_Defense base),
          statRatio (cs_MaxHealth current) (cs_MaxHealth base),
          statRatio (cs_MoveSpeed current) (cs_MoveSpeed base),
          f64_of_int (uint (cs_AttackCooldownTicks base)) / f64_of_int (uint (cs_AttackCooldownTicks current))])"

definition equipmentPower :: "World \<Rightarrow> f64" where
  "equipmentPower w =
     (if w_players w = [] then Fin 1
      else fold (\<lambda>(_, p) total. fold (\<lambda>ratio total. total + ratio) (power_ratios (ps_player p)) total)
             (w_players w) (Fin 0) / f64_of_int (int (length (w_players w) * 5)))"

definition freezePerformance :: "World \<Rightarrow> World" where
  "freezePerformance w =
     (let perf = w_performance w;
          clearTime = f64_of_int (uint (w_tick w - pf_startedAtTick perf)) / Fin 30;
          clearTime = (if clearTime \<le> Fin 0 then StepSeconds else clearTime);
          (health, maxHealth) = fold (\<lambda>(_, p) (h, m). (h + p_Health (ps_player p),
             m + cs_MaxHealth (p_CurrentStats (ps_player p)))) (w_players w) (Fin 0, Fin 0);
          teamHP = (if Fin 0 < maxHealth then health / maxHealth else Fin 0);
          frozen = \<lparr>pm_ClearTimeSeconds = clearTime, pm_TeamHPPercent = teamHP,
             pm_AverageDPS = pf_damageDealt perf / clearTime, pm_DeathCount = pf_deathCount perf,
             pm_DamageTaken = pf_damageTaken perf, pm_EquipmentPower = pf_equipmentPower perf\<rparr>
      in w\<lparr>w_performance := perf\<lparr>pf_frozen := frozen, pf_ready := True\<rparr>,
           w_completedStages := w_completedStages w @ [\<lparr>ss_Index = pl_Index (w_currentPlan w),
             ss_Seed = pl_Seed (w_currentPlan w), ss_DifficultyScore = pl_DifficultyScore (w_currentPlan w),
             ss_ClearTick = w_tick w, ss_Performance = frozen\<rparr>]\<rparr>)"

definition cleared_state :: "StageState \<Rightarrow> bool" where
  "cleared_state s \<longleftrightarrow> s = StageClear \<or> s = Reward \<or> s = PreparingNextStage"

definition PerformanceMetrics_of :: "World \<Rightarrow> world_error + PerformanceMetrics" where
  "PerformanceMetrics_of w =
     (if \<not> pf_ready (w_performance w) \<or> \<not> cleared_state (v_State (w_stage w)) then Inl ErrPerformanceUnavailable
      else Inr (pf_frozen (w_performance w)))"

definition CompletedStage :: "World \<Rightarrow> world_error + (Plan \<times> PerformanceMetrics)" where
  "CompletedStage w = (case PerformanceMetrics_of w of Inl e \<Rightarrow> Inl e | Inr p \<Rightarrow> Inr (w_currentPlan w, p))"

section \<open>Results\<close>

datatype GameOutcome = GameVictory | GameDefeat | GameAbandoned | OtherOutcome u8

record GameResult =
  gr_Outcome :: GameOutcome
  gr_StartedAtTick :: u64
  gr_EndedAtTick :: u64
  gr_FinalStageIndex :: u32
  gr_ClearedStages :: "StageSummary list"
  gr_Players :: "PlayerResult list"

definition GameOutcome_Valid :: "GameOutcome \<Rightarrow> bool" where
  "GameOutcome_Valid o' \<longleftrightarrow> o' = GameVictory \<or> o' = GameDefeat \<or> o' = GameAbandoned"

definition GameOutcome_String :: "GameOutcome \<Rightarrow> string" where
  "GameOutcome_String o' = (case o' of GameVictory \<Rightarrow> ''victory'' | GameDefeat \<Rightarrow> ''defeat''
     | GameAbandoned \<Rightarrow> ''abandoned'' | OtherOutcome _ \<Rightarrow> ''unknown'')"

definition DurationTicks :: "GameResult \<Rightarrow> u64" where
  "DurationTicks r = (if gr_EndedAtTick r < gr_StartedAtTick r then 0 else gr_EndedAtTick r - gr_StartedAtTick r)"

definition result_end :: "World \<Rightarrow> GameOutcome \<Rightarrow> world_error + u64" where
  "result_end w outcome =
     (case outcome of
        GameVictory \<Rightarrow>
          if \<not> pf_ready (w_performance w) \<or> w_completedStages w = [] \<or> \<not> cleared_state (v_State (w_stage w))
          then Inl ErrGameResultState else Inr (ss_ClearTick (last (w_completedStages w)))
      | GameDefeat \<Rightarrow>
          if v_State (w_stage w) \<noteq> Failed \<or> w_runEndedAtTick w = 0 then Inl ErrGameResultState
          else Inr (w_runEndedAtTick w)
      | GameAbandoned \<Rightarrow>
          if v_State (w_stage w) = Waiting \<or> v_State (w_stage w) = Closed \<or> v_State (w_stage w) = Failed
          then Inl ErrGameResultState else Inr (w_tick w)
      | OtherOutcome _ \<Rightarrow> Inr (w_tick w))"

definition GameResult_of :: "World \<Rightarrow> GameOutcome \<Rightarrow> world_error + GameResult" where
  "GameResult_of w outcome =
     (if \<not> GameOutcome_Valid outcome then Inl ErrInvalidGameOutcome
      else if \<not> w_runStarted w then Inl ErrGameResultState
      else case result_end w outcome of
          Inl e \<Rightarrow> Inl e
        | Inr endTick \<Rightarrow> Inr \<lparr>gr_Outcome = outcome, gr_StartedAtTick = w_runStartedAtTick w,
            gr_EndedAtTick = endTick, gr_FinalStageIndex = v_Index (w_stage w),
            gr_ClearedStages = w_completedStages w,
            gr_Players = sort_key pr_PlayerID
              (map (\<lambda>i. the (map_of (w_departedPlayers w) i)) (ordered_keys (w_departedPlayers w)) @
               map (\<lambda>i. playerResult (ps_player (the (map_of (w_players w) i)))) (ordered_keys (w_players w)))\<rparr>)"

section \<open>Views\<close>

record MonsterView =
  mv_ID :: entity_id
  mv_Position :: Vec2
  mv_Velocity :: Vec2
  mv_Health :: f64
  mv_MaxHealth :: f64
  mv_State :: MonsterState

record Snapshot =
  sn_ServerTick :: u64
  sn_Players :: "Player list"
  sn_Monsters :: "MonsterView list"
  sn_Pickups :: "PickupView list"
  sn_Stage :: StageView

definition monster_view :: "Monster \<Rightarrow> MonsterView" where
  "monster_view m = \<lparr>mv_ID = m_ID m, mv_Position = m_Position m, mv_Velocity = m_Velocity m,
     mv_Health = m_Health m, mv_MaxHealth = cs_MaxHealth (m_CurrentStats m), mv_State = m_State m\<rparr>"

definition Snapshot_of :: "World \<Rightarrow> Snapshot" where
  "Snapshot_of w = \<lparr>sn_ServerTick = w_tick w,
     sn_Players = sort_key p_ID (map (\<lambda>(_, p). ps_player p) (w_players w)),
     sn_Monsters = map (\<lambda>i. monster_view (ms_monster (the (map_of (w_monsters w) i)))) (ordered_keys (w_monsters w)),
     sn_Pickups = map (\<lambda>i. the (map_of (w_pickups w) i)) (ordered_keys (w_pickups w)),
     sn_Stage = w_stage w\<rparr>"

record PlayerResumeState =
  rs_Snapshot :: Snapshot
  rs_Reward :: "RewardUpdate option"

definition resume_update :: "World \<Rightarrow> entity_id \<Rightarrow> Offer \<Rightarrow> RewardUpdate" where
  "resume_update w i offer =
     (if o_SelectedID offer = 0
      then \<lparr>ru_Kind = RewardOptionsAvailable, ru_StageIndex = v_Index (w_stage w), ru_ServerTick = w_tick w,
             ru_PlayerID = i, ru_EquipmentIDs = o_EquipmentIDs offer, ru_DeadlineTick = o_DeadlineTick offer,
             ru_EquipmentID = 0, ru_Defaulted = False\<rparr>
      else \<lparr>ru_Kind = RewardSelectionApplied, ru_StageIndex = v_Index (w_stage w), ru_ServerTick = w_tick w,
             ru_PlayerID = i, ru_EquipmentIDs = [], ru_DeadlineTick = o_DeadlineTick offer,
             ru_EquipmentID = o_SelectedID offer, ru_Defaulted = o_Defaulted offer\<rparr>)"

definition ResumeState :: "World \<Rightarrow> entity_id \<Rightarrow> world_error + PlayerResumeState" where
  "ResumeState w i =
     (case map_of (w_players w) i of
        None \<Rightarrow> Inl ErrPlayerMissing
      | Some _ \<Rightarrow> Inr \<lparr>rs_Snapshot = Snapshot_of w,
          rs_Reward = map_option (resume_update w i) (Offer_of (w_rewardRound w) i)\<rparr>)"

section \<open>Properties\<close>

text \<open>A run in its first stage with one player; the witnesses below start from it.\<close>

definition sample_world :: World where
  "sample_world = \<lparr>w_config = DefaultConfig, w_tick = 4, w_players = [(7, new_player DefaultConfig 7)],
     w_departedPlayers = [], w_monsters = [], w_projectiles = [], w_pickups = [], w_covers = [], w_nextEntity = 0,
     w_stage = zero_view\<lparr>v_Index := 1, v_State := Playing\<rparr>, w_events = [], w_eventOverflow = False,
     w_rewardRound = None, w_rewardCatalog = zero_catalog, w_rewardUpdates = [],
     w_rewardOverflow = False, w_performance = zero_performance, w_currentPlan = zero_plan, w_completedStages = [],
     w_runStarted = True, w_runStartedAtTick = 0, w_runEndedAtTick = 0, w_rounds = 0\<rparr>"

definition sample_input :: Input where
  "sample_input = zero_input\<lparr>i_Seq := 3, i_Direction := vec2 (Fin 1) (Fin 0), i_UsePotion := True\<rparr>"

text \<open>C5: Accepting an input stages the player's intent and nothing else: the input is valid, newer than the last one and
  not received before it; the staged input has its sequence number, the normalised direction, its aim and
  trigger, and asks for a reload or a potion exactly if it does or a pending input did; it is pending from the time of its
  receipt, so that the next tick reads it.  Nothing moves, nobody and nothing else in the world is touched,
  and the same packet is stale when it comes again.\<close>

theorem ApplyInput_stages:
  assumes "ApplyInput w i input now = Inr w'"
  shows "\<exists>p q. map_of (w_players w) i = Some p \<and> map_of (w_players w') i = Some q \<and> Input_Validate input \<and>
    i_Seq (ps_input p) < i_Seq input \<and> ps_receivedAt p \<le> now \<and>
    i_Seq (ps_input q) = i_Seq input \<and> i_Direction (ps_input q) = NormalizeDirection (i_Direction input) \<and>
    i_Aim (ps_input q) = i_Aim input \<and> i_Shoot (ps_input q) = i_Shoot input \<and>
    (i_UsePotion (ps_input q) \<longleftrightarrow> i_UsePotion input \<or> ps_pending p \<and> i_UsePotion (ps_input p)) \<and>
    (i_Reload (ps_input q) \<longleftrightarrow> i_Reload input \<or> ps_pending p \<and> i_Reload (ps_input p)) \<and>
    ps_receivedAt q = now \<and> ps_pending q \<and>
    q = p\<lparr>ps_input := ps_input q, ps_receivedAt := now, ps_pending := True\<rparr> \<and> ps_player q = ps_player p \<and> ps_loadout q = ps_loadout p \<and>
    (\<forall>j. j \<noteq> i \<longrightarrow> map_of (w_players w') j = map_of (w_players w) j) \<and> w' = w\<lparr>w_players := w_players w'\<rparr> \<and>
    (\<forall>later. ApplyInput w' i input later = Inl ErrStaleInput)"
proof -
  obtain p where p: "Input_Validate input" "map_of (w_players w) i = Some p" "i_Seq (ps_input p) < i_Seq input" "ps_receivedAt p \<le> now"
    "w' = w\<lparr>w_players := AList.update i (p\<lparr>ps_input := input\<lparr>i_Direction := NormalizeDirection (i_Direction input),
          i_Reload := (i_Reload input \<or> (ps_pending p \<and> i_Reload (ps_input p))),
          i_UsePotion := (i_UsePotion input \<or> (ps_pending p \<and> i_UsePotion (ps_input p)))\<rparr>,
        ps_receivedAt := now, ps_pending := True\<rparr>) (w_players w)\<rparr>"
    using assms unfolding ApplyInput_def by (auto simp: Let_def not_le split: option.splits if_splits)
  then show ?thesis by (simp add: update_conv' ApplyInput_def)
qed

theorem ApplyInput_stages_witness:
  "\<exists>w' q. ApplyInput sample_world 7 sample_input 5 = Inr w' \<and> map_of (w_players w') 7 = Some q \<and>
     i_Seq (ps_input q) = 3 \<and> ps_player q = ps_player (new_player DefaultConfig 7) \<and>
     ApplyInput w' 7 sample_input 9 = Inl ErrStaleInput"
proof -
  have p: "map_of (w_players sample_world) 7 = Some (new_player DefaultConfig 7)" by (simp add: sample_world_def)
  have "ps_input (new_player DefaultConfig 7) = zero_input" "ps_receivedAt (new_player DefaultConfig 7) = 0"
    by (simp_all add: new_player_def Let_def)
  then have "\<exists>w'. ApplyInput sample_world 7 sample_input 5 = Inr w'"
    using p by (simp add: ApplyInput_def Input_Validate_def sample_input_def zero_input_def Vec2_Finite_def zero_vec_def Let_def)
  then obtain w' where w': "ApplyInput sample_world 7 sample_input 5 = Inr w'" by blast
  show ?thesis using ApplyInput_stages[OF w'] w' p by (auto simp: sample_input_def)
qed

text \<open>C6: A final result is only given for the outcome the world is in: victory after a cleared stage,
  defeat after the team failed, abandonment while the run is on.  It lists every player who is in the
  run or left it, ordered by ID.\<close>

theorem GameResult_outcome:
  assumes "GameResult_of w outcome = Inr r" and "map_ok (w_players w)" and "map_ok (w_departedPlayers w)"
  shows "w_runStarted w \<and> gr_Outcome r = outcome \<and>
    (outcome = GameVictory \<longrightarrow> w_completedStages w \<noteq> [] \<and> cleared_state (v_State (w_stage w))) \<and>
    (outcome = GameDefeat \<longrightarrow> v_State (w_stage w) = Failed) \<and>
    (outcome = GameAbandoned \<longrightarrow> v_State (w_stage w) \<notin> {Waiting, Closed, Failed}) \<and>
    sorted (map pr_PlayerID (gr_Players r)) \<and> length (gr_Players r) = length (w_departedPlayers w) + length (w_players w) \<and>
    set (gr_Players r) = {d. \<exists>i. map_of (w_departedPlayers w) i = Some d} \<union>
      {playerResult (ps_player p) |p. \<exists>i. map_of (w_players w) i = Some p}"
proof -
  have v: "GameOutcome_Valid outcome" "w_runStarted w" "\<exists>e. result_end w outcome = Inr e"
    and r: "gr_Outcome r = outcome" "gr_Players r = sort_key pr_PlayerID
              (map (\<lambda>i. the (map_of (w_departedPlayers w) i)) (ordered_keys (w_departedPlayers w)) @
               map (\<lambda>i. playerResult (ps_player (the (map_of (w_players w) i)))) (ordered_keys (w_players w)))"
    using assms(1) unfolding GameResult_of_def by (auto split: if_splits sum.splits)
  have "set (gr_Players r) = {d. \<exists>i. map_of (w_departedPlayers w) i = Some d} \<union>
      {playerResult (ps_player p) |p. \<exists>i. map_of (w_players w) i = Some p}"
    unfolding r(2) by (force simp: image_iff)
  moreover have "length (gr_Players r) = length (w_departedPlayers w) + length (w_players w)" by (simp add: r(2))
  ultimately show ?thesis using v r by (auto simp: result_end_def split: if_splits)
qed

theorem GameResult_outcome_witness:
  "\<exists>r. GameResult_of sample_world GameAbandoned = Inr r \<and> gr_Outcome r = GameAbandoned \<and> length (gr_Players r) = 1"
proof -
  have "\<exists>r. GameResult_of sample_world GameAbandoned = Inr r"
    by (simp add: GameResult_of_def GameOutcome_Valid_def result_end_def sample_world_def zero_view_def)
  moreover have "map_ok (w_players sample_world)" "map_ok (w_departedPlayers sample_world)"
    by (simp_all add: sample_world_def map_ok_def)
  ultimately show ?thesis using GameResult_outcome[of sample_world GameAbandoned] by (auto simp: sample_world_def)
qed

end
