(* ===== verification/Rewards.thy ===== *)
theory Rewards
  imports World
begin

text \<open>
  What players carry: magazines (\<open>ammo.go\<close>), potions and the reward stage (\<open>rewards.go\<close>), and the
  pickups of a stage (\<open>pickups.go\<close>).  Operations return the world, an error of the code, or a panic.
\<close>

section \<open>Magazine\<close>

definition startReload :: "playerState \<Rightarrow> playerState" where
  "startReload p =
     (if p_Alive (ps_player p) \<and> p_Ammo (ps_player p) < p_MagazineCapacity (ps_player p) \<and>
         p_ReloadTicksRemaining (ps_player p) = 0
      then p\<lparr>ps_player := (ps_player p)\<lparr>p_ReloadTicksRemaining := ReloadDurationTicks\<rparr>\<rparr>
      else p)"

definition syncMagazine :: "Catalog \<Rightarrow> playerState \<Rightarrow> playerState" where
  "syncMagazine catalog p =
     (let capacity = MagazineCapacity catalog (ps_loadout p) BaseMagazineCapacity
      in p\<lparr>ps_player := (ps_player p)\<lparr>p_MagazineCapacity := capacity,
           p_Ammo := min (p_Ammo (ps_player p)) capacity\<rparr>\<rparr>)"

section \<open>Equipment of a player\<close>

definition syncEquipment :: "playerState \<Rightarrow> playerState" where
  "syncEquipment p = p\<lparr>ps_player := (ps_player p)\<lparr>p_Equipment :=
     \<lparr>eq_WeaponID = WeaponID (ps_loadout p), eq_RelicID = RelicID (ps_loadout p),
      eq_PotionID = PotionID (ps_loadout p)\<rparr>\<rparr>\<rparr>"

definition usePotion :: "Catalog \<Rightarrow> playerState \<Rightarrow> playerState" where
  "usePotion catalog p =
     (case UsePotion (ps_loadout p) (p_Health (ps_player p)) (cs_MaxHealth (p_CurrentStats (ps_player p))) catalog of
        Inl _ \<Rightarrow> p
      | Inr (loadout, health, _) \<Rightarrow>
        syncEquipment (p\<lparr>ps_loadout := loadout, ps_player := (ps_player p)\<lparr>p_Health := health\<rparr>\<rparr>))"

text \<open>
  \<open>equipment.Apply\<close> on a player's state, as three callers use it.  \<open>PanicNilTarget\<close> is the panic of \<open>Resolve\<close> on a
  statistic without a target; it is never the outcome with the catalog of a reachable world.
\<close>

definition apply_to :: "Catalog \<Rightarrow> playerState \<Rightarrow> equip_id \<Rightarrow> equip_error + Loadout \<times> CombatStats \<times> f64" where
  "apply_to catalog p i = Apply (p_BaseStats (ps_player p)) (p_Health (ps_player p)) (ps_loadout p) i catalog 30"

definition equip_player :: "Catalog \<Rightarrow> Loadout \<times> CombatStats \<times> f64 \<Rightarrow> playerState \<Rightarrow> playerState" where
  "equip_player catalog res p =
     (case res of (loadout, stats, health) \<Rightarrow>
        syncMagazine catalog (syncEquipment (p\<lparr>ps_loadout := loadout,
          ps_player := (ps_player p)\<lparr>p_CurrentStats := stats, p_Health := health\<rparr>\<rparr>)))"

section \<open>The reward stage\<close>

definition apply_errors :: "World \<Rightarrow> Catalog \<Rightarrow> world_error list" where
  "apply_errors w catalog = concat (map (\<lambda>playerID. concat (map (\<lambda>i.
     case apply_to catalog (the (map_of (w_players w) playerID)) i of
       Inl e \<Rightarrow> [CannotApply playerID i e] | Inr _ \<Rightarrow> []) (IDs catalog))) (ordered_keys (w_players w)))"

definition offer_update :: "World \<Rightarrow> Offer \<Rightarrow> RewardUpdate" where
  "offer_update w offer = \<lparr>ru_Kind = RewardOptionsAvailable, ru_StageIndex = v_Index (w_stage w),
     ru_ServerTick = w_tick w + 1, ru_PlayerID = o_PlayerID offer, ru_EquipmentIDs = o_EquipmentIDs offer,
     ru_DeadlineTick = o_DeadlineTick offer, ru_EquipmentID = 0, ru_Defaulted = False\<rparr>"

definition StartReward :: "World \<Rightarrow> Catalog \<Rightarrow> i64 \<Rightarrow> u64 \<Rightarrow> world_error + World" where
  "StartReward w catalog seed durationTicks =
     (if v_State (w_stage w) \<noteq> StageClear \<or> w_rewardRound w \<noteq> None then Inl ErrRewardState
      else if IDs catalog = [] then Inl EmptyCatalog_reward
      else case apply_errors w catalog of
          e # _ \<Rightarrow> Inl e
        | [] \<Rightarrow>
          let optionCount = min MaxOptions (int (length (IDs catalog)))
          in case NewRound (w_rounds w) (v_Index (w_stage w)) seed (w_tick w) durationTicks
                 (ordered_keys (w_players w)) catalog optionCount of
              Inl e \<Rightarrow> Inl (ErrRound e)
            | Inr newRound \<Rightarrow>
              let w = set_stage_state Reward (w\<lparr>w_rewardCatalog := catalog, w_rewardRound := Some newRound,
                        w_rounds := w_rounds w + 1\<rparr>)
              in Inr (fold (\<lambda>offer w. emitRewardUpdate (offer_update w offer) w) (Offers (Some newRound)) w))"

definition applied_update :: "World \<Rightarrow> Selection \<Rightarrow> u64 \<Rightarrow> RewardUpdate" where
  "applied_update w selection eventTick = \<lparr>ru_Kind = RewardSelectionApplied, ru_StageIndex = v_Index (w_stage w),
     ru_ServerTick = eventTick, ru_PlayerID = s_playerID selection, ru_EquipmentIDs = [], ru_DeadlineTick = 0,
     ru_EquipmentID = s_equipmentID selection, ru_Defaulted = s_defaulted selection\<rparr>"

definition applyRewardSelection :: "World \<Rightarrow> Selection \<Rightarrow> u64 \<Rightarrow> world_error + World" where
  "applyRewardSelection w selection eventTick =
     (case map_of (w_players w) (s_playerID selection) of
        None \<Rightarrow> Inl ErrPlayerMissing
      | Some p \<Rightarrow>
        (case apply_to (w_rewardCatalog w) p (s_equipmentID selection) of
           Inl e \<Rightarrow> Inl (ErrEquip e)
         | Inr res \<Rightarrow>
           (case Commit (w_rewardRound w) selection of
              Inl e \<Rightarrow> Inl (ErrRound e)
            | Inr newRound \<Rightarrow>
              let w = w\<lparr>w_rewardRound := Some newRound, w_players := AList.update (s_playerID selection)
                        (equip_player (w_rewardCatalog w) res p) (w_players w)\<rparr>;
                  w = emitRewardUpdate (applied_update w selection eventTick) w
              in Inr (if Complete (w_rewardRound w) then set_stage_state PreparingNextStage w else w))))"

definition ChooseReward :: "World \<Rightarrow> entity_id \<Rightarrow> equip_id \<Rightarrow> world_error + World" where
  "ChooseReward w playerID equipmentID =
     (if v_State (w_stage w) \<noteq> Reward \<or> w_rewardRound w = None then Inl ErrRewardState
      else case ValidateChoice (w_rewardRound w) playerID equipmentID (w_tick w) of
          Inl e \<Rightarrow> Inl (ErrRound e)
        | Inr selection \<Rightarrow> applyRewardSelection w selection (w_tick w + 1))"

fun apply_defaults :: "World \<Rightarrow> Selection list \<Rightarrow> game_panic + World" where
  "apply_defaults w [] = Inr w"
| "apply_defaults w (s # ss) =
     (case applyRewardSelection w s (w_tick w) of
        Inl e \<Rightarrow> Inl (RewardDefaultFailed e)
      | Inr w' \<Rightarrow> apply_defaults w' ss)"

definition stepReward :: "World \<Rightarrow> game_panic + World" where
  "stepReward w =
     (if v_State (w_stage w) \<noteq> Reward \<or> w_rewardRound w = None then Inr w
      else apply_defaults w (DueDefaults (w_rewardRound w) (w_tick w)))"

section \<open>Pickups\<close>

definition pickupRadius :: f64 where "pickupRadius = fl (72 / 100)"
definition stagePickupHeal :: f64 where "stagePickupHeal = Fin 30"

definition weapon_ids :: "Catalog \<Rightarrow> equip_id list" where
  "weapon_ids catalog = filter (\<lambda>i. case Lookup catalog i of None \<Rightarrow> False | Some d \<Rightarrow> e_Slot d = Weapon) (IDs catalog)"

definition pickup_position :: "World \<Rightarrow> f64 \<Rightarrow> f64 \<Rightarrow> Vec2" where
  "pickup_position w fx fy =
     (let config = w_config w;
          width = X (g_Max config) - X (g_Min config); height = Y (g_Max config) - Y (g_Min config)
      in clearSpawnFromCover config (w_covers w)
           (vec2 (X (g_Min config) + width * fx) (Y (g_Min config) + height * fy)) pickupRadius)"

definition place_pickup :: "PickupKind \<Rightarrow> Vec2 \<Rightarrow> equip_id \<Rightarrow> f64 \<Rightarrow> World \<Rightarrow> World" where
  "place_pickup kind position equipmentID value w =
     (case allocateID w of (i, w) \<Rightarrow>
        w\<lparr>w_pickups := AList.update i \<lparr>pk_ID = i, pk_Kind = kind, pk_Position = position,
            pk_EquipmentID = equipmentID, pk_Value = value\<rparr> (w_pickups w)\<rparr>)"

definition spawnStagePickups :: "World \<Rightarrow> u32 \<Rightarrow> World" where
  "spawnStagePickups w stageIndex =
     (let w = w\<lparr>w_pickups := []\<rparr>;
          flip = (stageIndex mod 2 = 0);
          healthY = (if flip then fl (76 / 100) else fl (24 / 100));
          weaponY = (if flip then fl (24 / 100) else fl (76 / 100));
          w = place_pickup HealthPickup (pickup_position w (fl (20 / 100)) healthY) 0 stagePickupHeal w;
          weaponIDs = weapon_ids (w_rewardCatalog w)
      in if weaponIDs = [] then w
         else
           let selected = weaponIDs ! unat ((stageIndex - 1) mod of_nat (length weaponIDs))
           in place_pickup WeaponPickup (pickup_position w (fl (80 / 100)) weaponY) selected (Fin 0) w)"

text \<open>One pickup against one player; None is \<open>continue\<close>, which leaves the pickup on the map.\<close>

definition take_pickup :: "Catalog \<Rightarrow> playerState \<Rightarrow> PickupView \<Rightarrow> game_panic + playerState option" where
  "take_pickup catalog p pickup =
     (let player = ps_player p in
      if pickupRadius < math_Hypot (X (p_Position player) - X (pk_Position pickup))
           (Y (p_Position player) - Y (pk_Position pickup)) then Inr None
      else (case pk_Kind pickup of
          HealthPickup \<Rightarrow>
            if cs_MaxHealth (p_CurrentStats player) \<le> p_Health player then Inr None
            else Inr (Some (p\<lparr>ps_player := player\<lparr>p_Health := math_Min (cs_MaxHealth (p_CurrentStats player))
                   (p_Health player + pk_Value pickup)\<rparr>\<rparr>))
        | WeaponPickup \<Rightarrow>
            (case apply_to catalog p (pk_EquipmentID pickup) of
               Inl e \<Rightarrow> if e = PanicNilTarget then Inl NilStat else Inr None
             | Inr res \<Rightarrow> Inr (Some (equip_player catalog res p)))
        | OtherPickup _ \<Rightarrow> Inr None))"

definition collect_one :: "entity_id \<Rightarrow> entity_id \<Rightarrow> World \<Rightarrow> game_panic + World" where
  "collect_one playerID pickupID w =
     (case take_pickup (w_rewardCatalog w) (the (map_of (w_players w) playerID)) (the (map_of (w_pickups w) pickupID)) of
        Inl e \<Rightarrow> Inl e
      | Inr None \<Rightarrow> Inr w
      | Inr (Some p) \<Rightarrow> Inr (w\<lparr>w_players := AList.update playerID p (w_players w),
                     w_pickups := AList.delete pickupID (w_pickups w)\<rparr>))"

fun collect_each :: "entity_id \<Rightarrow> entity_id list \<Rightarrow> World \<Rightarrow> game_panic + World" where
  "collect_each playerID [] w = Inr w"
| "collect_each playerID (i # js) w =
     (case collect_one playerID i w of Inl e \<Rightarrow> Inl e | Inr w \<Rightarrow> collect_each playerID js w)"

definition collect_player :: "entity_id \<Rightarrow> World \<Rightarrow> game_panic + World" where
  "collect_player playerID w =
     (if \<not> p_Alive (ps_player (the (map_of (w_players w) playerID))) then Inr w
      else collect_each playerID (ordered_keys (w_pickups w)) w)"

fun collect_players :: "entity_id list \<Rightarrow> World \<Rightarrow> game_panic + World" where
  "collect_players [] w = Inr w"
| "collect_players (i # js) w =
     (case collect_player i w of Inl e \<Rightarrow> Inl e | Inr w \<Rightarrow> collect_players js w)"

definition collectPickups :: "World \<Rightarrow> game_panic + World" where
  "collectPickups w =
     (if v_State (w_stage w) \<noteq> Playing \<or> w_pickups w = [] then Inr w
      else collect_players (ordered_keys (w_players w)) w)"

end
