(* ===== verification/Combat.thy ===== *)
theory Combat
  imports Rewards
begin

text \<open>
  Stages and combat (\<open>combat.go\<close>): installing a plan, and the combat part of a tick in the order of
  the code (shots, monsters, projectiles, damage, deaths, end of the stage).  \<open>applyDamage\<close> panics on
  invalid combat values, so the fold over the damage requests returns a panic or the world.
\<close>

section \<open>Starting a stage\<close>

definition ValidateStage :: "Plan \<Rightarrow> Config \<Rightarrow> plan_error + unit" where
  "ValidateStage plan config = Plan_Validate plan (g_Min config) (g_Max config) (cc_MaxMonsters (g_Combat config))"

definition reset_for_next :: "Config \<Rightarrow> playerState \<Rightarrow> playerState" where
  "reset_for_next config p =
     (let player = (ps_player p)\<lparr>p_Position := g_Spawn config, p_Velocity := zero_vec\<rparr>;
          player = (if \<not> p_Alive player
            then player\<lparr>p_Alive := True, p_Health := cs_MaxHealth (p_CurrentStats player) * Fin (1 / 2)\<rparr>
            else player)
      in p\<lparr>ps_player := player,
           ps_input := (ps_input p)\<lparr>i_Direction := zero_vec, i_Aim := zero_vec, i_Shoot := False,
             i_UsePotion := False, i_Reload := False\<rparr>,
           ps_receivedAt := 0, ps_pending := False, ps_firing := False\<rparr>)"

definition refill :: "playerState \<Rightarrow> playerState" where
  "refill p = p\<lparr>ps_player := (ps_player p)\<lparr>p_Ammo := p_MagazineCapacity (ps_player p), p_ReloadTicksRemaining := 0\<rparr>\<rparr>"

definition stage_view :: "Config \<Rightarrow> Plan \<Rightarrow> StageView" where
  "stage_view config plan = \<lparr>v_Index = pl_Index plan, v_Seed = pl_Seed plan, v_State = Playing,
     v_MonstersRemaining = int (length (pl_Monsters plan)), v_StageLimit = g_StageLimit config,
     v_DifficultyScore = pl_DifficultyScore plan, v_DifficultyAdjustment = pl_DifficultyAdjustment plan,
     v_PreviousClearSeconds = pl_PreviousClearSeconds plan,
     v_PreviousTeamHPPercent = pl_PreviousTeamHPPercent plan\<rparr>"

definition spawn_monster :: "Spawn \<Rightarrow> World \<Rightarrow> World" where
  "spawn_monster spawn w =
     (case allocateID w of (i, w) \<Rightarrow>
        w\<lparr>w_monsters := AList.update i
           \<lparr>ms_monster = \<lparr>m_ID = i,
              m_Position = clearSpawnFromCover (w_config w) (w_covers w) (sp_Position spawn) (sp_Radius spawn),
              m_Velocity = zero_vec, m_BaseStats = sp_Stats spawn, m_CurrentStats = sp_Stats spawn,
              m_Health = cs_MaxHealth (sp_Stats spawn), m_Radius = sp_Radius spawn,
              m_AttackRange = sp_AttackRange spawn, m_State = MonsterIdle\<rparr>,
            ms_previous = zero_vec, ms_target = 0, ms_nextAttack = 0\<rparr> (w_monsters w)\<rparr>)"

definition can_start_initial :: "World \<Rightarrow> bool" where
  "can_start_initial w \<longleftrightarrow> v_State (w_stage w) = Waiting"

definition can_start_next :: "World \<Rightarrow> bool" where
  "can_start_next w \<longleftrightarrow> v_State (w_stage w) = PreparingNextStage \<and> w_rewardRound w \<noteq> None \<and>
     Complete (w_rewardRound w)"

definition prepare_next :: "World \<Rightarrow> World" where
  "prepare_next w = w\<lparr>w_players := map_values (reset_for_next (w_config w)) (w_players w), w_rewardRound := None\<rparr>"

definition prepare_initial :: "World \<Rightarrow> World" where
  "prepare_initial w = w\<lparr>w_runStarted := True, w_runStartedAtTick := w_tick w, w_runEndedAtTick := 0,
     w_completedStages := []\<rparr>"

definition enter_stage :: "Plan \<Rightarrow> World \<Rightarrow> World" where
  "enter_stage plan w = w\<lparr>w_performance := zero_performance\<lparr>pf_startedAtTick := w_tick w,
       pf_equipmentPower := equipmentPower w\<rparr>,
     w_currentPlan := plan, w_stage := stage_view (w_config w) plan,
     w_players := map_values refill (w_players w)\<rparr>"

definition StartStage :: "World \<Rightarrow> Plan \<Rightarrow> world_error + World" where
  "StartStage w plan =
     (case ValidateStage plan (w_config w) of
        Inl e \<Rightarrow> Inl (ErrPlan e)
      | Inr _ \<Rightarrow>
        let initial = can_start_initial w; nxt = can_start_next w
        in if (\<not> initial \<and> \<not> nxt) \<or> PlayerCount w = 0 \<or> (initial \<and> livingPlayers w = 0)
           then Inl ErrStageState
           else if nxt \<and> pl_Index plan \<noteq> v_Index (w_stage w) + 1 then Inl ErrStageIndex
           else
             let w = w\<lparr>w_covers := buildCoverBlocks (w_config w) (pl_Index plan) (pl_Seed plan)\<rparr>;
                 w = (if nxt then prepare_next w else w);
                 w = (if initial then prepare_initial w else w);
                 w = enter_stage plan w;
                 w = spawnStagePickups w (pl_Index plan);
                 w = fold spawn_monster (pl_Monsters plan) w
             in Inr (emit ((blank_event StageStarted)\<lparr>ev_StageIndex := pl_Index plan,
                      ev_ServerTick := w_tick w + 1\<rparr>) w))"

section \<open>Shots\<close>

definition new_projectile :: "World \<Rightarrow> Player \<Rightarrow> entity_id \<Rightarrow> entity_id \<Rightarrow> Projectile" where
  "new_projectile w player owner i =
     (let c = g_Combat (w_config w)
      in \<lparr>pr_ID = i, pr_OwnerID = owner, pr_Position = p_Position player,
          pr_Velocity = vec2 (X (p_Aim player) * cc_ProjectileSpeed c) (Y (p_Aim player) * cc_ProjectileSpeed c),
          pr_Attack = cs_Attack (p_CurrentStats player), pr_Radius = cc_ProjectileRadius c,
          pr_ExpiresAtTick = w_tick w + ucast (cc_ProjectileLifetimeTicks c)\<rparr>)"

definition step_player_shot :: "entity_id \<Rightarrow> World \<Rightarrow> World" where
  "step_player_shot i w =
     (let p = the (map_of (w_players w) i); player = ps_player p in
      if 0 < p_ReloadTicksRemaining player
      then
        let player = player\<lparr>p_ReloadTicksRemaining := p_ReloadTicksRemaining player - 1\<rparr>;
            player = (if p_ReloadTicksRemaining player = 0 \<and> p_Alive player
              then player\<lparr>p_Ammo := p_MagazineCapacity player\<rparr> else player)
        in w\<lparr>w_players := AList.update i (p\<lparr>ps_player := player\<rparr>) (w_players w)\<rparr>
      else if \<not> p_Alive player \<or> \<not> ps_firing p \<or> p_Ammo player = 0 \<or> w_tick w < ps_nextShot p \<or>
          cc_MaxProjectiles (g_Combat (w_config w)) \<le> int (length (w_projectiles w)) then w
      else
        let p' = p\<lparr>ps_player := player\<lparr>p_Ammo := p_Ammo player - 1\<rparr>,
              ps_nextShot := w_tick w + ucast (cs_AttackCooldownTicks (p_CurrentStats player))\<rparr>;
            w = w\<lparr>w_players := AList.update i p' (w_players w)\<rparr>;
            (projectileID, w) = allocateID w;
            projectile = new_projectile w player i projectileID;
            w = w\<lparr>w_projectiles := AList.update projectileID projectile (w_projectiles w)\<rparr>
        in emit ((blank_event ProjectileSpawned)\<lparr>ev_EntityID := projectileID, ev_SourceID := i,
             ev_Position := pr_Position projectile, ev_Velocity := pr_Velocity projectile,
             ev_ExpiresAtTick := pr_ExpiresAtTick projectile\<rparr>) w)"

section \<open>Monsters\<close>

text \<open>The map \<open>assigned\<close> counts, per player, the monsters that target it (0 when absent).\<close>

type_synonym assigned = "(entity_id, int) gomap"

definition assigned_to :: "assigned \<Rightarrow> entity_id \<Rightarrow> int" where
  "assigned_to a i = (case map_of a i of None \<Rightarrow> 0 | Some n \<Rightarrow> n)"

definition target_score :: "World \<Rightarrow> assigned \<Rightarrow> Monster \<Rightarrow> entity_id \<Rightarrow> entity_id \<Rightarrow> f64" where
  "target_score w a m previousTarget pid =
     (let p = ps_player (the (map_of (w_players w) pid));
          d = math_Hypot (X (p_Position p) - X (m_Position m)) (Y (p_Position p) - Y (m_Position m));
          score = d + f64_of_int (assigned_to a pid) * Fin 2
      in if pid = previousTarget then score - Fin (1 / 2) else score)"

definition choose_target :: "World \<Rightarrow> assigned \<Rightarrow> Monster \<Rightarrow> entity_id \<Rightarrow> entity_id list \<Rightarrow> entity_id" where
  "choose_target w a m previousTarget playerIDs =
     fst (fold (\<lambda>pid (target, bestScore).
       if \<not> p_Alive (ps_player (the (map_of (w_players w) pid))) then (target, bestScore)
       else let score = target_score w a m previousTarget pid
         in if score < bestScore then (pid, score) else (target, bestScore)) playerIDs (0, Inf False))"

text \<open>Moving towards a living target that is out of reach or covered.\<close>

definition chase :: "World \<Rightarrow> Player \<Rightarrow> f64 \<Rightarrow> bool \<Rightarrow> monsterState \<Rightarrow> monsterState" where
  "chase w p distance covered ms =
     (let m = (ms_monster ms)\<lparr>m_State := MonsterChase\<rparr>;
          waypoint = the (routeAroundCover (w_config w) (w_covers w) (m_Position m) (p_Position p) (m_Radius m));
          steerX = X waypoint - X (m_Position m); steerY = Y waypoint - Y (m_Position m);
          steerDistance = math_Hypot steerX steerY
      in if Fin 0 < steerDistance
         then
           let step = math_Min (cs_MoveSpeed (m_CurrentStats m) * StepSeconds) steerDistance;
               step = (if \<not> covered then math_Min step (math_Max (Fin 0) (distance - m_AttackRange m)) else step);
               position = moveWithCover (w_config w) (w_covers w) (m_Position m)
                 (vec2 (steerX / steerDistance * step) (steerY / steerDistance * step)) (m_Radius m)
           in ms\<lparr>ms_monster := m\<lparr>m_Position := position,
                m_Velocity := vec2 ((X position - X (ms_previous ms)) / StepSeconds)
                  ((Y position - Y (ms_previous ms)) / StepSeconds)\<rparr>\<rparr>
         else ms\<lparr>ms_monster := m\<rparr>)"

text \<open>One monster: the world, the counts and the damage requests so far.\<close>

type_synonym monster_step = "World \<times> assigned \<times> DamageRequest list"

definition monster_decide :: "World \<Rightarrow> assigned \<Rightarrow> entity_id list \<Rightarrow> monsterState \<Rightarrow> monsterState" where
  "monster_decide w a playerIDs ms =
     (let ms = ms\<lparr>ms_previous := m_Position (ms_monster ms)\<rparr>
      in if (w_tick w - 1) mod AIDecisionEvery = 0
         then ms\<lparr>ms_target := choose_target w a (ms_monster ms) (ms_target ms) playerIDs\<rparr>
         else ms)"

definition monster_act :: "World \<Rightarrow> entity_id \<Rightarrow> monsterState \<Rightarrow> monsterState \<times> DamageRequest list" where
  "monster_act w i ms =
     (let ms = ms\<lparr>ms_monster := (ms_monster ms)\<lparr>m_Velocity := zero_vec\<rparr>\<rparr> in
      case map_of (w_players w) (ms_target ms) of
        None \<Rightarrow> (ms\<lparr>ms_monster := (ms_monster ms)\<lparr>m_State := MonsterIdle\<rparr>\<rparr>, [])
      | Some p \<Rightarrow>
        if \<not> p_Alive (ps_player p) then (ms\<lparr>ms_monster := (ms_monster ms)\<lparr>m_State := MonsterIdle\<rparr>\<rparr>, [])
        else
          let player = ps_player p; m = ms_monster ms;
              dx = X (p_Position player) - X (m_Position m); dy = Y (p_Position player) - Y (m_Position m);
              distance = math_Hypot dx dy;
              covered = snd (firstCoverHit (w_covers w) (m_Position m) (p_Position player) (Fin 0))
          in if m_AttackRange m < distance \<or> covered then (chase w player distance covered ms, [])
             else
               let ms = ms\<lparr>ms_monster := m\<lparr>m_State := MonsterAttack\<rparr>\<rparr>
               in if ms_nextAttack ms \<le> w_tick w
                  then (ms\<lparr>ms_nextAttack := w_tick w + ucast (cs_AttackCooldownTicks (m_CurrentStats m))\<rparr>,
                        [\<lparr>dr_SourceID = i, dr_TargetID = ms_target ms, dr_Attack = cs_Attack (m_CurrentStats m),
                          dr_TargetPlayer = True\<rparr>])
                  else (ms, []))"

definition step_monster :: "entity_id list \<Rightarrow> entity_id \<Rightarrow> monster_step \<Rightarrow> monster_step" where
  "step_monster playerIDs i st =
     (case st of (w, a, requests) \<Rightarrow>
       let ms = monster_decide w a playerIDs (the (map_of (w_monsters w) i));
           a = (if ms_target ms \<noteq> 0 then AList.update (ms_target ms) (assigned_to a (ms_target ms) + 1) a else a);
           (ms, new_requests) = monster_act w i ms
       in (w\<lparr>w_monsters := AList.update i ms (w_monsters w)\<rparr>, a, requests @ new_requests))"

section \<open>Projectiles\<close>

definition destroyProjectile :: "Projectile \<Rightarrow> World \<Rightarrow> World" where
  "destroyProjectile p w =
     emit ((blank_event ProjectileDestroyed)\<lparr>ev_EntityID := pr_ID p, ev_SourceID := pr_OwnerID p,
       ev_Position := pr_Position p\<rparr>) (w\<lparr>w_projectiles := AList.delete (pr_ID p) (w_projectiles w)\<rparr>)"

text \<open>The part of the segment that is inside the map, per axis: start, end and the two bounds.\<close>

definition clip_axis :: "f64 \<times> f64 \<times> f64 \<times> f64 \<Rightarrow> f64 \<Rightarrow> f64" where
  "clip_axis axis fraction =
     (case axis of (p, q, lo, hi) \<Rightarrow>
       let fraction = (if q < lo then math_Min fraction ((lo - p) / (q - p)) else fraction)
       in if hi < q then math_Min fraction ((hi - p) / (q - p)) else fraction)"

definition along :: "Vec2 \<Rightarrow> Vec2 \<Rightarrow> f64 \<Rightarrow> Vec2" where
  "along p q t = vec2 (X p + (X q - X p) * t) (Y p + (Y q - Y p) * t)"

definition first_monster_hit :: "World \<Rightarrow> Projectile \<Rightarrow> Vec2 \<Rightarrow> f64 \<Rightarrow> entity_id list \<Rightarrow> entity_id \<times> f64" where
  "first_monster_hit w p stop fraction monsterIDs =
     fold (\<lambda>mid (target, closest).
       let ms = the (map_of (w_monsters w) mid);
           centerEnd = along (ms_previous ms) (m_Position (ms_monster ms)) fraction;
           relativeStart = vec2 (X (pr_Position p) - X (ms_previous ms)) (Y (pr_Position p) - Y (ms_previous ms));
           relativeEnd = vec2 (X stop - X centerEnd) (Y stop - Y centerEnd)
       in case SegmentCircle relativeStart relativeEnd zero_vec (pr_Radius p + m_Radius (ms_monster ms)) of
            (hit, ok) \<Rightarrow> if ok \<and> hit < closest then (mid, hit) else (target, closest)) monsterIDs (0, Inf False)"

definition step_projectile :: "entity_id list \<Rightarrow> entity_id \<Rightarrow> World \<times> DamageRequest list \<Rightarrow> World \<times> DamageRequest list" where
  "step_projectile monsterIDs i st =
     (case st of (w, requests) \<Rightarrow>
       let p = the (map_of (w_projectiles w) i) in
       if pr_ExpiresAtTick p \<le> w_tick w then (destroyProjectile p w, requests)
       else
         let config = w_config w;
             stop = vec2 (X (pr_Position p) + X (pr_Velocity p) * StepSeconds)
                         (Y (pr_Position p) + Y (pr_Velocity p) * StepSeconds);
             fraction = fold clip_axis
               [(X (pr_Position p), X stop, X (g_Min config), X (g_Max config)),
                (Y (pr_Position p), Y stop, Y (g_Min config), Y (g_Max config))] (Fin 1);
             stop = along (pr_Position p) stop fraction;
             (coverHit, hitsCover) = firstCoverHit (w_covers w) (pr_Position p) stop (pr_Radius p);
             (target, closest) = first_monster_hit w p stop fraction monsterIDs
         in if target \<noteq> 0 \<and> (\<not> hitsCover \<or> closest < coverHit)
            then (destroyProjectile (p\<lparr>pr_Position := along (pr_Position p) stop closest\<rparr>) w,
                  requests @ [\<lparr>dr_SourceID = pr_OwnerID p, dr_TargetID = target, dr_Attack = pr_Attack p,
                    dr_TargetPlayer = False\<rparr>])
            else if hitsCover
            then (destroyProjectile (p\<lparr>pr_Position := along (pr_Position p) stop coverHit\<rparr>) w, requests)
            else if fraction < Fin 1 then (destroyProjectile (p\<lparr>pr_Position := stop\<rparr>) w, requests)
            else (w\<lparr>w_projectiles := AList.update i (p\<lparr>pr_Position := stop\<rparr>) (w_projectiles w)\<rparr>, requests))"

section \<open>Damage\<close>

definition target_values :: "World \<Rightarrow> DamageRequest \<Rightarrow> (f64 \<times> f64) option" where
  "target_values w request =
     (if dr_TargetPlayer request
      then (case map_of (w_players w) (dr_TargetID request) of
          None \<Rightarrow> None
        | Some p \<Rightarrow> if \<not> p_Alive (ps_player p) then None
            else Some (p_Health (ps_player p), cs_Defense (p_CurrentStats (ps_player p))))
      else (case map_of (w_monsters w) (dr_TargetID request) of
          None \<Rightarrow> None
        | Some m \<Rightarrow> if feq (m_Health (ms_monster m)) (Fin 0) then None
            else Some (m_Health (ms_monster m), cs_Defense (m_CurrentStats (ms_monster m)))))"

definition hurt_player :: "DamageResolved \<Rightarrow> playerState \<Rightarrow> playerState" where
  "hurt_player d p =
     (let player = (ps_player p)\<lparr>p_Health := d_RemainingHealth d, p_Alive := \<not> d_Killed d\<rparr>
      in if d_Killed d then p\<lparr>ps_player := player\<lparr>p_Velocity := zero_vec\<rparr>, ps_firing := False\<rparr>
         else p\<lparr>ps_player := player\<rparr>)"

definition hurt_monster :: "DamageResolved \<Rightarrow> monsterState \<Rightarrow> monsterState" where
  "hurt_monster d ms =
     (let m = (ms_monster ms)\<lparr>m_Health := d_RemainingHealth d\<rparr>
      in ms\<lparr>ms_monster := (if d_Killed d then m\<lparr>m_State := MonsterDead\<rparr> else m)\<rparr>)"

definition deal_damage :: "DamageRequest \<Rightarrow> DamageResolved \<Rightarrow> World \<Rightarrow> World" where
  "deal_damage request d w =
     (if dr_TargetPlayer request
      then w\<lparr>w_players := map_adjust (dr_TargetID request) (hurt_player d) (w_players w),
             w_performance := (w_performance w)\<lparr>pf_damageTaken := pf_damageTaken (w_performance w) + d_Amount d,
               pf_deathCount := pf_deathCount (w_performance w) + (if d_Killed d then 1 else 0)\<rparr>\<rparr>
      else w\<lparr>w_monsters := map_adjust (dr_TargetID request) (hurt_monster d) (w_monsters w),
             w_performance := (if map_of (w_players w) (dr_SourceID request) \<noteq> None
               then (w_performance w)\<lparr>pf_damageDealt := pf_damageDealt (w_performance w) + d_Amount d\<rparr>
               else w_performance w)\<rparr>)"

definition applyDamage :: "World \<Rightarrow> DamageRequest \<Rightarrow> game_panic + World" where
  "applyDamage w request =
     (case target_values w request of
        None \<Rightarrow> Inr w
      | Some (health, defense) \<Rightarrow>
        (case ResolveDamage (dr_Attack request) defense health of
           Inl _ \<Rightarrow> Inl InvalidDamage
         | Inr d \<Rightarrow>
           if feq (d_Amount d) (Fin 0) then Inr w
           else
             let w = deal_damage request d w;
                 w = emit ((blank_event DamageDealt)\<lparr>ev_SourceID := dr_SourceID request,
                       ev_TargetID := dr_TargetID request, ev_Amount := d_Amount d,
                       ev_Health := d_RemainingHealth d\<rparr>) w
             in Inr (if d_Killed d
                  then emit ((blank_event EntityDied)\<lparr>ev_EntityID := dr_TargetID request,
                         ev_SourceID := dr_SourceID request\<rparr>) w
                  else w)))"

fun apply_requests :: "World \<Rightarrow> DamageRequest list \<Rightarrow> game_panic + World" where
  "apply_requests w [] = Inr w"
| "apply_requests w (r # rs) =
     (case applyDamage w r of Inl e \<Rightarrow> Inl e | Inr w' \<Rightarrow> apply_requests w' rs)"

section \<open>The end of a combat step\<close>

definition remove_dead :: "entity_id list \<Rightarrow> World \<Rightarrow> World" where
  "remove_dead monsterIDs w =
     fold (\<lambda>i w. if feq (m_Health (ms_monster (the (map_of (w_monsters w) i)))) (Fin 0)
       then w\<lparr>w_monsters := AList.delete i (w_monsters w)\<rparr> else w) monsterIDs w"

definition stop_monster :: "monsterState \<Rightarrow> monsterState" where
  "stop_monster ms = ms\<lparr>ms_monster := (ms_monster ms)\<lparr>m_Velocity := zero_vec\<rparr>\<rparr>"

definition stage_outcome :: "World \<Rightarrow> World" where
  "stage_outcome w =
     (if livingPlayers w = 0
      then emit ((blank_event TeamDefeated)\<lparr>ev_StageIndex := v_Index (w_stage w)\<rparr>)
             (set_stage_state Failed (w\<lparr>w_runEndedAtTick := w_tick w\<rparr>))
      else if w_monsters w = []
      then emit ((blank_event StageCleared)\<lparr>ev_StageIndex := v_Index (w_stage w)\<rparr>)
             (set_stage_state StageClear (freezePerformance w))
      else w)"

definition stop_stage :: "World \<Rightarrow> World" where
  "stop_stage w =
     (let w = w\<lparr>w_monsters := map_values stop_monster (w_monsters w)\<rparr>
      in fold (\<lambda>i w. destroyProjectile (the (map_of (w_projectiles w) i)) w) (ordered_keys (w_projectiles w)) w)"

definition settle_stage :: "World \<Rightarrow> World" where
  "settle_stage w =
     (let w = w\<lparr>w_stage := (w_stage w)\<lparr>v_MonstersRemaining := int (length (w_monsters w))\<rparr>\<rparr>;
          w = stage_outcome w
      in if v_State (w_stage w) \<noteq> Playing then stop_stage w else w)"

definition stepCombat :: "World \<Rightarrow> game_panic + World" where
  "stepCombat w =
     (if v_State (w_stage w) \<noteq> Playing then Inr w
      else
        let playerIDs = ordered_keys (w_players w); monsterIDs = ordered_keys (w_monsters w);
            w = fold step_player_shot playerIDs w;
            (w, _, requests) = fold (step_monster playerIDs) monsterIDs (w, [], []);
            (w, requests) = fold (step_projectile monsterIDs) (ordered_keys (w_projectiles w)) (w, requests)
        in case apply_requests w requests of
            Inl e \<Rightarrow> Inl e
          | Inr w \<Rightarrow> Inr (settle_stage (remove_dead monsterIDs w)))"

section \<open>A tick\<close>

definition coverRadius :: f64 where "coverRadius = fl (32 / 100)"

definition fresh_input :: "Config \<Rightarrow> time \<Rightarrow> playerState \<Rightarrow> bool" where
  "fresh_input config now p \<longleftrightarrow> i_Seq (ps_input p) \<noteq> 0 \<and> \<not> now < ps_receivedAt p \<and>
     time_sub now (ps_receivedAt p) < g_InputTimeout config"

definition read_input :: "StageState \<Rightarrow> Catalog \<Rightarrow> playerState \<Rightarrow> playerState" where
  "read_input st catalog p =
     (let aim = i_Aim (ps_input p);
          p = p\<lparr>ps_firing := (st = Playing \<and> i_Shoot (ps_input p))\<rparr>;
          p = (if \<not> feq (X aim) (Fin 0) \<or> \<not> feq (Y aim) (Fin 0)
               then p\<lparr>ps_player := (ps_player p)\<lparr>p_Aim := UnitDirection aim\<rparr>\<rparr> else p)
      in if ps_pending p
         then
           let p = p\<lparr>ps_player := (ps_player p)\<lparr>p_LastProcessedInputSeq := i_Seq (ps_input p)\<rparr>\<rparr>;
               p = (if st = Playing \<and> i_UsePotion (ps_input p) then usePotion catalog p else p)
           in if st = Playing \<and> i_Reload (ps_input p) then startReload p else p
         else p)"

definition move_player :: "Config \<Rightarrow> coverBlock list \<Rightarrow> Vec2 \<Rightarrow> Player \<Rightarrow> Player" where
  "move_player config covers direction player =
     (let previous = p_Position player;
          player = Move player direction (cs_MoveSpeed (p_CurrentStats player)) StepSeconds (g_Min config) (g_Max config);
          position = moveWithCover config covers previous
            (vec2 (X (p_Position player) - X previous) (Y (p_Position player) - Y previous)) coverRadius
      in player\<lparr>p_Position := position,
           p_Velocity := vec2 ((X position - X previous) / StepSeconds) ((Y position - Y previous) / StepSeconds)\<rparr>)"

definition step_player :: "Config \<Rightarrow> coverBlock list \<Rightarrow> StageState \<Rightarrow> Catalog \<Rightarrow> time \<Rightarrow> playerState \<Rightarrow> playerState" where
  "step_player config covers st catalog now p =
     (let p = p\<lparr>ps_firing := False\<rparr> in
      if \<not> p_Alive (ps_player p)
      then p\<lparr>ps_player := (ps_player p)\<lparr>p_ReloadTicksRemaining := 0, p_Velocity := zero_vec\<rparr>\<rparr>
      else
        let fresh = fresh_input config now p;
            direction = (if fresh \<and> (st = Waiting \<or> st = Playing) then i_Direction (ps_input p) else zero_vec);
            p = (if fresh then read_input st catalog p else p);
            p = (if \<not> now < ps_receivedAt p then p\<lparr>ps_pending := False\<rparr> else p)
        in p\<lparr>ps_player := move_player config covers direction (ps_player p)\<rparr>)"

definition Step :: "World \<Rightarrow> time \<Rightarrow> game_panic + World" where
  "Step w now =
     (let w = w\<lparr>w_players := map_values
            (step_player (w_config w) (w_covers w) (v_State (w_stage w)) (w_rewardCatalog w) now) (w_players w)\<rparr>
      in case collectPickups w of
          Inl e \<Rightarrow> Inl e
        | Inr w \<Rightarrow>
          (case stepCombat (w\<lparr>w_tick := w_tick w + 1\<rparr>) of
             Inl e \<Rightarrow> Inl e
           | Inr w \<Rightarrow> stepReward w))"

end
