(* ===== verification/Invariant.thy ===== *)
theory Invariant
  imports Combat
begin

text \<open>
  The well-formedness of a world and its preservation by the operations outside the tick.  Positions
  stay on the map, health stays between 0 and the maximum, statistics stay valid, magazines stay
  within their capacity, IDs agree with the maps' keys, and while a reward stage is open every item
  offered to a player can still be applied to that player.
\<close>

section \<open>The invariant\<close>

definition stats_ok :: "CombatStats \<Rightarrow> bool" where
  "stats_ok s \<longleftrightarrow> CombatStats_Valid s \<and> is_f64 (cs_Attack s) \<and> is_f64 (cs_Defense s) \<and>
     is_f64 (cs_MaxHealth s) \<and> is_f64 (cs_MoveSpeed s)"

definition health_ok :: "f64 \<Rightarrow> f64 \<Rightarrow> bool" where
  "health_ok h mx \<longleftrightarrow> (\<exists>x m. h = Fin x \<and> mx = Fin m \<and> 0 \<le> x \<and> x \<le> m \<and> is_f64 h)"

definition magazine_ok :: "Player \<Rightarrow> bool" where
  "magazine_ok p \<longleftrightarrow> 12 \<le> uint (p_MagazineCapacity p) \<and> uint (p_MagazineCapacity p) \<le> 120 \<and>
     p_Ammo p \<le> p_MagazineCapacity p \<and> p_ReloadTicksRemaining p \<le> ReloadDurationTicks"

definition input_ok :: "Input \<Rightarrow> bool" where
  "input_ok i \<longleftrightarrow> Vec2_Finite (i_Direction i) \<and> Vec2_Finite (i_Aim i)"

definition player_ok :: "Config \<Rightarrow> entity_id \<Rightarrow> playerState \<Rightarrow> bool" where
  "player_ok c i ps \<longleftrightarrow> p_ID (ps_player ps) = i \<and> i \<noteq> 0 \<and> i < FirstWorldEntityID \<and>
     in_map c (p_Position (ps_player ps)) \<and> stats_ok (p_BaseStats (ps_player ps)) \<and>
     stats_ok (p_CurrentStats (ps_player ps)) \<and>
     health_ok (p_Health (ps_player ps)) (cs_MaxHealth (p_CurrentStats (ps_player ps))) \<and>
     (Fin 0 < p_Health (ps_player ps) \<longrightarrow> p_Alive (ps_player ps)) \<and>
     magazine_ok (ps_player ps) \<and> input_ok (ps_input ps) \<and>
     p_Equipment (ps_player ps) = \<lparr>eq_WeaponID = WeaponID (ps_loadout ps), eq_RelicID = RelicID (ps_loadout ps),
       eq_PotionID = PotionID (ps_loadout ps)\<rparr>"

definition monster_ok :: "Config \<Rightarrow> entity_id \<Rightarrow> monsterState \<Rightarrow> bool" where
  "monster_ok c i ms \<longleftrightarrow> m_ID (ms_monster ms) = i \<and> FirstWorldEntityID \<le> i \<and>
     in_map c (m_Position (ms_monster ms)) \<and> stats_ok (m_CurrentStats (ms_monster ms)) \<and>
     health_ok (m_Health (ms_monster ms)) (cs_MaxHealth (m_CurrentStats (ms_monster ms))) \<and>
     (\<exists>r. m_Radius (ms_monster ms) = Fin r \<and> 0 < r \<and> r \<le> 10) \<and>
     (\<exists>a. m_AttackRange (ms_monster ms) = Fin a \<and> 0 \<le> a \<and> a \<le> 100)"

definition projectile_ok :: "entity_id \<Rightarrow> Projectile \<Rightarrow> bool" where
  "projectile_ok i p \<longleftrightarrow> pr_ID p = i \<and> FirstWorldEntityID \<le> i \<and> (\<exists>a. pr_Attack p = Fin a \<and> 0 \<le> a)"

definition pickup_ok :: "entity_id \<Rightarrow> PickupView \<Rightarrow> bool" where
  "pickup_ok i p \<longleftrightarrow> pk_ID p = i \<and> FirstWorldEntityID \<le> i \<and>
     (pk_Kind p = HealthPickup \<longrightarrow> pk_Value p = stagePickupHeal)"

definition block_ok :: "coverBlock \<Rightarrow> bool" where
  "block_ok b \<longleftrightarrow> Vec2_Finite (cb_min b) \<and> Vec2_Finite (cb_max b)"

text \<open>Every item of an open offer can be applied to its player.\<close>

definition applicable :: "Catalog \<Rightarrow> playerState \<Rightarrow> equip_id list \<Rightarrow> bool" where
  "applicable catalog p ids \<longleftrightarrow> (\<forall>i \<in> set ids. \<exists>res. apply_to catalog p i = Inr res)"

definition round_inv :: "World \<Rightarrow> bool" where
  "round_inv w \<longleftrightarrow>
     (v_State (w_stage w) = Reward \<longrightarrow> w_rewardRound w \<noteq> None \<and> \<not> Complete (w_rewardRound w)) \<and>
     (\<forall>r. w_rewardRound w = Some r \<longrightarrow> v_State (w_stage w) \<in> {Reward, PreparingNextStage} \<and>
        (\<exists>n. round_ok (IDs (w_rewardCatalog w)) n r) \<and>
        (\<forall>i offer. map_of (r_offers r) i = Some offer \<longrightarrow> (\<exists>p. map_of (w_players w) i = Some p \<and>
           (o_SelectedID offer = 0 \<longrightarrow> applicable (w_rewardCatalog w) p (o_EquipmentIDs offer)))))"

definition world_ok :: "World \<Rightarrow> bool" where
  "world_ok w \<longleftrightarrow> config_ok (w_config w) \<and> catalog_ok (w_rewardCatalog w) \<and>
     entries_ok (player_ok (w_config w)) (w_players w) \<and>
     int (length (w_players w)) \<le> g_Capacity (w_config w) \<and>
     entries_ok (monster_ok (w_config w)) (w_monsters w) \<and>
     entries_ok projectile_ok (w_projectiles w) \<and> entries_ok pickup_ok (w_pickups w) \<and>
     (\<forall>b \<in> set (w_covers w). block_ok b) \<and>
     length (w_events w) \<le> maxPendingEvents \<and> length (w_rewardUpdates w) \<le> maxPendingEvents \<and>
     round_inv w"

lemma world_okI:
  assumes "config_ok (w_config w)" "catalog_ok (w_rewardCatalog w)"
    "entries_ok (player_ok (w_config w)) (w_players w)"
    "int (length (w_players w)) \<le> g_Capacity (w_config w)"
    "entries_ok (monster_ok (w_config w)) (w_monsters w)"
    "entries_ok projectile_ok (w_projectiles w)" "entries_ok pickup_ok (w_pickups w)"
    "\<forall>b \<in> set (w_covers w). block_ok b"
    "length (w_events w) \<le> maxPendingEvents" "length (w_rewardUpdates w) \<le> maxPendingEvents" "round_inv w"
  shows "world_ok w"
  using assms unfolding world_ok_def by blast

lemma world_okD:
  assumes "world_ok w"
  shows "config_ok (w_config w)" "catalog_ok (w_rewardCatalog w)"
    "entries_ok (player_ok (w_config w)) (w_players w)"
    "int (length (w_players w)) \<le> g_Capacity (w_config w)"
    "entries_ok (monster_ok (w_config w)) (w_monsters w)"
    "entries_ok projectile_ok (w_projectiles w)" "entries_ok pickup_ok (w_pickups w)"
    "\<forall>b \<in> set (w_covers w). block_ok b"
    "length (w_events w) \<le> maxPendingEvents" "length (w_rewardUpdates w) \<le> maxPendingEvents" "round_inv w"
  using assms unfolding world_ok_def by blast+

section \<open>Statistics and health\<close>

lemma stats_ok_Fin:
  "stats_ok s \<Longrightarrow> \<exists>a d h m. cs_Attack s = Fin a \<and> 0 \<le> a \<and> cs_Defense s = Fin d \<and> 0 \<le> d \<and> is_f64 (Fin d) \<and>
     cs_MaxHealth s = Fin h \<and> 0 < h \<and> is_f64 (Fin h) \<and> cs_MoveSpeed s = Fin m \<and> 0 \<le> m \<and> m \<le> 1000000"
  by (auto simp: stats_ok_def CombatStats_Valid_iff)

definition stats_f64 :: "CombatStats \<Rightarrow> bool" where
  "stats_f64 s \<longleftrightarrow> is_f64 (cs_Attack s) \<and> is_f64 (cs_Defense s) \<and> is_f64 (cs_MaxHealth s) \<and> is_f64 (cs_MoveSpeed s)"

lemma is_f64_modify [simp]: "is_f64 (modify m x)"
  by (simp add: modify_def)

lemma apply_modifier_f64: "apply_modifier (s, a) m = Inr (s', a') \<Longrightarrow> stats_f64 s \<Longrightarrow> stats_f64 s'"
  by (auto simp: apply_modifier_def stats_f64_def split: Stat.splits)

lemma apply_modifiers_f64: "apply_modifiers st ms = Inr st' \<Longrightarrow> stats_f64 (fst st) \<Longrightarrow> stats_f64 (fst st')"
proof (induction ms arbitrary: st)
  case (Cons m ms)
  obtain s a where st: "st = (s, a)" by (cases st)
  obtain s1 a1 where "apply_modifier (s, a) m = Inr (s1, a1)" "apply_modifiers (s1, a1) ms = Inr st'"
    using Cons.prems(1) by (auto simp: st split: sum.splits)
  then show ?case using Cons.IH[of "(s1, a1)"] apply_modifier_f64 Cons.prems(2) st by auto
qed simp

lemma resolve_slots_f64: "resolve_slots c st slots = Inr st' \<Longrightarrow> stats_f64 (fst st) \<Longrightarrow> stats_f64 (fst st')"
proof (induction slots arbitrary: st)
  case (Cons slot slots)
  obtain i k where s: "slot = (i, k)" by (cases slot)
  show ?case
  proof (cases "i = 0")
    case False
    then have "\<exists>ms st1. apply_modifiers st ms = Inr st1 \<and> resolve_slots c st1 slots = Inr st'"
      using Cons.prems(1) by (auto simp: s split: sum.splits if_splits)
    then show ?thesis using Cons.IH apply_modifiers_f64 Cons.prems(2) by blast
  qed (use Cons s in auto)
qed simp

lemma Resolve_split:
  assumes "Resolve base l c rate = Inr st"
  shows "CombatStats_Valid base \<and> CombatStats_Valid st \<and> (\<exists>r sp cd. resolve_slots c
      (base, f64_of_int (uint rate) / f64_of_int (uint (cs_AttackCooldownTicks base)))
      [(WeaponID l, Weapon), (RelicID l, Relic)] = Inr (r, sp) \<and> st = r\<lparr>cs_AttackCooldownTicks := cd\<rparr>)"
  using assms unfolding Resolve_def Let_def by (auto split: if_splits sum.splits prod.splits)

lemma Resolve_stats_ok:
  assumes "stats_ok base" and "Resolve base l c rate = Inr st"
  shows "stats_ok st"
proof -
  obtain r sp cd where r: "resolve_slots c
      (base, f64_of_int (uint rate) / f64_of_int (uint (cs_AttackCooldownTicks base)))
      [(WeaponID l, Weapon), (RelicID l, Relic)] = Inr (r, sp)" "st = r\<lparr>cs_AttackCooldownTicks := cd\<rparr>"
    "CombatStats_Valid st"
    using Resolve_split[OF assms(2)] by blast
  then have "stats_f64 r" using resolve_slots_f64[OF r(1)] assms(1) by (simp add: stats_f64_def stats_ok_def)
  then show ?thesis using r by (simp add: stats_ok_def stats_f64_def)
qed

lemma health_ok_full: "stats_ok s \<Longrightarrow> health_ok (cs_MaxHealth s) (cs_MaxHealth s)"
  using stats_ok_Fin[of s] by (auto simp: health_ok_def)

lemma apply_to_ok:
  assumes "apply_to catalog p i = Inr (l, st, h)" and "stats_ok (p_BaseStats (ps_player p))"
    and "is_f64 (p_Health (ps_player p))"
  shows "stats_ok st \<and> health_ok h (cs_MaxHealth st) \<and> (Fin 0 < h \<longleftrightarrow> Fin 0 < p_Health (ps_player p)) \<and>
    (\<exists>d. Require catalog i = Inr d \<and> Equip (ps_loadout p) d = Inr l)"
proof -
  obtain d where d: "Require catalog i = Inr d" "Equip (ps_loadout p) d = Inr l"
    and r: "Resolve (p_BaseStats (ps_player p)) l catalog 30 = Inr st"
    and h: "\<not> IsNaN (p_Health (ps_player p))" "\<not> IsInf (p_Health (ps_player p))" "\<not> p_Health (ps_player p) < Fin 0"
      "h = math_Min (p_Health (ps_player p)) (cs_MaxHealth st)"
    using assms(1) unfolding apply_to_def Apply_split by blast
  have st: "stats_ok st" using Resolve_stats_ok[OF assms(2) r] .
  obtain x where x: "p_Health (ps_player p) = Fin x" "0 \<le> x" using h by (cases "p_Health (ps_player p)") auto
  obtain m where m: "cs_MaxHealth st = Fin m" "0 < m" "is_f64 (Fin m)" using stats_ok_Fin[OF st] by blast
  have "is_f64 h" using h(4) assms(3) m by simp
  then have "health_ok h (cs_MaxHealth st)" using x m h(4) by (auto simp: health_ok_def)
  then show ?thesis using st d x m h(4) by auto
qed

text \<open>Whether an item can be applied depends on the base statistics, the health being valid, and the loadout.\<close>

lemma apply_to_cong:
  assumes "p_BaseStats (ps_player p) = p_BaseStats (ps_player q)" and "ps_loadout p = ps_loadout q"
    and "apply_to catalog p i = Inr res" and "\<exists>x. p_Health (ps_player q) = Fin x \<and> 0 \<le> x"
  shows "\<exists>res. apply_to catalog q i = Inr res"
proof -
  obtain l st h where res: "res = (l, st, h)" by (cases res)
  obtain x where x: "p_Health (ps_player q) = Fin x" "0 \<le> x" using assms(4) by blast
  have "Apply (p_BaseStats (ps_player q)) (p_Health (ps_player q)) (ps_loadout q) i catalog 30 =
      Inr (l, st, math_Min (p_Health (ps_player q)) (cs_MaxHealth st))"
    using assms(3) x unfolding res apply_to_def Apply_split assms(1,2) by auto
  then show ?thesis unfolding apply_to_def by blast
qed

section \<open>Operations on one player\<close>

lemma magazine_ok_sync:
  assumes "catalog_ok catalog" and "magazine_ok (ps_player p)"
  shows "magazine_ok (ps_player (syncMagazine catalog p))"
proof -
  have "12 \<le> uint (MagazineCapacity catalog (ps_loadout p) BaseMagazineCapacity) \<and>
      uint (MagazineCapacity catalog (ps_loadout p) BaseMagazineCapacity) \<le> 120"
    by (intro MagazineCapacity_bounds assms(1)) (simp_all add: BaseMagazineCapacity_def)
  then show ?thesis using assms(2) by (simp add: syncMagazine_def magazine_ok_def Let_def)
qed

lemma equip_player_ok:
  assumes "player_ok c i p" and "catalog_ok catalog" and "apply_to catalog p e = Inr res"
  shows "player_ok c i (equip_player catalog res p)"
proof -
  obtain l st h where res: "res = (l, st, h)" by (cases res)
  let ?q = "syncEquipment (p\<lparr>ps_loadout := l, ps_player := (ps_player p)\<lparr>p_CurrentStats := st, p_Health := h\<rparr>\<rparr>)"
  have "stats_ok st \<and> health_ok h (cs_MaxHealth st) \<and> (Fin 0 < h \<longleftrightarrow> Fin 0 < p_Health (ps_player p))"
    using apply_to_ok[OF assms(3)[unfolded res]] assms(1) by (auto simp: player_ok_def health_ok_def)
  then have "player_ok c i ?q" using assms(1) by (simp add: player_ok_def syncEquipment_def magazine_ok_def)
  moreover then have "magazine_ok (ps_player (syncMagazine catalog ?q))"
    by (intro magazine_ok_sync assms(2)) (simp add: player_ok_def)
  ultimately show ?thesis by (simp add: res equip_player_def player_ok_def syncMagazine_def Let_def)
qed

lemma equip_player_base [simp]:
  "p_BaseStats (ps_player (equip_player catalog res p)) = p_BaseStats (ps_player p)"
  by (simp add: equip_player_def syncMagazine_def syncEquipment_def Let_def split: prod.splits)

lemma usePotion_ok:
  assumes "player_ok c i p" and "catalog_ok catalog" and "p_Alive (ps_player p)"
  shows "player_ok c i (usePotion catalog p)"
proof (cases "UsePotion (ps_loadout p) (p_Health (ps_player p)) (cs_MaxHealth (p_CurrentStats (ps_player p))) catalog")
  case (Inr res)
  obtain l h used where res: "res = (l, h, used)" by (cases res)
  obtain x m where x: "p_Health (ps_player p) = Fin x" "cs_MaxHealth (p_CurrentStats (ps_player p)) = Fin m"
    "0 \<le> x" "x \<le> m" "is_f64 (Fin x)"
    using assms(1) by (auto simp: player_ok_def health_ok_def)
  have "is_f64 (Fin m)" using assms(1) x(2) by (auto simp: player_ok_def stats_ok_def)
  then have u: "Fin x \<le> h" "h \<le> Fin m" "is_f64 h"
    using UsePotion_facts[OF assms(2), of "Fin x" "Fin m" "ps_loadout p" l h used] Inr x res by auto
  then obtain y where "h = Fin y" "x \<le> y" "y \<le> m" by (cases h) auto
  then have "health_ok h (cs_MaxHealth (p_CurrentStats (ps_player p)))" using x u(3) by (auto simp: health_ok_def)
  then show ?thesis using assms(1,3) by (simp add: usePotion_def Inr res player_ok_def syncEquipment_def magazine_ok_def)
qed (use assms in \<open>simp add: usePotion_def\<close>)

lemma startReload_ok: "player_ok c i p \<Longrightarrow> player_ok c i (startReload p)"
  by (simp add: startReload_def player_ok_def magazine_ok_def)

lemma new_player_ok:
  assumes "config_ok c" and "i \<noteq> 0" and "i < FirstWorldEntityID"
  shows "player_ok c i (new_player c i)"
proof -
  have v: "CombatStats_Valid (cc_PlayerStats (g_Combat c))" "\<not> IsNaN (g_MoveSpeed c)" "\<not> IsInf (g_MoveSpeed c)"
    "\<not> g_MoveSpeed c \<le> Fin 0" "\<not> Fin 1000000 < g_MoveSpeed c"
    using assms(1) by (auto simp: config_ok_def Config_Validate_def CombatConfig_valid_def)
  then obtain s where "g_MoveSpeed c = Fin s" "0 < s" "s \<le> 1000000" by (cases "g_MoveSpeed c") auto
  then have "stats_ok ((cc_PlayerStats (g_Combat c))\<lparr>cs_MoveSpeed := g_MoveSpeed c\<rparr>)"
    using v(1) assms(1) by (simp add: stats_ok_def config_ok_def CombatStats_Valid_def)
  then show ?thesis
    using health_ok_full[of "(cc_PlayerStats (g_Combat c))\<lparr>cs_MoveSpeed := g_MoveSpeed c\<rparr>"]
      spawn_in_map[OF assms(1)] assms(2,3)
    by (simp add: new_player_def player_ok_def Let_def magazine_ok_def BaseMagazineCapacity_def input_ok_def
        zero_input_def zero_vec_def Vec2_Finite_def zero_equipment_def zero_loadout_def)
qed

section \<open>Events\<close>

lemma emit_simps [simp]:
  "w_config (emit e w) = w_config w" "w_tick (emit e w) = w_tick w" "w_players (emit e w) = w_players w"
  "w_monsters (emit e w) = w_monsters w" "w_projectiles (emit e w) = w_projectiles w"
  "w_pickups (emit e w) = w_pickups w" "w_covers (emit e w) = w_covers w" "w_stage (emit e w) = w_stage w"
  "w_rewardRound (emit e w) = w_rewardRound w" "w_rewardCatalog (emit e w) = w_rewardCatalog w"
  "w_rewardUpdates (emit e w) = w_rewardUpdates w" "w_performance (emit e w) = w_performance w"
  "w_nextEntity (emit e w) = w_nextEntity w" "w_departedPlayers (emit e w) = w_departedPlayers w"
  "w_currentPlan (emit e w) = w_currentPlan w" "w_completedStages (emit e w) = w_completedStages w"
  "w_runStarted (emit e w) = w_runStarted w" "w_runStartedAtTick (emit e w) = w_runStartedAtTick w"
  "w_runEndedAtTick (emit e w) = w_runEndedAtTick w"
  by (simp_all add: emit_def Let_def)

lemma length_events_emit: "length (w_events w) \<le> maxPendingEvents \<Longrightarrow> length (w_events (emit e w)) \<le> maxPendingEvents"
  by (simp add: emit_def Let_def)

lemma emitRewardUpdate_simps [simp]:
  "w_config (emitRewardUpdate u w) = w_config w" "w_tick (emitRewardUpdate u w) = w_tick w"
  "w_players (emitRewardUpdate u w) = w_players w" "w_monsters (emitRewardUpdate u w) = w_monsters w"
  "w_projectiles (emitRewardUpdate u w) = w_projectiles w" "w_pickups (emitRewardUpdate u w) = w_pickups w"
  "w_covers (emitRewardUpdate u w) = w_covers w" "w_stage (emitRewardUpdate u w) = w_stage w"
  "w_rewardRound (emitRewardUpdate u w) = w_rewardRound w"
  "w_rewardCatalog (emitRewardUpdate u w) = w_rewardCatalog w" "w_events (emitRewardUpdate u w) = w_events w"
  by (simp_all add: emitRewardUpdate_def)

lemma length_updates_emit:
  "length (w_rewardUpdates w) \<le> maxPendingEvents \<Longrightarrow> length (w_rewardUpdates (emitRewardUpdate u w)) \<le> maxPendingEvents"
  by (simp add: emitRewardUpdate_def)

lemma round_inv_emit [simp]: "round_inv (emit e w) = round_inv w"
  by (simp add: round_inv_def)

lemma round_inv_emitRewardUpdate [simp]: "round_inv (emitRewardUpdate u w) = round_inv w"
  by (simp add: round_inv_def)

lemma world_ok_emit: "world_ok w \<Longrightarrow> world_ok (emit e w)"
  by (simp add: world_ok_def length_events_emit)

lemma world_ok_emitRewardUpdate: "world_ok w \<Longrightarrow> world_ok (emitRewardUpdate u w)"
  by (simp add: world_ok_def length_updates_emit)

lemma TakeEvents_ok: "world_ok w \<Longrightarrow> world_ok (snd (TakeEvents w))"
  by (simp add: TakeEvents_def world_ok_def round_inv_def)

lemma TakeRewardUpdates_ok: "world_ok w \<Longrightarrow> world_ok (snd (TakeRewardUpdates w))"
  by (simp add: TakeRewardUpdates_def world_ok_def round_inv_def)

section \<open>Membership and input\<close>

lemma catalog_ok_zero: "catalog_ok zero_catalog"
  by (simp add: catalog_ok_def items_ok_def zero_catalog_def)

lemma NewWorld_ok:
  assumes "NewWorld c catalogs = Inr w" and "config_ok c" and "\<forall>k \<in> set catalogs. catalog_ok k"
  shows "world_ok w"
proof -
  have "1 \<le> g_Capacity c" using assms(2) by (simp add: config_ok_def Config_Validate_def)
  then show ?thesis
    using assms by (auto simp: NewWorld_def world_ok_def round_inv_def zero_view_def catalog_ok_zero
        split: if_splits list.splits)
qed

lemma Clear_ok: "world_ok w \<Longrightarrow> world_ok (Clear w)"
  by (auto simp: world_ok_def Clear_def round_inv_def zero_view_def catalog_ok_zero)

lemma Close_ok: "world_ok w \<Longrightarrow> world_ok (Close w)"
  by (auto simp: world_ok_def Close_def Clear_def set_stage_state_def round_inv_def zero_view_def catalog_ok_zero)

lemma AddPlayer_ok:
  assumes "world_ok w" and "AddPlayer w i = Inr w'"
  shows "world_ok w'"
proof -
  note ok = world_okD[OF assms(1)]
  have g: "i \<noteq> 0" "i < FirstWorldEntityID" "map_of (w_players w) i = None"
    "PlayerCount w < g_Capacity (w_config w)" "v_State (w_stage w) = Waiting"
    and w': "w' = w\<lparr>w_departedPlayers := AList.delete i (w_departedPlayers w),
      w_players := AList.update i (new_player (w_config w) i) (w_players w)\<rparr>"
    using assms(2) by (auto simp: AddPlayer_def not_le split: if_splits)
  have "w_rewardRound w = None" using ok(11) g(5) by (auto simp: round_inv_def)
  then have "round_inv w'" using g(5) by (simp add: w' round_inv_def)
  moreover have "entries_ok (player_ok (w_config w)) (AList.update i (new_player (w_config w) i) (w_players w))"
    using ok g by (intro entries_ok_update new_player_ok) auto
  moreover have "length (AList.update i (new_player (w_config w) i) (w_players w)) \<le> Suc (length (w_players w))"
    by (metis length_keys keys_update length_append_singleton le_SucI order_refl)
  ultimately show ?thesis using ok g(4) by (intro world_okI) (simp_all add: w' PlayerCount_def)
qed

lemma Vec2_Finite_unit_box: "unit_box v \<Longrightarrow> Vec2_Finite v"
  by (auto simp: unit_box_iff Vec2_Finite_iff)

lemma ApplyInput_split:
  "ApplyInput w i input now = Inr w' \<longleftrightarrow> Input_Validate input \<and>
     (\<exists>p. map_of (w_players w) i = Some p \<and> i_Seq (ps_input p) < i_Seq input \<and> ps_receivedAt p \<le> now \<and>
        w' = w\<lparr>w_players := AList.update i (p\<lparr>ps_input := input\<lparr>i_Direction := NormalizeDirection (i_Direction input),
              i_Reload := (i_Reload input \<or> (ps_pending p \<and> i_Reload (ps_input p))),
              i_UsePotion := (i_UsePotion input \<or> (ps_pending p \<and> i_UsePotion (ps_input p)))\<rparr>,
            ps_receivedAt := now, ps_pending := True\<rparr>) (w_players w)\<rparr>)"
  unfolding ApplyInput_def by (auto simp: Let_def not_le not_less split: option.splits if_splits)

text \<open>Replacing the state of one player keeps the rest of the invariant.\<close>

lemma length_update: "map_of m k = Some v \<Longrightarrow> length (AList.update k v' m) = length m"
  by (metis keys_update length_keys map_of_in_keys)

lemma round_inv_update_player:
  assumes "round_inv w" and "map_of (w_players w) i = Some p" and "\<And>ids. applicable (w_rewardCatalog w) p ids \<Longrightarrow>
    applicable (w_rewardCatalog w) q ids"
  shows "round_inv (w\<lparr>w_players := AList.update i q (w_players w)\<rparr>)"
proof -
  have "\<exists>p'. ((map_of (w_players w))(i \<mapsto> q)) j = Some p' \<and>
      (o_SelectedID offer = 0 \<longrightarrow> applicable (w_rewardCatalog w) p' (o_EquipmentIDs offer))"
    if r: "w_rewardRound w = Some r" "map_of (r_offers r) j = Some offer" for r j offer
  proof -
    obtain p' where "map_of (w_players w) j = Some p'"
      "o_SelectedID offer = 0 \<longrightarrow> applicable (w_rewardCatalog w) p' (o_EquipmentIDs offer)"
      using assms(1) r unfolding round_inv_def by blast
    then show ?thesis using assms(2,3) by (cases "j = i") auto
  qed
  then show ?thesis using assms(1) unfolding round_inv_def by (simp add: update_conv')
qed

lemma world_ok_update_player:
  assumes "world_ok w" and "map_of (w_players w) i = Some p" and "player_ok (w_config w) i q"
    and "\<And>ids. applicable (w_rewardCatalog w) p ids \<Longrightarrow> applicable (w_rewardCatalog w) q ids"
  shows "world_ok (w\<lparr>w_players := AList.update i q (w_players w)\<rparr>)"
proof -
  note ok = world_okD[OF assms(1)]
  have "round_inv (w\<lparr>w_players := AList.update i q (w_players w)\<rparr>)"
    by (intro round_inv_update_player[OF ok(11) assms(2)] assms(4))
  moreover have "entries_ok (player_ok (w_config w)) (AList.update i q (w_players w))"
    by (intro entries_ok_update ok assms)
  ultimately show ?thesis using ok by (intro world_okI) (simp_all add: length_update[OF assms(2)])
qed

lemma ApplyInput_ok:
  assumes "world_ok w" and "ApplyInput w i input now = Inr w'" and "vec_ok (i_Direction input)"
  shows "world_ok w'"
proof -
  obtain p where p: "map_of (w_players w) i = Some p" "Input_Validate input"
    and w': "w' = w\<lparr>w_players := AList.update i (p\<lparr>ps_input := input\<lparr>i_Direction := NormalizeDirection (i_Direction input),
              i_Reload := (i_Reload input \<or> (ps_pending p \<and> i_Reload (ps_input p))),
              i_UsePotion := (i_UsePotion input \<or> (ps_pending p \<and> i_UsePotion (ps_input p)))\<rparr>,
            ps_receivedAt := now, ps_pending := True\<rparr>) (w_players w)\<rparr>"
    using assms(2) unfolding ApplyInput_split by blast
  have "Vec2_Finite (NormalizeDirection (i_Direction input))" "Vec2_Finite (i_Aim input)"
    using NormalizeDirection_box[OF assms(3)] Vec2_Finite_unit_box p(2) by (auto simp: Input_Validate_def)
  then have "player_ok (w_config w) i (p\<lparr>ps_input := input\<lparr>i_Direction := NormalizeDirection (i_Direction input),
              i_Reload := (i_Reload input \<or> (ps_pending p \<and> i_Reload (ps_input p))),
              i_UsePotion := (i_UsePotion input \<or> (ps_pending p \<and> i_UsePotion (ps_input p)))\<rparr>,
            ps_receivedAt := now, ps_pending := True\<rparr>)"
    using entries_okD[OF world_okD(3)[OF assms(1)] p(1)] by (simp add: player_ok_def input_ok_def)
  then show ?thesis
    unfolding w' by (rule world_ok_update_player[OF assms(1) p(1)]) (simp add: applicable_def apply_to_def)
qed

lemma map_of_delete_eq: "map_of (AList.delete k m) i = (if i = k then None else map_of m i)"
  by (simp add: delete_conv')

lemma delete_absent: "map_of m k = None \<Longrightarrow> AList.delete k m = m"
  by (simp add: delete_id map_of_eq_None_iff)

lemma RemovePlayer_round_eq:
  "RemovePlayer_round (Some r) i = (Some (r\<lparr>r_offers := AList.delete i (r_offers r)\<rparr>), map_of (r_offers r) i \<noteq> None)"
  by (auto simp: RemovePlayer_round_def delete_absent split: option.splits)

text \<open>The world without the player, before the reward round is settled.\<close>

definition without_player :: "World \<Rightarrow> entity_id \<Rightarrow> World" where
  "without_player w i = w\<lparr>w_departedPlayers :=
       (case map_of (w_players w) i of None \<Rightarrow> w_departedPlayers w
        | Some member \<Rightarrow> if w_runStarted w then AList.update i (playerResult (ps_player member)) (w_departedPlayers w)
            else w_departedPlayers w),
     w_players := AList.delete i (w_players w)\<rparr>"

lemma without_player_simps [simp]:
  "w_config (without_player w i) = w_config w" "w_stage (without_player w i) = w_stage w"
  "w_players (without_player w i) = AList.delete i (w_players w)"
  "w_rewardRound (without_player w i) = w_rewardRound w" "w_rewardCatalog (without_player w i) = w_rewardCatalog w"
  "w_monsters (without_player w i) = w_monsters w" "w_projectiles (without_player w i) = w_projectiles w"
  "w_pickups (without_player w i) = w_pickups w" "w_covers (without_player w i) = w_covers w"
  "w_events (without_player w i) = w_events w" "w_rewardUpdates (without_player w i) = w_rewardUpdates w"
  by (simp_all add: without_player_def)

lemma RemovePlayer_None: "w_rewardRound w = None \<Longrightarrow> RemovePlayer w i = without_player w i"
  unfolding RemovePlayer_def without_player_def
  by (cases "map_of (w_players w) i"; cases "w_runStarted w") (simp_all add: Let_def)

lemma RemovePlayer_Some:
  assumes "w_rewardRound w = Some r"
  shows "RemovePlayer w i =
    (let v = (without_player w i)\<lparr>w_rewardRound := Some (r\<lparr>r_offers := AList.delete i (r_offers r)\<rparr>)\<rparr>
     in if map_of (r_offers r) i \<noteq> None \<and> v_State (w_stage w) = Reward \<and> 0 < PlayerCount v \<and> Complete (w_rewardRound v)
        then set_stage_state PreparingNextStage v else v)"
  using assms RemovePlayer_round_eq[of r i] unfolding RemovePlayer_def without_player_def
  by (cases "map_of (w_players w) i"; cases "w_runStarted w") (simp_all add: Let_def PlayerCount_def)

lemma RemovePlayer_ok:
  assumes "world_ok w"
  shows "world_ok (RemovePlayer w i)"
proof -
  note ok = world_okD[OF assms]
  have len: "length (AList.delete i (w_players w)) \<le> length (w_players w)" by (rule length_delete_le)
  have pl: "entries_ok (player_ok (w_config w)) (AList.delete i (w_players w))" by (intro entries_ok_delete ok)
  show ?thesis
  proof (cases "w_rewardRound w")
    case None
    have "round_inv (without_player w i)" using ok(11) None by (simp add: round_inv_def)
    then have "world_ok (without_player w i)" using ok pl len by (intro world_okI) simp_all
    then show ?thesis by (simp add: RemovePlayer_None None)
  next
    case (Some r)
    let ?r = "r\<lparr>r_offers := AList.delete i (r_offers r)\<rparr>"
    let ?v = "(without_player w i)\<lparr>w_rewardRound := Some ?r\<rparr>"
    have old: "v_State (w_stage w) \<in> {Reward, PreparingNextStage}" "\<exists>n. round_ok (IDs (w_rewardCatalog w)) n r"
      "\<And>j offer. map_of (r_offers r) j = Some offer \<Longrightarrow> \<exists>p. map_of (w_players w) j = Some p \<and>
        (o_SelectedID offer = 0 \<longrightarrow> applicable (w_rewardCatalog w) p (o_EquipmentIDs offer))"
      using ok(11) Some unfolding round_inv_def by blast+
    have ro: "\<exists>n. round_ok (IDs (w_rewardCatalog w)) n ?r"
      using old(2) RemovePlayer_round_ok[OF _ RemovePlayer_round_eq] by blast
    have off: "\<exists>p. map_of (AList.delete i (w_players w)) j = Some p \<and>
        (o_SelectedID offer = 0 \<longrightarrow> applicable (w_rewardCatalog w) p (o_EquipmentIDs offer))"
      if "map_of (AList.delete i (r_offers r)) j = Some offer" for j offer
    proof -
      have "j \<noteq> i" "map_of (r_offers r) j = Some offer" using that by (auto simp: map_of_delete_eq split: if_splits)
      then show ?thesis using old(3)[of j offer] by (simp add: map_of_delete_eq)
    qed
    have inv: "round_inv (set_stage_state PreparingNextStage ?v)"
      using ro off unfolding round_inv_def by (auto simp: set_stage_state_def)
    have "world_ok ?v" if "\<not> (map_of (r_offers r) i \<noteq> None \<and> v_State (w_stage w) = Reward \<and> 0 < PlayerCount ?v \<and> Complete (Some ?r))"
    proof -
      have "\<not> Complete (Some ?r)" if "v_State (w_stage w) = Reward"
      proof (cases "map_of (r_offers r) i = None \<or> PlayerCount ?v \<noteq> 0")
        case True
        then have "map_of (r_offers r) i = None \<longrightarrow> \<not> Complete (Some ?r)"
          using ok(11) Some that by (simp add: round_inv_def delete_absent Complete_def)
        then show ?thesis using True that \<open>\<not> (map_of (r_offers r) i \<noteq> None \<and> _)\<close> by (auto simp: PlayerCount_def)
      next
        case False
        then have "AList.delete i (w_players w) = []" by (simp add: PlayerCount_def)
        then have "map_of (AList.delete i (r_offers r)) j = None" for j
          using off[of j] by (cases "map_of (AList.delete i (r_offers r)) j") auto
        then have "AList.delete i (r_offers r) = []" by (metis map_of_eq_None_iff list.set_intros(1) neq_Nil_conv image_eqI)
        then show ?thesis by (simp add: Complete_def)
      qed
      then have "round_inv ?v" using ro off old(1) unfolding round_inv_def by auto
      then show ?thesis using ok pl len by (intro world_okI) simp_all
    qed
    moreover have "world_ok (set_stage_state PreparingNextStage ?v)"
      using ok pl len inv by (intro world_okI) (simp_all add: set_stage_state_def)
    ultimately show ?thesis by (auto simp: RemovePlayer_Some[OF Some] Let_def)
  qed
qed

section \<open>The reward stage\<close>

lemma applyRewardSelection_split:
  "applyRewardSelection w s t = Inr w' \<longleftrightarrow> (\<exists>p res r. map_of (w_players w) (s_playerID s) = Some p \<and>
     apply_to (w_rewardCatalog w) p (s_equipmentID s) = Inr res \<and> Commit (w_rewardRound w) s = Inr r \<and>
     w' = (let v = emitRewardUpdate (applied_update w s t) (w\<lparr>w_rewardRound := Some r, w_players :=
             AList.update (s_playerID s) (equip_player (w_rewardCatalog w) res p) (w_players w)\<rparr>)
           in if Complete (Some r) then set_stage_state PreparingNextStage v else v))"
  unfolding applyRewardSelection_def
  by (auto simp: Let_def applied_update_def split: option.splits sum.splits)

lemma set_stage_state_simps [simp]:
  "w_config (set_stage_state s w) = w_config w" "w_players (set_stage_state s w) = w_players w"
  "w_monsters (set_stage_state s w) = w_monsters w" "w_projectiles (set_stage_state s w) = w_projectiles w"
  "w_pickups (set_stage_state s w) = w_pickups w" "w_covers (set_stage_state s w) = w_covers w"
  "w_events (set_stage_state s w) = w_events w" "w_rewardUpdates (set_stage_state s w) = w_rewardUpdates w"
  "w_rewardRound (set_stage_state s w) = w_rewardRound w" "w_tick (set_stage_state s w) = w_tick w"
  "w_rewardCatalog (set_stage_state s w) = w_rewardCatalog w" "v_State (w_stage (set_stage_state s w)) = s"
  "v_Index (w_stage (set_stage_state s w)) = v_Index (w_stage w)"
  by (simp_all add: set_stage_state_def)

lemma applyRewardSelection_ok:
  assumes "world_ok w" and "applyRewardSelection w s t = Inr w'"
  shows "world_ok w' \<and> (\<exists>r r'. w_rewardRound w = Some r \<and> Commit (Some r) s = Inr r' \<and> w_rewardRound w' = Some r' \<and>
    v_State (w_stage w') = (if Complete (Some r') then PreparingNextStage else v_State (w_stage w))) \<and>
    w_tick w' = w_tick w \<and> w_config w' = w_config w \<and> w_rewardCatalog w' = w_rewardCatalog w"
proof -
  note ok = world_okD[OF assms(1)]
  obtain p res r' where p: "map_of (w_players w) (s_playerID s) = Some p"
    "apply_to (w_rewardCatalog w) p (s_equipmentID s) = Inr res" "Commit (w_rewardRound w) s = Inr r'"
    and w': "w' = (let v = emitRewardUpdate (applied_update w s t) (w\<lparr>w_rewardRound := Some r', w_players :=
             AList.update (s_playerID s) (equip_player (w_rewardCatalog w) res p) (w_players w)\<rparr>)
           in if Complete (Some r') then set_stage_state PreparingNextStage v else v)"
    using assms(2) unfolding applyRewardSelection_split by blast
  obtain r where r: "w_rewardRound w = Some r" using p(3) by (cases "w_rewardRound w") (auto simp: Commit_def)
  note c = p(3)[unfolded r]
  have old: "v_State (w_stage w) \<in> {Reward, PreparingNextStage}" "\<exists>n. round_ok (IDs (w_rewardCatalog w)) n r"
    "\<And>j offer. map_of (r_offers r) j = Some offer \<Longrightarrow> \<exists>p. map_of (w_players w) j = Some p \<and>
      (o_SelectedID offer = 0 \<longrightarrow> applicable (w_rewardCatalog w) p (o_EquipmentIDs offer))"
    using ok(11) r unfolding round_inv_def by blast+
  let ?q = "equip_player (w_rewardCatalog w) res p"
  let ?v = "w\<lparr>w_rewardRound := Some r', w_players := AList.update (s_playerID s) ?q (w_players w)\<rparr>"
  have off: "\<exists>p. map_of (AList.update (s_playerID s) ?q (w_players w)) j = Some p \<and>
      (o_SelectedID offer = 0 \<longrightarrow> applicable (w_rewardCatalog w) p (o_EquipmentIDs offer))"
    if "map_of (r_offers r') j = Some offer" for j offer
  proof (cases "j = s_playerID s")
    case True
    then have "o_SelectedID offer = s_equipmentID s" using that c by (auto simp: Commit_split map_of_map_adjust)
    then show ?thesis using True c by (auto simp: update_conv' Commit_split)
  next
    case False
    then have "map_of (r_offers r) j = Some offer" using that Commit_offers(1)[OF c] by simp
    then show ?thesis using old(3) False by (simp add: update_conv')
  qed
  have "\<exists>n. round_ok (IDs (w_rewardCatalog w)) n r'" using old(2) Commit_round_ok[OF _ c] by blast
  then have inv: "round_inv (if Complete (Some r') then set_stage_state PreparingNextStage ?v else ?v)"
    using off old(1) unfolding round_inv_def by (auto simp: set_stage_state_def)
  have pl: "entries_ok (player_ok (w_config w)) (AList.update (s_playerID s) ?q (w_players w))"
    by (rule entries_ok_update[OF ok(3) equip_player_ok[OF entries_okD[OF ok(3) p(1)] ok(2) p(2)]])
  have "world_ok (if Complete (Some r') then set_stage_state PreparingNextStage ?v else ?v)"
    using ok pl inv by (intro world_okI) (simp_all add: length_update[OF p(1)] split: if_splits)
  then have "world_ok (emitRewardUpdate (applied_update w s t)
      (if Complete (Some r') then set_stage_state PreparingNextStage ?v else ?v))"
    by (rule world_ok_emitRewardUpdate)
  moreover have "emitRewardUpdate (applied_update w s t)
      (if Complete (Some r') then set_stage_state PreparingNextStage ?v else ?v) = w'"
    by (simp add: w' Let_def emitRewardUpdate_def set_stage_state_def)
  ultimately show ?thesis using c r by (simp add: w' Let_def)
qed

lemma ChooseReward_split:
  "ChooseReward w p e = Inr w' \<longleftrightarrow> v_State (w_stage w) = Reward \<and> w_rewardRound w \<noteq> None \<and>
     (\<exists>s. ValidateChoice (w_rewardRound w) p e (w_tick w) = Inr s \<and> applyRewardSelection w s (w_tick w + 1) = Inr w')"
  unfolding ChooseReward_def by (auto split: sum.splits if_splits)

lemma ChooseReward_ok: "world_ok w \<Longrightarrow> ChooseReward w p e = Inr w' \<Longrightarrow> world_ok w'"
  unfolding ChooseReward_split using applyRewardSelection_ok by blast

text \<open>While the stage is open, every selection that passes validation can be applied.\<close>

lemma selection_applies:
  assumes "world_ok w" and "w_rewardRound w = Some r" and "map_of (r_offers r) (s_playerID s) = Some offer"
    and "o_SelectedID offer = 0" and "s_equipmentID s \<in> set (o_EquipmentIDs offer)" and "Commit (Some r) s = Inr r'"
  shows "\<exists>w'. applyRewardSelection w s t = Inr w'"
proof -
  have inv: "round_inv w" using world_okD[OF assms(1)] by blast
  have "\<exists>p. map_of (w_players w) (s_playerID s) = Some p \<and> (o_SelectedID offer = 0 \<longrightarrow>
      applicable (w_rewardCatalog w) p (o_EquipmentIDs offer))"
    using inv assms(2,3) unfolding round_inv_def by blast
  then obtain p where p: "map_of (w_players w) (s_playerID s) = Some p"
    "applicable (w_rewardCatalog w) p (o_EquipmentIDs offer)"
    using assms(4) by auto
  then obtain res where "apply_to (w_rewardCatalog w) p (s_equipmentID s) = Inr res"
    using assms(5) unfolding applicable_def by blast
  then show ?thesis using p(1) assms(2,6) unfolding applyRewardSelection_split by (cases res) auto
qed

lemma round_inv_round_ok:
  "world_ok w \<Longrightarrow> w_rewardRound w = Some r \<Longrightarrow> \<exists>n. round_ok (IDs (w_rewardCatalog w)) n r"
  using world_okD(11)[of w] unfolding round_inv_def by blast

lemma default_for_Complete: "default_for r s \<Longrightarrow> \<not> Complete (Some r)"
  by (auto simp: default_for_def Complete_def list_all_iff dest!: map_of_SomeD)

lemma apply_defaults_ok:
  assumes "world_ok w" and "w_rewardRound w = Some r" and "\<forall>s \<in> set ss. default_for r s"
    and "distinct (map s_playerID ss)"
  shows "\<exists>w' r'. apply_defaults w ss = Inr w' \<and> world_ok w' \<and> commit_all r ss = Inr r' \<and> w_rewardRound w' = Some r' \<and>
    w_tick w' = w_tick w \<and> w_config w' = w_config w \<and>
    v_State (w_stage w') = (if ss \<noteq> [] \<and> Complete (Some r') then PreparingNextStage else v_State (w_stage w))"
  using assms
proof (induction ss arbitrary: w r)
  case (Cons s ss)
  obtain n where rok: "round_ok (IDs (w_rewardCatalog w)) n r" using round_inv_round_ok Cons.prems(1,2) by blast
  have df: "default_for r s" using Cons.prems(3) by simp
  then obtain offer where o: "map_of (r_offers r) (s_playerID s) = Some offer" "o_SelectedID offer = 0"
    "s_equipmentID s = o_EquipmentIDs offer ! 0"
    by (auto simp: default_for_def)
  have mem: "s_equipmentID s \<in> set (o_EquipmentIDs offer)"
    using o(3) offer_ok_first round_okD[OF rok o(1)] by metis
  obtain r1 where r1: "Commit (Some r) s = Inr r1" using default_commits[OF rok df] by blast
  obtain w1 where w1: "applyRewardSelection w s (w_tick w) = Inr w1"
    using selection_applies[OF Cons.prems(1,2) o(1,2) mem r1] by blast
  have w1': "world_ok w1" "w_rewardRound w1 = Some r1" "w_tick w1 = w_tick w" "w_config w1 = w_config w"
    "v_State (w_stage w1) = (if Complete (Some r1) then PreparingNextStage else v_State (w_stage w))"
    using applyRewardSelection_ok[OF Cons.prems(1) w1] Cons.prems(2) r1 by auto
  have ne: "s_playerID t \<noteq> s_playerID s" if "t \<in> set ss" for t
    using Cons.prems(4) that by (metis distinct.simps(2) image_eqI list.set_map list.simps(9))
  have df1: "\<forall>t \<in> set ss. default_for r1 t" using default_for_Commit[OF r1] ne Cons.prems(3) by simp
  then obtain w2 r2 where w2: "apply_defaults w1 ss = Inr w2" "world_ok w2" "commit_all r1 ss = Inr r2"
    "w_rewardRound w2 = Some r2" "w_tick w2 = w_tick w" "w_config w2 = w_config w"
    "v_State (w_stage w2) = (if ss \<noteq> [] \<and> Complete (Some r2) then PreparingNextStage else v_State (w_stage w1))"
    using Cons.IH[OF w1'(1,2)] Cons.prems(4) w1'(3,4) by auto
  have "v_State (w_stage w2) = (if Complete (Some r2) then PreparingNextStage else v_State (w_stage w))"
  proof (cases "ss = []")
    case True
    then show ?thesis using w2(3,7) w1'(5) by auto
  next
    case False
    have "\<not> Complete (Some r1)" using False df1 default_for_Complete by (cases ss) auto
    then show ?thesis using w2(7) w1'(5) False by auto
  qed
  then show ?case using w1 w2 r1 by simp
qed simp

lemma stepReward_ok:
  assumes "world_ok w"
  shows "\<exists>w'. stepReward w = Inr w' \<and> world_ok w' \<and> w_tick w' = w_tick w \<and> w_config w' = w_config w \<and>
    (v_State (w_stage w) \<noteq> Reward \<longrightarrow> w' = w) \<and>
    (v_State (w_stage w) = Reward \<longrightarrow> (\<forall>r. w_rewardRound w = Some r \<and> r_deadline r < w_tick w \<and> r_offers r \<noteq> [] \<longrightarrow>
       v_State (w_stage w') = PreparingNextStage) \<and> v_State (w_stage w') \<in> {Reward, PreparingNextStage})"
proof (cases "v_State (w_stage w) = Reward")
  case True
  then obtain r where r: "w_rewardRound w = Some r" "\<not> Complete (Some r)"
    using world_okD(11)[OF assms] unfolding round_inv_def by auto
  obtain n where rok: "round_ok (IDs (w_rewardCatalog w)) n r" using round_inv_round_ok assms r(1) by blast
  let ?ss = "DueDefaults (Some r) (w_tick w)"
  obtain w' r' where w': "apply_defaults w ?ss = Inr w'" "world_ok w'" "commit_all r ?ss = Inr r'"
    "w_tick w' = w_tick w" "w_config w' = w_config w"
    "v_State (w_stage w') = (if ?ss \<noteq> [] \<and> Complete (Some r') then PreparingNextStage else Reward)"
    using apply_defaults_ok[OF assms r(1), of ?ss] DueDefaults_default_for[OF rok] distinct_DueDefaults[OF rok] True
    by auto
  have "v_State (w_stage w') = PreparingNextStage" if d: "r_deadline r < w_tick w" "r_offers r \<noteq> []"
  proof -
    have "Complete (Some r')" using defaults_complete[OF rok d(2,1)] w'(3) by auto
    moreover have "?ss \<noteq> []" using w'(3) calculation r(2) by auto
    ultimately show ?thesis using w'(6) by simp
  qed
  then show ?thesis using w' True r(1) by (auto simp: stepReward_def)
next
  case False
  then show ?thesis using assms by (simp add: stepReward_def)
qed

lemma apply_errors_Nil:
  assumes "apply_errors w catalog = []" and "map_of (w_players w) i = Some p" and "e \<in> set (IDs catalog)"
  shows "\<exists>res. apply_to catalog p e = Inr res"
proof -
  have "i \<in> set (ordered_keys (w_players w))" using assms(2) by auto
  then have "(case apply_to catalog (the (map_of (w_players w) i)) e of Inl err \<Rightarrow> [CannotApply i e err] | Inr _ \<Rightarrow> []) = []"
    using assms(1,3) unfolding apply_errors_def by (simp add: concat_eq_Nil_conv)
  then show ?thesis using assms(2) by (auto split: sum.splits)
qed

lemma fold_emitRewardUpdate:
  "world_ok w \<Longrightarrow> world_ok (fold (\<lambda>offer w. emitRewardUpdate (f w offer) w) offers w)"
  by (induction offers arbitrary: w) (auto intro: world_ok_emitRewardUpdate)

lemma fold_emitRewardUpdate_frame:
  "v_State (w_stage (fold (\<lambda>offer w. emitRewardUpdate (f w offer) w) offers w)) = v_State (w_stage w) \<and>
   w_rewardRound (fold (\<lambda>offer w. emitRewardUpdate (f w offer) w) offers w) = w_rewardRound w \<and>
   w_players (fold (\<lambda>offer w. emitRewardUpdate (f w offer) w) offers w) = w_players w"
  by (induction offers arbitrary: w) auto

lemma StartReward_ok:
  assumes "world_ok w" and "StartReward w catalog seed dur = Inr w'" and "catalog_ok catalog"
  shows "world_ok w' \<and> v_State (w_stage w') = Reward \<and> w_players w' = w_players w \<and>
    (\<exists>r. w_rewardRound w' = Some r \<and> dom (map_of (r_offers r)) = set (keys (w_players w)))"
proof -
  note ok = world_okD[OF assms(1)]
  obtain r where g: "v_State (w_stage w) = StageClear" "apply_errors w catalog = []"
    and r: "NewRound (w_rounds w) (v_Index (w_stage w)) seed (w_tick w) dur (ordered_keys (w_players w)) catalog
      (min MaxOptions (int (length (IDs catalog)))) = Inr r"
    and w': "w' = fold (\<lambda>offer w. emitRewardUpdate (offer_update w offer) w) (Offers (Some r))
      (set_stage_state Reward (w\<lparr>w_rewardCatalog := catalog, w_rewardRound := Some r, w_rounds := w_rounds w + 1\<rparr>))"
    using assms(2) unfolding StartReward_def Let_def by (auto split: if_splits list.splits sum.splits)
  let ?v = "set_stage_state Reward (w\<lparr>w_rewardCatalog := catalog, w_rewardRound := Some r, w_rounds := w_rounds w + 1\<rparr>)"
  note n = NewRound_ok[OF assms(3) r]
  have dom: "dom (map_of (r_offers r)) = set (keys (w_players w))" using n by (simp add: set_keys)
  have "\<not> Complete (Some r)"
  proof -
    have "Offers (Some r) \<noteq> []" using n by (simp add: Offers_def) (metis length_ordered_keys list.size(3) length_0_conv)
    then obtain offer where "offer \<in> set (Offers (Some r))" by (metis last_in_set)
    moreover have "map_ok (r_offers r)" using n by (simp add: round_ok_def)
    ultimately show ?thesis using n unfolding Complete_iff[OF \<open>map_ok (r_offers r)\<close>] set_Offers[OF \<open>map_ok (r_offers r)\<close>]
      by blast
  qed
  moreover have "\<exists>p. map_of (w_players w) i = Some p \<and>
      (o_SelectedID offer = 0 \<longrightarrow> applicable catalog p (o_EquipmentIDs offer))"
    if "map_of (r_offers r) i = Some offer" for i offer
  proof -
    have "i \<in> dom (map_of (w_players w))" using that dom set_keys by (metis domI)
    then obtain p where p: "map_of (w_players w) i = Some p" by blast
    have "set (o_EquipmentIDs offer) \<subseteq> set (IDs catalog)" using n round_okD that unfolding offer_ok_def by metis
    then show ?thesis using p apply_errors_Nil[OF g(2) p] unfolding applicable_def by blast
  qed
  ultimately have "round_inv ?v" using n unfolding round_inv_def by (auto simp: set_stage_state_def)
  then have "world_ok ?v" using ok assms(3) by (intro world_okI) simp_all
  then show ?thesis using dom unfolding w' by (simp add: fold_emitRewardUpdate fold_emitRewardUpdate_frame)
qed

end
