(* ===== verification/Ticks.thy ===== *)
theory Ticks
  imports Invariant
begin

text \<open>
  The invariant through \<open>StartStage\<close> and a tick: movement, pickups, combat, damage and the end of a
  stage.  A tick of a well-formed world never panics.
\<close>

section \<open>Updates that leave the rest alone\<close>

lemma round_inv_frame [simp]:
  "round_inv (w\<lparr>w_monsters := ms\<rparr>) = round_inv w" "round_inv (w\<lparr>w_projectiles := ps\<rparr>) = round_inv w"
  "round_inv (w\<lparr>w_pickups := pk\<rparr>) = round_inv w" "round_inv (w\<lparr>w_nextEntity := n\<rparr>) = round_inv w"
  "round_inv (w\<lparr>w_tick := t\<rparr>) = round_inv w" "round_inv (w\<lparr>w_performance := pf\<rparr>) = round_inv w"
  "round_inv (w\<lparr>w_covers := cs\<rparr>) = round_inv w" "round_inv (w\<lparr>w_currentPlan := pl\<rparr>) = round_inv w"
  "round_inv (w\<lparr>w_completedStages := cst\<rparr>) = round_inv w" "round_inv (w\<lparr>w_runEndedAtTick := t\<rparr>) = round_inv w"
  "round_inv (w\<lparr>w_runStarted := b\<rparr>) = round_inv w" "round_inv (w\<lparr>w_runStartedAtTick := t\<rparr>) = round_inv w"
  by (simp_all add: round_inv_def)

lemma world_ok_frame [simp]:
  "world_ok (w\<lparr>w_nextEntity := n\<rparr>) = world_ok w" "world_ok (w\<lparr>w_tick := t\<rparr>) = world_ok w"
  "world_ok (w\<lparr>w_performance := pf\<rparr>) = world_ok w" "world_ok (w\<lparr>w_currentPlan := pl\<rparr>) = world_ok w"
  "world_ok (w\<lparr>w_completedStages := cst\<rparr>) = world_ok w" "world_ok (w\<lparr>w_runEndedAtTick := t\<rparr>) = world_ok w"
  "world_ok (w\<lparr>w_runStarted := b\<rparr>) = world_ok w" "world_ok (w\<lparr>w_runStartedAtTick := t\<rparr>) = world_ok w"
  by (simp_all add: world_ok_def)

lemma world_ok_monsters:
  "world_ok w \<Longrightarrow> entries_ok (monster_ok (w_config w)) ms \<Longrightarrow> world_ok (w\<lparr>w_monsters := ms\<rparr>)"
  by (simp add: world_ok_def)

lemma world_ok_projectiles: "world_ok w \<Longrightarrow> entries_ok projectile_ok ps \<Longrightarrow> world_ok (w\<lparr>w_projectiles := ps\<rparr>)"
  by (simp add: world_ok_def)

lemma world_ok_pickups: "world_ok w \<Longrightarrow> entries_ok pickup_ok ps \<Longrightarrow> world_ok (w\<lparr>w_pickups := ps\<rparr>)"
  by (simp add: world_ok_def)

text \<open>A world in which combat runs: no reward round, and the players are those of the tick's start.\<close>

definition fighting :: "entity_id set \<Rightarrow> World \<Rightarrow> bool" where
  "fighting ids w \<longleftrightarrow> world_ok w \<and> v_State (w_stage w) = Playing \<and> dom (map_of (w_players w)) = ids"

lemma playing_no_round: "world_ok w \<Longrightarrow> v_State (w_stage w) = Playing \<Longrightarrow> w_rewardRound w = None"
  using world_okD(11)[of w] by (cases "w_rewardRound w") (auto simp: round_inv_def)

lemma fighting_players:
  assumes "fighting ids w" and "entries_ok (player_ok (w_config w)) ps" and "keys ps = keys (w_players w)"
  shows "fighting ids (w\<lparr>w_players := ps\<rparr>)"
proof -
  have w: "world_ok w" "v_State (w_stage w) = Playing" "dom (map_of (w_players w)) = ids"
    using assms(1) by (auto simp: fighting_def)
  note ok = world_okD[OF w(1)]
  have "round_inv (w\<lparr>w_players := ps\<rparr>)" using playing_no_round[OF w(1,2)] w(2) by (simp add: round_inv_def)
  moreover have "length ps = length (w_players w)" using assms(3) by (metis length_keys)
  ultimately have "world_ok (w\<lparr>w_players := ps\<rparr>)" using ok assms(2) by (intro world_okI) simp_all
  moreover have "dom (map_of ps) = ids" using assms(3) w(3) set_keys by metis
  ultimately show ?thesis using w by (simp add: fighting_def)
qed

lemma keys_update_present: "map_of m k = Some v \<Longrightarrow> keys (AList.update k v' m) = keys m"
  by (simp add: keys_update map_of_in_keys)

lemma fighting_update_player:
  assumes "fighting ids w" and "map_of (w_players w) i = Some p" and "player_ok (w_config w) i q"
  shows "fighting ids (w\<lparr>w_players := AList.update i q (w_players w)\<rparr>)"
  using assms by (intro fighting_players) (auto simp: fighting_def keys_update_present intro!: entries_ok_update world_okD)

lemma fighting_lookup:
  assumes "fighting ids w" and "i \<in> ids"
  shows "\<exists>p. map_of (w_players w) i = Some p \<and> player_ok (w_config w) i p"
proof -
  obtain p where "map_of (w_players w) i = Some p" using assms by (auto simp: fighting_def)
  then show ?thesis using entries_okD[OF world_okD(3)] assms(1) by (auto simp: fighting_def)
qed

lemma fighting_monsters:
  "fighting ids w \<Longrightarrow> entries_ok (monster_ok (w_config w)) ms \<Longrightarrow> fighting ids (w\<lparr>w_monsters := ms\<rparr>)"
  by (simp add: fighting_def world_ok_monsters)

lemma fighting_projectiles:
  "fighting ids w \<Longrightarrow> entries_ok projectile_ok ps \<Longrightarrow> fighting ids (w\<lparr>w_projectiles := ps\<rparr>)"
  by (simp add: fighting_def world_ok_projectiles)

lemma fighting_emit: "fighting ids w \<Longrightarrow> fighting ids (emit e w)"
  by (simp add: fighting_def world_ok_emit)

lemma allocated_ge: "FirstWorldEntityID \<le> FirstWorldEntityID OR n"
  by (rule le_word_or2)

section \<open>Movement\<close>

lemma StepSeconds_eq: "StepSeconds = Fin (4803839602528529 / 144115188075855872)"
  unfolding StepSeconds_def by code_simp

lemma fl_not_NaN': "Fin x - Fin y \<noteq> NaN"
  by simp

lemma move_player_ok:
  assumes "config_ok c" and "in_map c (p_Position p)" and "Vec2_Finite direction" and "stats_ok (p_CurrentStats p)"
  shows "in_map c (p_Position (move_player c covers direction p))"
proof -
  obtain s where s: "cs_MoveSpeed (p_CurrentStats p) = Fin s" using stats_ok_Fin[OF assms(4)] by blast
  obtain a b d e where m: "g_Min c = vec2 (Fin a) (Fin b)" "g_Max c = vec2 (Fin d) (Fin e)" "a < d" "b < e"
    using config_bounds[OF assms(1)] by metis
  let ?q = "Move p direction (cs_MoveSpeed (p_CurrentStats p)) StepSeconds (g_Min c) (g_Max c)"
  have "in_map c (p_Position ?q)"
  proof (rule Move_in_bounds[OF _ _ _ _ _ assms(3) s StepSeconds_eq])
    show "vec_ok (g_Min c)" "vec_ok (g_Max c)" using assms(1) by (simp_all add: config_ok_def)
    show "Vec2_Finite (p_Position p)" using in_map_finite[OF assms(1,2)] .
  qed (use m in auto)
  then have fin: "Vec2_Finite (p_Position ?q)" "Vec2_Finite (p_Position p)" using in_map_finite assms(1,2) by auto
  then show ?thesis
    unfolding move_player_def Let_def using assms(1,2)
    by (auto simp: Vec2_Finite_iff intro!: moveWithCover_in_map)
qed

lemma move_player_frame:
  "p_ID (move_player c covers direction p) = p_ID p" "p_BaseStats (move_player c covers direction p) = p_BaseStats p"
  "p_CurrentStats (move_player c covers direction p) = p_CurrentStats p"
  "p_Health (move_player c covers direction p) = p_Health p" "p_Alive (move_player c covers direction p) = p_Alive p"
  "p_Equipment (move_player c covers direction p) = p_Equipment p" "p_Ammo (move_player c covers direction p) = p_Ammo p"
  "p_MagazineCapacity (move_player c covers direction p) = p_MagazineCapacity p"
  "p_ReloadTicksRemaining (move_player c covers direction p) = p_ReloadTicksRemaining p"
  by (simp_all add: move_player_def Move_def Let_def)

lemma usePotion_frame:
  "p_Alive (ps_player (usePotion catalog p)) = p_Alive (ps_player p)"
  "ps_input (usePotion catalog p) = ps_input p" "ps_pending (usePotion catalog p) = ps_pending p"
  "ps_receivedAt (usePotion catalog p) = ps_receivedAt p"
  "p_BaseStats (ps_player (usePotion catalog p)) = p_BaseStats (ps_player p)"
  by (simp_all add: usePotion_def syncEquipment_def split: sum.splits prod.splits)

lemma read_input_ok:
  assumes "player_ok c i p" and "catalog_ok catalog" and "p_Alive (ps_player p)"
  shows "player_ok c i (read_input st catalog p) \<and> ps_input (read_input st catalog p) = ps_input p \<and>
    p_BaseStats (ps_player (read_input st catalog p)) = p_BaseStats (ps_player p) \<and>
    p_Alive (ps_player (read_input st catalog p)) \<and> ps_receivedAt (read_input st catalog p) = ps_receivedAt p \<and>
    (st \<noteq> Playing \<longrightarrow> ps_loadout (read_input st catalog p) = ps_loadout p \<and>
       p_Health (ps_player (read_input st catalog p)) = p_Health (ps_player p))"
proof -
  define p1 where "p1 = p\<lparr>ps_firing := (st = Playing \<and> i_Shoot (ps_input p))\<rparr>"
  define p2 where "p2 = (if \<not> feq (X (i_Aim (ps_input p))) (Fin 0) \<or> \<not> feq (Y (i_Aim (ps_input p))) (Fin 0)
    then p1\<lparr>ps_player := (ps_player p1)\<lparr>p_Aim := UnitDirection (i_Aim (ps_input p))\<rparr>\<rparr> else p1)"
  define p3 where "p3 = p2\<lparr>ps_player := (ps_player p2)\<lparr>p_LastProcessedInputSeq := i_Seq (ps_input p2)\<rparr>\<rparr>"
  define p4 where "p4 = (if st = Playing \<and> i_UsePotion (ps_input p3) then usePotion catalog p3 else p3)"
  have r: "read_input st catalog p = (if ps_pending p2
      then if st = Playing \<and> i_Reload (ps_input p4) then startReload p4 else p4 else p2)"
    unfolding read_input_def Let_def p1_def[symmetric] p2_def[symmetric] p3_def[symmetric] p4_def[symmetric] ..
  let ?Q = "\<lambda>q. player_ok c i q \<and> ps_input q = ps_input p \<and> p_BaseStats (ps_player q) = p_BaseStats (ps_player p) \<and>
    p_Alive (ps_player q) \<and> ps_receivedAt q = ps_receivedAt p \<and> (st \<noteq> Playing \<longrightarrow> ps_loadout q = ps_loadout p \<and>
       p_Health (ps_player q) = p_Health (ps_player p))"
  have "?Q p2" using assms by (simp add: p2_def p1_def player_ok_def magazine_ok_def)
  moreover from this have p3: "?Q p3" by (auto simp: p3_def player_ok_def magazine_ok_def)
  moreover from this have "?Q p4" using usePotion_ok[OF _ assms(2), of c i p3] by (simp add: p4_def usePotion_frame)
  moreover from this have "st = Playing \<Longrightarrow> ?Q (startReload p4)"
    using startReload_ok[of c i p4] by (simp add: startReload_def)
  ultimately show ?thesis unfolding r by simp
qed

lemma step_player_ok:
  assumes "config_ok c" and "catalog_ok catalog" and "player_ok c i p"
  shows "player_ok c i (step_player c covers st catalog now p) \<and>
    (st \<noteq> Playing \<longrightarrow> (\<forall>ids. applicable catalog p ids \<longrightarrow> applicable catalog (step_player c covers st catalog now p) ids))"
proof -
  have app: "applicable catalog q ids" if "applicable catalog p ids" "player_ok c i q" "ps_loadout q = ps_loadout p"
    "p_BaseStats (ps_player q) = p_BaseStats (ps_player p)" for q ids
    using that apply_to_cong[of p q catalog] by (fastforce simp: applicable_def player_ok_def health_ok_def)
  show ?thesis
  proof (cases "p_Alive (ps_player p)")
    case False
    then have "player_ok c i (step_player c covers st catalog now p)"
      using assms(3) by (simp add: step_player_def player_ok_def magazine_ok_def Let_def)
    then show ?thesis using app False by (simp add: step_player_def Let_def)
  next
    case True
    define p0 where "p0 = p\<lparr>ps_firing := False\<rparr>"
    define fresh where "fresh = fresh_input c now p0"
    define direction where "direction = (if fresh \<and> (st = Waiting \<or> st = Playing) then i_Direction (ps_input p0) else zero_vec)"
    define p1 where "p1 = (if fresh then read_input st catalog p0 else p0)"
    define p2 where "p2 = (if \<not> now < ps_receivedAt p1 then p1\<lparr>ps_pending := False\<rparr> else p1)"
    have eq: "step_player c covers st catalog now p = p2\<lparr>ps_player := move_player c covers direction (ps_player p2)\<rparr>"
      using True by (simp add: step_player_def p0_def fresh_def direction_def p1_def p2_def Let_def)
    have p0: "player_ok c i p0" "p_Alive (ps_player p0)" using assms(3) True by (simp_all add: p0_def player_ok_def)
    have p2: "player_ok c i p2" "p_BaseStats (ps_player p2) = p_BaseStats (ps_player p)"
      "st \<noteq> Playing \<Longrightarrow> ps_loadout p2 = ps_loadout p"
      using read_input_ok[OF p0(1) assms(2) p0(2), of st] p0 by (auto simp: p2_def p1_def p0_def player_ok_def)
    have d: "Vec2_Finite direction"
      using p0(1) by (simp add: direction_def player_ok_def input_ok_def zero_vec_def Vec2_Finite_def)
    have "in_map c (p_Position (move_player c covers direction (ps_player p2)))"
      using p2(1) d by (intro move_player_ok assms(1)) (auto simp: player_ok_def)
    then have "player_ok c i (p2\<lparr>ps_player := move_player c covers direction (ps_player p2)\<rparr>)"
      using p2(1) by (simp add: player_ok_def move_player_frame magazine_ok_def)
    then show ?thesis using app p2(2,3) by (simp add: eq move_player_frame)
  qed
qed

section \<open>Cover blocks are finite\<close>

lemma fl_int_bounds:
  assumes "of_int m \<le> x" and "x \<le> of_int n" and "\<bar>m\<bar> \<le> 2 ^ 53" and "\<bar>n\<bar> \<le> 2 ^ 53"
  shows "\<exists>v. fl x = Fin v \<and> of_int m \<le> v \<and> v \<le> of_int n"
proof -
  have "is_f64 (Fin (of_int k))" if "\<bar>k\<bar> \<le> 2 ^ 53" for k
    using fl_int[OF that] is_f64_fl by metis
  then show ?thesis using fl_finite_between[of "of_int m" "of_int n" x] assms by blast
qed

definition unit_block :: "normalizedBlock \<Rightarrow> bool" where
  "unit_block b \<longleftrightarrow> (\<forall>v \<in> {minX b, minY b, maxX b, maxY b}. \<exists>x. v = Fin x \<and> 0 \<le> x \<and> x \<le> 1)"

lemma unit_one_minus: "\<exists>x. v = Fin x \<and> 0 \<le> x \<and> x \<le> 1 \<Longrightarrow> \<exists>x. Fin 1 - v = Fin x \<and> 0 \<le> x \<and> x \<le> 1"
  using fl_int_bounds[of 0 "1 - x" 1 for x] by auto

lemma unit_nblock:
  assumes "0 \<le> a" "a \<le> 100" "0 \<le> b" "b \<le> 100" "0 \<le> c" "c \<le> 100" "0 \<le> d" "d \<le> 100"
  shows "unit_block (nblock a b c d)"
proof -
  have "\<exists>x. fl (of_int k / 100) = Fin x \<and> 0 \<le> x \<and> x \<le> 1" if "0 \<le> k" "k \<le> 100" for k
    using fl_int_bounds[of 0 "of_int k / 100" 1] that by simp
  then show ?thesis using assms by (simp add: unit_block_def nblock_def)
qed

lemma unit_authored: "\<forall>b \<in> set (authored_blocks i). unit_block b"
  by (auto simp: authored_blocks_def unit_nblock)

lemma unit_mirror: "unit_block b \<Longrightarrow> unit_block (mirror_block b)"
  by (simp add: unit_block_def mirror_block_def unit_one_minus)

lemma unit_rotate: "unit_block b \<Longrightarrow> unit_block (rotate_block b)"
  by (simp add: unit_block_def rotate_block_def unit_one_minus)

lemma unit_transform: "unit_block b \<Longrightarrow> unit_block (transform_block v b)"
proof -
  have "unit_block ((rotate_block ^^ n) b)" if "unit_block b" for n b
    using that by (induction n) (simp_all add: unit_rotate)
  then show "unit_block b \<Longrightarrow> unit_block (transform_block v b)"
    by (simp add: transform_block_def unit_mirror)
qed

lemma world_coordinate:
  assumes "a < d" and "\<bar>a\<bar> \<le> 1000000" and "\<bar>d\<bar> \<le> 1000000" and "\<exists>x. v = Fin x \<and> 0 \<le> x \<and> x \<le> 1"
  shows "\<exists>y. Fin a + (Fin d - Fin a) * v = Fin y"
proof -
  obtain x where x: "v = Fin x" "0 \<le> x" "x \<le> 1" using assms(4) by blast
  have "- 1000000 \<le> a" "a \<le> 1000000" "- 1000000 \<le> d" "d \<le> 1000000" using assms(2,3) by (auto simp: abs_le_iff)
  then obtain u where u: "Fin d - Fin a = Fin u" "0 \<le> u" "u \<le> 2000000"
    using fl_int_bounds[of 0 "d - a" 2000000] assms(1) by auto
  have "0 \<le> u * x" "u * x \<le> 2000000" using mult_mono[of u 2000000 x 1] u x by auto
  then obtain t where t: "Fin u * Fin x = Fin t" "0 \<le> t" "t \<le> 2000000"
    using fl_int_bounds[of 0 "u * x" 2000000] by auto
  then have "\<exists>y. fl (a + t) = Fin y"
    using fl_int_bounds[of "- 1000000" "a + t" 3000000] \<open>- 1000000 \<le> a\<close> \<open>a \<le> 1000000\<close> by auto
  then show ?thesis unfolding u x(1) t(1) by simp
qed

lemma block_ok_world_block:
  assumes "config_ok c" and "unit_block b"
  shows "block_ok (world_block c b)"
proof -
  obtain a b' d e where m: "g_Min c = vec2 (Fin a) (Fin b')" "g_Max c = vec2 (Fin d) (Fin e)" "a < d" "b' < e"
    "\<bar>a\<bar> \<le> 1000000" "\<bar>b'\<bar> \<le> 1000000" "\<bar>d\<bar> \<le> 1000000" "\<bar>e\<bar> \<le> 1000000"
    using config_bounds[OF assms(1)] by metis
  have "\<exists>y. Fin a + (Fin d - Fin a) * v = Fin y" "\<exists>y. Fin b' + (Fin e - Fin b') * v = Fin y"
    if "v \<in> {minX b, minY b, maxX b, maxY b}" for v
    using that assms(2) m by (auto simp: unit_block_def simp del: minus_f64_Fin intro!: world_coordinate)
  then show ?thesis
    by (simp add: block_ok_def world_block_def Let_def m Vec2_Finite_iff del: minus_f64_Fin plus_f64.simps times_f64.simps)
qed

lemma buildCoverBlocks_ok: "config_ok c \<Longrightarrow> \<forall>b \<in> set (buildCoverBlocks c i seed). block_ok b"
  using unit_authored by (auto simp: buildCoverBlocks_def Let_def intro!: block_ok_world_block unit_transform)

section \<open>Shots\<close>

lemma projectile_attack: "stats_ok s \<Longrightarrow> \<exists>a. cs_Attack s = Fin a \<and> 0 \<le> a"
  using stats_ok_Fin by blast

lemma reload_step_ok:
  assumes "player_ok c i p" and "0 < p_ReloadTicksRemaining (ps_player p)"
  shows "player_ok c i (p\<lparr>ps_player := (let player = (ps_player p)\<lparr>p_ReloadTicksRemaining := p_ReloadTicksRemaining (ps_player p) - 1\<rparr>
     in if p_ReloadTicksRemaining player = 0 \<and> p_Alive player then player\<lparr>p_Ammo := p_MagazineCapacity player\<rparr> else player)\<rparr>)"
proof -
  have "p_ReloadTicksRemaining (ps_player p) - 1 \<le> p_ReloadTicksRemaining (ps_player p)"
    using assms(2) by (intro word_dec_le) auto
  then have "p_ReloadTicksRemaining (ps_player p) - 1 \<le> ReloadDurationTicks"
    using assms(1) by (auto simp: player_ok_def magazine_ok_def)
  then show ?thesis using assms(1) by (simp add: player_ok_def magazine_ok_def Let_def)
qed

lemma step_player_shot_ok:
  assumes "fighting ids w" and "i \<in> ids"
  shows "fighting ids (step_player_shot i w) \<and> w_monsters (step_player_shot i w) = w_monsters w"
proof -
  obtain p where p: "map_of (w_players w) i = Some p" "player_ok (w_config w) i p" using fighting_lookup assms by blast
  show ?thesis
  proof (cases "0 < p_ReloadTicksRemaining (ps_player p)")
    case True
    then show ?thesis using fighting_update_player[OF assms(1) p(1) reload_step_ok[OF p(2) True]]
      by (simp add: step_player_shot_def p(1) Let_def)
  next
    case False
    let ?p = "p\<lparr>ps_player := (ps_player p)\<lparr>p_Ammo := p_Ammo (ps_player p) - 1\<rparr>,
          ps_nextShot := w_tick w + ucast (cs_AttackCooldownTicks (p_CurrentStats (ps_player p)))\<rparr>"
    let ?w = "w\<lparr>w_players := AList.update i ?p (w_players w)\<rparr>"
    show ?thesis
    proof (cases "\<not> p_Alive (ps_player p) \<or> \<not> ps_firing p \<or> p_Ammo (ps_player p) = 0 \<or> w_tick w < ps_nextShot p \<or>
        cc_MaxProjectiles (g_Combat (w_config w)) \<le> int (length (w_projectiles w))")
      case True
      then show ?thesis using False assms(1) unfolding step_player_shot_def p(1) Let_def by simp
    next
      case shoot: False
      then have "p_Ammo (ps_player p) - 1 \<le> p_Ammo (ps_player p)"
        by (intro word_dec_le) auto
      then have "p_Ammo (ps_player p) - 1 \<le> p_MagazineCapacity (ps_player p)"
        using p(2) by (auto simp: player_ok_def magazine_ok_def)
      then have "player_ok (w_config w) i ?p" using p(2) by (simp add: player_ok_def magazine_ok_def)
      then have f: "fighting ids ?w" by (rule fighting_update_player[OF assms(1) p(1)])
      let ?i = "FirstWorldEntityID OR (w_nextEntity w + 1)"
      let ?pr = "new_projectile w (ps_player p) i ?i"
      have pr: "step_player_shot i w = emit ((blank_event ProjectileSpawned)\<lparr>ev_EntityID := ?i, ev_SourceID := i,
             ev_Position := pr_Position ?pr, ev_Velocity := pr_Velocity ?pr, ev_ExpiresAtTick := pr_ExpiresAtTick ?pr\<rparr>)
          (?w\<lparr>w_nextEntity := w_nextEntity w + 1, w_projectiles := AList.update ?i ?pr (w_projectiles w)\<rparr>)"
        using False shoot p(1) unfolding step_player_shot_def Let_def allocateID_def new_projectile_def by simp
      have "projectile_ok ?i ?pr"
        using p(2) projectile_attack allocated_ge by (auto simp: projectile_ok_def player_ok_def new_projectile_def Let_def)
      then have "entries_ok projectile_ok (AList.update ?i ?pr (w_projectiles w))"
        using assms(1) by (intro entries_ok_update world_okD(6)) (auto simp: fighting_def)
      then have "fighting ids (?w\<lparr>w_nextEntity := w_nextEntity w + 1, w_projectiles := AList.update ?i ?pr (w_projectiles w)\<rparr>)"
        using f by (intro fighting_projectiles) (simp_all add: fighting_def)
      then show ?thesis using fighting_emit unfolding pr by simp
    qed
  qed
qed

section \<open>Monsters\<close>

definition request_ok :: "DamageRequest \<Rightarrow> bool" where
  "request_ok r \<longleftrightarrow> (\<exists>a. dr_Attack r = Fin a \<and> 0 \<le> a)"

lemma corner_finite:
  assumes "block_ok b" and "p \<in> set (block_corners b (Fin q))"
  shows "X p \<noteq> NaN \<and> Y p \<noteq> NaN"
  using assms by (auto simp: block_ok_def block_corners_def Vec2_Finite_iff)

lemma fl_02: "\<exists>v. fl (2 / 10) = Fin v \<and> 0 \<le> v \<and> v \<le> 1"
  using fl_int_bounds[of 0 "2 / 10" 1] by simp

lemma route_in_map:
  assumes "config_ok c" and "in_map c goal" and "\<forall>b \<in> set covers. block_ok b" and "0 < r" and "r \<le> 10"
  shows "in_map c (the (routeAroundCover c covers from goal (Fin r)))"
proof -
  obtain p where p: "routeAroundCover c covers from goal (Fin r) = Some p"
    "p = goal \<or> (\<not> out_of_map c p \<and> (\<exists>block \<in> set covers. p \<in> set (block_corners block (Fin r + fl (2 / 10)))))"
    using routeAroundCover_ok[OF assms(1), of covers "from" goal "Fin r"] by blast
  obtain v where v: "fl (2 / 10) = Fin v" "0 \<le> v" "v \<le> 1" using fl_02 by blast
  obtain q where q: "Fin r + fl (2 / 10) = Fin q"
    using fl_int_bounds[of 0 "r + v" 11] v assms(4,5) unfolding v(1) by auto
  have "in_map c p" if "\<not> out_of_map c p" "block \<in> set covers" "p \<in> set (block_corners block (Fin r + fl (2 / 10)))" for block
  proof -
    have "X p \<noteq> NaN" "Y p \<noteq> NaN" using corner_finite[of block p q] that assms(3) q by auto
    then show ?thesis using in_map_out_of_map[OF assms(1)] that(1) by blast
  qed
  then show ?thesis using p assms(2) by auto
qed

lemma hypot_cases:
  assumes "is_f64 (Fin a)" and "is_f64 (Fin b)"
  shows "math_Hypot (Fin a) (Fin b) = Inf False \<or> (\<exists>h. math_Hypot (Fin a) (Fin b) = Fin h \<and> \<bar>a\<bar> \<le> h \<and> \<bar>b\<bar> \<le> h)"
  using math_Hypot_ge[OF assms] .

lemma diff_finite:
  assumes "\<bar>a\<bar> \<le> 1000000" and "\<bar>b\<bar> \<le> 1000000"
  shows "\<exists>v. Fin a - Fin b = Fin v \<and> is_f64 (Fin v)"
proof -
  have "is_f64 (Fin a - Fin b)" by (rule is_f64_minus)
  moreover have "\<exists>v. Fin a - Fin b = Fin v"
    using fl_int_bounds[of "- 2000000" "a - b" 2000000] assms by (auto simp: abs_le_iff)
  ultimately show ?thesis by metis
qed

text \<open>A step along a direction is never NaN.\<close>

lemma step_not_NaN:
  assumes "is_f64 (Fin u)" and "is_f64 (Fin w)" and "Fin 0 < math_Hypot (Fin u) (Fin w)"
  shows "Fin u / math_Hypot (Fin u) (Fin w) * Fin t \<noteq> NaN \<and> Fin w / math_Hypot (Fin u) (Fin w) * Fin t \<noteq> NaN"
  using hypot_cases[OF assms(1,2)]
proof
  assume "math_Hypot (Fin u) (Fin w) = Inf False"
  then show ?thesis by simp
next
  assume "\<exists>h. math_Hypot (Fin u) (Fin w) = Fin h \<and> \<bar>u\<bar> \<le> h \<and> \<bar>w\<bar> \<le> h"
  then obtain h where h: "math_Hypot (Fin u) (Fin w) = Fin h" "\<bar>u\<bar> \<le> h" "\<bar>w\<bar> \<le> h" by blast
  then have "0 < h" using assms(3) by simp
  then show ?thesis using divide_unit[of u h] divide_unit[of w h] h by (auto simp del: divide_f64.simps)
qed

lemma Min_Fin: "x \<noteq> NaN \<Longrightarrow> x \<noteq> Inf True \<Longrightarrow> \<exists>t. math_Min (Fin v) x = Fin t"
  by (cases x) (auto simp: math_Min_def)

lemma in_map_abs:
  assumes "config_ok c" and "in_map c v"
  shows "\<exists>x y. v = vec2 (Fin x) (Fin y) \<and> \<bar>x\<bar> \<le> 1000000 \<and> \<bar>y\<bar> \<le> 1000000"
proof -
  obtain a b d e where m: "g_Min c = vec2 (Fin a) (Fin b)" "g_Max c = vec2 (Fin d) (Fin e)" "a < d" "b < e"
    "\<bar>a\<bar> \<le> 1000000" "\<bar>b\<bar> \<le> 1000000" "\<bar>d\<bar> \<le> 1000000" "\<bar>e\<bar> \<le> 1000000"
    using config_bounds[OF assms(1)] by metis
  obtain x y where "v = vec2 (Fin x) (Fin y)" "a \<le> x" "x \<le> d" "b \<le> y" "y \<le> e"
    using assms(2) unfolding m in_bounds_iff by blast
  then show ?thesis using m(5-8) by (auto simp: abs_le_iff)
qed

text \<open>The length of a chase step: finite whatever the distances.\<close>

lemma chase_step_finite:
  assumes "0 \<le> s" and "s \<le> 1000000" and "d \<noteq> NaN" and "d \<noteq> Inf True" and "h \<noteq> NaN" and "h \<noteq> Inf True"
  shows "\<exists>t. (if \<not> covered then math_Min (math_Min (Fin s * StepSeconds) h) (math_Max (Fin 0) (d - Fin a))
    else math_Min (Fin s * StepSeconds) h) = Fin t"
proof -
  have "s * (4803839602528529 / 144115188075855872) \<le> 1000000 * 1" using assms(1,2) by (intro mult_mono) auto
  then obtain v where v: "Fin s * StepSeconds = Fin v"
    using fl_int_bounds[of 0 "s * (4803839602528529 / 144115188075855872)" 1000000] assms(1)
    unfolding StepSeconds_eq by auto
  obtain t where t: "math_Min (Fin v) h = Fin t" using Min_Fin assms(5,6) by blast
  have "d - Fin a \<noteq> NaN" using assms(3,4) by (cases d) (auto simp: minus_f64_def)
  then have "math_Max (Fin 0) (d - Fin a) \<noteq> NaN \<and> math_Max (Fin 0) (d - Fin a) \<noteq> Inf True"
    by (cases "d - Fin a") (auto simp: math_Max_def)
  then show ?thesis using Min_Fin[of "math_Max (Fin 0) (d - Fin a)" t] by (simp add: v t)
qed

lemma chase_ok:
  assumes "world_ok w" and "monster_ok (w_config w) i ms" and "in_map (w_config w) (p_Position p)"
    and "d \<noteq> NaN" and "d \<noteq> Inf True"
  shows "monster_ok (w_config w) i (chase w p d covered ms)"
proof -
  let ?c = "w_config w" and ?m = "ms_monster ms"
  note ok = world_okD[OF assms(1)]
  obtain r where r: "m_Radius ?m = Fin r" "0 < r" "r \<le> 10" using assms(2) by (auto simp: monster_ok_def)
  obtain a where a: "m_AttackRange ?m = Fin a" using assms(2) by (auto simp: monster_ok_def)
  obtain s where s: "cs_MoveSpeed (m_CurrentStats ?m) = Fin s" "0 \<le> s" "s \<le> 1000000"
    using assms(2) stats_ok_Fin[of "m_CurrentStats ?m"] by (auto simp: monster_ok_def)
  define wp where "wp = the (routeAroundCover ?c (w_covers w) (m_Position ?m) (p_Position p) (m_Radius ?m))"
  have "in_map ?c wp" unfolding wp_def r(1) by (rule route_in_map[OF ok(1) assms(3) ok(8) r(2,3)])
  then obtain x y where wp: "wp = vec2 (Fin x) (Fin y)" "\<bar>x\<bar> \<le> 1000000" "\<bar>y\<bar> \<le> 1000000"
    using in_map_abs[OF ok(1)] by blast
  have "in_map ?c (m_Position ?m)" using assms(2) by (simp add: monster_ok_def)
  then obtain q z where pos: "m_Position ?m = vec2 (Fin q) (Fin z)" "\<bar>q\<bar> \<le> 1000000" "\<bar>z\<bar> \<le> 1000000"
    using in_map_abs[OF ok(1)] by blast
  obtain u t where ut: "Fin x - Fin q = Fin u" "is_f64 (Fin u)" "Fin y - Fin z = Fin t" "is_f64 (Fin t)"
    using diff_finite wp(2,3) pos(2,3) by metis
  define h where "h = math_Hypot (Fin u) (Fin t)"
  have h: "h \<noteq> NaN" "h \<noteq> Inf True" using hypot_cases[OF ut(2,4)] unfolding h_def by auto
  obtain l where l: "(if \<not> covered then math_Min (math_Min (Fin s * StepSeconds) h) (math_Max (Fin 0) (d - Fin a))
    else math_Min (Fin s * StepSeconds) h) = Fin l"
    using chase_step_finite[OF s(2,3) assms(4,5) h] by blast
  define np where "np = moveWithCover ?c (w_covers w) (m_Position ?m) (vec2 (Fin u / h * Fin l) (Fin t / h * Fin l)) (m_Radius ?m)"
  have np: "in_map ?c np" if "Fin 0 < h"
    using step_not_NaN[OF ut(2,4), of l] that assms(2) unfolding np_def h_def
    by (intro moveWithCover_in_map ok(1)) (auto simp: monster_ok_def simp del: divide_f64.simps times_f64.simps)
  have eq: "chase w p d covered ms = (if Fin 0 < h
     then ms\<lparr>ms_monster := ?m\<lparr>m_State := MonsterChase, m_Position := np,
       m_Velocity := vec2 ((X np - X (ms_previous ms)) / StepSeconds) ((Y np - Y (ms_previous ms)) / StepSeconds)\<rparr>\<rparr>
     else ms\<lparr>ms_monster := ?m\<lparr>m_State := MonsterChase\<rparr>\<rparr>)"
  proof -
    have route: "the (routeAroundCover ?c (w_covers w) (vec2 (Fin q) (Fin z)) (p_Position p) (m_Radius ?m)) = vec2 (Fin x) (Fin y)"
      using wp(1) pos(1) by (simp add: wp_def)
    show ?thesis
      using l unfolding chase_def Let_def np_def h_def
      by (cases covered) (simp_all add: route pos(1) ut(1,3) s(1) a del: minus_f64_Fin times_f64.simps divide_f64.simps)
  qed
  show ?thesis using assms(2) np by (simp add: eq monster_ok_def)
qed

lemma monster_decide_ok: "monster_ok c i ms \<Longrightarrow> monster_ok c i (monster_decide w a ids ms)"
  by (simp add: monster_decide_def monster_ok_def Let_def)

lemma monster_act_ok:
  assumes "fighting ids w" and "monster_ok (w_config w) i ms"
  shows "monster_ok (w_config w) i (fst (monster_act w i ms)) \<and> (\<forall>r \<in> set (snd (monster_act w i ms)). request_ok r)"
proof -
  have ok: "world_ok w" using assms(1) by (simp add: fighting_def)
  let ?ms = "ms\<lparr>ms_monster := (ms_monster ms)\<lparr>m_Velocity := zero_vec\<rparr>\<rparr>"
  have ms: "monster_ok (w_config w) i ?ms" using assms(2) by (simp add: monster_ok_def)
  show ?thesis
  proof (cases "map_of (w_players w) (ms_target ms)")
    case None
    then show ?thesis using ms by (simp add: monster_act_def monster_ok_def)
  next
    case (Some p)
    have p: "player_ok (w_config w) (ms_target ms) p" using entries_okD[OF world_okD(3)[OF ok] Some] .
    then have pos: "in_map (w_config w) (p_Position (ps_player p))" by (simp add: player_ok_def)
    define d where "d = math_Hypot (X (p_Position (ps_player p)) - X (m_Position (ms_monster ms)))
      (Y (p_Position (ps_player p)) - Y (m_Position (ms_monster ms)))"
    have d: "d \<noteq> NaN" "d \<noteq> Inf True"
    proof -
      obtain x y where xy: "p_Position (ps_player p) = vec2 (Fin x) (Fin y)" "\<bar>x\<bar> \<le> 1000000" "\<bar>y\<bar> \<le> 1000000"
        using in_map_abs[OF world_okD(1)[OF ok] pos] by blast
      obtain q z where qz: "m_Position (ms_monster ms) = vec2 (Fin q) (Fin z)" "\<bar>q\<bar> \<le> 1000000" "\<bar>z\<bar> \<le> 1000000"
        using in_map_abs[OF world_okD(1)[OF ok]] assms(2) unfolding monster_ok_def by blast
      obtain u t where "Fin x - Fin q = Fin u" "is_f64 (Fin u)" "Fin y - Fin z = Fin t" "is_f64 (Fin t)"
        using diff_finite xy(2,3) qz(2,3) by metis
      then show "d \<noteq> NaN" "d \<noteq> Inf True" using hypot_cases[of u t] unfolding d_def xy(1) qz(1) by (auto simp del: minus_f64_Fin)
    qed
    define covered where "covered = snd (firstCoverHit (w_covers w) (m_Position (ms_monster ms)) (p_Position (ps_player p)) (Fin 0))"
    have "monster_ok (w_config w) i (chase w (ps_player p) d covered ?ms)" using chase_ok[OF ok ms pos d] .
    moreover have "\<exists>a. cs_Attack (m_CurrentStats (ms_monster ms)) = Fin a \<and> 0 \<le> a"
      using projectile_attack assms(2) by (simp add: monster_ok_def)
    ultimately show ?thesis
      using ms Some unfolding monster_act_def Let_def
      by (simp add: d_def[symmetric] covered_def[symmetric] request_ok_def) (simp add: monster_ok_def)
  qed
qed

lemma step_monster_ok:
  assumes "fighting ids w" and "map_of (w_monsters w) i \<noteq> None" and "\<forall>r \<in> set rs. request_ok r"
    and "step_monster pids i (w, a, rs) = (w', a', rs')"
  shows "fighting ids w' \<and> dom (map_of (w_monsters w')) = dom (map_of (w_monsters w)) \<and> (\<forall>r \<in> set rs'. request_ok r) \<and>
    w_projectiles w' = w_projectiles w"
proof -
  obtain ms where ms: "map_of (w_monsters w) i = Some ms" using assms(2) by blast
  have ent: "entries_ok (monster_ok (w_config w)) (w_monsters w)" using assms(1) world_okD(5) by (simp add: fighting_def)
  define d where "d = monster_decide w a pids ms"
  have d: "monster_ok (w_config w) i d" using monster_decide_ok entries_okD[OF ent ms] by (simp add: d_def)
  have w': "w' = w\<lparr>w_monsters := AList.update i (fst (monster_act w i d)) (w_monsters w)\<rparr>" "rs' = rs @ snd (monster_act w i d)"
    using assms(4) unfolding step_monster_def ms option.sel Let_def prod.case d_def by (auto split: prod.splits)
  have "entries_ok (monster_ok (w_config w)) (AList.update i (fst (monster_act w i d)) (w_monsters w))"
    using monster_act_ok[OF assms(1) d] by (intro entries_ok_update ent) simp
  then have "fighting ids w'" unfolding w' by (rule fighting_monsters[OF assms(1)])
  moreover have "dom (map_of (w_monsters w')) = dom (map_of (w_monsters w))"
    using ms by (auto simp: w' update_conv')
  ultimately show ?thesis using monster_act_ok[OF assms(1) d] assms(3) by (auto simp: w')
qed

end
