(* ===== verification/CombatStep.thy ===== *)
theory CombatStep
  imports Ticks
begin

text \<open>The second half of the combat step: projectiles, damage and the end of a stage keep the invariant,
  and no damage request of a well-formed world panics.\<close>

section \<open>Projectiles\<close>

lemma fold_steps:
  assumes "\<And>x s. x \<in> set xs \<Longrightarrow> P s \<Longrightarrow> P (f x s)" and "P s"
  shows "P (fold f xs s)"
  using assms by (induction xs arbitrary: s) auto

lemma destroyProjectile_ok: "fighting ids w \<Longrightarrow> fighting ids (destroyProjectile p w)"
  unfolding destroyProjectile_def
  by (intro fighting_emit fighting_projectiles entries_ok_delete) (auto simp: fighting_def intro: world_okD)

lemma destroyProjectile_frame [simp]:
  "w_monsters (destroyProjectile p w) = w_monsters w" "w_players (destroyProjectile p w) = w_players w"
  "w_stage (destroyProjectile p w) = w_stage w" "w_rewardRound (destroyProjectile p w) = w_rewardRound w"
  "w_tick (destroyProjectile p w) = w_tick w" "w_config (destroyProjectile p w) = w_config w"
  "w_projectiles (destroyProjectile p w) = AList.delete (pr_ID p) (w_projectiles w)"
  by (simp_all add: destroyProjectile_def)

lemma step_projectile_ok:
  assumes "fighting ids w" and "map_of (w_projectiles w) i = Some p" and "\<forall>r \<in> set rs. request_ok r"
    and "step_projectile mids i (w, rs) = (w', rs')"
  shows "fighting ids w' \<and> w_monsters w' = w_monsters w \<and> (\<forall>r \<in> set rs'. request_ok r) \<and>
    (\<forall>j. j \<noteq> i \<longrightarrow> map_of (w_projectiles w') j = map_of (w_projectiles w) j)"
proof -
  have ent: "entries_ok projectile_ok (w_projectiles w)" using assms(1) world_okD(6) by (simp add: fighting_def)
  have p: "pr_ID p = i" "\<exists>a. pr_Attack p = Fin a \<and> 0 \<le> a" "projectile_ok i p"
    using entries_okD[OF ent assms(2)] by (auto simp: projectile_ok_def)
  have upd: "fighting ids (w\<lparr>w_projectiles := AList.update i (p\<lparr>pr_Position := q\<rparr>) (w_projectiles w)\<rparr>)" for q
    using p(3) by (intro fighting_projectiles assms(1) entries_ok_update ent) (simp add: projectile_ok_def)
  have des: "fighting ids (destroyProjectile (p\<lparr>pr_Position := q\<rparr>) w)" for q by (rule destroyProjectile_ok[OF assms(1)])
  have del: "j \<noteq> i \<Longrightarrow> map_of (AList.delete i (w_projectiles w)) j = map_of (w_projectiles w) j" for j
    by (simp add: map_of_delete_eq)
  have up: "j \<noteq> i \<Longrightarrow> map_of (AList.update i v (w_projectiles w)) j = map_of (w_projectiles w) j" for j v
    by (simp add: update_conv')
  show ?thesis
    using assms(3,4) p upd des destroyProjectile_ok[OF assms(1), of p] del up
    unfolding step_projectile_def assms(2) option.sel Let_def prod.case
    by (auto split: if_splits prod.splits simp: request_ok_def simp del: fold.simps)
qed

section \<open>Damage\<close>

lemma target_values_ok:
  assumes "world_ok w" and "target_values w r = Some (h, d)"
  shows "\<exists>x y. h = Fin x \<and> 0 \<le> x \<and> is_f64 (Fin x) \<and> d = Fin y \<and> 0 \<le> y \<and> is_f64 (Fin y)"
proof -
  have P: "\<exists>x y. h' = Fin x \<and> 0 \<le> x \<and> is_f64 (Fin x) \<and> cs_Defense s = Fin y \<and> 0 \<le> y \<and> is_f64 (Fin y)"
    if "health_ok h' mx" "stats_ok s" for h' mx s
    using that(1) stats_ok_Fin[OF that(2)] unfolding health_ok_def by blast
  show ?thesis
  proof (cases "dr_TargetPlayer r")
    case True
    then obtain p where p: "map_of (w_players w) (dr_TargetID r) = Some p" "h = p_Health (ps_player p)"
      "d = cs_Defense (p_CurrentStats (ps_player p))"
      using assms(2) by (auto simp: target_values_def split: option.splits if_splits)
    have "player_ok (w_config w) (dr_TargetID r) p" using entries_okD[OF world_okD(3)[OF assms(1)] p(1)] .
    then show ?thesis unfolding p(2,3) player_ok_def using P by blast
  next
    case False
    then obtain m where m: "map_of (w_monsters w) (dr_TargetID r) = Some m" "h = m_Health (ms_monster m)"
      "d = cs_Defense (m_CurrentStats (ms_monster m))"
      using assms(2) by (auto simp: target_values_def split: option.splits if_splits)
    have "monster_ok (w_config w) (dr_TargetID r) m" using entries_okD[OF world_okD(5)[OF assms(1)] m(1)] .
    then show ?thesis unfolding m(2,3) monster_ok_def using P by blast
  qed
qed

lemma deal_damage_simps [simp]:
  "v_State (w_stage (deal_damage r d w)) = v_State (w_stage w)" "w_config (deal_damage r d w) = w_config w"
  "w_projectiles (deal_damage r d w) = w_projectiles w" "w_tick (deal_damage r d w) = w_tick w"
  "keys (w_monsters (deal_damage r d w)) = keys (w_monsters w)"
  "keys (w_players (deal_damage r d w)) = keys (w_players w)"
  by (simp_all add: deal_damage_def)

lemma hurt_health:
  assumes "health_ok h mx" and "d_RemainingHealth d = Fin x" and "0 \<le> x" and "Fin x \<le> h" and "is_f64 (Fin x)"
  shows "health_ok (d_RemainingHealth d) mx"
  using assms by (auto simp: health_ok_def)

lemma deal_damage_ok:
  assumes "fighting ids w" and "target_values w r = Some (h, df)" and "d_RemainingHealth d = Fin x" and "0 \<le> x"
    and "Fin x \<le> h" and "is_f64 (Fin x)" and "d_Killed d \<longrightarrow> x = 0"
  shows "fighting ids (deal_damage r d w)"
proof (cases "dr_TargetPlayer r")
  case True
  have ent: "entries_ok (player_ok (w_config w)) (w_players w)" using assms(1) world_okD(3) by (simp add: fighting_def)
  have "player_ok (w_config w) (dr_TargetID r) (hurt_player d p)"
    if p: "map_of (w_players w) (dr_TargetID r) = Some p" "player_ok (w_config w) (dr_TargetID r) p" for p
  proof -
    have "h = p_Health (ps_player p)" using assms(2) True p(1) by (auto simp: target_values_def split: if_splits)
    then have "health_ok (Fin x) (cs_MaxHealth (p_CurrentStats (ps_player p)))"
      using hurt_health[of h _ d x] assms(3-6) p(2) by (auto simp: player_ok_def)
    then show ?thesis using p(2) assms(3,7) by (auto simp: hurt_player_def Let_def player_ok_def magazine_ok_def)
  qed
  then have "entries_ok (player_ok (w_config w)) (map_adjust (dr_TargetID r) (hurt_player d) (w_players w))"
    by (intro entries_ok_map_adjust ent) auto
  then have f: "fighting ids (w\<lparr>w_players := map_adjust (dr_TargetID r) (hurt_player d) (w_players w)\<rparr>)"
    by (intro fighting_players assms(1)) auto
  show ?thesis using f True by (simp add: deal_damage_def fighting_def)
next
  case False
  have ent: "entries_ok (monster_ok (w_config w)) (w_monsters w)" using assms(1) world_okD(5) by (simp add: fighting_def)
  have "monster_ok (w_config w) (dr_TargetID r) (hurt_monster d m)"
    if m: "map_of (w_monsters w) (dr_TargetID r) = Some m" "monster_ok (w_config w) (dr_TargetID r) m" for m
  proof -
    have "h = m_Health (ms_monster m)" using assms(2) False m(1) by (auto simp: target_values_def split: if_splits)
    then have "health_ok (Fin x) (cs_MaxHealth (m_CurrentStats (ms_monster m)))"
      using hurt_health[of h _ d x] assms(3-6) m(2) by (auto simp: monster_ok_def)
    then show ?thesis using m(2) assms(3) by (auto simp: hurt_monster_def Let_def monster_ok_def)
  qed
  then have "entries_ok (monster_ok (w_config w)) (map_adjust (dr_TargetID r) (hurt_monster d) (w_monsters w))"
    by (intro entries_ok_map_adjust ent) auto
  then have "fighting ids (w\<lparr>w_monsters := map_adjust (dr_TargetID r) (hurt_monster d) (w_monsters w)\<rparr>)"
    by (rule fighting_monsters[OF assms(1)])
  then show ?thesis using False by (simp add: deal_damage_def fighting_def)
qed

lemma applyDamage_ok:
  assumes "fighting ids w" and "request_ok r"
  shows "\<exists>w'. applyDamage w r = Inr w' \<and> fighting ids w' \<and> keys (w_monsters w') = keys (w_monsters w) \<and>
    w_projectiles w' = w_projectiles w \<and> w_tick w' = w_tick w \<and> w_config w' = w_config w"
proof (cases "target_values w r")
  case None
  then show ?thesis using assms(1) by (simp add: applyDamage_def)
next
  case (Some hd)
  obtain h df where hd: "hd = (h, df)" by (cases hd)
  have tv: "target_values w r = Some (h, df)" using Some hd by simp
  obtain x y where xy: "h = Fin x" "0 \<le> x" "is_f64 (Fin x)" "df = Fin y" "0 \<le> y" "is_f64 (Fin y)"
    using target_values_ok[OF _ tv] assms(1) by (auto simp: fighting_def)
  obtain a where a: "dr_Attack r = Fin a" "0 \<le> a" using assms(2) by (auto simp: request_ok_def)
  obtain m where m: "0 \<le> m" "m \<le> x" "ResolveDamage (Fin a) (Fin y) (Fin x) = Inr \<lparr>d_Amount = Fin m,
      d_RemainingHealth = Fin (rnd (x - m)), d_Killed = (0 < x \<and> rnd (x - m) = 0)\<rparr>"
    using ResolveDamage_Fin[OF a(2) xy(5,6,2,3)] by blast
  let ?d = "\<lparr>d_Amount = Fin m, d_RemainingHealth = Fin (rnd (x - m)), d_Killed = (0 < x \<and> rnd (x - m) = 0)\<rparr>"
  have rem: "0 \<le> rnd (x - m)" "rnd (x - m) \<le> x" "is_f64 (Fin (rnd (x - m)))"
  proof -
    show "0 \<le> rnd (x - m)" using m(2) ieee.nonneg by simp
    show "rnd (x - m) \<le> x" using m(1) xy(3) ieee.upper[of "x - m" x] by simp
    have "fl (x - m) = Fin (rnd (x - m))" using fl_finite_between[of 0 x "x - m"] m(1,2) xy(3) by simp
    then show "is_f64 (Fin (rnd (x - m)))" by (metis is_f64_fl)
  qed
  define v where "v = deal_damage r ?d w"
  have f: "fighting ids v"
    using rem xy unfolding v_def by (intro deal_damage_ok[OF assms(1) tv, where x = "rnd (x - m)"]) auto
  have fr: "keys (w_monsters v) = keys (w_monsters w)" "w_projectiles v = w_projectiles w" "w_tick v = w_tick w" "w_config v = w_config w"
    by (simp_all add: v_def)
  show ?thesis
  proof (cases "m = 0")
    case True
    then show ?thesis using assms(1) m(3) by (simp add: applyDamage_def tv xy a feq_def)
  next
    case False
    let ?e1 = "(blank_event DamageDealt)\<lparr>ev_SourceID := dr_SourceID r, ev_TargetID := dr_TargetID r,
      ev_Amount := Fin m, ev_Health := Fin (rnd (x - m))\<rparr>"
    let ?e2 = "(blank_event EntityDied)\<lparr>ev_EntityID := dr_TargetID r, ev_SourceID := dr_SourceID r\<rparr>"
    have "\<not> feq (Fin m) (Fin 0)" using False by (simp add: feq_def)
    then have "applyDamage w r = Inr (if 0 < x \<and> rnd (x - m) = 0 then emit ?e2 (emit ?e1 v) else emit ?e1 v)"
      unfolding applyDamage_def tv option.case prod.case xy(1,4) a(1) m(3) sum.case Let_def v_def
        DamageResolved.select_convs by (simp only: if_False)
    then show ?thesis using f fr by (simp add: fighting_emit)
  qed
qed

lemma apply_requests_ok:
  assumes "fighting ids w" and "\<forall>r \<in> set rs. request_ok r"
  shows "\<exists>w'. apply_requests w rs = Inr w' \<and> fighting ids w' \<and> keys (w_monsters w') = keys (w_monsters w) \<and>
    w_projectiles w' = w_projectiles w \<and> w_tick w' = w_tick w \<and> w_config w' = w_config w"
  using assms
proof (induction rs arbitrary: w)
  case (Cons r rs)
  obtain w1 where w1: "applyDamage w r = Inr w1" "fighting ids w1" "keys (w_monsters w1) = keys (w_monsters w)"
    "w_projectiles w1 = w_projectiles w" "w_tick w1 = w_tick w" "w_config w1 = w_config w"
    using applyDamage_ok[OF Cons.prems(1)] Cons.prems(2) by (metis list.set_intros(1))
  then show ?case using Cons.IH[OF w1(2)] Cons.prems(2) by auto
qed simp

section \<open>The end of a combat step\<close>

lemma remove_dead_ok:
  assumes "fighting ids w"
  shows "fighting ids (remove_dead mids w) \<and> w_projectiles (remove_dead mids w) = w_projectiles w \<and>
    w_tick (remove_dead mids w) = w_tick w \<and> w_config (remove_dead mids w) = w_config w"
proof -
  let ?P = "\<lambda>v. fighting ids v \<and> w_projectiles v = w_projectiles w \<and> w_tick v = w_tick w \<and> w_config v = w_config w"
  have "fighting ids (v\<lparr>w_monsters := AList.delete i (w_monsters v)\<rparr>)" if "fighting ids v" for v i
    using that world_okD(5)[of v] by (intro fighting_monsters entries_ok_delete) (simp_all add: fighting_def)
  then have "?P (remove_dead mids w)" unfolding remove_dead_def
    by (intro fold_steps[where P = ?P]) (use assms in auto)
  then show ?thesis .
qed

lemma freezePerformance_simps [simp]:
  "w_config (freezePerformance w) = w_config w" "w_players (freezePerformance w) = w_players w"
  "w_monsters (freezePerformance w) = w_monsters w" "w_projectiles (freezePerformance w) = w_projectiles w"
  "w_stage (freezePerformance w) = w_stage w" "w_rewardRound (freezePerformance w) = w_rewardRound w"
  "w_tick (freezePerformance w) = w_tick w" "w_rewardCatalog (freezePerformance w) = w_rewardCatalog w"
  by (simp_all add: freezePerformance_def Let_def split: prod.splits)

lemma world_ok_freezePerformance: "world_ok (freezePerformance w) = world_ok w"
  by (simp add: freezePerformance_def Let_def split: prod.splits)

lemma world_ok_set_state:
  assumes "world_ok w" and "w_rewardRound w = None" and "s \<noteq> Reward"
  shows "world_ok (set_stage_state s w)"
proof -
  have "round_inv (set_stage_state s w)" using assms(2,3) by (simp add: round_inv_def)
  then show ?thesis using world_okD[OF assms(1)] by (intro world_okI) simp_all
qed

lemma world_ok_destroy: "world_ok w \<Longrightarrow> world_ok (destroyProjectile p w)"
  unfolding destroyProjectile_def
  by (intro world_ok_emit world_ok_projectiles entries_ok_delete) (auto intro: world_okD)

lemma stage_outcome_ok:
  assumes "world_ok w" and "v_State (w_stage w) = Playing" and "w_rewardRound w = None"
  shows "world_ok (stage_outcome w) \<and>
    v_State (w_stage (stage_outcome w)) = (if livingPlayers w = 0 then Failed else if w_monsters w = [] then StageClear else Playing) \<and>
    w_tick (stage_outcome w) = w_tick w \<and> w_config (stage_outcome w) = w_config w \<and> w_rewardRound (stage_outcome w) = None"
proof -
  have "world_ok (set_stage_state Failed (w\<lparr>w_runEndedAtTick := w_tick w\<rparr>))"
    using assms by (intro world_ok_set_state) simp_all
  moreover have "world_ok (set_stage_state StageClear (freezePerformance w))"
    using assms by (intro world_ok_set_state) (simp_all add: world_ok_freezePerformance)
  ultimately show ?thesis using assms by (simp add: stage_outcome_def world_ok_emit)
qed

lemma stop_stage_ok:
  assumes "world_ok w"
  shows "world_ok (stop_stage w) \<and> w_stage (stop_stage w) = w_stage w \<and> w_tick (stop_stage w) = w_tick w \<and>
    w_config (stop_stage w) = w_config w \<and> w_rewardRound (stop_stage w) = w_rewardRound w"
proof -
  let ?P = "\<lambda>v. world_ok v \<and> w_stage v = w_stage w \<and> w_tick v = w_tick w \<and> w_config v = w_config w \<and>
    w_rewardRound v = w_rewardRound w"
  have "entries_ok (monster_ok (w_config w)) (map_values stop_monster (w_monsters w))"
    using world_okD(5)[OF assms] by (rule entries_ok_map_values) (simp add: stop_monster_def monster_ok_def)
  then have "?P (w\<lparr>w_monsters := map_values stop_monster (w_monsters w)\<rparr>)" using world_ok_monsters[OF assms] by simp
  then have "?P (stop_stage w)" unfolding stop_stage_def Let_def
    by (intro fold_steps[where P = ?P]) (simp_all add: world_ok_destroy)
  then show ?thesis .
qed

lemma settle_stage_ok:
  assumes "fighting ids w"
  shows "world_ok (settle_stage w) \<and>
    v_State (w_stage (settle_stage w)) = (if livingPlayers w = 0 then Failed else if w_monsters w = [] then StageClear else Playing) \<and>
    w_tick (settle_stage w) = w_tick w \<and> w_config (settle_stage w) = w_config w \<and> w_rewardRound (settle_stage w) = None"
proof -
  define w1 where "w1 = w\<lparr>w_stage := (w_stage w)\<lparr>v_MonstersRemaining := int (length (w_monsters w))\<rparr>\<rparr>"
  have w: "world_ok w" "v_State (w_stage w) = Playing" using assms by (auto simp: fighting_def)
  have no: "w_rewardRound w = None" using playing_no_round[OF w] .
  then have "round_inv w1" using w(2) by (simp add: w1_def round_inv_def)
  then have "world_ok w1" using world_okD[OF w(1)] by (intro world_okI) (simp_all add: w1_def)
  moreover have fr: "v_State (w_stage w1) = Playing" "w_rewardRound w1 = None" "w_monsters w1 = w_monsters w"
    "livingPlayers w1 = livingPlayers w" "w_tick w1 = w_tick w" "w_config w1 = w_config w"
    using w(2) no by (simp_all add: w1_def livingPlayers_def)
  ultimately have o: "world_ok (stage_outcome w1)" "v_State (w_stage (stage_outcome w1)) =
      (if livingPlayers w = 0 then Failed else if w_monsters w = [] then StageClear else Playing)"
    "w_tick (stage_outcome w1) = w_tick w" "w_config (stage_outcome w1) = w_config w" "w_rewardRound (stage_outcome w1) = None"
    using stage_outcome_ok[of w1] by simp_all
  have "settle_stage w = (if v_State (w_stage (stage_outcome w1)) \<noteq> Playing then stop_stage (stage_outcome w1) else stage_outcome w1)"
    by (simp add: settle_stage_def w1_def Let_def)
  then show ?thesis using o stop_stage_ok[OF o(1)] by simp
qed

lemma step_projectiles_fold:
  assumes "fighting ids w" and "\<forall>r \<in> set rs. request_ok r" and "distinct is" and "set is \<subseteq> dom (map_of (w_projectiles w))"
  shows "\<exists>w' rs'. fold (step_projectile mids) is (w, rs) = (w', rs') \<and> fighting ids w' \<and> w_monsters w' = w_monsters w \<and>
    (\<forall>r \<in> set rs'. request_ok r) \<and> w_tick w' = w_tick w \<and> w_config w' = w_config w"
  using assms
proof (induction "is" arbitrary: w rs)
  case (Cons i "is")
  obtain p where p: "map_of (w_projectiles w) i = Some p" using Cons.prems(4) by auto
  obtain w1 rs1 where s: "step_projectile mids i (w, rs) = (w1, rs1)" by (cases "step_projectile mids i (w, rs)")
  note ok = step_projectile_ok[OF Cons.prems(1) p Cons.prems(2) s]
  have t: "w_tick w1 = w_tick w" "w_config w1 = w_config w"
    using s unfolding step_projectile_def p option.sel Let_def prod.case by (auto split: if_splits prod.splits)
  have "set is \<subseteq> dom (map_of (w_projectiles w1))"
  proof
    fix j assume j: "j \<in> set is"
    then have "j \<noteq> i" using Cons.prems(3) by auto
    then have "map_of (w_projectiles w1) j = map_of (w_projectiles w) j" using ok by blast
    moreover have "j \<in> dom (map_of (w_projectiles w))" using Cons.prems(4) j by auto
    ultimately show "j \<in> dom (map_of (w_projectiles w1))" by (simp add: domIff)
  qed
  then show ?case using Cons.IH[of w1 rs1] ok s t Cons.prems(3) by auto
qed simp

lemma step_monsters_fold:
  assumes "fighting ids w" and "\<forall>r \<in> set rs. request_ok r" and "set is \<subseteq> dom (map_of (w_monsters w))"
  shows "\<exists>w' a' rs'. fold (step_monster pids) is (w, a, rs) = (w', a', rs') \<and> fighting ids w' \<and>
    dom (map_of (w_monsters w')) = dom (map_of (w_monsters w)) \<and> (\<forall>r \<in> set rs'. request_ok r) \<and>
    w_tick w' = w_tick w \<and> w_config w' = w_config w"
  using assms
proof (induction "is" arbitrary: w a rs)
  case (Cons i "is")
  obtain w1 a1 rs1 where s: "step_monster pids i (w, a, rs) = (w1, a1, rs1)" by (cases "step_monster pids i (w, a, rs)")
  have m: "map_of (w_monsters w) i \<noteq> None" using Cons.prems(3) by auto
  note ok = step_monster_ok[OF Cons.prems(1) m Cons.prems(2) s]
  have t: "w_tick w1 = w_tick w" "w_config w1 = w_config w"
    using s unfolding step_monster_def Let_def prod.case by (auto split: prod.splits)
  have "set is \<subseteq> dom (map_of (w_monsters w1))" using ok Cons.prems(3) by auto
  then show ?case using Cons.IH[of w1 rs1 a1] ok s t by auto
qed auto

lemma step_shots_fold:
  assumes "fighting ids w" and "set is \<subseteq> ids"
  shows "fighting ids (fold step_player_shot is w) \<and> w_monsters (fold step_player_shot is w) = w_monsters w \<and>
    w_tick (fold step_player_shot is w) = w_tick w \<and> w_config (fold step_player_shot is w) = w_config w"
proof -
  have t: "w_tick (step_player_shot i v) = w_tick v \<and> w_config (step_player_shot i v) = w_config v" for i v
    by (simp add: step_player_shot_def Let_def allocateID_def)
  have "fighting ids (fold step_player_shot is w) \<and> w_monsters (fold step_player_shot is w) = w_monsters w \<and>
      w_tick (fold step_player_shot is w) = w_tick w \<and> w_config (fold step_player_shot is w) = w_config w"
    by (rule fold_steps[where P = "\<lambda>v. fighting ids v \<and> w_monsters v = w_monsters w \<and>
      w_tick v = w_tick w \<and> w_config v = w_config w"]) (use assms step_player_shot_ok t in auto)
  then show ?thesis .
qed

lemma settle_stage_players: "w_players (settle_stage w) = w_players w"
proof -
  have o: "w_players (stage_outcome v) = w_players v" for v
    by (simp add: stage_outcome_def emit_def set_stage_state_def freezePerformance_def Let_def split: prod.splits)
  have s: "w_players (stop_stage v) = w_players v" for v
  proof -
    let ?P = "\<lambda>u. w_players u = w_players v"
    have "?P (stop_stage v)" unfolding stop_stage_def Let_def by (rule fold_steps[where P = ?P]) simp_all
    then show ?thesis .
  qed
  show ?thesis by (simp add: settle_stage_def Let_def o s)
qed

lemma stepCombat_ok:
  assumes "world_ok w"
  shows "\<exists>w'. stepCombat w = Inr w' \<and> world_ok w' \<and> w_tick w' = w_tick w \<and> w_config w' = w_config w \<and>
    dom (map_of (w_players w')) = dom (map_of (w_players w)) \<and>
    (v_State (w_stage w) \<noteq> Playing \<longrightarrow> w' = w) \<and>
    (v_State (w_stage w) = Playing \<longrightarrow> v_State (w_stage w') \<in> {Playing, StageClear, Failed})"
proof (cases "v_State (w_stage w) = Playing")
  case True
  let ?ids = "dom (map_of (w_players w))"
  let ?pids = "ordered_keys (w_players w)" and ?mids = "ordered_keys (w_monsters w)"
  have f0: "fighting ?ids w" using assms True by (simp add: fighting_def)
  define w1 where "w1 = fold step_player_shot ?pids w"
  have w1: "fighting ?ids w1" "w_monsters w1 = w_monsters w" "w_tick w1 = w_tick w" "w_config w1 = w_config w"
    using step_shots_fold[OF f0, of ?pids] by (auto simp: w1_def)
  obtain w2 a2 rs2 where w2: "fold (step_monster ?pids) ?mids (w1, [], []) = (w2, a2, rs2)" "fighting ?ids w2"
    "dom (map_of (w_monsters w2)) = dom (map_of (w_monsters w))" "\<forall>r \<in> set rs2. request_ok r"
    "w_tick w2 = w_tick w" "w_config w2 = w_config w"
    using step_monsters_fold[OF w1(1), of "[]" ?mids ?pids "[]"] w1 by auto
  have dp: "distinct (ordered_keys (w_projectiles w2))"
    using w2(2) world_okD(6)[of w2] by (simp add: fighting_def entries_ok_def)
  obtain w3 rs3 where w3: "fold (step_projectile ?mids) (ordered_keys (w_projectiles w2)) (w2, rs2) = (w3, rs3)"
    "fighting ?ids w3" "w_monsters w3 = w_monsters w2" "\<forall>r \<in> set rs3. request_ok r" "w_tick w3 = w_tick w" "w_config w3 = w_config w"
    using step_projectiles_fold[OF w2(2,4) dp, of ?mids] w2(5,6) by auto
  obtain w4 where w4: "apply_requests w3 rs3 = Inr w4" "fighting ?ids w4" "w_tick w4 = w_tick w" "w_config w4 = w_config w"
    using apply_requests_ok[OF w3(2,4)] w3(5,6) by auto
  let ?w5 = "remove_dead ?mids w4"
  have w5: "fighting ?ids ?w5" "w_tick ?w5 = w_tick w" "w_config ?w5 = w_config w" using remove_dead_ok[OF w4(2)] w4 by auto
  have "stepCombat w = Inr (settle_stage ?w5)"
    using True w2(1) w3(1) w4(1) by (simp add: stepCombat_def Let_def w1_def)
  moreover have "dom (map_of (w_players ?w5)) = ?ids" using w5(1) by (simp add: fighting_def)
  ultimately show ?thesis using settle_stage_ok[OF w5(1)] w5(2,3) True by (simp add: settle_stage_players)
next
  case False
  then show ?thesis using assms by (simp add: stepCombat_def)
qed

end
