(* ===== verification/Simulation.thy ===== *)
theory Simulation
  imports CombatStep
begin

text \<open>
  The whole tick and the life of a world: \<open>StartStage\<close> and \<open>Step\<close> keep the invariant, \<open>Step\<close> never
  panics, and every world reachable through the exported operations is well formed.
\<close>

section \<open>Pickups\<close>

lemma apply_to_no_panic: "catalog_ok catalog \<Longrightarrow> apply_to catalog p i \<noteq> Inl PanicNilTarget"
  by (simp add: apply_to_def Apply_no_panic)

lemma take_pickup_ok:
  assumes "player_ok c i p" and "catalog_ok catalog" and "pickup_ok j pk" and "p_Alive (ps_player p)"
  shows "take_pickup catalog p pk = Inr None \<or>
    (\<exists>q. take_pickup catalog p pk = Inr (Some q) \<and> player_ok c i q \<and> p_Alive (ps_player q))"
proof (cases "pk_Kind pk")
  case HealthPickup
  then have v: "pk_Value pk = Fin 30" using assms(3) by (simp add: pickup_ok_def stagePickupHeal_def)
  obtain x m where x: "p_Health (ps_player p) = Fin x" "cs_MaxHealth (p_CurrentStats (ps_player p)) = Fin m"
    "0 \<le> x" "x \<le> m"
    using assms(1) by (auto simp: player_ok_def health_ok_def)
  have m: "is_f64 (Fin m)" using assms(1) x(2) by (auto simp: player_ok_def stats_ok_def)
  let ?q = "p\<lparr>ps_player := (ps_player p)\<lparr>p_Health := math_Min (Fin m) (Fin x + Fin 30)\<rparr>\<rparr>"
  have n: "0 \<le> rnd (x + 30)" using x(3) ieee.nonneg by simp
  then have "fl (x + 30) = Inf False \<or> fl (x + 30) = Fin (rnd (x + 30))" by (auto simp: fl_def Let_def)
  moreover have "is_f64 (math_Min (Fin m) (Fin x + Fin 30))" using m by (intro is_f64_Min) simp_all
  ultimately have "health_ok (math_Min (Fin m) (Fin x + Fin 30)) (Fin m)"
    using n x(3,4) unfolding health_ok_def by (auto simp: math_Min_def min_def split: if_splits)
  then have "player_ok c i ?q \<and> p_Alive (ps_player ?q)" using assms(1,4) x(2) by (simp add: player_ok_def magazine_ok_def)
  moreover have "take_pickup catalog p pk \<in> {Inr None, Inr (Some ?q)}"
    using HealthPickup v x(1,2) unfolding take_pickup_def Let_def by simp
  ultimately show ?thesis by blast
next
  case WeaponPickup
  show ?thesis
  proof (cases "apply_to catalog p (pk_EquipmentID pk)")
    case (Inl e)
    then have "e \<noteq> PanicNilTarget" using apply_to_no_panic[OF assms(2)] by metis
    then show ?thesis using Inl WeaponPickup by (simp add: take_pickup_def Let_def)
  next
    case (Inr res)
    have "p_Alive (ps_player (equip_player catalog res p)) = p_Alive (ps_player p)"
      by (simp add: equip_player_def syncMagazine_def syncEquipment_def Let_def split: prod.splits)
    then have "player_ok c i (equip_player catalog res p) \<and> p_Alive (ps_player (equip_player catalog res p))"
      using equip_player_ok[OF assms(1,2) Inr] assms(4) by simp
    then show ?thesis using Inr WeaponPickup by (simp add: take_pickup_def Let_def)
  qed
qed (simp add: take_pickup_def Let_def)

lemma fighting_pickups: "fighting ids w \<Longrightarrow> entries_ok pickup_ok ps \<Longrightarrow> fighting ids (w\<lparr>w_pickups := ps\<rparr>)"
  by (simp add: fighting_def world_ok_pickups)

lemma fighting_catalog: "fighting ids w \<Longrightarrow> catalog_ok (w_rewardCatalog w)"
  by (simp add: fighting_def world_okD(2))

lemma collect_one_ok:
  assumes "fighting ids w" and "map_of (w_players w) i = Some p" and "p_Alive (ps_player p)"
    and "map_of (w_pickups w) j = Some pk"
  shows "\<exists>v. collect_one i j w = Inr v \<and> fighting ids v \<and> (\<exists>q. map_of (w_players v) i = Some q \<and> p_Alive (ps_player q)) \<and>
    (\<forall>k. k \<noteq> j \<longrightarrow> map_of (w_pickups v) k = map_of (w_pickups w) k) \<and> w_tick v = w_tick w \<and> w_config v = w_config w"
proof -
  have ent: "entries_ok pickup_ok (w_pickups w)" using assms(1) world_okD(7) by (simp add: fighting_def)
  have pl: "player_ok (w_config w) i p" using assms(1,2) world_okD(3) entries_okD by (metis fighting_def)
  consider "take_pickup (w_rewardCatalog w) p pk = Inr None"
    | q where "take_pickup (w_rewardCatalog w) p pk = Inr (Some q)" "player_ok (w_config w) i q" "p_Alive (ps_player q)"
    using take_pickup_ok[OF pl fighting_catalog[OF assms(1)] entries_okD[OF ent assms(4)] assms(3)] by blast
  then show ?thesis
  proof cases
    case 1
    then show ?thesis using assms by (simp add: collect_one_def)
  next
    case (2 q)
    let ?v = "w\<lparr>w_players := AList.update i q (w_players w), w_pickups := AList.delete j (w_pickups w)\<rparr>"
    have "fighting ids ((w\<lparr>w_players := AList.update i q (w_players w)\<rparr>)\<lparr>w_pickups := AList.delete j (w_pickups w)\<rparr>)"
      by (intro fighting_pickups fighting_update_player[OF assms(1,2) 2(2)] entries_ok_delete ent)
    moreover have "collect_one i j w = Inr ?v" using 2(1) assms(2,4) by (simp add: collect_one_def)
    ultimately show ?thesis using 2(3) by (intro exI[of _ ?v]) (simp add: update_conv' map_of_delete_eq)
  qed
qed

lemma collect_each_ok:
  assumes "fighting ids w" and "map_of (w_players w) i = Some p" and "p_Alive (ps_player p)"
    and "distinct js" and "set js \<subseteq> dom (map_of (w_pickups w))"
  shows "\<exists>v. collect_each i js w = Inr v \<and> fighting ids v \<and> w_tick v = w_tick w \<and> w_config v = w_config w"
  using assms
proof (induction js arbitrary: w p)
  case (Cons j js)
  obtain pk where pk: "map_of (w_pickups w) j = Some pk" using Cons.prems(5) by auto
  obtain v q where v: "collect_one i j w = Inr v" "fighting ids v" "map_of (w_players v) i = Some q" "p_Alive (ps_player q)"
    "\<forall>k. k \<noteq> j \<longrightarrow> map_of (w_pickups v) k = map_of (w_pickups w) k" "w_tick v = w_tick w" "w_config v = w_config w"
    using collect_one_ok[OF Cons.prems(1-3) pk] by blast
  have "set js \<subseteq> dom (map_of (w_pickups v))"
  proof
    fix k assume k: "k \<in> set js"
    then have "k \<noteq> j" using Cons.prems(4) by auto
    then show "k \<in> dom (map_of (w_pickups v))" using v(5) k Cons.prems(5) by (auto simp: domIff)
  qed
  then show ?case using Cons.IH[OF v(2,3,4)] Cons.prems(4) v(1,6,7) by simp
qed simp

lemma collect_players_ok:
  "fighting ids w \<Longrightarrow> set js \<subseteq> ids \<Longrightarrow>
     \<exists>v. collect_players js w = Inr v \<and> fighting ids v \<and> w_tick v = w_tick w \<and> w_config v = w_config w"
proof (induction js arbitrary: w)
  case (Cons i js)
  obtain p where p: "map_of (w_players w) i = Some p" using fighting_lookup Cons.prems by (metis list.set_intros(1) subsetD)
  have d: "distinct (ordered_keys (w_pickups w))" using Cons.prems(1) world_okD(7) by (simp add: fighting_def entries_ok_def)
  have "\<exists>v. collect_player i w = Inr v \<and> fighting ids v \<and> w_tick v = w_tick w \<and> w_config v = w_config w"
    using collect_each_ok[OF Cons.prems(1) p _ d] Cons.prems(1) p by (simp add: collect_player_def)
  then show ?case using Cons.IH Cons.prems(2) by fastforce
qed simp

lemma collectPickups_ok:
  assumes "world_ok w"
  shows "\<exists>v. collectPickups w = Inr v \<and> world_ok v \<and> w_tick v = w_tick w \<and> w_config v = w_config w \<and>
    v_State (w_stage v) = v_State (w_stage w) \<and> dom (map_of (w_players v)) = dom (map_of (w_players w)) \<and>
    (v_State (w_stage w) \<noteq> Playing \<longrightarrow> v = w)"
proof (cases "v_State (w_stage w) \<noteq> Playing \<or> w_pickups w = []")
  case True
  then show ?thesis using assms by (auto simp: collectPickups_def)
next
  case False
  let ?ids = "dom (map_of (w_players w))"
  have "fighting ?ids w" using assms False by (simp add: fighting_def)
  then obtain v where "collect_players (ordered_keys (w_players w)) w = Inr v" "fighting ?ids v" "w_tick v = w_tick w" "w_config v = w_config w"
    using collect_players_ok[of ?ids w "ordered_keys (w_players w)"] by auto
  then show ?thesis using False by (simp add: collectPickups_def fighting_def)
qed

section \<open>The tick\<close>

lemma move_players_ok:
  assumes "world_ok w"
  shows "world_ok (w\<lparr>w_players := map_values (step_player (w_config w) (w_covers w) (v_State (w_stage w))
    (w_rewardCatalog w) now) (w_players w)\<rparr>)"
proof -
  note ok = world_okD[OF assms]
  let ?f = "step_player (w_config w) (w_covers w) (v_State (w_stage w)) (w_rewardCatalog w) now"
  have st: "player_ok (w_config w) i (?f p) \<and> (v_State (w_stage w) \<noteq> Playing \<longrightarrow>
      (\<forall>ids. applicable (w_rewardCatalog w) p ids \<longrightarrow> applicable (w_rewardCatalog w) (?f p) ids))"
    if "player_ok (w_config w) i p" for i p
    using step_player_ok[OF ok(1,2) that] .
  have ent: "entries_ok (player_ok (w_config w)) (map_values ?f (w_players w))"
    using ok(3) by (rule entries_ok_map_values) (use st in blast)
  have "\<exists>p. map_of (map_values ?f (w_players w)) i = Some p \<and>
      (o_SelectedID offer = 0 \<longrightarrow> applicable (w_rewardCatalog w) p (o_EquipmentIDs offer))"
    if r: "w_rewardRound w = Some r" "map_of (r_offers r) i = Some offer" for r i offer
  proof -
    have ns: "v_State (w_stage w) \<noteq> Playing" using playing_no_round[OF assms] r(1) by auto
    obtain p where p: "map_of (w_players w) i = Some p"
      "o_SelectedID offer = 0 \<longrightarrow> applicable (w_rewardCatalog w) p (o_EquipmentIDs offer)"
      using ok(11) r unfolding round_inv_def by blast
    then show ?thesis using st[OF entries_okD[OF ok(3) p(1)]] ns by (simp add: map_of_map_values)
  qed
  then have "round_inv (w\<lparr>w_players := map_values ?f (w_players w)\<rparr>)" using ok(11) unfolding round_inv_def by auto
  moreover have "length (map_values ?f (w_players w)) = length (w_players w)" by (simp add: map_values_def)
  ultimately show ?thesis using ok ent by (intro world_okI) simp_all
qed

text \<open>What a tick does to the state of the stage.\<close>

definition tick_transition :: "StageState \<Rightarrow> StageState \<Rightarrow> bool" where
  "tick_transition s s' \<longleftrightarrow> s' = s \<or> (s = Playing \<and> s' \<in> {StageClear, Failed}) \<or> (s = Reward \<and> s' = PreparingNextStage)"

lemma applyRewardSelection_players:
  "applyRewardSelection w s t = Inr w' \<Longrightarrow> dom (map_of (w_players w')) = dom (map_of (w_players w))"
  by (auto simp: applyRewardSelection_def Let_def set_stage_state_def emitRewardUpdate_def update_conv' split: option.splits sum.splits if_splits)

lemma stepReward_players:
  assumes "stepReward w = Inr w'"
  shows "dom (map_of (w_players w')) = dom (map_of (w_players w))"
proof -
  have "apply_defaults v ss = Inr v' \<Longrightarrow> dom (map_of (w_players v')) = dom (map_of (w_players v))" for v v' ss
  proof (induction v ss rule: apply_defaults.induct)
    case (2 w s ss)
    show ?case
    proof (cases "applyRewardSelection w s (w_tick w)")
      case (Inr u)
      show ?thesis using 2 applyRewardSelection_players[OF Inr] Inr by simp
    qed (use 2 in simp)
  qed simp
  then show ?thesis using assms by (auto simp: stepReward_def split: if_splits)
qed

lemma Step_ok:
  assumes "world_ok w"
  shows "\<exists>w'. Step w now = Inr w' \<and> world_ok w' \<and> w_tick w' = w_tick w + 1 \<and> w_config w' = w_config w \<and>
    dom (map_of (w_players w')) = dom (map_of (w_players w)) \<and>
    tick_transition (v_State (w_stage w)) (v_State (w_stage w'))"
proof -
  define w1 where "w1 = w\<lparr>w_players := map_values (step_player (w_config w) (w_covers w) (v_State (w_stage w))
    (w_rewardCatalog w) now) (w_players w)\<rparr>"
  have w1: "world_ok w1" "w_tick w1 = w_tick w" "w_config w1 = w_config w" "v_State (w_stage w1) = v_State (w_stage w)"
    using move_players_ok[OF assms] by (simp_all add: w1_def)
  have d1: "dom (map_of (w_players w1)) = dom (map_of (w_players w))" by (simp add: w1_def flip: set_keys)
  obtain u where u: "collectPickups w1 = Inr u" "world_ok u" "w_tick u = w_tick w1" "w_config u = w_config w1"
    "v_State (w_stage u) = v_State (w_stage w1)" "dom (map_of (w_players u)) = dom (map_of (w_players w1))"
    using collectPickups_ok[OF w1(1)] by blast
  define w2 where "w2 = u\<lparr>w_tick := w_tick u + 1\<rparr>"
  have w2: "world_ok w2" "w_tick w2 = w_tick w + 1" "w_config w2 = w_config w" "v_State (w_stage w2) = v_State (w_stage w)"
    using u w1 by (simp_all add: w2_def)
  have d2: "dom (map_of (w_players w2)) = dom (map_of (w_players w))" using u(6) d1 by (simp add: w2_def)
  obtain w3 where w3: "stepCombat w2 = Inr w3" "world_ok w3" "w_tick w3 = w_tick w2" "w_config w3 = w_config w2"
    "v_State (w_stage w2) \<noteq> Playing \<longrightarrow> w3 = w2"
    "v_State (w_stage w2) = Playing \<longrightarrow> v_State (w_stage w3) \<in> {Playing, StageClear, Failed}"
    "dom (map_of (w_players w3)) = dom (map_of (w_players w))"
    using stepCombat_ok[OF w2(1)] d2 by blast
  obtain w4 where w4: "stepReward w3 = Inr w4" "world_ok w4" "w_tick w4 = w_tick w3" "w_config w4 = w_config w3"
    "v_State (w_stage w3) \<noteq> Reward \<longrightarrow> w4 = w3"
    "v_State (w_stage w3) = Reward \<longrightarrow> v_State (w_stage w4) \<in> {Reward, PreparingNextStage}"
    using stepReward_ok[OF w3(2)] by blast
  have "Step w now = Inr w4" using u(1) w3(1) w4(1) unfolding Step_def Let_def w1_def[symmetric] w2_def by simp
  moreover have "tick_transition (v_State (w_stage w)) (v_State (w_stage w4))"
    using w2(4) w3(5,6) w4(5,6) unfolding tick_transition_def by (cases "v_State (w_stage w)") auto
  ultimately show ?thesis using w2 w3 w4 stepReward_players[OF w4(1)] by auto
qed

section \<open>Starting a stage\<close>

definition plan_f64 :: "Plan \<Rightarrow> bool" where
  "plan_f64 p \<longleftrightarrow> (\<forall>s \<in> set (pl_Monsters p). is_f64 (cs_Attack (sp_Stats s)) \<and> is_f64 (cs_Defense (sp_Stats s)) \<and>
     is_f64 (cs_MaxHealth (sp_Stats s)) \<and> is_f64 (cs_MoveSpeed (sp_Stats s)))"

lemma valid_spawn_in_map:
  assumes "config_ok c" and "\<not> spawn_invalid (g_Min c) (g_Max c) s"
  shows "in_map c (sp_Position s)"
proof -
  have "Vec2_Finite (sp_Position s)" "\<not> out_of_map c (sp_Position s)"
    using assms(2) by (auto simp: spawn_invalid_def out_of_map_def)
  then show ?thesis using in_map_out_of_map[OF assms(1)] by (auto simp: Vec2_Finite_iff)
qed

lemma spawn_monster_ok:
  assumes "world_ok w" and "\<not> spawn_invalid (g_Min (w_config w)) (g_Max (w_config w)) s"
    and "is_f64 (cs_Attack (sp_Stats s)) \<and> is_f64 (cs_Defense (sp_Stats s)) \<and> is_f64 (cs_MaxHealth (sp_Stats s)) \<and>
      is_f64 (cs_MoveSpeed (sp_Stats s))"
  shows "world_ok (spawn_monster s w) \<and> w_config (spawn_monster s w) = w_config w \<and>
    v_State (w_stage (spawn_monster s w)) = v_State (w_stage w)"
proof -
  let ?i = "FirstWorldEntityID OR (w_nextEntity w + 1)"
  note ok = world_okD[OF assms(1)]
  have st: "stats_ok (sp_Stats s)" using assms(2,3) by (auto simp: stats_ok_def spawn_invalid_def)
  obtain r where r: "sp_Radius s = Fin r" "0 < r" "r \<le> 10"
    using assms(2) by (cases "sp_Radius s") (auto simp: spawn_invalid_def)
  obtain a where a: "sp_AttackRange s = Fin a" "0 \<le> a" "a \<le> 100"
    using assms(2) by (cases "sp_AttackRange s") (auto simp: spawn_invalid_def)
  have pos: "in_map (w_config w) (clearSpawnFromCover (w_config w) (w_covers w) (sp_Position s) (sp_Radius s))"
    by (rule clearSpawn_in_map[OF ok(1) valid_spawn_in_map[OF ok(1) assms(2)]])
  define ms where "ms = \<lparr>ms_monster = \<lparr>m_ID = ?i,
              m_Position = clearSpawnFromCover (w_config w) (w_covers w) (sp_Position s) (sp_Radius s),
              m_Velocity = zero_vec, m_BaseStats = sp_Stats s, m_CurrentStats = sp_Stats s,
              m_Health = cs_MaxHealth (sp_Stats s), m_Radius = sp_Radius s,
              m_AttackRange = sp_AttackRange s, m_State = MonsterIdle\<rparr>,
            ms_previous = zero_vec, ms_target = 0, ms_nextAttack = 0\<rparr>"
  have "monster_ok (w_config w) ?i ms"
    using st r a pos health_ok_full[OF st] allocated_ge by (simp add: ms_def monster_ok_def)
  then have "entries_ok (monster_ok (w_config w)) (AList.update ?i ms (w_monsters w))"
    by (intro entries_ok_update ok(5))
  then have "world_ok ((w\<lparr>w_nextEntity := w_nextEntity w + 1\<rparr>)\<lparr>w_monsters := AList.update ?i ms (w_monsters w)\<rparr>)"
    using assms(1) by (intro world_ok_monsters) simp_all
  then show ?thesis by (simp add: spawn_monster_def allocateID_def ms_def)
qed

lemma spawn_all_ok:
  assumes "world_ok w" and "\<forall>s \<in> set ss. \<not> spawn_invalid (g_Min (w_config w)) (g_Max (w_config w)) s"
    and "\<forall>s \<in> set ss. is_f64 (cs_Attack (sp_Stats s)) \<and> is_f64 (cs_Defense (sp_Stats s)) \<and>
      is_f64 (cs_MaxHealth (sp_Stats s)) \<and> is_f64 (cs_MoveSpeed (sp_Stats s))"
  shows "world_ok (fold spawn_monster ss w)"
  using assms by (induction ss arbitrary: w) (auto simp: spawn_monster_ok)

lemma place_pickup_ok:
  assumes "world_ok w" and "kind = HealthPickup \<longrightarrow> v = stagePickupHeal"
  shows "world_ok (place_pickup kind p e v w) \<and> w_config (place_pickup kind p e v w) = w_config w \<and>
    w_stage (place_pickup kind p e v w) = w_stage w"
proof -
  let ?i = "FirstWorldEntityID OR (w_nextEntity w + 1)"
  have "entries_ok pickup_ok (AList.update ?i \<lparr>pk_ID = ?i, pk_Kind = kind, pk_Position = p, pk_EquipmentID = e,
      pk_Value = v\<rparr> (w_pickups w))"
    using assms world_okD(7) by (intro entries_ok_update) (simp_all add: pickup_ok_def allocated_ge)
  then have "world_ok ((w\<lparr>w_nextEntity := w_nextEntity w + 1\<rparr>)\<lparr>w_pickups := AList.update ?i \<lparr>pk_ID = ?i, pk_Kind = kind,
      pk_Position = p, pk_EquipmentID = e, pk_Value = v\<rparr> (w_pickups w)\<rparr>)"
    using assms(1) by (intro world_ok_pickups) simp_all
  then show ?thesis by (simp add: place_pickup_def allocateID_def)
qed

lemma spawnStagePickups_ok:
  assumes "world_ok w"
  shows "world_ok (spawnStagePickups w i) \<and> w_config (spawnStagePickups w i) = w_config w \<and>
    w_stage (spawnStagePickups w i) = w_stage w"
proof -
  have "world_ok (w\<lparr>w_pickups := []\<rparr>)" using assms by (intro world_ok_pickups) simp_all
  then show ?thesis using place_pickup_ok by (simp add: spawnStagePickups_def Let_def)
qed

section \<open>Installing a plan\<close>

lemma half_health:
  assumes "stats_ok s"
  shows "health_ok (cs_MaxHealth s * Fin (1 / 2)) (cs_MaxHealth s)"
proof -
  obtain m where m: "cs_MaxHealth s = Fin m" "0 < m" "is_f64 (Fin m)" using stats_ok_Fin[OF assms] by blast
  have "is_f64 (Fin 0)" by simp
  then have "fl (m * (1 / 2)) = Fin (rnd (m * (1 / 2))) \<and> 0 \<le> rnd (m * (1 / 2)) \<and> rnd (m * (1 / 2)) \<le> m"
    using fl_finite_between[of 0 m "m * (1 / 2)"] m by simp
  then show ?thesis using is_f64_times[of "Fin m" "Fin (1 / 2)"] unfolding health_ok_def m(1) by auto
qed

lemma reset_for_next_ok:
  assumes "config_ok c" and "player_ok c i p"
  shows "player_ok c i (reset_for_next c p)"
  using assms half_health[of "p_CurrentStats (ps_player p)"] spawn_in_map[OF assms(1)]
  by (simp add: reset_for_next_def Let_def player_ok_def magazine_ok_def input_ok_def zero_vec_def Vec2_Finite_def)

lemma refill_ok: "player_ok c i p \<Longrightarrow> player_ok c i (refill p)"
  by (simp add: refill_def player_ok_def magazine_ok_def)

lemma world_ok_players:
  assumes "world_ok w" and "w_rewardRound w = None" and "entries_ok (player_ok (w_config w)) ps" and "length ps = length (w_players w)"
  shows "world_ok (w\<lparr>w_players := ps\<rparr>)"
proof -
  note ok = world_okD[OF assms(1)]
  have "round_inv (w\<lparr>w_players := ps\<rparr>)" using ok(11) assms(2) by (simp add: round_inv_def)
  then show ?thesis using ok assms(3,4) by (intro world_okI) simp_all
qed

lemma length_map_values [simp]: "length (map_values f m) = length m"
  by (simp add: map_values_def)

lemma enter_stage_ok:
  assumes "world_ok w" and "w_rewardRound w = None"
  shows "world_ok (enter_stage plan w) \<and> w_config (enter_stage plan w) = w_config w \<and>
    w_stage (enter_stage plan w) = stage_view (w_config w) plan"
proof -
  note ok = world_okD[OF assms(1)]
  have "entries_ok (player_ok (w_config w)) (map_values refill (w_players w))"
    using ok(3) by (rule entries_ok_map_values) (rule refill_ok)
  then have "world_ok (w\<lparr>w_players := map_values refill (w_players w)\<rparr>)" using assms by (intro world_ok_players) simp_all
  then show ?thesis
    using assms(2) unfolding world_ok_def enter_stage_def by (simp add: round_inv_def stage_view_def)
qed

lemma prepare_next_ok:
  assumes "world_ok w"
  shows "world_ok ((prepare_next w)\<lparr>w_stage := v\<rparr>) \<or> v_State v = Reward"
proof -
  note ok = world_okD[OF assms]
  have "entries_ok (player_ok (w_config w)) (map_values (reset_for_next (w_config w)) (w_players w))"
    using ok(3) by (rule entries_ok_map_values) (rule reset_for_next_ok[OF ok(1)])
  then show ?thesis using ok unfolding world_ok_def prepare_next_def by (auto simp: round_inv_def)
qed

lemma can_start_states:
  "can_start_initial w \<Longrightarrow> world_ok w \<Longrightarrow> w_rewardRound w = None"
  using world_okD(11)[of w] by (cases "w_rewardRound w") (auto simp: round_inv_def can_start_initial_def)

lemma enter_stage_view: "enter_stage plan (w\<lparr>w_stage := v\<rparr>) = enter_stage plan w"
  by (simp add: enter_stage_def equipmentPower_def)

lemma StartStage_ok:
  assumes "world_ok w" and "StartStage w plan = Inr w'" and "plan_f64 plan"
  shows "world_ok w' \<and> w_config w' = w_config w \<and> v_State (w_stage w') = Playing \<and> v_Index (w_stage w') = pl_Index plan"
proof -
  note ok = world_okD[OF assms(1)]
  define w1 where "w1 = w\<lparr>w_covers := buildCoverBlocks (w_config w) (pl_Index plan) (pl_Seed plan)\<rparr>"
  define w2 where "w2 = (if can_start_initial w then prepare_initial (if can_start_next w then prepare_next w1 else w1)
    else if can_start_next w then prepare_next w1 else w1)"
  define w3 where "w3 = spawnStagePickups (enter_stage plan w2) (pl_Index plan)"
  define w4 where "w4 = fold spawn_monster (pl_Monsters plan) w3"
  have v: "ValidateStage plan (w_config w) = Inr ()"
    using assms(2) by (cases "ValidateStage plan (w_config w)") (simp_all add: StartStage_def)
  have g: "can_start_initial w \<or> can_start_next w" and
    w': "w' = emit ((blank_event StageStarted)\<lparr>ev_StageIndex := pl_Index plan, ev_ServerTick := w_tick w4 + 1\<rparr>) w4"
    using assms(2) unfolding StartStage_def v sum.case Let_def w4_def w3_def w2_def w1_def
    by (auto split: if_splits)
  have ex: "\<not> (can_start_initial w \<and> can_start_next w)" by (auto simp: can_start_initial_def can_start_next_def)
  have w1: "world_ok w1" using ok buildCoverBlocks_ok[OF ok(1)] by (intro world_okI) (simp_all add: w1_def)
  have e: "world_ok (enter_stage plan w2)" "w_config (enter_stage plan w2) = w_config w"
    "w_stage (enter_stage plan w2) = stage_view (w_config w) plan"
  proof -
    have "world_ok (enter_stage plan w2) \<and> w_config (enter_stage plan w2) = w_config w \<and>
      w_stage (enter_stage plan w2) = stage_view (w_config w) plan"
    proof (cases "can_start_initial w")
      case True
      then have "w2 = prepare_initial w1" using ex by (simp add: w2_def)
      moreover have "world_ok (prepare_initial w1)" using w1 by (simp add: prepare_initial_def)
      moreover have "w_rewardRound (prepare_initial w1) = None" "w_config (prepare_initial w1) = w_config w"
        using can_start_states[OF True assms(1)] by (simp_all add: prepare_initial_def w1_def)
      ultimately show ?thesis using enter_stage_ok by metis
    next
      case False
      then have w2: "w2 = prepare_next w1" using g by (simp add: w2_def)
      let ?v = "(w_stage w1)\<lparr>v_State := Waiting\<rparr>"
      have "world_ok ((prepare_next w1)\<lparr>w_stage := ?v\<rparr>)" using prepare_next_ok[OF w1, of ?v] by simp
      moreover have "w_rewardRound ((prepare_next w1)\<lparr>w_stage := ?v\<rparr>) = None"
        "w_config ((prepare_next w1)\<lparr>w_stage := ?v\<rparr>) = w_config w"
        by (simp_all add: prepare_next_def w1_def)
      ultimately show ?thesis using enter_stage_ok[of "(prepare_next w1)\<lparr>w_stage := ?v\<rparr>" plan]
        unfolding enter_stage_view w2 by simp
    qed
    then show "world_ok (enter_stage plan w2)" "w_config (enter_stage plan w2) = w_config w"
      "w_stage (enter_stage plan w2) = stage_view (w_config w) plan" by simp_all
  qed
  have w3: "world_ok w3" "w_config w3 = w_config w" "w_stage w3 = stage_view (w_config w) plan"
    using spawnStagePickups_ok[OF e(1)] e(2,3) by (simp_all add: w3_def)
  have sp: "\<forall>s \<in> set (pl_Monsters plan). \<not> spawn_invalid (g_Min (w_config w3)) (g_Max (w_config w3)) s"
    using v by (simp add: ValidateStage_def Plan_Validate_ok w3(2))
  have "world_ok w4" unfolding w4_def by (rule spawn_all_ok[OF w3(1) sp]) (use assms(3) in \<open>simp add: plan_f64_def\<close>)
  moreover have "w_config w4 = w_config w \<and> w_stage w4 = stage_view (w_config w) plan"
  proof -
    have "w_config (fold spawn_monster ss v) = w_config v \<and> w_stage (fold spawn_monster ss v) = w_stage v" for ss v
      by (induction ss arbitrary: v) (simp_all add: spawn_monster_def allocateID_def)
    then show ?thesis by (simp add: w4_def w3(2,3))
  qed
  ultimately show ?thesis unfolding w' by (simp add: world_ok_emit stage_view_def)
qed

section \<open>Reachable worlds\<close>

text \<open>
  The operations a room calls on its world, with the values the callers pass: a tick runs only if it
  does not panic, which \<open>Step_ok\<close> shows of every reachable world.
\<close>

inductive world_step :: "World \<Rightarrow> World \<Rightarrow> bool" where
  join: "AddPlayer w i = Inr w' \<Longrightarrow> world_step w w'"
| leave: "world_step w (RemovePlayer w i)"
| input: "vec_ok (i_Direction input) \<Longrightarrow> ApplyInput w i input now = Inr w' \<Longrightarrow> world_step w w'"
| start: "plan_f64 plan \<Longrightarrow> StartStage w plan = Inr w' \<Longrightarrow> world_step w w'"
| reward: "catalog_ok catalog \<Longrightarrow> StartReward w catalog seed dur = Inr w' \<Longrightarrow> world_step w w'"
| choose: "ChooseReward w i e = Inr w' \<Longrightarrow> world_step w w'"
| tick: "Step w now = Inr w' \<Longrightarrow> world_step w w'"
| events: "world_step w (snd (TakeEvents w))"
| updates: "world_step w (snd (TakeRewardUpdates w))"
| clear: "world_step w (Clear w)"
| close: "world_step w (Close w)"

inductive_cases world_stepE: "world_step w w'"

inductive reachable :: "Config \<Rightarrow> World \<Rightarrow> bool" for c where
  new: "config_ok c \<Longrightarrow> \<forall>k \<in> set catalogs. catalog_ok k \<Longrightarrow> NewWorld c catalogs = Inr w \<Longrightarrow> reachable c w"
| step: "reachable c w \<Longrightarrow> world_step w w' \<Longrightarrow> reachable c w'"

lemma world_step_ok:
  assumes "world_step w w'" and "world_ok w"
  shows "world_ok w'"
  using assms(1)
proof cases
  case (join i)
  then show ?thesis by (rule AddPlayer_ok[OF assms(2)])
next
  case (leave i)
  then show ?thesis using RemovePlayer_ok[OF assms(2)] by (simp only:)
next
  case (input i now)
  then show ?thesis using ApplyInput_ok[OF assms(2)] by (simp only:)
next
  case (start plan)
  then show ?thesis using StartStage_ok[OF assms(2)] by blast
next
  case (reward catalog seed dur)
  then show ?thesis using StartReward_ok[OF assms(2)] by blast
next
  case (choose i e)
  then show ?thesis by (rule ChooseReward_ok[OF assms(2)])
next
  case (tick now)
  then show ?thesis using Step_ok[OF assms(2), of now] by (metis sum.inject(2))
next
  case events
  then show ?thesis using TakeEvents_ok[OF assms(2)] by (simp only:)
next
  case updates
  then show ?thesis using TakeRewardUpdates_ok[OF assms(2)] by (simp only:)
next
  case clear
  then show ?thesis using Clear_ok[OF assms(2)] by (simp only:)
next
  case close
  then show ?thesis using Close_ok[OF assms(2)] by (simp only:)
qed

lemma reachable_ok: "reachable c w \<Longrightarrow> world_ok w"
  by (induction rule: reachable.induct) (auto intro: NewWorld_ok world_step_ok)

section \<open>Properties of reachable worlds\<close>

lemma RemovePlayer_config: "w_config (RemovePlayer w i) = w_config w"
  by (cases "w_rewardRound w") (simp_all add: RemovePlayer_None RemovePlayer_Some Let_def)

lemma StartReward_config: "StartReward w k seed dur = Inr w' \<Longrightarrow> w_config w' = w_config w"
proof -
  have fr: "w_config (fold (\<lambda>offer w. emitRewardUpdate (f w offer) w) offers v) = w_config v" for f offers v
    by (induction offers arbitrary: v) simp_all
  assume "StartReward w k seed dur = Inr w'"
  then show ?thesis unfolding StartReward_def Let_def by (auto simp: fr split: if_splits list.splits sum.splits)
qed

lemma world_step_config:
  assumes "world_step w w'" and "world_ok w"
  shows "w_config w' = w_config w"
  using assms(1)
proof cases
  case (join i)
  then show ?thesis by (auto simp: AddPlayer_def split: if_splits)
next
  case (leave i)
  then show ?thesis by (simp add: RemovePlayer_config)
next
  case (input i now)
  then show ?thesis by (auto simp: ApplyInput_split)
next
  case (start plan)
  then show ?thesis using StartStage_ok[OF assms(2)] by blast
next
  case (reward catalog seed dur)
  then show ?thesis using StartReward_config by blast
next
  case (choose i e)
  then show ?thesis using applyRewardSelection_ok[OF assms(2)] unfolding ChooseReward_split by blast
next
  case (tick now)
  then show ?thesis using Step_ok[OF assms(2), of now] by (metis sum.inject(2))
qed (simp_all add: TakeEvents_def TakeRewardUpdates_def Clear_def Close_def)

lemma reachable_config: "reachable c w \<Longrightarrow> w_config w = c \<and> world_ok w"
proof (induction rule: reachable.induct)
  case (new catalogs w)
  then have "world_ok w" using NewWorld_ok by blast
  then show ?case using new by (auto simp: NewWorld_def split: if_splits)
next
  case (step w w')
  then show ?case using world_step_config world_step_ok by metis
qed

lemma reachable_Default: "\<exists>w. NewWorld DefaultConfig [] = Inr w \<and> reachable DefaultConfig w"
  using reachable.new[OF config_ok_Default, of "[]"] config_ok_Default by (simp add: NewWorld_def config_ok_def)

lemma health_ok_bounds: "health_ok h mx \<Longrightarrow> Fin 0 \<le> h \<and> h \<le> mx"
  by (auto simp: health_ok_def)

lemma player_ok_bounds:
  assumes "player_ok c i ps"
  shows "p_ID (ps_player ps) = i \<and> 0 < i \<and> i < FirstWorldEntityID \<and>
       in_bounds (g_Min c) (g_Max c) (p_Position (ps_player ps)) \<and>
       CombatStats_Valid (p_CurrentStats (ps_player ps)) \<and>
       Fin 0 \<le> p_Health (ps_player ps) \<and> p_Health (ps_player ps) \<le> cs_MaxHealth (p_CurrentStats (ps_player ps)) \<and>
       (Fin 0 < p_Health (ps_player ps) \<longrightarrow> p_Alive (ps_player ps)) \<and>
       p_Ammo (ps_player ps) \<le> p_MagazineCapacity (ps_player ps) \<and> uint (p_MagazineCapacity (ps_player ps)) \<le> 120"
proof -
  have "health_ok (p_Health (ps_player ps)) (cs_MaxHealth (p_CurrentStats (ps_player ps)))"
    using assms by (simp add: player_ok_def)
  from health_ok_bounds[OF this] show ?thesis
    using assms by (simp add: player_ok_def magazine_ok_def stats_ok_def word_neq_0_conv)
qed

lemma monster_ok_bounds:
  assumes "monster_ok c i ms"
  shows "m_ID (ms_monster ms) = i \<and> FirstWorldEntityID \<le> i \<and>
       in_bounds (g_Min c) (g_Max c) (m_Position (ms_monster ms)) \<and>
       Fin 0 \<le> m_Health (ms_monster ms) \<and> m_Health (ms_monster ms) \<le> cs_MaxHealth (m_CurrentStats (ms_monster ms))"
proof -
  have "health_ok (m_Health (ms_monster ms)) (cs_MaxHealth (m_CurrentStats (ms_monster ms)))"
    using assms by (simp add: monster_ok_def)
  from health_ok_bounds[OF this] show ?thesis using assms by (simp add: monster_ok_def)
qed

text \<open>C1: A tick of a reachable world never panics; it advances the tick counter by one, changes the
  state of the stage only along the edges of the stage machine, and the result is reachable again.  Nor does
  any call that applies an item of the world's catalog to a player reach the panic of a statistic without a target.\<close>

theorem Step_total:
  assumes "reachable c w"
  shows "\<exists>w'. Step w now = Inr w' \<and> reachable c w' \<and> w_tick w' = w_tick w + 1 \<and>
    tick_transition (v_State (w_stage w)) (v_State (w_stage w')) \<and>
    (\<forall>p i. apply_to (w_rewardCatalog w) p i \<noteq> Inl PanicNilTarget)"
  using Step_ok[of w now] reachable_config[OF assms] reachable.step[OF assms world_step.tick]
    apply_to_no_panic[OF world_okD(2)[OF reachable_ok[OF assms]]] by blast

theorem Step_total_witness:
  "\<exists>w w'. NewWorld DefaultConfig [] = Inr w \<and> Step w 0 = Inr w' \<and> w_tick w' = w_tick w + 1"
  using Step_total[of DefaultConfig _ 0] reachable_Default by blast

text \<open>C2: In every reachable world each player and monster is on the map with its health between 0
  and the maximum of its statistics, magazines hold at most their capacity of at most 120 rounds, a
  player with health is alive, player IDs and world IDs are disjoint, and the bounded queues and the
  capacity are respected.\<close>

theorem reachable_invariant:
  assumes "reachable c w"
  shows "(\<forall>i ps. map_of (w_players w) i = Some ps \<longrightarrow>
       p_ID (ps_player ps) = i \<and> 0 < i \<and> i < FirstWorldEntityID \<and>
       in_bounds (g_Min c) (g_Max c) (p_Position (ps_player ps)) \<and>
       CombatStats_Valid (p_CurrentStats (ps_player ps)) \<and>
       Fin 0 \<le> p_Health (ps_player ps) \<and> p_Health (ps_player ps) \<le> cs_MaxHealth (p_CurrentStats (ps_player ps)) \<and>
       (Fin 0 < p_Health (ps_player ps) \<longrightarrow> p_Alive (ps_player ps)) \<and>
       p_Ammo (ps_player ps) \<le> p_MagazineCapacity (ps_player ps) \<and> uint (p_MagazineCapacity (ps_player ps)) \<le> 120) \<and>
     (\<forall>i ms. map_of (w_monsters w) i = Some ms \<longrightarrow> m_ID (ms_monster ms) = i \<and> FirstWorldEntityID \<le> i \<and>
       in_bounds (g_Min c) (g_Max c) (m_Position (ms_monster ms)) \<and>
       Fin 0 \<le> m_Health (ms_monster ms) \<and> m_Health (ms_monster ms) \<le> cs_MaxHealth (m_CurrentStats (ms_monster ms))) \<and>
     (\<forall>i p. map_of (w_projectiles w) i = Some p \<longrightarrow> pr_ID p = i \<and> FirstWorldEntityID \<le> i) \<and>
     PlayerCount w \<le> g_Capacity c \<and> length (w_events w) \<le> maxPendingEvents \<and>
     length (w_rewardUpdates w) \<le> maxPendingEvents"
proof -
  have c: "w_config w = c" and ok: "world_ok w" using reachable_config[OF assms] by auto
  have pl: "player_ok c i ps" if "map_of (w_players w) i = Some ps" for i ps
    using entries_okD[OF world_okD(3)[OF ok] that] c by simp
  have p: "p_ID (ps_player ps) = i \<and> 0 < i \<and> i < FirstWorldEntityID \<and>
       in_bounds (g_Min c) (g_Max c) (p_Position (ps_player ps)) \<and>
       CombatStats_Valid (p_CurrentStats (ps_player ps)) \<and>
       Fin 0 \<le> p_Health (ps_player ps) \<and> p_Health (ps_player ps) \<le> cs_MaxHealth (p_CurrentStats (ps_player ps)) \<and>
       (Fin 0 < p_Health (ps_player ps) \<longrightarrow> p_Alive (ps_player ps)) \<and>
       p_Ammo (ps_player ps) \<le> p_MagazineCapacity (ps_player ps) \<and> uint (p_MagazineCapacity (ps_player ps)) \<le> 120"
    if "map_of (w_players w) i = Some ps" for i ps
    using player_ok_bounds[OF pl[OF that]] .
  have mo: "monster_ok c i ms" if "map_of (w_monsters w) i = Some ms" for i ms
    using entries_okD[OF world_okD(5)[OF ok] that] c by simp
  have m: "m_ID (ms_monster ms) = i \<and> FirstWorldEntityID \<le> i \<and>
       in_bounds (g_Min c) (g_Max c) (m_Position (ms_monster ms)) \<and>
       Fin 0 \<le> m_Health (ms_monster ms) \<and> m_Health (ms_monster ms) \<le> cs_MaxHealth (m_CurrentStats (ms_monster ms))"
    if "map_of (w_monsters w) i = Some ms" for i ms
    using monster_ok_bounds[OF mo[OF that]] .
  have "pr_ID q = i \<and> FirstWorldEntityID \<le> i" if "map_of (w_projectiles w) i = Some q" for i q
    using entries_okD[OF world_okD(6)[OF ok] that] by (simp add: projectile_ok_def)
  then show ?thesis using p m world_okD(4,9,10)[OF ok] c by (simp add: PlayerCount_def)
qed

theorem reachable_invariant_witness:
  "\<exists>w p. AddPlayer w 7 = Inr p \<and> PlayerCount p \<le> 2 \<and> (\<exists>ps. map_of (w_players p) 7 = Some ps \<and>
     Fin 0 \<le> p_Health (ps_player ps) \<and> uint (p_MagazineCapacity (ps_player ps)) \<le> 120)"
proof -
  obtain w where w: "NewWorld DefaultConfig [] = Inr w" "reachable DefaultConfig w" using reachable_Default by blast
  have add: "AddPlayer w 7 = Inr (w\<lparr>w_departedPlayers := [], w_players := [(7, new_player DefaultConfig 7)]\<rparr>)"
    using w(1) config_ok_Default
    by (auto simp: NewWorld_def AddPlayer_def PlayerCount_def FirstWorldEntityID_def zero_view_def config_ok_def DefaultConfig_def)
  let ?v = "w\<lparr>w_departedPlayers := [], w_players := [(7, new_player DefaultConfig 7)]\<rparr>"
  have "reachable DefaultConfig ?v" using reachable.step[OF w(2) world_step.join[OF add]] .
  note inv = reachable_invariant[OF this]
  have lk: "map_of (w_players ?v) 7 = Some (new_player DefaultConfig 7)" by simp
  have "PlayerCount ?v \<le> 2" using inv by (simp add: DefaultConfig_def)
  moreover have "Fin 0 \<le> p_Health (ps_player (new_player DefaultConfig 7)) \<and>
      uint (p_MagazineCapacity (ps_player (new_player DefaultConfig 7))) \<le> 120"
    using inv lk by blast
  ultimately show ?thesis using add lk by blast
qed

definition moved :: "World \<Rightarrow> time \<Rightarrow> World" where
  "moved w now = w\<lparr>w_players := map_values (step_player (w_config w) (w_covers w) (v_State (w_stage w))
     (w_rewardCatalog w) now) (w_players w), w_tick := w_tick w + 1\<rparr>"

lemma Step_outside_combat:
  assumes "world_ok w" and "v_State (w_stage w) \<noteq> Playing"
  shows "world_ok (moved w now)" and "Step w now = stepReward (moved w now)"
proof -
  let ?w1 = "w\<lparr>w_players := map_values (step_player (w_config w) (w_covers w) (v_State (w_stage w))
    (w_rewardCatalog w) now) (w_players w)\<rparr>"
  have w1: "world_ok ?w1" by (rule move_players_ok[OF assms(1)])
  have m: "?w1\<lparr>w_tick := w_tick ?w1 + 1\<rparr> = moved w now" by (simp add: moved_def)
  show "world_ok (moved w now)" using w1 unfolding m[symmetric] by simp
  have "collectPickups ?w1 = Inr ?w1" using collectPickups_ok[OF w1] assms(2) by auto
  moreover have "stepCombat (moved w now) = Inr (moved w now)" using assms(2) by (simp add: stepCombat_def moved_def)
  ultimately show "Step w now = stepReward (moved w now)" using m unfolding Step_def Let_def by simp
qed

lemma equip_player_holds:
  assumes "catalog_ok c" and "apply_to c p e = Inr res"
  shows "e \<in> {WeaponID (ps_loadout (equip_player c res p)), RelicID (ps_loadout (equip_player c res p)),
    PotionID (ps_loadout (equip_player c res p))}"
proof -
  obtain l st h where res: "res = (l, st, h)" by (cases res)
  obtain d where d: "Require c e = Inr d" "Equip (ps_loadout p) d = Inr l"
    using assms(2) unfolding res apply_to_def Apply_split by blast
  have "e_ID d = e" using Require_ok[OF assms(1) d(1)] by simp
  then have "e \<in> {WeaponID l, RelicID l, PotionID l}" using d(2) by (auto simp: Equip_def split: sum.splits Slot.splits)
  moreover have "ps_loadout (equip_player c res p) = l"
    by (simp add: res equip_player_def syncMagazine_def syncEquipment_def Let_def)
  ultimately show ?thesis by simp
qed

text \<open>The defaults that are applied equip exactly their players.\<close>

lemma apply_defaults_players:
  assumes "apply_defaults w ss = Inr w'" and "distinct (map s_playerID ss)"
  shows "(\<forall>i. i \<notin> set (map s_playerID ss) \<longrightarrow> map_of (w_players w') i = map_of (w_players w) i) \<and>
    (\<forall>s \<in> set ss. \<exists>p res. map_of (w_players w) (s_playerID s) = Some p \<and>
       apply_to (w_rewardCatalog w) p (s_equipmentID s) = Inr res \<and>
       map_of (w_players w') (s_playerID s) = Some (equip_player (w_rewardCatalog w) res p))"
  using assms
proof (induction ss arbitrary: w)
  case (Cons s ss)
  obtain v where v: "applyRewardSelection w s (w_tick w) = Inr v" "apply_defaults v ss = Inr w'"
    using Cons.prems(1) by (auto split: sum.splits)
  obtain p res where p: "map_of (w_players w) (s_playerID s) = Some p" "apply_to (w_rewardCatalog w) p (s_equipmentID s) = Inr res"
    "map_of (w_players v) = (map_of (w_players w))(s_playerID s \<mapsto> equip_player (w_rewardCatalog w) res p)"
    "w_rewardCatalog v = w_rewardCatalog w"
    using v(1) unfolding applyRewardSelection_split by (auto simp: Let_def update_conv' split: if_splits)
  note IH = Cons.IH[OF v(2)]
  have ne: "s_playerID t \<noteq> s_playerID s" if "t \<in> set ss" for t
    using Cons.prems(2) that by (metis distinct.simps(2) image_eqI list.set_map list.simps(9))
  have A: "\<exists>p res. map_of (w_players w) (s_playerID t) = Some p \<and> apply_to (w_rewardCatalog w) p (s_equipmentID t) = Inr res \<and>
      map_of (w_players w') (s_playerID t) = Some (equip_player (w_rewardCatalog w) res p)" if t: "t \<in> set ss" for t
  proof -
    have d: "distinct (map s_playerID ss)" using Cons.prems(2) by simp
    obtain q res' where q: "map_of (w_players v) (s_playerID t) = Some q" "apply_to (w_rewardCatalog v) q (s_equipmentID t) = Inr res'"
      "map_of (w_players w') (s_playerID t) = Some (equip_player (w_rewardCatalog v) res' q)" using IH[OF d] t by blast
    have "map_of (w_players w) (s_playerID t) = Some q" using q(1) p(3) ne[OF t] by simp
    then show ?thesis using q(2,3) unfolding p(4) by blast
  qed
  have B: "map_of (w_players w') (s_playerID s) = Some (equip_player (w_rewardCatalog w) res p)"
    using IH Cons.prems(2) p(3) by simp
  have C: "map_of (w_players w') i = map_of (w_players w) i" if "i \<notin> set (map s_playerID (s # ss))" for i
    using IH Cons.prems(2) p(3) that by simp
  show ?case
  proof (intro conjI allI impI ballI)
    fix t assume "t \<in> set (s # ss)"
    then consider "t = s" | "t \<in> set ss" by auto
    then show "\<exists>p res. map_of (w_players w) (s_playerID t) = Some p \<and> apply_to (w_rewardCatalog w) p (s_equipmentID t) = Inr res \<and>
      map_of (w_players w') (s_playerID t) = Some (equip_player (w_rewardCatalog w) res p)"
      by cases (use p(1,2) B A in blast)+
  qed (rule C)
qed simp

lemma stepReward_settles:
  assumes "world_ok w" and "v_State (w_stage w) = Reward" and "w_rewardRound w = Some r" and "r_offers r \<noteq> []"
    and "r_deadline r < w_tick w"
  shows "\<exists>w' r'. stepReward w = Inr w' \<and> v_State (w_stage w') = PreparingNextStage \<and> w_rewardRound w' = Some r' \<and>
    Complete (Some r') \<and> (\<forall>i offer. map_of (r_offers r) i = Some offer \<longrightarrow> (\<exists>p. map_of (w_players w) i = Some p \<and>
      (if o_SelectedID offer = 0
       then map_of (r_offers r') i = Some (offer\<lparr>o_SelectedID := o_EquipmentIDs offer ! 0, o_Defaulted := True\<rparr>) \<and>
         (\<exists>res. apply_to (w_rewardCatalog w) p (o_EquipmentIDs offer ! 0) = Inr res \<and>
            map_of (w_players w') i = Some (equip_player (w_rewardCatalog w) res p))
       else map_of (r_offers r') i = Some offer \<and> map_of (w_players w') i = Some p)))"
proof -
  obtain n where rok: "round_ok (IDs (w_rewardCatalog w)) n r" using round_inv_round_ok[OF assms(1,3)] by blast
  let ?ss = "DueDefaults (Some r) (w_tick w)"
  note df = DueDefaults_default_for[OF rok] and di = distinct_DueDefaults[OF rok]
  obtain w' r' where w': "apply_defaults w ?ss = Inr w'" "commit_all r ?ss = Inr r'" "w_rewardRound w' = Some r'"
    using apply_defaults_ok[OF assms(1,3), of ?ss] df di by blast
  have r': "Complete (Some r')"
    "\<forall>i offer. map_of (r_offers r) i = Some offer \<and> o_SelectedID offer \<noteq> 0 \<longrightarrow> map_of (r_offers r') i = Some offer"
    "\<forall>i offer. map_of (r_offers r) i = Some offer \<and> o_SelectedID offer = 0 \<longrightarrow>
       map_of (r_offers r') i = Some (offer\<lparr>o_SelectedID := o_EquipmentIDs offer ! 0, o_Defaulted := True\<rparr>)"
    using defaults_complete[OF rok assms(4,5)] w'(2) by auto
  note pl = apply_defaults_players[OF w'(1) di]
  have step: "stepReward w = Inr w'" using w'(1) assms(2,3) by (simp add: stepReward_def)
  then have st: "v_State (w_stage w') = PreparingNextStage" using stepReward_ok[OF assms(1)] assms(2-5) by auto
  have "\<exists>p. map_of (w_players w) i = Some p \<and>
      (if o_SelectedID offer = 0
       then \<exists>res. apply_to (w_rewardCatalog w) p (o_EquipmentIDs offer ! 0) = Inr res \<and>
            map_of (w_players w') i = Some (equip_player (w_rewardCatalog w) res p)
       else map_of (w_players w') i = Some p)" if o: "map_of (r_offers r) i = Some offer" for i offer
  proof (cases "o_SelectedID offer = 0")
    case True
    have id: "o_PlayerID offer = i" using round_okD[OF rok o] by (simp add: offer_ok_def)
    have "offer \<in> set (Offers (Some r))" using o rok by (auto simp: set_Offers round_ok_def)
    then have "\<lparr>s_owner = r_self r, s_playerID = i, s_equipmentID = o_EquipmentIDs offer ! 0, s_defaulted = True\<rparr> \<in> set ?ss"
      using True id assms(5) by (auto simp: DueDefaults_def)
    then show ?thesis using pl True by fastforce
  next
    case False
    have "i \<notin> set (map s_playerID ?ss)" using df o False by (fastforce simp: default_for_def)
    moreover have "\<exists>p. map_of (w_players w) i = Some p" using world_okD(11)[OF assms(1)] assms(3) o unfolding round_inv_def by blast
    ultimately show ?thesis using pl False by auto
  qed
  then have "\<forall>i offer. map_of (r_offers r) i = Some offer \<longrightarrow> (\<exists>p. map_of (w_players w) i = Some p \<and>
      (if o_SelectedID offer = 0
       then map_of (r_offers r') i = Some (offer\<lparr>o_SelectedID := o_EquipmentIDs offer ! 0, o_Defaulted := True\<rparr>) \<and>
         (\<exists>res. apply_to (w_rewardCatalog w) p (o_EquipmentIDs offer ! 0) = Inr res \<and>
            map_of (w_players w') i = Some (equip_player (w_rewardCatalog w) res p))
       else map_of (r_offers r') i = Some offer \<and> map_of (w_players w') i = Some p))"
    using r'(2,3) by (metis (no_types, lifting))
  then show ?thesis using step st w'(3) r'(1) by blast
qed

text \<open>A world in its reward stage: one player, one private offer of the healing potion.\<close>

definition sample_round :: Round where
  "sample_round = \<lparr>r_self = 0, r_stageIndex = 1, r_seed = 5, r_deadline = 90, r_offers = [(7, \<lparr>o_PlayerID = 7,
     o_EquipmentIDs = [3001], o_DeadlineTick = 90, o_SelectedID = 0, o_Defaulted = False\<rparr>)]\<rparr>"

definition sample_reward_world :: "u64 \<Rightarrow> World" where
  "sample_reward_world t = \<lparr>w_config = DefaultConfig, w_tick = t, w_players = [(7, new_player DefaultConfig 7)],
     w_departedPlayers = [], w_monsters = [], w_projectiles = [], w_pickups = [], w_covers = [], w_nextEntity = 9,
     w_stage = zero_view\<lparr>v_Index := 1, v_State := Reward\<rparr>, w_events = [], w_eventOverflow = False,
     w_rewardRound = Some sample_round, w_rewardCatalog = sample_catalog, w_rewardUpdates = [],
     w_rewardOverflow = False, w_performance = zero_performance, w_currentPlan = zero_plan, w_completedStages = [],
     w_runStarted = True, w_runStartedAtTick = 0, w_runEndedAtTick = 0, w_rounds = 1\<rparr>"

lemma sample_apply: "\<exists>res. apply_to sample_catalog (new_player DefaultConfig 7) 3001 = Inr res"
proof -
  have "p_BaseStats (ps_player (new_player DefaultConfig 7)) = sample_base"
    "ps_loadout (new_player DefaultConfig 7) = zero_loadout" "p_Health (ps_player (new_player DefaultConfig 7)) = Fin 100"
    by (simp_all add: new_player_def Let_def DefaultConfig_def DefaultCombatConfig_def sample_base_def)
  then show ?thesis by (simp add: apply_to_def Apply_def sample_Require sample_Equip sample_Resolve)
qed

lemma sample_reward_world_ok: "world_ok (sample_reward_world t)"
proof -
  have p: "player_ok DefaultConfig 7 (new_player DefaultConfig 7)"
    by (rule new_player_ok[OF config_ok_Default]) (simp_all add: FirstWorldEntityID_def)
  have r: "round_ok (IDs sample_catalog) 1 sample_round"
    by (simp add: round_ok_def sample_round_def IDs_def sample_catalog_def offer_ok_def map_ok_def)
  have a: "applicable sample_catalog (new_player DefaultConfig 7) [3001]" using sample_apply by (simp add: applicable_def)
  have "round_inv (sample_reward_world t)"
    using r a by (auto simp: round_inv_def sample_reward_world_def zero_view_def)
      (auto simp: sample_round_def Complete_def split: if_splits)
  moreover have "entries_ok (player_ok DefaultConfig) [(7, new_player DefaultConfig 7)]"
    using p by (simp add: entries_ok_def map_ok_def)
  ultimately show ?thesis using config_ok_Default sample_catalog_ok
    by (intro world_okI) (simp_all add: sample_reward_world_def DefaultConfig_def)
qed

text \<open>C3: The reward stage ends: in a well-formed world (as every reachable one is) whose round is past its deadline at
  the next tick, that tick settles every offer and the world prepares the next stage.  An offer still
  open is given its first item as the default: it is marked as defaulted, the item is applied to the player
  as he is after this tick's input, and sits in his loadout.  An offer already chosen is left
  as it was and its player gets nothing more.\<close>

theorem reward_stage_ends:
  assumes "world_ok w" and "v_State (w_stage w) = Reward" and "w_rewardRound w = Some r" and "r_offers r \<noteq> []"
    and "r_deadline r < w_tick w + 1"
  shows "\<exists>w' r'. Step w now = Inr w' \<and> v_State (w_stage w') = PreparingNextStage \<and> w_rewardRound w' = Some r' \<and>
    Complete (Some r') \<and> (\<forall>i offer. map_of (r_offers r) i = Some offer \<longrightarrow> (\<exists>ps p q. map_of (w_players w) i = Some ps \<and>
      p = step_player (w_config w) (w_covers w) Reward (w_rewardCatalog w) now ps \<and> map_of (w_players w') i = Some q \<and>
      (if o_SelectedID offer = 0
       then map_of (r_offers r') i = Some (offer\<lparr>o_SelectedID := o_EquipmentIDs offer ! 0, o_Defaulted := True\<rparr>) \<and>
         (\<exists>res. apply_to (w_rewardCatalog w) p (o_EquipmentIDs offer ! 0) = Inr res \<and> q = equip_player (w_rewardCatalog w) res p) \<and>
         o_EquipmentIDs offer ! 0 \<in> {WeaponID (ps_loadout q), RelicID (ps_loadout q), PotionID (ps_loadout q)}
       else map_of (r_offers r') i = Some offer \<and> q = p)))"
proof -
  have np: "v_State (w_stage w) \<noteq> Playing" using assms(2) by simp
  note m = Step_outside_combat[OF assms(1) np, of now]
  have c: "catalog_ok (w_rewardCatalog w)" using world_okD(2)[OF assms(1)] .
  have f: "v_State (w_stage (moved w now)) = Reward" "w_rewardRound (moved w now) = Some r" "w_tick (moved w now) = w_tick w + 1"
    "w_rewardCatalog (moved w now) = w_rewardCatalog w"
    "map_of (w_players (moved w now)) i = map_option (step_player (w_config w) (w_covers w) Reward (w_rewardCatalog w) now)
       (map_of (w_players w) i)" for i
    using assms(2,3) by (simp_all add: moved_def map_of_map_values)
  obtain w' r' where w': "stepReward (moved w now) = Inr w'" "v_State (w_stage w') = PreparingNextStage" "w_rewardRound w' = Some r'"
    "Complete (Some r')"
    and o: "\<forall>i offer. map_of (r_offers r) i = Some offer \<longrightarrow> (\<exists>p. map_of (w_players (moved w now)) i = Some p \<and>
      (if o_SelectedID offer = 0
       then map_of (r_offers r') i = Some (offer\<lparr>o_SelectedID := o_EquipmentIDs offer ! 0, o_Defaulted := True\<rparr>) \<and>
         (\<exists>res. apply_to (w_rewardCatalog w) p (o_EquipmentIDs offer ! 0) = Inr res \<and>
            map_of (w_players w') i = Some (equip_player (w_rewardCatalog w) res p))
       else map_of (r_offers r') i = Some offer \<and> map_of (w_players w') i = Some p))"
    using stepReward_settles[OF m(1) f(1,2) assms(4), unfolded f(3,4), OF assms(5)] by blast
  show ?thesis
  proof (intro exI[of _ w'] exI[of _ r'] conjI allI impI)
    fix i offer assume of: "map_of (r_offers r) i = Some offer"
    obtain p where p: "map_of (w_players (moved w now)) i = Some p" "if o_SelectedID offer = 0
       then map_of (r_offers r') i = Some (offer\<lparr>o_SelectedID := o_EquipmentIDs offer ! 0, o_Defaulted := True\<rparr>) \<and>
         (\<exists>res. apply_to (w_rewardCatalog w) p (o_EquipmentIDs offer ! 0) = Inr res \<and>
            map_of (w_players w') i = Some (equip_player (w_rewardCatalog w) res p))
       else map_of (r_offers r') i = Some offer \<and> map_of (w_players w') i = Some p"
      using o of by blast
    obtain ps where ps: "map_of (w_players w) i = Some ps" "p = step_player (w_config w) (w_covers w) Reward (w_rewardCatalog w) now ps"
      using p(1) unfolding f(5) by auto
    show "\<exists>ps p q. map_of (w_players w) i = Some ps \<and>
      p = step_player (w_config w) (w_covers w) Reward (w_rewardCatalog w) now ps \<and> map_of (w_players w') i = Some q \<and>
      (if o_SelectedID offer = 0
       then map_of (r_offers r') i = Some (offer\<lparr>o_SelectedID := o_EquipmentIDs offer ! 0, o_Defaulted := True\<rparr>) \<and>
         (\<exists>res. apply_to (w_rewardCatalog w) p (o_EquipmentIDs offer ! 0) = Inr res \<and> q = equip_player (w_rewardCatalog w) res p) \<and>
         o_EquipmentIDs offer ! 0 \<in> {WeaponID (ps_loadout q), RelicID (ps_loadout q), PotionID (ps_loadout q)}
       else map_of (r_offers r') i = Some offer \<and> q = p)"
    proof (cases "o_SelectedID offer = 0")
      case True
      then obtain res where res: "map_of (r_offers r') i = Some (offer\<lparr>o_SelectedID := o_EquipmentIDs offer ! 0, o_Defaulted := True\<rparr>)"
        "apply_to (w_rewardCatalog w) p (o_EquipmentIDs offer ! 0) = Inr res"
        "map_of (w_players w') i = Some (equip_player (w_rewardCatalog w) res p)"
        using p(2) unfolding if_P[OF True] by blast
      show ?thesis unfolding if_P[OF True]
        by (intro exI[of _ ps] exI[of _ p] exI[of _ "equip_player (w_rewardCatalog w) res p"] conjI exI[of _ res]
            ps res refl equip_player_holds[OF c res(2)])
    next
      case False
      show ?thesis using p(2) unfolding if_not_P[OF False] by (intro exI[of _ ps] exI[of _ p] conjI ps) simp_all
    qed
  qed (use w' m(2) in simp_all)
qed

theorem reward_stage_ends_witness:
  "\<exists>w' r' q. Step (sample_reward_world 90) 0 = Inr w' \<and> v_State (w_stage w') = PreparingNextStage \<and>
     w_rewardRound w' = Some r' \<and> map_of (w_players w') 7 = Some q \<and>
     3001 \<in> {WeaponID (ps_loadout q), RelicID (ps_loadout q), PotionID (ps_loadout q)} \<and>
     map_option o_Defaulted (map_of (r_offers r') 7) = Some True"
proof -
  let ?w = "sample_reward_world 90"
  have a: "v_State (w_stage ?w) = Reward" "w_rewardRound ?w = Some sample_round" "r_offers sample_round \<noteq> []"
    "r_deadline sample_round < w_tick ?w + 1"
    by (simp_all add: sample_reward_world_def zero_view_def sample_round_def)
  have o: "map_of (r_offers sample_round) 7 = Some \<lparr>o_PlayerID = 7,
     o_EquipmentIDs = [3001], o_DeadlineTick = 90, o_SelectedID = 0, o_Defaulted = False\<rparr>" by (simp add: sample_round_def)
  show ?thesis using reward_stage_ends[OF sample_reward_world_ok a, of 0] o by fastforce
qed

text \<open>C4: A validated choice is applied in full: in a well-formed world whose reward stage is open, an item
  of the player's open offer that arrives by the deadline is accepted, it sits in the player's loadout,
  the player's health stays within the new maximum, and no second choice of that player is accepted.\<close>

theorem ChooseReward_accepts:
  assumes "world_ok w" and "v_State (w_stage w) = Reward" and "w_rewardRound w = Some r"
    and "map_of (r_offers r) i = Some offer" and "o_SelectedID offer = 0" and "e \<in> set (o_EquipmentIDs offer)"
    and "w_tick w \<le> r_deadline r"
  shows "\<exists>w' ps. ChooseReward w i e = Inr w' \<and> world_ok w' \<and> map_of (w_players w') i = Some ps \<and>
    e \<in> {WeaponID (ps_loadout ps), RelicID (ps_loadout ps), PotionID (ps_loadout ps)} \<and>
    p_Health (ps_player ps) \<le> cs_MaxHealth (p_CurrentStats (ps_player ps)) \<and>
    (\<forall>e' w''. ChooseReward w' i e' \<noteq> Inr w'')"
proof -
  note ok = assms(1)
  obtain n where rok: "round_ok (IDs (w_rewardCatalog w)) n r" using round_inv_round_ok[OF ok assms(3)] by blast
  let ?s = "\<lparr>s_owner = r_self r, s_playerID = i, s_equipmentID = e, s_defaulted = False\<rparr>"
  have v: "ValidateChoice (Some r) i e (w_tick w) = Inr ?s"
    using assms(4-7) round_okD[OF rok assms(4)] by (simp add: ValidateChoice_split)
  obtain r' where r': "Commit (Some r) ?s = Inr r'" using ValidateChoice_commits[OF rok v] by blast
  obtain w' where w': "applyRewardSelection w ?s (w_tick w + 1) = Inr w'"
    using selection_applies[OF ok assms(3), of ?s offer r'] assms(4-6) r' by auto
  have ch: "ChooseReward w i e = Inr w'" unfolding ChooseReward_split using assms(2,3) v w' by simp
  have ok': "world_ok w'" using applyRewardSelection_ok[OF ok w'] by blast
  have rr: "w_rewardRound w' = Some r'" using applyRewardSelection_ok[OF ok w'] assms(3) r' by auto
  obtain p res where p: "map_of (w_players w) i = Some p" "apply_to (w_rewardCatalog w) p e = Inr res"
    "map_of (w_players w') i = Some (equip_player (w_rewardCatalog w) res p)"
    using w' unfolding applyRewardSelection_split by (auto simp: Let_def update_conv' split: if_splits)
  have "e \<in> {WeaponID (ps_loadout (equip_player (w_rewardCatalog w) res p)), RelicID (ps_loadout (equip_player (w_rewardCatalog w) res p)),
      PotionID (ps_loadout (equip_player (w_rewardCatalog w) res p))}" by (rule equip_player_holds[OF world_okD(2)[OF ok] p(2)])
  moreover have "health_ok (p_Health (ps_player (equip_player (w_rewardCatalog w) res p)))
      (cs_MaxHealth (p_CurrentStats (ps_player (equip_player (w_rewardCatalog w) res p))))"
    using entries_okD[OF world_okD(3)[OF ok'] p(3)] by (simp add: player_ok_def)
  moreover have "ChooseReward w' i e' \<noteq> Inr w''" for e' w''
  proof
    assume "ChooseReward w' i e' = Inr w''"
    then obtain offer' where "map_of (r_offers r') i = Some offer'" "o_SelectedID offer' = 0"
      unfolding ChooseReward_split rr by (auto simp: ValidateChoice_split)
    moreover have "e \<noteq> 0" using r' by (simp add: Commit_split)
    ultimately show False using Commit_offers(1)[OF r', of i] assms(4) by auto
  qed
  ultimately show ?thesis using ch ok' p(3) health_ok_bounds by metis
qed

theorem ChooseReward_accepts_witness:
  "\<exists>w' ps. ChooseReward (sample_reward_world 90) 7 3001 = Inr w' \<and> world_ok w' \<and> map_of (w_players w') 7 = Some ps \<and>
    3001 \<in> {WeaponID (ps_loadout ps), RelicID (ps_loadout ps), PotionID (ps_loadout ps)} \<and>
    p_Health (ps_player ps) \<le> cs_MaxHealth (p_CurrentStats (ps_player ps)) \<and>
    (\<forall>e' w''. ChooseReward w' 7 e' \<noteq> Inr w'')"
  by (rule ChooseReward_accepts[OF sample_reward_world_ok, where r = sample_round and
      offer = "\<lparr>o_PlayerID = 7, o_EquipmentIDs = [3001], o_DeadlineTick = 90, o_SelectedID = 0, o_Defaulted = False\<rparr>"])
    (simp_all add: sample_reward_world_def zero_view_def sample_round_def)

end
