(* ===== verification/Director.thy ===== *)
theory Director
  imports Simulation
begin

text \<open>
  The director (\<open>director/planner.go\<close>, \<open>director/rule_based.go\<close>) and the first stage
  (\<open>encounter.go\<close>): pure planners that turn a stage and the team's performance into the next plan.
  Go's \<open>math.Pow\<close> is a parameter \<open>pow\<close>; nothing below depends on its values.
\<close>

section \<open>Numbers in messages\<close>

text \<open>The digits of \<open>%d\<close>, and of \<open>%.0f\<close> for a finite value.\<close>

function nat_digits :: "nat \<Rightarrow> string" where
  "nat_digits n = (if n < 10 then [char_of (48 + n)] else nat_digits (n div 10) @ [char_of (48 + n mod 10)])"
  by pat_completeness auto
termination
  by (relation "measure id") auto

declare nat_digits.simps [simp del]

definition Itoa :: "int \<Rightarrow> string" where
  "Itoa n = (if n < 0 then CHR ''-'' # nat_digits (nat (- n)) else nat_digits (nat n))"

section \<open>Metrics\<close>

datatype director_error = MetricsNotFinite | MetricsOutOfRange | ErrInvalidRuleConfig | PreviousPlan plan_error
  | PreviousDifficulty | GeneratedPlan plan_error

definition Metrics_Validate :: "PerformanceMetrics \<Rightarrow> director_error + unit" where
  "Metrics_Validate m =
     (if list_ex (\<lambda>v. IsNaN v \<or> IsInf v) [pm_ClearTimeSeconds m, pm_TeamHPPercent m, pm_AverageDPS m,
           pm_DamageTaken m, pm_EquipmentPower m]
      then Inl MetricsNotFinite
      else if pm_ClearTimeSeconds m \<le> Fin 0 \<or> pm_TeamHPPercent m < Fin 0 \<or> Fin 1 < pm_TeamHPPercent m \<or>
        pm_AverageDPS m < Fin 0 \<or> pm_DeathCount m < 0 \<or> 128 < pm_DeathCount m \<or> pm_DamageTaken m < Fin 0 \<or>
        pm_EquipmentPower m \<le> Fin 0
      then Inl MetricsOutOfRange
      else Inr ())"

section \<open>The rules\<close>

definition MaxDifficultyIncrease :: f64 where "MaxDifficultyIncrease = fl (20 / 100)"
definition MaxDifficultyDecrease :: f64 where "MaxDifficultyDecrease = fl (15 / 100)"

record RuleConfig =
  rc_Min :: Vec2
  rc_Max :: Vec2
  rc_PlayerSpawn :: Vec2
  rc_MaxMonsters :: int
  rc_MinDifficulty :: f64
  rc_MaxDifficulty :: f64
  rc_TargetClearTimeSeconds :: f64
  rc_TargetDPS :: f64
  rc_TargetDamageTaken :: f64

definition DefaultRuleConfig :: "Vec2 \<Rightarrow> Vec2 \<Rightarrow> Vec2 \<Rightarrow> int \<Rightarrow> RuleConfig" where
  "DefaultRuleConfig mn mx playerSpawn maxMonsters = \<lparr>rc_Min = mn, rc_Max = mx, rc_PlayerSpawn = playerSpawn,
     rc_MaxMonsters = maxMonsters, rc_MinDifficulty = fl (1 / 2), rc_MaxDifficulty = Fin 10,
     rc_TargetClearTimeSeconds = Fin 45, rc_TargetDPS = Fin 30, rc_TargetDamageTaken = Fin 50\<rparr>"

definition RuleConfig_validate :: "RuleConfig \<Rightarrow> director_error + unit" where
  "RuleConfig_validate c =
     (if list_ex (\<lambda>v. IsNaN v \<or> IsInf v \<or> v \<le> Fin 0) [rc_MinDifficulty c, rc_MaxDifficulty c,
           rc_TargetClearTimeSeconds c, rc_TargetDPS c, rc_TargetDamageTaken c]
      then Inl ErrInvalidRuleConfig
      else if \<not> Vec2_Finite (rc_Min c) \<or> \<not> Vec2_Finite (rc_Max c) \<or> \<not> Vec2_Finite (rc_PlayerSpawn c) \<or>
        X (rc_Max c) \<le> X (rc_Min c) \<or> Y (rc_Max c) \<le> Y (rc_Min c) \<or>
        X (rc_PlayerSpawn c) < X (rc_Min c) \<or> X (rc_Max c) < X (rc_PlayerSpawn c) \<or>
        Y (rc_PlayerSpawn c) < Y (rc_Min c) \<or> Y (rc_Max c) < Y (rc_PlayerSpawn c) \<or>
        rc_MaxMonsters c < 1 \<or> 128 < rc_MaxMonsters c \<or> rc_MaxDifficulty c < rc_MinDifficulty c
      then Inl ErrInvalidRuleConfig
      else Inr ())"

definition NewRuleBasedPlanner :: "RuleConfig \<Rightarrow> director_error + RuleConfig" where
  "NewRuleBasedPlanner c = (case RuleConfig_validate c of Inl e \<Rightarrow> Inl e | Inr _ \<Rightarrow> Inr c)"

record Decision =
  dc_PreviousDifficulty :: f64
  dc_NewDifficulty :: f64
  dc_Adjustment :: f64
  dc_MonsterCount :: int
  dc_Seed :: i64
  dc_Reasons :: "string list"

text \<open>Each rule of \<open>adjustment\<close> adds its share and its reason.\<close>

type_synonym assessment = "f64 \<times> string list"

definition rule_clear :: "RuleConfig \<Rightarrow> PerformanceMetrics \<Rightarrow> assessment \<Rightarrow> assessment" where
  "rule_clear c m = (\<lambda>(a, rs).
     if pm_ClearTimeSeconds m \<le> rc_TargetClearTimeSeconds c * fl (75 / 100)
     then (a + fl (6 / 100), rs @ [''fast clear +6%''])
     else if rc_TargetClearTimeSeconds c * fl (15 / 10) \<le> pm_ClearTimeSeconds m
     then (a - fl (8 / 100), rs @ [''slow clear -8%'']) else (a, rs))"

definition rule_health :: "PerformanceMetrics \<Rightarrow> assessment \<Rightarrow> assessment" where
  "rule_health m = (\<lambda>(a, rs).
     if fl (75 / 100) \<le> pm_TeamHPPercent m then (a + fl (4 / 100), rs @ [''healthy team +4%''])
     else if pm_TeamHPPercent m \<le> fl (35 / 100) then (a - fl (6 / 100), rs @ [''low team health -6%''])
     else (a, rs))"

definition death_penalty :: "int \<Rightarrow> f64" where
  "death_penalty n = math_Min (fl (6 / 100)) (f64_of_int n * fl (3 / 100))"

definition rule_deaths :: "PerformanceMetrics \<Rightarrow> assessment \<Rightarrow> assessment" where
  "rule_deaths m = (\<lambda>(a, rs).
     if 0 < pm_DeathCount m
     then let penalty = death_penalty (pm_DeathCount m)
          in (a - penalty, rs @ [Itoa (pm_DeathCount m) @ '' deaths -'' @ Itoa (rint (val (penalty * Fin 100))) @ ''%''])
     else (a, rs))"

definition rule_dps :: "RuleConfig \<Rightarrow> PerformanceMetrics \<Rightarrow> assessment \<Rightarrow> assessment" where
  "rule_dps c m = (\<lambda>(a, rs).
     let normalizedDPS = pm_AverageDPS m / math_Max (fl (25 / 100)) (pm_EquipmentPower m)
     in if rc_TargetDPS c * fl (125 / 100) \<le> normalizedDPS
        then (a + fl (4 / 100), rs @ [''high equipment-normalized DPS +4%''])
        else if normalizedDPS \<le> rc_TargetDPS c * fl (65 / 100)
        then (a - fl (4 / 100), rs @ [''low equipment-normalized DPS -4%'']) else (a, rs))"

definition rule_damage :: "RuleConfig \<Rightarrow> PerformanceMetrics \<Rightarrow> assessment \<Rightarrow> assessment" where
  "rule_damage c m = (\<lambda>(a, rs).
     if pm_DamageTaken m \<le> rc_TargetDamageTaken c * fl (5 / 10)
     then (a + fl (2 / 100), rs @ [''low damage taken +2%''])
     else if rc_TargetDamageTaken c * fl (15 / 10) \<le> pm_DamageTaken m
     then (a - fl (3 / 100), rs @ [''high damage taken -3%'']) else (a, rs))"

definition assess :: "RuleConfig \<Rightarrow> PerformanceMetrics \<Rightarrow> assessment" where
  "assess c m = rule_damage c m (rule_dps c m (rule_deaths m (rule_health m
     (rule_clear c m (fl (3 / 100), [''base progression +3%''])))))"

definition adjustment :: "RuleConfig \<Rightarrow> PerformanceMetrics \<Rightarrow> assessment" where
  "adjustment c m = (case assess c m of (a, rs) \<Rightarrow>
     (math_Max (- MaxDifficultyDecrease) (math_Min MaxDifficultyIncrease a), rs))"

section \<open>Positions\<close>

definition nextRandom :: "u64 \<Rightarrow> u64 \<times> u64" where
  "nextRandom state =
     (let state = state + 0x9e3779b97f4a7c15;
          z = state;
          z = (z XOR drop_bit 30 z) * 0xbf58476d1ce4e5b9;
          z = (z XOR drop_bit 27 z) * 0x94d049bb133111eb
      in (z XOR drop_bit 31 z, state))"

definition randomUnit :: "u64 \<Rightarrow> f64 \<times> u64" where
  "randomUnit state = (case nextRandom state of (r, state) \<Rightarrow>
     (f64_of_int (uint (drop_bit 11 r)) * fl (1 / 2 ^ 53), state))"

record spawn_area =
  sa_marginX :: f64
  sa_marginY :: f64
  sa_usableWidth :: f64
  sa_usableHeight :: f64
  sa_minimum :: f64

definition spawn_area_of :: "RuleConfig \<Rightarrow> spawn_area" where
  "spawn_area_of c =
     (let width = X (rc_Max c) - X (rc_Min c); height = Y (rc_Max c) - Y (rc_Min c);
          marginX = width * fl (8 / 100); marginY = height * fl (8 / 100)
      in \<lparr>sa_marginX = marginX, sa_marginY = marginY, sa_usableWidth = width - Fin 2 * marginX,
           sa_usableHeight = height - Fin 2 * marginY, sa_minimum = math_Min width height * fl (15 / 100)\<rparr>)"

definition far_enough :: "RuleConfig \<Rightarrow> Vec2 \<Rightarrow> bool" where
  "far_enough c p \<longleftrightarrow> sa_minimum (spawn_area_of c) \<le>
     math_Hypot (X p - X (rc_PlayerSpawn c)) (Y p - Y (rc_PlayerSpawn c))"

definition draw_position :: "RuleConfig \<Rightarrow> u64 \<Rightarrow> Vec2 \<times> u64" where
  "draw_position c state =
     (let a = spawn_area_of c; (u, state) = randomUnit state; (v, state) = randomUnit state
      in (vec2 (X (rc_Min c) + sa_marginX a + u * sa_usableWidth a)
               (Y (rc_Min c) + sa_marginY a + v * sa_usableHeight a), state))"

text \<open>The inner loop: \<open>n\<close> attempts are left.  The map \<open>seen\<close> has as keys the bit patterns of the
  accepted positions; equal coordinates are equal patterns here, because a sum with a
  non-negative term is never a negative zero.\<close>

fun attempt :: "RuleConfig \<Rightarrow> nat \<Rightarrow> Vec2 list \<Rightarrow> u64 \<Rightarrow> Vec2 option \<times> u64" where
  "attempt c 0 seen state = (None, state)"
| "attempt c (Suc n) seen state =
     (case draw_position c state of (p, state) \<Rightarrow>
        if p \<notin> set seen \<and> far_enough c p then (Some p, state) else attempt c n seen state)"

definition fallback_position :: "RuleConfig \<Rightarrow> nat \<Rightarrow> nat \<Rightarrow> Vec2" where
  "fallback_position c need i =
     (let a = spawn_area_of c; fraction = f64_of_int (int i + 1) / f64_of_int (int need + 1)
      in vec2 (X (rc_Min c) + sa_marginX a + fraction * sa_usableWidth a)
              (Y (rc_Min c) + sa_marginY a +
               math_Mod (fraction * fl (6180339887498949 / 10000000000000000)) (Fin 1) * sa_usableHeight a))"

definition attempts :: nat where "attempts = 1024"

fun place :: "RuleConfig \<Rightarrow> nat \<Rightarrow> nat list \<Rightarrow> Vec2 list \<Rightarrow> u64 \<Rightarrow> Vec2 list" where
  "place c need [] seen state = []"
| "place c need (i # is) seen state =
     (case attempt c attempts seen state of
        (Some p, state) \<Rightarrow> p # place c need is (p # seen) state
      | (None, state) \<Rightarrow> fallback_position c need i # place c need is seen state)"

definition positions :: "RuleConfig \<Rightarrow> nat \<Rightarrow> i64 \<Rightarrow> Vec2 list" where
  "positions c need seed = place c need [0..<need] [] seed"

section \<open>Deciding\<close>

definition scale_spawn :: "(f64 \<Rightarrow> f64 \<Rightarrow> f64) \<Rightarrow> f64 \<Rightarrow> Spawn \<Rightarrow> Vec2 \<Rightarrow> Spawn" where
  "scale_spawn pow s spawn position =
     (let st = sp_Stats spawn
      in spawn\<lparr>sp_Position := position,
           sp_Stats := st\<lparr>cs_Attack := cs_Attack st * s, cs_MaxHealth := cs_MaxHealth st * s,
             cs_Defense := math_Max (Fin 0) ((Fin 100 + cs_Defense st) * s - Fin 100),
             cs_MoveSpeed := cs_MoveSpeed st * pow s (fl (2 / 10))\<rparr>\<rparr>)"

definition new_difficulty :: "RuleConfig \<Rightarrow> f64 \<Rightarrow> f64 \<Rightarrow> f64" where
  "new_difficulty c previous a =
     math_Max (rc_MinDifficulty c) (math_Min (rc_MaxDifficulty c) (previous * (Fin 1 + a)))"

definition monster_count :: "RuleConfig \<Rightarrow> int \<Rightarrow> f64 \<Rightarrow> int" where
  "monster_count c n ratio =
     max 1 (min (rc_MaxMonsters c) (int_of_f64 (math_Round (f64_of_int n * math_Sqrt ratio))))"

definition make_plan :: "(f64 \<Rightarrow> f64 \<Rightarrow> f64) \<Rightarrow> RuleConfig \<Rightarrow> Plan \<Rightarrow> PerformanceMetrics \<Rightarrow> Plan" where
  "make_plan pow c previous m =
     (let d = pl_DifficultyScore previous; nd = new_difficulty c d (fst (adjustment c m));
          n = int (length (pl_Monsters previous)); k = monster_count c n (nd / d);
          index = pl_Index previous + 1;
          seed = fst (nextRandom (pl_Seed previous XOR (ucast index * 0x9e3779b97f4a7c15)));
          s = math_Sqrt (nd / d * f64_of_int n / f64_of_int k)
      in \<lparr>pl_Index = index, pl_Seed = seed, pl_DifficultyScore = nd,
           pl_Monsters = map2 (\<lambda>i p. scale_spawn pow s (pl_Monsters previous ! (i mod length (pl_Monsters previous))) p)
             [0..<nat k] (positions c (nat k) seed),
           pl_DifficultyAdjustment = nd / d - Fin 1, pl_PreviousClearSeconds = pm_ClearTimeSeconds m,
           pl_PreviousTeamHPPercent = pm_TeamHPPercent m\<rparr>)"

definition Decide :: "(f64 \<Rightarrow> f64 \<Rightarrow> f64) \<Rightarrow> RuleConfig \<Rightarrow> Plan \<Rightarrow> PerformanceMetrics \<Rightarrow>
    director_error + (Plan \<times> Decision)" where
  "Decide pow c previous m =
     (case RuleConfig_validate c of Inl e \<Rightarrow> Inl e
      | Inr _ \<Rightarrow>
        (case Plan_Validate previous (rc_Min c) (rc_Max c) (rc_MaxMonsters c) of Inl e \<Rightarrow> Inl (PreviousPlan e)
         | Inr _ \<Rightarrow>
           if pl_DifficultyScore previous < rc_MinDifficulty c \<or> rc_MaxDifficulty c < pl_DifficultyScore previous
           then Inl PreviousDifficulty
           else (case Metrics_Validate m of Inl e \<Rightarrow> Inl e
             | Inr _ \<Rightarrow>
               let plan = make_plan pow c previous m
               in (case Plan_Validate plan (rc_Min c) (rc_Max c) (rc_MaxMonsters c) of Inl e \<Rightarrow> Inl (GeneratedPlan e)
                   | Inr _ \<Rightarrow> Inr (plan, \<lparr>dc_PreviousDifficulty = pl_DifficultyScore previous,
                       dc_NewDifficulty = pl_DifficultyScore plan, dc_Adjustment = pl_DifficultyAdjustment plan,
                       dc_MonsterCount = int (length (pl_Monsters plan)), dc_Seed = pl_Seed plan,
                       dc_Reasons = snd (adjustment c m)\<rparr>)))))"

definition Generate :: "(f64 \<Rightarrow> f64 \<Rightarrow> f64) \<Rightarrow> RuleConfig \<Rightarrow> Plan \<Rightarrow> PerformanceMetrics \<Rightarrow> director_error + Plan" where
  "Generate pow c previous m = (case Decide pow c previous m of Inl e \<Rightarrow> Inl e | Inr (plan, _) \<Rightarrow> Inr plan)"

section \<open>The first stage\<close>

datatype encounter_error = EncounterConfig | EncounterCapacity | EncounterPlan plan_error

definition firstStageMonsterCount :: nat where "firstStageMonsterCount = 8"

definition nextSplitMix64 :: "u64 \<Rightarrow> u64 \<times> u64" where
  "nextSplitMix64 state =
     (let state = state + 0x9e3779b97f4a7c15;
          z = state;
          z = (z XOR drop_bit 30 z) * 0xbf58476d1ce4e5b9;
          z = (z XOR drop_bit 27 z) * 0x94d049bb133111eb
      in (z XOR drop_bit 31 z, state))"

definition fractions :: "Vec2 list" where
  "fractions = map (\<lambda>(x, y). vec2 (fl (x / 100)) (fl (y / 100)))
     [(15, 15), (50, 15), (85, 15), (85, 50), (85, 85), (50, 85), (15, 85), (15, 50)]"

definition candidates :: "Config \<Rightarrow> Vec2 list" where
  "candidates c = map (\<lambda>p. vec2 (X (g_Min c) + (X (g_Max c) - X (g_Min c)) * X p)
     (Y (g_Min c) + (Y (g_Max c) - Y (g_Min c)) * Y p)) fractions"

definition walk_order :: "i64 \<Rightarrow> nat list" where
  "walk_order seed =
     (case nextSplitMix64 seed of (r, state) \<Rightarrow>
        let start = unat (r mod 8); step = (if fst (nextSplitMix64 state) AND 1 \<noteq> 0 then 5 else 3)
        in map (\<lambda>i. (start + i * step) mod 8) [0..<8])"

definition far_from_spawn :: "Config \<Rightarrow> Vec2 \<Rightarrow> bool" where
  "far_from_spawn c p \<longleftrightarrow>
     math_Min (X (g_Max c) - X (g_Min c)) (Y (g_Max c) - Y (g_Min c)) * fl (20 / 100) \<le>
     math_Hypot (X p - X (g_Spawn c)) (Y p - Y (g_Spawn c))"

definition first_positions :: "Config \<Rightarrow> i64 \<Rightarrow> Vec2 list" where
  "first_positions c seed =
     (let ps = map (\<lambda>i. candidates c ! i) (walk_order seed)
      in filter (far_from_spawn c) ps @ filter (\<lambda>p. \<not> far_from_spawn c p) ps)"

definition first_plan :: "Config \<Rightarrow> i64 \<Rightarrow> Plan" where
  "first_plan c seed = \<lparr>pl_Index = 1, pl_Seed = seed, pl_DifficultyScore = Fin 1,
     pl_Monsters = map (\<lambda>i. \<lparr>sp_Position = first_positions c seed ! i,
       sp_Stats = \<lparr>cs_Attack = Fin 5, cs_Defense = Fin 0, cs_MaxHealth = Fin 30, cs_MoveSpeed = fl (17 / 10),
         cs_AttackCooldownTicks = word_of_int (TickRate + TickRate div 2)\<rparr>,
       sp_Radius = fl (4 / 10), sp_AttackRange = Fin 1\<rparr>) [0..<firstStageMonsterCount],
     pl_DifficultyAdjustment = Fin 0, pl_PreviousClearSeconds = Fin 0, pl_PreviousTeamHPPercent = Fin 0\<rparr>"

definition NewFirstStagePlan :: "Config \<Rightarrow> i64 \<Rightarrow> encounter_error + Plan" where
  "NewFirstStagePlan c seed =
     (if \<not> Config_Validate c then Inl EncounterConfig
      else if cc_MaxMonsters (g_Combat c) < int firstStageMonsterCount then Inl EncounterCapacity
      else let plan = first_plan c seed
        in case ValidateStage plan c of Inl e \<Rightarrow> Inl (EncounterPlan e) | Inr _ \<Rightarrow> Inr plan)"

section \<open>Bounds of the rules\<close>

lemma fl_mono: "x \<le> y \<Longrightarrow> fl x \<le> fl y"
  using rnd_mono[of x y] by (auto simp: fl_def Let_def abs_if split: if_splits)

lemma rnd_eighths: "\<bar>k\<bar> \<le> 1000 \<Longrightarrow> rnd (of_int k / 8) = of_int k / 8"
  using rnd_grid_le[of k "- 3"] by (simp add: power_int_def power_one_over)

text \<open>Each rule moves the adjustment by at most an eighth, so no sum overflows.\<close>

definition near :: "int \<Rightarrow> f64 \<Rightarrow> bool" where
  "near k x \<longleftrightarrow> (\<exists>v. x = Fin v \<and> \<bar>v\<bar> \<le> of_int k / 8)"

lemma near_fl: "\<bar>x\<bar> \<le> of_int k / 8 \<Longrightarrow> \<bar>k\<bar> \<le> 1000 \<Longrightarrow> near k (fl x)"
proof -
  assume a: "\<bar>x\<bar> \<le> of_int k / 8" "\<bar>k\<bar> \<le> 1000"
  have "of_int k \<le> (1000 :: rat)" using a(2) by linarith
  then have "is_f64 (Fin (of_int k / 8))" "is_f64 (Fin (- (of_int k / 8)))"
    using rnd_eighths[OF a(2)] a by (auto simp: rnd_minus)
  then have "fl x = Fin (rnd x) \<and> - (of_int k / 8) \<le> rnd x \<and> rnd x \<le> of_int k / 8"
    using fl_finite_between[of "- (of_int k / 8)" "of_int k / 8" x] a(1) by linarith
  then show ?thesis unfolding near_def by (intro exI[of _ "rnd x"]) linarith
qed

lemma near_mono: "near k x \<Longrightarrow> k \<le> l \<Longrightarrow> near l x"
proof -
  assume "near k x" "k \<le> l"
  moreover have "(of_int k / 8 :: rat) \<le> of_int l / 8" using \<open>k \<le> l\<close> by simp
  ultimately show ?thesis unfolding near_def by force
qed

lemma near_plus: "near k x \<Longrightarrow> near 1 y \<Longrightarrow> \<bar>k + 1\<bar> \<le> 1000 \<Longrightarrow> near (k + 1) (x + y)"
  unfolding near_def[of k] near_def[of 1] by (auto intro!: near_fl simp: add_divide_distrib)

lemma near_minus: "near k x \<Longrightarrow> near 1 y \<Longrightarrow> \<bar>k + 1\<bar> \<le> 1000 \<Longrightarrow> near (k + 1) (x - y)"
  unfolding near_def[of k] near_def[of 1] by (auto intro!: near_fl simp: add_divide_distrib)

lemma near_penalty: "near 1 (death_penalty n)" if n: "0 < n"
proof -
  obtain v where v: "f64_of_int n * fl (3 / 100) = Inf False \<or> f64_of_int n * fl (3 / 100) = Fin v \<and> 0 \<le> v"
  proof -
    have "rnd (1 / 64) = 1 / 64" using rnd_powi[of "- 6"] by (simp add: power_int_def power_one_over)
    then have p: "\<exists>q. fl (3 / 100) = Fin q \<and> 0 \<le> q \<and> q \<noteq> 0"
      using fl_finite_between[of "1 / 64" 1 "3 / 100"] by (intro exI[of _ "rnd (3 / 100)"]) simp
    have "0 \<le> rnd (of_int n)" using ieee.nonneg[of "of_int n"] n by simp
    then have "f64_of_int n = Inf False \<or> (\<exists>x\<ge>0. f64_of_int n = Fin x)"
      by (auto simp: f64_of_int_def fl_def Let_def)
    moreover have "fl (x * q) = Inf False \<or> (\<exists>v\<ge>0. fl (x * q) = Fin v)" if "0 \<le> x" "0 \<le> q" for x q
      using ieee.nonneg[of "x * q"] that by (auto simp: fl_def Let_def)
    ultimately show ?thesis using p that by fastforce
  qed
  obtain s where s: "fl (6 / 100) = Fin s" "0 \<le> s" "s \<le> 1 / 8"
    using fl_finite_between[of 0 "1 / 8" "6 / 100"] rnd_eighths[of 1] by auto
  then show ?thesis using v by (auto simp: death_penalty_def near_def math_Min_def)
qed

lemma near_shares:
  "near 1 (fl (2 / 100))" "near 1 (fl (3 / 100))" "near 1 (fl (4 / 100))" "near 1 (fl (6 / 100))" "near 1 (fl (8 / 100))"
  by (rule near_fl; simp)+

lemma near_keep: "near k x \<Longrightarrow> near (k + 1) x"
  using near_mono[of k x "k + 1"] by simp

lemma near_rules:
  assumes "near k (fst a)" and "\<bar>k + 1\<bar> \<le> 1000"
  shows "near (k + 1) (fst (rule_clear c m a))" and "near (k + 1) (fst (rule_health m a))"
    and "near (k + 1) (fst (rule_deaths m a))" and "near (k + 1) (fst (rule_dps c m a))"
    and "near (k + 1) (fst (rule_damage c m a))"
proof -
  obtain v rs where a: "a = (v, rs)" by (cases a)
  have n: "near (k + 1) v" "near 1 y \<Longrightarrow> near (k + 1) (v + y)" "near 1 y \<Longrightarrow> near (k + 1) (v - y)" for y
    using near_keep near_plus near_minus assms unfolding a by auto
  note n = n(1) n(2)[OF near_shares(1)] n(2)[OF near_shares(3)] n(2)[OF near_shares(4)] n(3)[OF near_shares(2)]
    n(3)[OF near_shares(3)] n(3)[OF near_shares(4)] n(3)[OF near_shares(5)] n(3)[OF near_penalty]
  show "near (k + 1) (fst (rule_clear c m a))" using n by (simp add: a rule_clear_def)
  show "near (k + 1) (fst (rule_health m a))" using n by (simp add: a rule_health_def)
  show "near (k + 1) (fst (rule_deaths m a))" using n by (simp add: a rule_deaths_def Let_def)
  show "near (k + 1) (fst (rule_dps c m a))" using n by (simp add: a rule_dps_def Let_def)
  show "near (k + 1) (fst (rule_damage c m a))" using n by (simp add: a rule_damage_def)
qed

lemma near_assess: "near 6 (fst (assess c m))"
proof -
  have "near 1 (fst (fl (3 / 100), [''base progression +3%'']))" using near_shares(2) by simp
  from near_rules(5)[OF near_rules(4)[OF near_rules(3)[OF near_rules(2)[OF near_rules(1)[OF this]]]]]
  show ?thesis unfolding assess_def by simp
qed

lemma adjustment_bounds: "- MaxDifficultyDecrease \<le> fst (adjustment c m) \<and> fst (adjustment c m) \<le> MaxDifficultyIncrease"
proof -
  obtain v where v: "fst (assess c m) = Fin v" using near_assess unfolding near_def by blast
  obtain d i where di: "MaxDifficultyDecrease = Fin d" "MaxDifficultyIncrease = Fin i" "- d \<le> i"
    using fl_finite_between[of 0 1 "15 / 100"] fl_finite_between[of 0 1 "20 / 100"]
    unfolding MaxDifficultyDecrease_def MaxDifficultyIncrease_def by force
  show ?thesis using v clamp_f64[of "Fin v" "- d" i] di(3) by (auto simp: adjustment_def di(1,2) split: prod.split)
qed

lemma clamp_between:
  assumes "mn \<le> p" and "p \<le> mx" and "lo \<le> x" and "x \<le> hi" and "lo \<le> Fin p" and "Fin p \<le> hi"
  shows "Fin mn \<le> math_Max (Fin mn) (math_Min (Fin mx) x) \<and> math_Max (Fin mn) (math_Min (Fin mx) x) \<le> Fin mx \<and>
    lo \<le> math_Max (Fin mn) (math_Min (Fin mx) x) \<and> math_Max (Fin mn) (math_Min (Fin mx) x) \<le> hi"
  using assms by (cases lo; cases x; cases hi) (auto simp: math_Max_def math_Min_def max_def min_def)

lemma new_difficulty_between:
  assumes "is_f64 d" and "rc_MinDifficulty c \<le> d" and "d \<le> rc_MaxDifficulty c" and "Fin 0 < rc_MinDifficulty c"
    and "is_f64 (rc_MaxDifficulty c)" and "finite_f64 (rc_MaxDifficulty c)"
    and "- MaxDifficultyDecrease \<le> a" and "a \<le> MaxDifficultyIncrease"
  shows "rc_MinDifficulty c \<le> new_difficulty c d a \<and> new_difficulty c d a \<le> rc_MaxDifficulty c \<and>
    d * (Fin 1 - MaxDifficultyDecrease) \<le> new_difficulty c d a \<and>
    new_difficulty c d a \<le> d * (Fin 1 + MaxDifficultyIncrease)"
proof -
  obtain mn mx p where v: "rc_MinDifficulty c = Fin mn" "rc_MaxDifficulty c = Fin mx" "d = Fin p" "0 < mn" "mn \<le> p" "p \<le> mx"
    using assms(2-4,6) by (cases "rc_MinDifficulty c"; cases "rc_MaxDifficulty c"; cases d) auto
  obtain e i where ei: "MaxDifficultyDecrease = Fin e" "MaxDifficultyIncrease = Fin i" "0 \<le> e" "e \<le> 1" "0 \<le> i" "i \<le> 1"
    using fl_finite_between[of 0 1 "15 / 100"] fl_finite_between[of 0 1 "20 / 100"]
    unfolding MaxDifficultyDecrease_def MaxDifficultyIncrease_def by force
  obtain q where q: "a = Fin q" "- e \<le> q" "q \<le> i" using assms(7,8) unfolding ei(1,2) by (cases a) auto
  have two: "is_f64 (Fin 2)" "is_f64 (Fin 0)" "is_f64 (Fin 1)" by simp_all
  have s: "fl (1 + q) = Fin (rnd (1 + q))" "fl (1 - e) = Fin (rnd (1 - e))" "fl (1 + i) = Fin (rnd (1 + i))"
    "0 \<le> rnd (1 - e)" "rnd (1 - e) \<le> 1" "1 \<le> rnd (1 + i)"
    using fl_finite_between[OF two(2,1), of "1 + q"] fl_finite_between[OF two(2,3), of "1 - e"]
      fl_finite_between[OF two(3,1), of "1 + i"] q ei by auto
  have m: "rnd (1 - e) \<le> rnd (1 + q)" "rnd (1 + q) \<le> rnd (1 + i)" using q by (auto intro: rnd_mono)
  have p: "0 \<le> p" "fl p = Fin p" using v assms(1) fl_rep by auto
  let ?lo = "fl (p * rnd (1 - e))" and ?x = "fl (p * rnd (1 + q))" and ?hi = "fl (p * rnd (1 + i))"
  have "?lo \<le> ?x" "?x \<le> ?hi" using m p(1) by (auto intro!: fl_mono mult_left_mono)
  moreover have "?lo \<le> Fin p" using fl_mono[of "p * rnd (1 - e)" p] p s(5) mult_left_le[of "rnd (1 - e)" p] by simp
  moreover have "Fin p \<le> ?hi" using fl_mono[of p "p * rnd (1 + i)"] p s(6) mult_left_mono[of 1 "rnd (1 + i)" p] by simp
  ultimately have "Fin mn \<le> math_Max (Fin mn) (math_Min (Fin mx) ?x) \<and> math_Max (Fin mn) (math_Min (Fin mx) ?x) \<le> Fin mx \<and>
    ?lo \<le> math_Max (Fin mn) (math_Min (Fin mx) ?x) \<and> math_Max (Fin mn) (math_Min (Fin mx) ?x) \<le> ?hi"
    using v(5,6) by (intro clamp_between)
  moreover have "new_difficulty c d a = math_Max (Fin mn) (math_Min (Fin mx) ?x)"
    unfolding new_difficulty_def by (simp add: v(1-3) q(1) s(1) del: math_Max_Fin math_Min_Fin)
  moreover have "d * (Fin 1 - MaxDifficultyDecrease) = ?lo" "d * (Fin 1 + MaxDifficultyIncrease) = ?hi"
    by (simp_all add: v(3) ei(1,2) s(2,3))
  ultimately show ?thesis using v(1,2) by simp
qed

section \<open>Positions of the monsters\<close>

lemma attempt_Some: "attempt c n seen s = (Some p, s') \<Longrightarrow> p \<notin> set seen \<and> far_enough c p"
  by (induction c n seen s rule: attempt.induct) (auto split: prod.splits if_splits)

lemma length_place [simp]: "length (place c k is seen s) = length is"
  by (induction c k "is" seen s rule: place.induct) (auto split: prod.splits option.splits)

lemma place_spec:
  assumes "j < length is"
  shows "place c k is seen s ! j = fallback_position c k (is ! j) \<or>
    (far_enough c (place c k is seen s ! j) \<and> place c k is seen s ! j \<notin> set seen)"
  using assms
proof (induction c k "is" seen s arbitrary: j rule: place.induct)
  case (2 c k i "is" seen s)
  obtain o' s' where a: "attempt c attempts seen s = (o', s')" by fastforce
  show ?case
  proof (cases o')
    case None
    then show ?thesis using 2(1)[OF a[symmetric] None, of "j - 1"] a 2(3) by (cases j) auto
  next
    case (Some p)
    then show ?thesis using 2(2)[OF a[symmetric] Some, of "j - 1"] a 2(3) attempt_Some[of c attempts seen s p s']
      by (cases j) auto
  qed
qed simp

lemma positions_spec:
  "length (positions c k seed) = k \<and>
   (\<forall>i < k. far_enough c (positions c k seed ! i) \<or> positions c k seed ! i = fallback_position c k i)"
  using place_spec[of _ "[0..<k]" c k "[]" seed] by (auto simp: positions_def)

section \<open>Decisions\<close>

lemma RuleConfig_validate_Inr:
  assumes "RuleConfig_validate c = Inr u"
  shows "Fin 0 < rc_MinDifficulty c \<and> finite_f64 (rc_MaxDifficulty c) \<and> 1 \<le> rc_MaxMonsters c \<and> rc_MaxMonsters c \<le> 128"
proof -
  have f: "finite_f64 v" "Fin 0 < v" if "\<not> (IsNaN v \<or> IsInf v \<or> v \<le> Fin 0)" for v using that by (cases v; auto)+
  have "\<not> (IsNaN (rc_MinDifficulty c) \<or> IsInf (rc_MinDifficulty c) \<or> rc_MinDifficulty c \<le> Fin 0)"
    "\<not> (IsNaN (rc_MaxDifficulty c) \<or> IsInf (rc_MaxDifficulty c) \<or> rc_MaxDifficulty c \<le> Fin 0)"
    "\<not> rc_MaxMonsters c < 1" "\<not> 128 < rc_MaxMonsters c"
    using assms unfolding RuleConfig_validate_def by (auto split: if_splits)
  then show ?thesis using f by simp
qed

lemma Decide_split:
  "Decide pow c previous m = Inr (plan, d) \<longleftrightarrow>
     RuleConfig_validate c = Inr () \<and> Plan_Validate previous (rc_Min c) (rc_Max c) (rc_MaxMonsters c) = Inr () \<and>
     \<not> pl_DifficultyScore previous < rc_MinDifficulty c \<and> \<not> rc_MaxDifficulty c < pl_DifficultyScore previous \<and>
     Metrics_Validate m = Inr () \<and> plan = make_plan pow c previous m \<and>
     Plan_Validate plan (rc_Min c) (rc_Max c) (rc_MaxMonsters c) = Inr () \<and>
     d = \<lparr>dc_PreviousDifficulty = pl_DifficultyScore previous, dc_NewDifficulty = pl_DifficultyScore plan,
       dc_Adjustment = pl_DifficultyAdjustment plan, dc_MonsterCount = int (length (pl_Monsters plan)),
       dc_Seed = pl_Seed plan, dc_Reasons = snd (adjustment c m)\<rparr>"
  unfolding Decide_def Let_def by (auto split: sum.splits)

lemma length_make_plan: "length (pl_Monsters (make_plan pow c previous m)) = nat (monster_count c
    (int (length (pl_Monsters previous))) (pl_DifficultyScore (make_plan pow c previous m) / pl_DifficultyScore previous))"
  using positions_spec by (simp add: make_plan_def Let_def)

lemma make_plan_positions:
  assumes "s \<in> set (pl_Monsters (make_plan pow c previous m))"
  shows "far_enough c (sp_Position s) \<or> (\<exists>k i. sp_Position s = fallback_position c k i)"
proof -
  obtain k seed where "sp_Position s \<in> set (positions c k seed)"
    using assms by (auto simp: make_plan_def Let_def scale_spawn_def dest: set_zip_rightD)
  then show ?thesis using positions_spec[of c k seed] by (metis in_set_conv_nth)
qed

section \<open>The first stage is always there\<close>

text \<open>Between \<open>15/16\<close> and \<open>17/16\<close> of a multiple of the least positive value there are values below and above it.\<close>

lemma neighbours:
  assumes "0 < x" and "x = of_int n * tiny"
  shows "(\<exists>r. rnd r = r \<and> 15 / 16 * x \<le> r \<and> r \<le> x) \<and> (\<exists>r. rnd r = r \<and> x \<le> r \<and> r \<le> 17 / 16 * x)"
proof -
  define e where "e = ilog2 x - 4"
  have b: "2 powi ilog2 x \<le> x" "x < 2 powi (ilog2 x + 1)" using ilog2_bounds[OF assms(1)] by auto
  have p: "2 powi ilog2 x = 16 * (2 powi e :: rat)" "2 powi (ilog2 x + 1) = 32 * (2 powi e :: rat)"
    using powi_split[of e "ilog2 x"] powi_split[of e "ilog2 x + 1"] by (simp_all add: e_def)
  have e0: "0 < (2 powi e :: rat)" by simp
  show ?thesis
  proof (cases "- 1074 \<le> e")
    case True
    define p where "p = (2 powi e :: rat)"
    define lo where "lo = \<lfloor>x / p\<rfloor>"
    define hi where "hi = \<lceil>x / p\<rceil>"
    have p0: "0 < p" using e0 by (simp add: p_def)
    have q: "16 \<le> x / p" "x / p < 32" using b p0 unfolding p p_def[symmetric] by (simp_all add: pos_le_divide_eq pos_divide_less_eq)
    then have "16 \<le> lo" "lo < 32" "16 \<le> hi" "hi \<le> 32"
      unfolding lo_def hi_def by (simp_all add: le_floor_iff floor_less_iff ceiling_le_iff)
    then have r: "rnd (of_int lo * p) = of_int lo * p" "rnd (of_int hi * p) = of_int hi * p"
      using rnd_grid_le[OF _ True] unfolding p_def by simp_all
    have lo: "of_int lo * p \<le> x" "x < (of_int lo + 1) * p"
      using floor_divide_lower[OF p0, of x] floor_divide_upper[OF p0, of x] by (simp_all add: lo_def)
    have hi: "x \<le> of_int hi * p" "(of_int hi - 1) * p < x"
      using ceiling_divide_lower[OF p0, of x] ceiling_divide_upper[OF p0, of x] by (simp_all add: hi_def)
    have "16 * p \<le> x" using b(1) unfolding p p_def[symmetric] .
    moreover have "(of_int lo + 1) * p = of_int lo * p + p" "(of_int hi - 1) * p = of_int hi * p - p" by (simp_all add: algebra_simps)
    ultimately have "15 / 16 * x \<le> of_int lo * p" "of_int hi * p \<le> 17 / 16 * x" using lo hi by linarith+
    then show ?thesis using r lo(1) hi(1) by blast
  next
    case False
    have "x < 2 powi (- 1069)" using b(2) False power_int_increasing[of "ilog2 x + 1" "- 1069" "2 :: rat"] by (simp add: e_def)
    also have "(2 powi (- 1069) :: rat) = 32 * tiny" using powi_split[of "- 1074" "- 1069"] by (simp add: tiny_def)
    finally have "of_int n * tiny < 32 * tiny" using assms(2) by simp
    then have "(of_int n :: rat) < 32" by simp
    then have "n < 32" by (metis of_int_less_iff of_int_numeral)
    moreover have "0 \<le> n" using assms(1) tiny_pos unfolding assms(2) by (metis less_asym not_less of_int_0_le_iff zero_less_mult_iff)
    ultimately have "rnd x = x" unfolding assms(2) tiny_def by (intro rnd_grid_le) auto
    then show ?thesis using assms(1) by (intro conjI exI[of _ x]) linarith+
  qed
qed

text \<open>A fraction of the way from one bound to the other ends between the bounds.\<close>

lemma fraction_in_range:
  assumes "is_f64 (Fin a)" and "is_f64 (Fin b)" and "a < b" and "0 \<le> f" and "f \<le> 7 / 8"
    and "\<bar>a\<bar> \<le> 1000000" and "\<bar>b\<bar> \<le> 1000000"
  shows "\<exists>v. Fin a + (Fin b - Fin a) * Fin f = Fin v \<and> a \<le> v \<and> v \<le> b"
proof -
  obtain m n where mn: "a = of_int m * tiny" "b = of_int n * tiny" using rnd_multiple[of a] rnd_multiple[of b] assms(1,2) by auto
  have x: "0 < b - a" "b - a = of_int (n - m) * tiny" using assms(3) by (simp_all add: mn algebra_simps)
  obtain lo hi where lo: "rnd lo = lo" "15 / 16 * (b - a) \<le> lo" "lo \<le> b - a"
    and hi: "rnd hi = hi" "b - a \<le> hi" "hi \<le> 17 / 16 * (b - a)" using neighbours[OF x] by blast
  have big: "is_f64 (Fin 0)" "is_f64 (Fin 4000000)" by simp_all
  have w: "fl (b - a) = Fin (rnd (b - a))" "0 \<le> rnd (b - a)" using fl_finite_between[OF big, of "b - a"] assms(3,6,7) by auto
  have "rnd (b - a) \<le> hi" using ieee.upper[of "b - a" hi] hi by simp
  then have "rnd (b - a) * f \<le> 17 / 16 * (b - a) * (7 / 8)" using hi(3) w(2) assms(4,5) by (intro mult_mono) auto
  also have "\<dots> \<le> lo" using lo(2) x(1) by simp
  finally have y: "rnd (b - a) * f \<le> lo" "0 \<le> rnd (b - a) * f" using w(2) assms(4) by auto
  have "rnd (rnd (b - a) * f) \<le> b - a" "0 \<le> rnd (rnd (b - a) * f)"
    using ieee.upper[OF y(1)] lo ieee.nonneg[OF y(2)] by auto
  moreover have "fl (rnd (b - a) * f) = Fin (rnd (rnd (b - a) * f))"
    using fl_finite_between[OF big, of "rnd (b - a) * f"] y lo(3) assms(6,7) by auto
  ultimately show ?thesis
    using fl_finite_between[OF assms(1,2), of "a + rnd (rnd (b - a) * f)"] by (auto simp: w(1))
qed

lemma fractions_range:
  assumes "p \<in> set fractions"
  shows "\<exists>f g. p = vec2 (Fin f) (Fin g) \<and> 0 \<le> f \<and> f \<le> 7 / 8 \<and> 0 \<le> g \<and> g \<le> 7 / 8"
proof -
  have r: "\<exists>f. fl (x / 100) = Fin f \<and> 0 \<le> f \<and> f \<le> 7 / 8" if "x \<in> {15, 50, 85}" for x
    using fl_finite_between[of 0 "7 / 8" "x / 100"] rnd_eighths[of 7] that by auto
  obtain x y where xy: "p = vec2 (fl (x / 100)) (fl (y / 100))" "x \<in> {15, 50, 85}" "y \<in> {15, 50, 85}"
  proof -
    obtain z where "z \<in> set [(15, 15), (50, 15), (85, 15), (85, 50), (85, 85), (50, 85), (15, 85), (15, 50 :: rat)]"
      "p = (case z of (x, y) \<Rightarrow> vec2 (fl (x / 100)) (fl (y / 100)))"
      using assms unfolding fractions_def set_map by blast
    then show ?thesis by (intro that[of "fst z" "snd z"]) auto
  qed
  then show ?thesis using r[OF xy(2)] r[OF xy(3)] by auto
qed

lemma candidates_in_map:
  assumes "config_ok c" and "p \<in> set (candidates c)"
  shows "in_bounds (g_Min c) (g_Max c) p"
proof -
  obtain a b d e where c: "g_Min c = vec2 (Fin a) (Fin b)" "g_Max c = vec2 (Fin d) (Fin e)" "a < d" "b < e"
    "\<bar>a\<bar> \<le> 1000000" "\<bar>b\<bar> \<le> 1000000" "\<bar>d\<bar> \<le> 1000000" "\<bar>e\<bar> \<le> 1000000"
    using config_bounds[OF assms(1)] by metis
  have r: "is_f64 (Fin a)" "is_f64 (Fin b)" "is_f64 (Fin d)" "is_f64 (Fin e)"
    using assms(1) by (simp_all add: config_ok_def vec_ok_def c)
  obtain q where q: "q \<in> set fractions" "p = vec2 (Fin a + (Fin d - Fin a) * X q) (Fin b + (Fin e - Fin b) * Y q)"
    using assms(2) by (auto simp: candidates_def c)
  obtain f g where fg: "q = vec2 (Fin f) (Fin g)" "0 \<le> f" "f \<le> 7 / 8" "0 \<le> g" "g \<le> 7 / 8"
    using fractions_range[OF q(1)] by blast
  show ?thesis
    using fraction_in_range[OF r(1,3) c(3) fg(2,3) c(5,7)] fraction_in_range[OF r(2,4) c(4) fg(4,5) c(6,8)]
    by (auto simp: in_bounds_def c q(2) fg(1) simp del: minus_f64_Fin)
qed

lemma walk_order_perm: "mset (walk_order seed) = mset [0..<8]"
proof -
  have all: "list_all (\<lambda>s. list_all (\<lambda>t. sort (map (\<lambda>i. (s + i * t) mod 8) [0..<8]) = [0..<8]) [3, 5]) [0..<8]" by code_simp
  have perm: "mset (map (\<lambda>i. (s + i * t) mod 8) [0..<8]) = mset [0..<8]" if "s < 8" "t = 3 \<or> t = 5" for s t
  proof -
    have "sort (map (\<lambda>i. (s + i * t) mod 8) [0..<8]) = [0..<8]" using all that by (auto simp: list_all_iff)
    then show ?thesis by (metis mset_sort)
  qed
  obtain r st where n: "nextSplitMix64 seed = (r, st)" by fastforce
  have "unat (r mod 8) < 8" using mod_index_less[of 8 r] by simp
  then show ?thesis using perm by (simp add: walk_order_def n Let_def)
qed

lemma first_positions_perm: "mset (first_positions c seed) = mset (candidates c)"
proof -
  have n: "length (candidates c) = 8" by (simp add: candidates_def fractions_def)
  have "mset (first_positions c seed) = mset (map (\<lambda>i. candidates c ! i) (walk_order seed))"
    by (simp add: first_positions_def Let_def)
  also have "\<dots> = image_mset (\<lambda>i. candidates c ! i) (mset [0..<8])" using walk_order_perm by simp
  also have "\<dots> = mset (map (\<lambda>i. candidates c ! i) [0..<length (candidates c)])" by (simp only: n mset_map)
  finally show ?thesis by (simp only: map_nth)
qed

lemma first_plan_valid:
  assumes "config_ok c" and "8 \<le> cc_MaxMonsters (g_Combat c)"
  shows "ValidateStage (first_plan c seed) c = Inr () \<and> length (pl_Monsters (first_plan c seed)) = 8 \<and>
    mset (map sp_Position (pl_Monsters (first_plan c seed))) = mset (candidates c)"
proof -
  have l: "length (first_positions c seed) = 8"
    using arg_cong[OF first_positions_perm[of c seed], of size] by (simp add: candidates_def fractions_def)
  have m: "map sp_Position (pl_Monsters (first_plan c seed)) = first_positions c seed"
    using l map_nth[of "first_positions c seed"] by (simp add: first_plan_def firstStageMonsterCount_def comp_def)
  have st: "CombatStats_Valid \<lparr>cs_Attack = Fin 5, cs_Defense = Fin 0, cs_MaxHealth = Fin 30, cs_MoveSpeed = fl (17 / 10),
         cs_AttackCooldownTicks = word_of_int (TickRate + TickRate div 2)\<rparr>" by code_simp
  obtain r where r: "fl (4 / 10) = Fin r" "0 < r" "r \<le> 10"
  proof -
    have "rnd (1 / 8) = 1 / 8" using rnd_eighths[of 1] by simp
    then show ?thesis using fl_finite_between[of "1 / 8" 1 "4 / 10"] that by auto
  qed
  have "\<not> spawn_invalid (g_Min c) (g_Max c) s" if s: "s \<in> set (pl_Monsters (first_plan c seed))" for s
  proof -
    have "sp_Position s \<in> set (first_positions c seed)" using s m by (metis imageI list.set_map)
    then have "in_bounds (g_Min c) (g_Max c) (sp_Position s)"
      using candidates_in_map[OF assms(1)] first_positions_perm by (metis set_mset_mset)
    moreover have "Vec2_Finite (g_Min c) \<and> Vec2_Finite (g_Max c)" using assms(1) by (simp add: config_ok_def Config_Validate_def)
    ultimately have "Vec2_Finite (sp_Position s) \<and> \<not> (X (sp_Position s) < X (g_Min c) \<or> X (g_Max c) < X (sp_Position s) \<or>
        Y (sp_Position s) < Y (g_Min c) \<or> Y (g_Max c) < Y (sp_Position s))"
      unfolding in_bounds_def Vec2_Finite_iff by (cases "sp_Position s", cases "X (sp_Position s)"; cases "Y (sp_Position s)") auto
    moreover have "sp_Radius s = Fin r" "sp_AttackRange s = Fin 1" "CombatStats_Valid (sp_Stats s)"
      using s st r(1) by (auto simp: first_plan_def)
    ultimately show ?thesis using r by (simp add: spawn_invalid_def)
  qed
  then have "\<not> list_ex (spawn_invalid (g_Min c) (g_Max c)) (pl_Monsters (first_plan c seed))" by (auto simp: list_ex_iff)
  then show ?thesis using assms(2) m first_positions_perm
    by (simp add: ValidateStage_def Plan_Validate_def) (simp add: first_plan_def firstStageMonsterCount_def)
qed

section \<open>Properties\<close>

text \<open>C39: Every plan the director makes is valid for the map, follows its predecessor, stays within the
  configured difficulties and within 15 percent below and 20 percent above the difficulty before
  (as the code rounds these products), and places each monster away from the players' spawn point or
  on the fallback point of its number.\<close>

theorem Decide_bounded:
  assumes "Decide pow c previous m = Inr (plan, d)" and "is_f64 (pl_DifficultyScore previous)" and "is_f64 (rc_MaxDifficulty c)"
  shows "Plan_Validate plan (rc_Min c) (rc_Max c) (rc_MaxMonsters c) = Inr () \<and> pl_Index plan = pl_Index previous + 1 \<and>
    rc_MinDifficulty c \<le> pl_DifficultyScore plan \<and> pl_DifficultyScore plan \<le> rc_MaxDifficulty c \<and>
    pl_DifficultyScore previous * (Fin 1 - fl (15 / 100)) \<le> pl_DifficultyScore plan \<and>
    pl_DifficultyScore plan \<le> pl_DifficultyScore previous * (Fin 1 + fl (20 / 100)) \<and>
    dc_NewDifficulty d = pl_DifficultyScore plan \<and> dc_MonsterCount d = int (length (pl_Monsters plan)) \<and>
    1 \<le> dc_MonsterCount d \<and> dc_MonsterCount d \<le> rc_MaxMonsters c \<and>
    (\<forall>s \<in> set (pl_Monsters plan). far_enough c (sp_Position s) \<or> (\<exists>k i. sp_Position s = fallback_position c k i))"
proof -
  note s = assms(1)[unfolded Decide_split]
  have c: "Fin 0 < rc_MinDifficulty c" "finite_f64 (rc_MaxDifficulty c)" using RuleConfig_validate_Inr s by auto
  have f: "finite_f64 (pl_DifficultyScore previous)" using s by (auto simp: Plan_Validate_def split: if_splits)
      (cases "pl_DifficultyScore previous"; simp)
  have "\<not> x < y \<longleftrightarrow> y \<le> x" if "finite_f64 x" "finite_f64 y \<or> Fin 0 < y" for x y :: f64
    using that by (cases x; cases y) auto
  then have "rc_MinDifficulty c \<le> pl_DifficultyScore previous" "pl_DifficultyScore previous \<le> rc_MaxDifficulty c"
    using s c f by (auto simp: not_less)
  from new_difficulty_between[OF assms(2) this c(1) assms(3) c(2) adjustment_bounds[of c m, THEN conjunct1]
      adjustment_bounds[of c m, THEN conjunct2]]
  have nd: "rc_MinDifficulty c \<le> pl_DifficultyScore plan \<and> pl_DifficultyScore plan \<le> rc_MaxDifficulty c \<and>
    pl_DifficultyScore previous * (Fin 1 - fl (15 / 100)) \<le> pl_DifficultyScore plan \<and>
    pl_DifficultyScore plan \<le> pl_DifficultyScore previous * (Fin 1 + fl (20 / 100))"
    using s by (simp add: make_plan_def Let_def MaxDifficultyDecrease_def MaxDifficultyIncrease_def)
  have "pl_Monsters plan \<noteq> []" "int (length (pl_Monsters plan)) \<le> rc_MaxMonsters c"
    using s by (auto simp: Plan_Validate_def split: if_splits)
  then have "1 \<le> dc_MonsterCount d \<and> dc_MonsterCount d \<le> rc_MaxMonsters c" using s by (cases "pl_Monsters plan") auto
  moreover have "pl_Index plan = pl_Index previous + 1" using s by (simp add: make_plan_def Let_def)
  moreover have "\<forall>t \<in> set (pl_Monsters plan). far_enough c (sp_Position t) \<or> (\<exists>k i. sp_Position t = fallback_position c k i)"
    using s make_plan_positions by metis
  moreover have "Plan_Validate plan (rc_Min c) (rc_Max c) (rc_MaxMonsters c) = Inr ()" using s by blast
  moreover have "dc_NewDifficulty d = pl_DifficultyScore plan" "dc_MonsterCount d = int (length (pl_Monsters plan))"
    using s by simp_all
  ultimately show ?thesis using nd by blast
qed

definition sample_rules :: RuleConfig where
  "sample_rules = (DefaultRuleConfig zero_vec (vec2 (Fin 20) (Fin 20)) (vec2 (Fin 10) (Fin 10)) 64)
     \<lparr>rc_MinDifficulty := Fin 1, rc_MaxDifficulty := Fin 1\<rparr>"

definition sample_previous :: Plan where
  "sample_previous = \<lparr>pl_Index = 1, pl_Seed = 7, pl_DifficultyScore = Fin 1,
     pl_Monsters = [\<lparr>sp_Position = vec2 (Fin 3) (Fin 3),
       sp_Stats = \<lparr>cs_Attack = Fin 5, cs_Defense = Fin 0, cs_MaxHealth = Fin 30, cs_MoveSpeed = Fin 2, cs_AttackCooldownTicks = 45\<rparr>,
       sp_Radius = Fin (1 / 2), sp_AttackRange = Fin 1\<rparr>],
     pl_DifficultyAdjustment = Fin 0, pl_PreviousClearSeconds = Fin 0, pl_PreviousTeamHPPercent = Fin 0\<rparr>"

definition sample_metrics :: PerformanceMetrics where
  "sample_metrics = \<lparr>pm_ClearTimeSeconds = Fin 40, pm_TeamHPPercent = Fin (1 / 2), pm_AverageDPS = Fin 30,
     pm_DeathCount = 1, pm_DamageTaken = Fin 50, pm_EquipmentPower = Fin 1\<rparr>"

lemma randomUnit_range: "\<exists>u s'. randomUnit s = (Fin u, s') \<and> 0 \<le> u \<and> u \<le> 1"
proof -
  obtain r s' where r: "nextRandom s = (r, s')" by fastforce
  let ?n = "uint (drop_bit 11 r)"
  have "?n = uint r div 2 ^ 11" by (simp add: drop_bit_eq_div uint_div)
  moreover have "uint r < 2 ^ 64" using uint_lt2p[of r] by simp
  ultimately have "?n \<le> 2 ^ 53" by simp
  then obtain n where n: "uint (drop_bit 11 r) = n" "0 \<le> n" "n \<le> 2 ^ 53" by simp
  have "fl (1 / 2 ^ 53) = Fin (1 / 2 ^ 53)"
    using rnd_powi[of "- 53"] by (intro fl_rep) (simp add: power_int_def power_one_over)
  moreover have "f64_of_int n = Fin (of_int n)" using n fl_int[of n] by (simp add: f64_of_int_def)
  moreover have "of_int n \<le> (2 ^ 53 :: rat)" using n(3) by (metis of_int_le_iff of_int_numeral of_int_power)
  ultimately show ?thesis
    using fl_finite_between[of 0 1 "of_int n * (1 / 2 ^ 53)"] n(2) by (auto simp: randomUnit_def r n(1))
qed

lemma sample_area: "\<exists>m u. spawn_area_of sample_rules = \<lparr>sa_marginX = Fin m, sa_marginY = Fin m, sa_usableWidth = Fin u,
    sa_usableHeight = Fin u, sa_minimum = sa_minimum (spawn_area_of sample_rules)\<rparr> \<and>
    0 \<le> m \<and> 0 \<le> u \<and> m + u \<le> 20 \<and> is_f64 (Fin m) \<and> is_f64 (Fin u)"
proof -
  have w: "X (rc_Max sample_rules) - X (rc_Min sample_rules) = Fin 20" "Y (rc_Max sample_rules) - Y (rc_Min sample_rules) = Fin 20"
    by (simp_all add: sample_rules_def DefaultRuleConfig_def zero_vec_def)
  obtain q where q: "fl (8 / 100) = Fin q" "1 / 16 \<le> q" "q \<le> 1 / 8"
    using fl_finite_between[of "1 / 16" "1 / 8" "8 / 100"] rnd_powi[of "- 4"] rnd_eighths[of 1]
    by (auto simp: power_int_def power_one_over)
  have r: "is_f64 (Fin (5 / 4))" "is_f64 (Fin (5 / 2))" "is_f64 (Fin 5)" "is_f64 (Fin 15)" "is_f64 (Fin (35 / 2))"
    using rnd_eighths[of 10] rnd_eighths[of 20] rnd_eighths[of 140] by simp_all
  obtain m where m: "Fin 20 * fl (8 / 100) = Fin m" "5 / 4 \<le> m" "m \<le> 5 / 2"
    using fl_finite_between[OF r(1,2), of "20 * q"] q by auto
  obtain d where d: "Fin 2 * Fin m = Fin d" "5 / 2 \<le> d" "d \<le> 5"
    using fl_finite_between[OF r(2,3), of "2 * m"] m by auto
  obtain u where u: "Fin 20 - Fin d = Fin u" "15 \<le> u" "u \<le> 35 / 2"
    using fl_finite_between[OF r(4,5), of "20 - d"] d by auto
  have "is_f64 (Fin m)" "is_f64 (Fin u)" using m(1) u(1) by (metis is_f64_times, metis is_f64_minus)
  then show ?thesis unfolding spawn_area_of_def w Let_def m(1) d(1) u(1)
    using m u by (intro exI[of _ m] exI[of _ u]) simp
qed

lemma sample_coordinate:
  assumes "0 \<le> m" and "0 \<le> u" and "m + u \<le> 20" and "is_f64 (Fin m)" and "is_f64 (Fin u)" and "0 \<le> f" and "f \<le> 1"
  shows "\<exists>v. Fin 0 + Fin m + Fin f * Fin u = Fin v \<and> 0 \<le> v \<and> v \<le> 20"
proof -
  have z: "is_f64 (Fin 0)" "is_f64 (Fin 20)" by simp_all
  have "f * u \<le> u" "0 \<le> f * u" using assms(2,6,7) by (auto simp: mult_left_le_one_le)
  then have p: "fl (f * u) = Fin (rnd (f * u))" "0 \<le> rnd (f * u)" "rnd (f * u) \<le> u"
    using fl_finite_between[OF z(1) assms(5), of "f * u"] by auto
  have "Fin 0 + Fin m = Fin m" using assms(4) fl_rep by simp
  then show ?thesis using fl_finite_between[OF z, of "m + rnd (f * u)"] p assms(1,3) by auto
qed

lemma sample_in_map: "p \<in> set (place sample_rules k is seen s) \<Longrightarrow> set is \<subseteq> {0..<k} \<Longrightarrow> k < 2 ^ 53 \<Longrightarrow>
  in_bounds zero_vec (vec2 (Fin 20) (Fin 20)) p"
proof -
  obtain m u where a: "spawn_area_of sample_rules = \<lparr>sa_marginX = Fin m, sa_marginY = Fin m, sa_usableWidth = Fin u,
      sa_usableHeight = Fin u, sa_minimum = sa_minimum (spawn_area_of sample_rules)\<rparr>"
    and mu: "0 \<le> m" "0 \<le> u" "m + u \<le> 20" "is_f64 (Fin m)" "is_f64 (Fin u)" using sample_area by blast
  have e: "sa_marginX (spawn_area_of sample_rules) = Fin m" "sa_marginY (spawn_area_of sample_rules) = Fin m"
    "sa_usableWidth (spawn_area_of sample_rules) = Fin u" "sa_usableHeight (spawn_area_of sample_rules) = Fin u"
    by (subst a, simp)+
  have mn: "X (rc_Min sample_rules) = Fin 0" "Y (rc_Min sample_rules) = Fin 0"
    by (simp_all add: sample_rules_def DefaultRuleConfig_def zero_vec_def)
  have box: "in_bounds zero_vec (vec2 (Fin 20) (Fin 20)) (vec2 (Fin 0 + Fin m + Fin f * Fin u) (Fin 0 + Fin m + Fin g * Fin u))"
    if "0 \<le> f" "f \<le> 1" "0 \<le> g" "g \<le> 1" for f g
    using sample_coordinate[OF mu that(1,2)] sample_coordinate[OF mu that(3,4)]
    by (auto simp: in_bounds_def zero_vec_def simp del: plus_f64.simps times_f64.simps)
  have d: "in_bounds zero_vec (vec2 (Fin 20) (Fin 20)) (fst (draw_position sample_rules s))" for s
  proof -
    obtain f t where f: "randomUnit s = (Fin f, t)" "0 \<le> f" "f \<le> 1" using randomUnit_range by blast
    obtain g t' where g: "randomUnit t = (Fin g, t')" "0 \<le> g" "g \<le> 1" using randomUnit_range by blast
    show ?thesis using box[OF f(2,3) g(2,3)] by (simp add: draw_position_def e mn f(1) g(1) Let_def)
  qed
  have at: "attempt sample_rules n seen s = (Some p, s') \<Longrightarrow> in_bounds zero_vec (vec2 (Fin 20) (Fin 20)) p" for n seen s p s'
    by (induction n arbitrary: s) (auto split: prod.splits if_splits, metis d fst_conv)
  have fb: "in_bounds zero_vec (vec2 (Fin 20) (Fin 20)) (fallback_position sample_rules k i)" if "i < k" "k < 2 ^ 53" for i k
  proof -
    have n: "f64_of_int (int i + 1) = Fin (of_int (int i + 1))" "f64_of_int (int k + 1) = Fin (of_int (int k + 1))"
      using that fl_int[of "int i + 1"] fl_int[of "int k + 1"] by (simp_all add: f64_of_int_def)
    have "of_int (int i + 1) / of_int (int k + 1) \<le> (1 :: rat)" "0 \<le> of_int (int i + 1) / (of_int (int k + 1) :: rat)"
      using that(1) by (simp_all add: pos_divide_le_eq)
    then obtain f where f: "Fin (of_int (int i + 1)) / Fin (of_int (int k + 1)) = Fin f" "0 \<le> f" "f \<le> 1"
      using fl_finite_between[of 0 1] by fastforce
    obtain q where q: "fl (6180339887498949 / 10000000000000000) = Fin q" "0 \<le> q" "q \<le> 1"
      using fl_finite_between[of 0 1 "6180339887498949 / 10000000000000000"] by auto
    obtain g where g: "Fin f * Fin q = Fin g" "0 \<le> g" "g \<le> 1"
      using fl_finite_between[of 0 1 "f * q"] f q by (auto simp: mult_le_one)
    obtain h where h: "math_Mod (Fin g) (Fin 1) = Fin h" "0 \<le> h" "h \<le> 1"
      using g by (auto simp: Let_def) linarith+
    show ?thesis using box[OF f(2,3) h(2,3)]
      unfolding fallback_position_def Let_def n f(1) q(1) g(1) h(1) e mn by simp
  qed
  show "p \<in> set (place sample_rules k is seen s) \<Longrightarrow> set is \<subseteq> {0..<k} \<Longrightarrow> k < 2 ^ 53 \<Longrightarrow>
    in_bounds zero_vec (vec2 (Fin 20) (Fin 20)) p"
    by (induction "is" arbitrary: seen s) (auto split: prod.splits option.splits intro: fb at[OF sym])
qed

lemma sample_Decide: "\<exists>plan d. Decide (\<lambda>_ _. Fin 1) sample_rules sample_previous sample_metrics = Inr (plan, d)"
proof -
  let ?c = sample_rules and ?p = sample_previous and ?m = sample_metrics
  let ?plan = "make_plan (\<lambda>_ _. Fin 1) ?c ?p ?m"
  have d: "pl_DifficultyScore ?p = Fin 1" "rc_MinDifficulty ?c = Fin 1" "rc_MaxDifficulty ?c = Fin 1"
    "length (pl_Monsters ?p) = 1" "pl_Monsters ?p \<noteq> []"
    by (simp_all add: sample_previous_def sample_rules_def)
  have v: "RuleConfig_validate ?c = Inr ()" "Plan_Validate ?p (rc_Min ?c) (rc_Max ?c) (rc_MaxMonsters ?c) = Inr ()"
    "Metrics_Validate ?m = Inr ()" by code_simp+
  have nd: "new_difficulty ?c (Fin 1) (fst (adjustment ?c ?m)) = Fin 1"
  proof -
    have "fst (adjustment ?c ?m) \<noteq> NaN" using adjustment_bounds[of ?c ?m] by auto
    then have "Fin 1 * (Fin 1 + fst (adjustment ?c ?m)) \<noteq> NaN"
      by (cases "fst (adjustment ?c ?m)") (auto simp: fl_def Let_def)
    then show ?thesis using clamp_f64[of "Fin 1 * (Fin 1 + fst (adjustment ?c ?m))" 1 1]
      by (auto simp: new_difficulty_def d)
  qed
  have one: "math_Sqrt (Fin 1 / Fin 1) = Fin 1" "math_Sqrt (Fin 1 / Fin 1 * f64_of_int 1 / f64_of_int 1) = Fin 1"
    "monster_count ?c 1 (Fin 1 / Fin 1) = 1" by code_simp+
  let ?seed = "fst (nextRandom (pl_Seed ?p XOR (ucast (pl_Index ?p + 1) * 0x9e3779b97f4a7c15)))"
  obtain q where q: "positions ?c 1 ?seed = [q]"
    using positions_spec[of ?c 1 ?seed] by (cases "positions ?c 1 ?seed") auto
  have n: "int (length (pl_Monsters ?p)) = 1" by (simp add: d)
  have plan: "?plan = \<lparr>pl_Index = pl_Index ?p + 1, pl_Seed = ?seed, pl_DifficultyScore = Fin 1,
      pl_Monsters = [scale_spawn (\<lambda>_ _. Fin 1) (Fin 1) (pl_Monsters ?p ! 0) q],
      pl_DifficultyAdjustment = Fin 1 / Fin 1 - Fin 1, pl_PreviousClearSeconds = pm_ClearTimeSeconds ?m,
      pl_PreviousTeamHPPercent = pm_TeamHPPercent ?m\<rparr>"
    unfolding make_plan_def Let_def n d(1) nd one nat_1 One_nat_def[symmetric] q by (simp add: d(4))
  have p: "in_bounds zero_vec (vec2 (Fin 20) (Fin 20)) q"
    using sample_in_map[of q 1 "[0..<1]" "[]" ?seed] q unfolding positions_def by (simp del: place.simps)
  then have "\<not> spawn_invalid (rc_Min ?c) (rc_Max ?c) (scale_spawn (\<lambda>_ _. Fin 1) (Fin 1) (pl_Monsters ?p ! 0) q)"
    by (cases q; cases "X q"; cases "Y q")
      (auto simp: spawn_invalid_def scale_spawn_def Let_def sample_previous_def sample_rules_def DefaultRuleConfig_def
        in_bounds_def zero_vec_def Vec2_Finite_def CombatStats_Valid_def)
  moreover have "pl_Index ?p + 1 \<noteq> 0" "1 \<le> rc_MaxMonsters ?c"
    by (simp_all add: sample_previous_def sample_rules_def DefaultRuleConfig_def)
  ultimately have "Plan_Validate ?plan (rc_Min ?c) (rc_Max ?c) (rc_MaxMonsters ?c) = Inr ()"
    unfolding plan by (simp add: Plan_Validate_def)
  then show ?thesis unfolding Decide_split using v d(1-3) by auto
qed

theorem Decide_bounded_witness:
  "\<exists>plan d. Decide (\<lambda>_ _. Fin 1) sample_rules sample_previous sample_metrics = Inr (plan, d) \<and> pl_Index plan = 2 \<and>
     pl_DifficultyScore plan \<le> Fin 1 * (Fin 1 + fl (20 / 100)) \<and> 1 \<le> dc_MonsterCount d"
proof -
  obtain plan d where d: "Decide (\<lambda>_ _. Fin 1) sample_rules sample_previous sample_metrics = Inr (plan, d)"
    using sample_Decide by blast
  have "is_f64 (pl_DifficultyScore sample_previous)" "is_f64 (rc_MaxDifficulty sample_rules)"
    by (simp_all add: sample_previous_def sample_rules_def)
  from Decide_bounded[OF d this] d show ?thesis by (auto simp: sample_previous_def)
qed

text \<open>C40: The first stage can always be generated: for every valid world configuration that allows at
  least eight monsters and every seed there is a valid plan with index 1, and its eight monsters stand
  on the eight authored points, each used once.\<close>

theorem NewFirstStagePlan_total:
  assumes "config_ok c" and "8 \<le> cc_MaxMonsters (g_Combat c)"
  shows "\<exists>plan. NewFirstStagePlan c seed = Inr plan \<and> ValidateStage plan c = Inr () \<and> pl_Index plan = 1 \<and>
    pl_Seed plan = seed \<and> mset (map sp_Position (pl_Monsters plan)) = mset (candidates c)"
proof -
  have "Config_Validate c" using assms(1) by (simp add: config_ok_def)
  then show ?thesis using first_plan_valid[OF assms, of seed] assms(2)
    by (simp add: NewFirstStagePlan_def firstStageMonsterCount_def Let_def) (simp add: first_plan_def)
qed

theorem NewFirstStagePlan_total_witness:
  "\<exists>plan. NewFirstStagePlan DefaultConfig 42 = Inr plan \<and> ValidateStage plan DefaultConfig = Inr () \<and> pl_Index plan = 1"
  using NewFirstStagePlan_total[OF config_ok_Default, of 42] by (auto simp: DefaultConfig_def DefaultCombatConfig_def)

end
