(* ===== verification/Protocol.thy ===== *)
theory Protocol
  imports Prelude
begin

text \<open>
  The constants of the wire protocol (\<open>proto/common.proto\<close>).  A message type is the number in the
  frame header; a client may send any number, so the type of message types is the type of that header
  field.  The server only ever produces the listed reasons and session states.
\<close>

type_synonym message_type = u16

definition MSG_PING :: message_type where "MSG_PING = 1"
definition MSG_PONG :: message_type where "MSG_PONG = 2"
definition MSG_DISCONNECT :: message_type where "MSG_DISCONNECT = 3"
definition MSG_LOGIN_REQUEST :: message_type where "MSG_LOGIN_REQUEST = 101"
definition MSG_LOGIN_RESPONSE :: message_type where "MSG_LOGIN_RESPONSE = 102"
definition MSG_RESUME_REQUEST :: message_type where "MSG_RESUME_REQUEST = 103"
definition MSG_RESUME_RESPONSE :: message_type where "MSG_RESUME_RESPONSE = 104"
definition MSG_MATCH_REQUEST :: message_type where "MSG_MATCH_REQUEST = 200"
definition MSG_MATCH_FOUND :: message_type where "MSG_MATCH_FOUND = 201"
definition MSG_MATCH_CANCEL :: message_type where "MSG_MATCH_CANCEL = 202"
definition MSG_PLAYER_INPUT :: message_type where "MSG_PLAYER_INPUT = 300"
definition MSG_WORLD_SNAPSHOT :: message_type where "MSG_WORLD_SNAPSHOT = 310"
definition MSG_PROJECTILE_SPAWN :: message_type where "MSG_PROJECTILE_SPAWN = 320"
definition MSG_PROJECTILE_DESTROY :: message_type where "MSG_PROJECTILE_DESTROY = 321"
definition MSG_DAMAGE_EVENT :: message_type where "MSG_DAMAGE_EVENT = 322"
definition MSG_DEATH_EVENT :: message_type where "MSG_DEATH_EVENT = 323"
definition MSG_STAGE_STARTED_EVENT :: message_type where "MSG_STAGE_STARTED_EVENT = 325"
definition MSG_STAGE_CLEARED_EVENT :: message_type where "MSG_STAGE_CLEARED_EVENT = 326"
definition MSG_TEAM_DEFEATED_EVENT :: message_type where "MSG_TEAM_DEFEATED_EVENT = 327"
definition MSG_REWARD_OPTIONS :: message_type where "MSG_REWARD_OPTIONS = 410"
definition MSG_REWARD_CHOICE :: message_type where "MSG_REWARD_CHOICE = 411"
definition MSG_REWARD_APPLIED :: message_type where "MSG_REWARD_APPLIED = 412"
definition MSG_NEXT_STAGE_REQUEST :: message_type where "MSG_NEXT_STAGE_REQUEST = 413"

lemmas message_defs = MSG_PING_def MSG_PONG_def MSG_DISCONNECT_def MSG_LOGIN_REQUEST_def MSG_LOGIN_RESPONSE_def
  MSG_RESUME_REQUEST_def MSG_RESUME_RESPONSE_def MSG_MATCH_REQUEST_def MSG_MATCH_FOUND_def MSG_MATCH_CANCEL_def
  MSG_PLAYER_INPUT_def MSG_WORLD_SNAPSHOT_def MSG_PROJECTILE_SPAWN_def MSG_PROJECTILE_DESTROY_def MSG_DAMAGE_EVENT_def
  MSG_DEATH_EVENT_def MSG_STAGE_STARTED_EVENT_def MSG_STAGE_CLEARED_EVENT_def MSG_TEAM_DEFEATED_EVENT_def
  MSG_REWARD_OPTIONS_def MSG_REWARD_CHOICE_def MSG_REWARD_APPLIED_def MSG_NEXT_STAGE_REQUEST_def

datatype ReasonCode = REASON_UNSPECIFIED | REASON_OK | REASON_INTERNAL | REASON_INVALID_MAGIC | REASON_INVALID_VERSION
  | REASON_PROTOCOL_DEPRECATED | REASON_FRAME_TOO_LARGE | REASON_DECODE_FAILED | REASON_RATE_LIMIT
  | REASON_AUTH_FAILED | REASON_AUTH_REQUIRED | REASON_DUPLICATE_LOGIN | REASON_SESSION_NOT_FOUND
  | REASON_RESUME_TOKEN_INVALID | REASON_RESUME_TOKEN_EXPIRED
  | REASON_INVALID_STATE | REASON_ROOM_NOT_FOUND | REASON_ROOM_FULL | REASON_NOT_IN_ROOM | REASON_INPUT_TOO_FAST
  | REASON_INPUT_GAP_TOO_LARGE | REASON_PROJECTILE_EXPIRED | REASON_PROJECTILE_HIT | REASON_OWNER_DEAD
  | REASON_ROOM_CLOSED | REASON_ROOM_IDLE | REASON_EVENT_BACKPRESSURE

datatype SessionState = SESSION_STATE_UNSPECIFIED | SESSION_STATE_CONNECTED | SESSION_STATE_LOBBY
  | SESSION_STATE_MATCHING | SESSION_STATE_IN_ROOM | SESSION_STATE_REWARD | SESSION_STATE_DISCONNECTED
  | SESSION_STATE_CLOSED

end
