(* ===== verification/Frame.thy ===== *)
theory Frame
  imports Protocol
begin

text \<open>
  Frames (\<open>network/frame.go\<close>): a header of 16 bytes in network byte order and a body.  A TCP stream
  delivers its bytes in chunks of any size and then ends with an error (\<open>io.EOF\<close> when the peer
  closed it); \<open>io.ReadFull\<close> collects a fixed number of bytes from it.
\<close>

section \<open>Streams\<close>

type_synonym byte = u8

datatype io_error = EOF | ErrUnexpectedEOF | ErrShortWrite | Transport string

record stream =
  st_chunks :: "byte list list"
  st_end :: io_error

fun take_bytes :: "nat \<Rightarrow> byte list list \<Rightarrow> byte list \<times> byte list list" where
  "take_bytes 0 cs = ([], cs)"
| "take_bytes (Suc n) [] = ([], [])"
| "take_bytes (Suc n) ([] # cs) = take_bytes (Suc n) cs"
| "take_bytes (Suc n) ((b # bs) # cs) = (case take_bytes n (bs # cs) of (xs, cs') \<Rightarrow> (b # xs, cs'))"

definition ReadFull :: "stream \<Rightarrow> nat \<Rightarrow> io_error + (byte list \<times> stream)" where
  "ReadFull s n =
     (case take_bytes n (st_chunks s) of (xs, cs) \<Rightarrow>
        if length xs = n then Inr (xs, s\<lparr>st_chunks := cs\<rparr>)
        else Inl (if xs \<noteq> [] \<and> st_end s = EOF then ErrUnexpectedEOF else st_end s))"

section \<open>Headers\<close>

definition HeaderLen :: nat where "HeaderLen = 16"
definition Magic :: u16 where "Magic = 0x4E52"
definition VersionV1 :: byte where "VersionV1 = 1"
definition MaxBodyLen :: u32 where "MaxBodyLen = 64 * 1024"

datatype frame_error = ErrInvalidMagic u16 | ErrInvalidVersion byte | ErrFrameTooLarge int | ErrMessageTypeZero
  | FrameIO io_error

record Header =
  h_Magic :: u16
  h_Version :: byte
  h_Flags :: byte
  h_MessageType :: message_type
  h_Reserved :: u16
  h_BodyLength :: u32
  h_Sequence :: u32

definition Header_Validate :: "Header \<Rightarrow> frame_error + unit" where
  "Header_Validate h =
     (if h_Magic h \<noteq> Magic then Inl (ErrInvalidMagic (h_Magic h))
      else if h_Version h \<noteq> VersionV1 then Inl (ErrInvalidVersion (h_Version h))
      else if h_MessageType h = 0 then Inl ErrMessageTypeZero
      else Inr ())"

text \<open>\<open>binary.BigEndian\<close>\<close>

definition Uint16 :: "byte list \<Rightarrow> u16" where
  "Uint16 b = ucast (b ! 1) OR push_bit 8 (ucast (b ! 0))"

definition Uint32 :: "byte list \<Rightarrow> u32" where
  "Uint32 b = ucast (b ! 3) OR push_bit 8 (ucast (b ! 2)) OR push_bit 16 (ucast (b ! 1)) OR push_bit 24 (ucast (b ! 0))"

definition PutUint16 :: "u16 \<Rightarrow> byte list" where
  "PutUint16 v = [ucast (drop_bit 8 v), ucast v]"

definition PutUint32 :: "u32 \<Rightarrow> byte list" where
  "PutUint32 v = [ucast (drop_bit 24 v), ucast (drop_bit 16 v), ucast (drop_bit 8 v), ucast v]"

definition slice :: "nat \<Rightarrow> nat \<Rightarrow> 'a list \<Rightarrow> 'a list" where
  "slice i j xs = take (j - i) (drop i xs)"

definition parse_header :: "byte list \<Rightarrow> Header" where
  "parse_header hb = \<lparr>h_Magic = Uint16 (slice 0 2 hb), h_Version = hb ! 2, h_Flags = hb ! 3,
     h_MessageType = Uint16 (slice 4 6 hb), h_Reserved = Uint16 (slice 6 8 hb),
     h_BodyLength = Uint32 (slice 8 12 hb), h_Sequence = Uint32 (slice 12 16 hb)\<rparr>"

section \<open>Reading\<close>

definition ReadFrame :: "stream \<Rightarrow> frame_error + (Header \<times> byte list \<times> stream)" where
  "ReadFrame r =
     (case ReadFull r HeaderLen of Inl e \<Rightarrow> Inl (FrameIO e)
      | Inr (hb, r) \<Rightarrow>
        let h = parse_header hb
        in if h_Magic h \<noteq> Magic then Inl (ErrInvalidMagic (h_Magic h))
           else if h_Version h \<noteq> VersionV1 then Inl (ErrInvalidVersion (h_Version h))
           else if MaxBodyLen < h_BodyLength h then Inl (ErrFrameTooLarge (uint (h_BodyLength h)))
           else if h_MessageType h = 0 then Inl ErrMessageTypeZero
           else (case ReadFull r (unat (h_BodyLength h)) of Inl e \<Rightarrow> Inl (FrameIO e)
                 | Inr (body, r) \<Rightarrow> Inr (h, body, r)))"

section \<open>Writing\<close>

text \<open>An \<open>io.Writer\<close> takes bytes and reports how many it wrote and whether it failed.\<close>

type_synonym 'w writer = "'w \<Rightarrow> byte list \<Rightarrow> 'w \<times> nat \<times> io_error option"

definition frame_bytes :: "Header \<Rightarrow> byte list \<Rightarrow> byte list" where
  "frame_bytes h body = PutUint16 (h_Magic h) @ [h_Version h, h_Flags h] @ PutUint16 (h_MessageType h) @
     PutUint16 (h_Reserved h) @ PutUint32 (h_BodyLength h) @ PutUint32 (h_Sequence h) @ body"

definition WriteFrame :: "'w writer \<Rightarrow> 'w \<Rightarrow> Header \<Rightarrow> byte list \<Rightarrow> frame_error option \<times> 'w" where
  "WriteFrame Write w h body =
     (if uint MaxBodyLen < int (length body) then (Some (ErrFrameTooLarge (int (length body))), w)
      else let h = h\<lparr>h_BodyLength := of_nat (length body)\<rparr>; buf = frame_bytes h body
        in case Write w buf of
            (w, _, Some e) \<Rightarrow> (Some (FrameIO e), w)
          | (w, n, None) \<Rightarrow> if n \<noteq> length buf then (Some (FrameIO ErrShortWrite), w) else (None, w))"

definition bytesBuffer_Write :: "byte list writer" where
  "bytesBuffer_Write b p = (b @ p, length p, None)"

definition EncodeFrame :: "Header \<Rightarrow> byte list \<Rightarrow> frame_error + byte list" where
  "EncodeFrame h body =
     (case WriteFrame bytesBuffer_Write [] h body of (Some e, _) \<Rightarrow> Inl e | (None, b) \<Rightarrow> Inr b)"

section \<open>Chunks do not matter\<close>

lemma take_bytes_concat: "fst (take_bytes n cs) = take n (concat cs) \<and> concat (snd (take_bytes n cs)) = drop n (concat cs)"
  by (induction n cs rule: take_bytes.induct) (auto split: prod.splits)

lemma ReadFull_iff:
  "ReadFull s n = (let bs = concat (st_chunks s) in
     if n \<le> length bs then Inr (take n bs, s\<lparr>st_chunks := snd (take_bytes n (st_chunks s))\<rparr>)
     else Inl (if bs \<noteq> [] \<and> st_end s = EOF then ErrUnexpectedEOF else st_end s))"
proof -
  obtain xs cs where t: "take_bytes n (st_chunks s) = (xs, cs)" by fastforce
  then have "xs = take n (concat (st_chunks s))" using take_bytes_concat[of n "st_chunks s"] by simp
  then show ?thesis by (auto simp: ReadFull_def t Let_def)
qed

text \<open>What \<open>ReadFrame\<close> makes of the bytes of a stream, whatever the chunks.\<close>

fun frame_result :: "frame_error + (Header \<times> byte list \<times> stream) \<Rightarrow> frame_error + (Header \<times> byte list \<times> byte list)" where
  "frame_result (Inl e) = Inl e"
| "frame_result (Inr (h, body, r)) = Inr (h, body, concat (st_chunks r))"

lemma ReadFrame_bytes:
  "frame_result (ReadFrame r) =
     (let bs = concat (st_chunks r);
          short = (\<lambda>xs. FrameIO (if xs \<noteq> [] \<and> st_end r = EOF then ErrUnexpectedEOF else st_end r))
      in if length bs < HeaderLen then Inl (short bs)
         else let h = parse_header (take HeaderLen bs); rest = drop HeaderLen bs; n = unat (h_BodyLength h)
           in if h_Magic h \<noteq> Magic then Inl (ErrInvalidMagic (h_Magic h))
              else if h_Version h \<noteq> VersionV1 then Inl (ErrInvalidVersion (h_Version h))
              else if MaxBodyLen < h_BodyLength h then Inl (ErrFrameTooLarge (uint (h_BodyLength h)))
              else if h_MessageType h = 0 then Inl ErrMessageTypeZero
              else if length rest < n then Inl (short rest)
              else Inr (h, take n rest, drop n rest))"
  using take_bytes_concat
  by (auto simp: ReadFrame_def ReadFull_iff Let_def not_le not_less split: sum.splits)

section \<open>Encoding and decoding\<close>

lemma Uint16_Put [simp]: "Uint16 (PutUint16 v) = v"
proof -
  have "ucast (ucast v :: byte) OR push_bit 8 (ucast (ucast (drop_bit 8 v) :: byte)) = v"
    by (rule bit_word_eqI) (auto simp: bit_simps)
  then show ?thesis by (simp add: Uint16_def PutUint16_def)
qed

lemma Uint32_Put [simp]: "Uint32 (PutUint32 v) = v"
proof -
  have "ucast (ucast v :: byte) OR push_bit 8 (ucast (ucast (drop_bit 8 v) :: byte)) OR
      push_bit 16 (ucast (ucast (drop_bit 16 v) :: byte)) OR push_bit 24 (ucast (ucast (drop_bit 24 v) :: byte)) = v"
    apply (rule bit_word_eqI)
    subgoal for n by (cases "n < 8"; cases "n < 16"; cases "n < 24") (auto simp: bit_simps)
    done
  then show ?thesis by (simp add: Uint32_def PutUint32_def)
qed

lemma length_Put [simp]: "length (PutUint16 v) = 2" "length (PutUint32 u) = 4"
  by (simp_all add: PutUint16_def PutUint32_def)

lemma length_frame_bytes [simp]: "length (frame_bytes h body) = 16 + length body"
  by (simp add: frame_bytes_def)

lemma parse_frame_bytes: "parse_header (take HeaderLen (frame_bytes h body @ rest)) = h"
proof -
  have f: "frame_bytes h body @ rest = PutUint16 (h_Magic h) @ [h_Version h, h_Flags h] @ PutUint16 (h_MessageType h) @
     PutUint16 (h_Reserved h) @ PutUint32 (h_BodyLength h) @ PutUint32 (h_Sequence h) @ (body @ rest)"
    by (simp add: frame_bytes_def)
  have s: "slice 0 2 (take HeaderLen (frame_bytes h body @ rest)) = PutUint16 (h_Magic h)"
    "slice 4 6 (take HeaderLen (frame_bytes h body @ rest)) = PutUint16 (h_MessageType h)"
    "slice 6 8 (take HeaderLen (frame_bytes h body @ rest)) = PutUint16 (h_Reserved h)"
    "slice 8 12 (take HeaderLen (frame_bytes h body @ rest)) = PutUint32 (h_BodyLength h)"
    "slice 12 16 (take HeaderLen (frame_bytes h body @ rest)) = PutUint32 (h_Sequence h)"
    "take HeaderLen (frame_bytes h body @ rest) ! 2 = h_Version h" "take HeaderLen (frame_bytes h body @ rest) ! 3 = h_Flags h"
    unfolding f slice_def HeaderLen_def PutUint16_def PutUint32_def by simp_all
  show ?thesis unfolding parse_header_def s by simp
qed

lemma drop_frame_bytes: "drop HeaderLen (frame_bytes h body @ rest) = body @ rest"
  by (simp add: frame_bytes_def HeaderLen_def PutUint16_def PutUint32_def)

lemma byte_bit [simp]: "\<not> bit (x :: byte) (8 + n)" "\<not> bit (x :: byte) (16 + n)" "\<not> bit (x :: byte) (24 + n)"
  using bit_imp_le_length[of x "8 + n"] bit_imp_le_length[of x "16 + n"] bit_imp_le_length[of x "24 + n"] by auto

lemma Put_Uint16: "PutUint16 (Uint16 [a, b]) = [a, b]"
proof -
  have "(ucast (drop_bit 8 (ucast b OR push_bit 8 (ucast a) :: u16)) :: byte) = a"
    "(ucast (ucast b OR push_bit 8 (ucast a) :: u16) :: byte) = b"
    by (rule bit_word_eqI, auto simp: bit_simps)+
  then show ?thesis by (simp add: PutUint16_def Uint16_def)
qed

lemma Put_Uint32: "PutUint32 (Uint32 [a, b, c, d]) = [a, b, c, d]"
proof -
  define w :: u32 where "w = ucast d OR push_bit 8 (ucast c) OR push_bit 16 (ucast b) OR push_bit 24 (ucast a)"
  have "(ucast (drop_bit 24 w) :: byte) = a" "(ucast (drop_bit 16 w) :: byte) = b"
    "(ucast (drop_bit 8 w) :: byte) = c" "(ucast w :: byte) = d"
    unfolding w_def by (rule bit_word_eqI, auto simp: bit_simps)+
  then show ?thesis by (simp add: PutUint32_def Uint32_def w_def)
qed

lemma frame_bytes_parse:
  assumes "length hb = 16"
  shows "frame_bytes (parse_header hb) body = hb @ body"
proof -
  obtain a0 a1 a2 a3 a4 a5 a6 a7 a8 a9 b0 b1 b2 b3 b4 b5 where
    "hb = [a0, a1, a2, a3, a4, a5, a6, a7, a8, a9, b0, b1, b2, b3, b4, b5]"
    using assms by (auto simp: numeral_eq_Suc length_Suc_conv)
  then show ?thesis by (simp add: frame_bytes_def parse_header_def slice_def Put_Uint16 Put_Uint32)
qed

section \<open>Properties\<close>

text \<open>C20: A frame that is written is read back: whatever the chunks in which the bytes of an encoded
  frame and of what follows it arrive (several frames in one packet, one frame in many), the reader
  returns the header with the true body length and the body, and leaves exactly what follows.\<close>

theorem frame_roundtrip:
  assumes "h_Magic h = Magic" and "h_Version h = VersionV1" and "h_MessageType h \<noteq> 0" and "length body \<le> 64 * 1024"
  shows "\<exists>bs. EncodeFrame h body = Inr bs \<and> (\<forall>r rest. concat (st_chunks r) = bs @ rest \<longrightarrow>
    (\<exists>r'. ReadFrame r = Inr (h\<lparr>h_BodyLength := of_nat (length body)\<rparr>, body, r') \<and> concat (st_chunks r') = rest))"
proof -
  let ?h = "h\<lparr>h_BodyLength := of_nat (length body)\<rparr>"
  have n: "unat (h_BodyLength ?h) = length body" using assms(4) by (simp add: unat_of_nat take_bit_nat_eq_self)
  then have le: "\<not> MaxBodyLen < h_BodyLength ?h" using assms(4) by (simp add: word_less_nat_alt MaxBodyLen_def)
  have enc: "EncodeFrame h body = Inr (frame_bytes ?h body)"
    using assms(4) by (simp add: EncodeFrame_def WriteFrame_def bytesBuffer_Write_def MaxBodyLen_def Let_def)
  have "\<exists>r'. ReadFrame r = Inr (?h, body, r') \<and> concat (st_chunks r') = rest"
    if r: "concat (st_chunks r) = frame_bytes ?h body @ rest" for r rest
  proof -
    have "frame_result (ReadFrame r) = Inr (?h, body, rest)"
      unfolding ReadFrame_bytes r Let_def parse_frame_bytes drop_frame_bytes n using assms(1-3) le
      by (simp add: HeaderLen_def)
    then show ?thesis by (cases "ReadFrame r") auto
  qed
  with enc show ?thesis by blast
qed

definition sample_header :: Header where
  "sample_header = \<lparr>h_Magic = Magic, h_Version = VersionV1, h_Flags = 0, h_MessageType = MSG_PING, h_Reserved = 0,
     h_BodyLength = 99, h_Sequence = 258\<rparr>"

theorem frame_roundtrip_witness:
  "\<exists>bs. EncodeFrame sample_header [1, 2, 3] = Inr bs \<and> length bs = 19 \<and>
     (\<exists>r'. ReadFrame \<lparr>st_chunks = [take 5 bs, [], drop 5 bs @ [7]], st_end = EOF\<rparr> =
       Inr (sample_header\<lparr>h_BodyLength := 3\<rparr>, [1, 2, 3], r') \<and> concat (st_chunks r') = [7])"
proof -
  have h: "h_Magic sample_header = Magic" "h_Version sample_header = VersionV1" "h_MessageType sample_header \<noteq> 0"
    "length [1, 2, 3 :: byte] \<le> 64 * 1024"
    by (simp_all add: sample_header_def MSG_PING_def)
  obtain bs where bs: "EncodeFrame sample_header [1, 2, 3] = Inr bs"
    and r: "\<And>r rest. concat (st_chunks r) = bs @ rest \<Longrightarrow>
      \<exists>r'. ReadFrame r = Inr (sample_header\<lparr>h_BodyLength := of_nat (length [1, 2, 3 :: byte])\<rparr>, [1, 2, 3], r') \<and>
        concat (st_chunks r') = rest"
    using frame_roundtrip[OF h] by blast
  have "length bs = 19" using bs by (auto simp: EncodeFrame_def WriteFrame_def bytesBuffer_Write_def MaxBodyLen_def Let_def)
  then show ?thesis using bs r[of "\<lparr>st_chunks = [take 5 bs, [], drop 5 bs @ [7]], st_end = EOF\<rparr>" "[7]"] by simp
qed

text \<open>C21: Nothing malformed passes the reader: a frame it returns has the magic number, the version, a
  message type and a body of exactly the announced length, at most 64 KiB; the header is checked before
  the body is read, and a stream that ends inside a frame gives an error, never a part of a frame.\<close>

theorem ReadFrame_sound:
  "case ReadFrame r of
     Inr (h, body, r') \<Rightarrow> Header_Validate h = Inr () \<and> length body = unat (h_BodyLength h) \<and> length body \<le> 64 * 1024 \<and>
       concat (st_chunks r) = frame_bytes h body @ concat (st_chunks r')
   | Inl e \<Rightarrow> e = FrameIO (st_end r) \<or> e = FrameIO ErrUnexpectedEOF \<or>
       16 \<le> length (concat (st_chunks r)) \<and>
       (let h = parse_header (take 16 (concat (st_chunks r)))
        in isl (Header_Validate h) \<or> 64 * 1024 < unat (h_BodyLength h))"
proof -
  let ?bs = "concat (st_chunks r)"
  have m: "unat MaxBodyLen = 64 * 1024" by (simp add: MaxBodyLen_def)
  note f = ReadFrame_bytes[of r]
  show ?thesis
  proof (cases "ReadFrame r")
    case (Inl e)
    then show ?thesis using f m
      by (auto simp: Let_def HeaderLen_def Header_Validate_def word_less_nat_alt not_less split: if_splits)
  next
    case (Inr x)
    obtain h body r' where x: "x = (h, body, r')" by (cases x)
    let ?hb = "take 16 ?bs"
    have h: "h = parse_header ?hb" "body = take (unat (h_BodyLength h)) (drop 16 ?bs)"
      "concat (st_chunks r') = drop (unat (h_BodyLength h)) (drop 16 ?bs)" "16 \<le> length ?bs"
      "unat (h_BodyLength h) \<le> length (drop 16 ?bs)" "Header_Validate h = Inr ()" "\<not> MaxBodyLen < h_BodyLength h"
      using f Inr x by (auto simp: Let_def HeaderLen_def Header_Validate_def not_less split: if_splits)
    have "length ?hb = 16" using h(4) by simp
    from frame_bytes_parse[OF this, of body] have "frame_bytes h body = ?hb @ body" using h(1) by simp
    moreover have "body @ concat (st_chunks r') = drop 16 ?bs"
      unfolding h(2,3) by (rule append_take_drop_id)
    ultimately have "?bs = frame_bytes h body @ concat (st_chunks r')" by (metis append.assoc append_take_drop_id)
    moreover have "length body = unat (h_BodyLength h)" using h(2,5) by simp
    moreover have "unat (h_BodyLength h) \<le> 64 * 1024" using h(7) m by (simp add: word_less_nat_alt)
    ultimately show ?thesis using Inr x h(6) by simp
  qed
qed

end
