(* ===== verification/Session.thy ===== *)
theory Session
  imports Protocol
begin

text \<open>
  Sessions (\<open>session/session.go\<close>): the state machine every decoded message passes before it reaches a
  room.  Each operation runs under the session's lock, so it is one step on the record.
\<close>

datatype session_state = StateConnected | StateLobby | StateMatching | StateInRoom | StateReward
  | StateDisconnected | StateClosed | StateOther u8

definition State_String :: "session_state \<Rightarrow> string" where
  "State_String s = (case s of StateConnected \<Rightarrow> ''connected'' | StateLobby \<Rightarrow> ''lobby'' | StateMatching \<Rightarrow> ''matching''
     | StateInRoom \<Rightarrow> ''in_room'' | StateReward \<Rightarrow> ''reward'' | StateDisconnected \<Rightarrow> ''disconnected''
     | StateClosed \<Rightarrow> ''closed'' | StateOther _ \<Rightarrow> ''unknown'')"

definition ToProto :: "session_state \<Rightarrow> SessionState" where
  "ToProto s = (case s of StateConnected \<Rightarrow> SESSION_STATE_CONNECTED | StateLobby \<Rightarrow> SESSION_STATE_LOBBY
     | StateMatching \<Rightarrow> SESSION_STATE_MATCHING | StateInRoom \<Rightarrow> SESSION_STATE_IN_ROOM
     | StateReward \<Rightarrow> SESSION_STATE_REWARD | StateDisconnected \<Rightarrow> SESSION_STATE_DISCONNECTED
     | StateClosed \<Rightarrow> SESSION_STATE_CLOSED | StateOther _ \<Rightarrow> SESSION_STATE_UNSPECIFIED)"

definition legalityMatrix :: "(session_state, message_type list) gomap" where
  "legalityMatrix =
     [(StateConnected, [MSG_LOGIN_REQUEST, MSG_RESUME_REQUEST]),
      (StateLobby, [MSG_MATCH_REQUEST, MSG_MATCH_CANCEL]),
      (StateMatching, [MSG_MATCH_REQUEST, MSG_MATCH_CANCEL]),
      (StateInRoom, [MSG_MATCH_REQUEST, MSG_PLAYER_INPUT, MSG_NEXT_STAGE_REQUEST]),
      (StateReward, [MSG_PLAYER_INPUT, MSG_REWARD_CHOICE, MSG_NEXT_STAGE_REQUEST]),
      (StateDisconnected, []), (StateClosed, [])]"

record Session =
  se_state :: session_state
  se_sessionID :: u64
  se_playerID :: u64
  se_roomID :: u64

definition New_session :: Session where
  "New_session = \<lparr>se_state = StateConnected, se_sessionID = 0, se_playerID = 0, se_roomID = 0\<rparr>"

definition Identity :: "Session \<Rightarrow> u64 \<times> u64" where
  "Identity s = (se_sessionID s, se_playerID s)"

definition BindRoom :: "Session \<Rightarrow> u64 \<Rightarrow> Session" where
  "BindRoom s i = s\<lparr>se_roomID := i\<rparr>"

definition AssignIdentity :: "Session \<Rightarrow> u64 \<Rightarrow> u64 \<Rightarrow> Session" where
  "AssignIdentity s sessionID playerID = s\<lparr>se_sessionID := sessionID, se_playerID := playerID\<rparr>"

definition legal :: "session_state \<Rightarrow> message_type \<Rightarrow> bool" where
  "legal s mt = (case map_of legalityMatrix s of None \<Rightarrow> False | Some l \<Rightarrow> mt \<in> set l)"

definition Accept :: "Session \<Rightarrow> message_type \<Rightarrow> bool \<times> ReasonCode" where
  "Accept s mt =
     (if se_state s = StateClosed then (False, REASON_INVALID_STATE)
      else if se_state s = StateDisconnected then (False, REASON_INVALID_STATE)
      else if mt = MSG_PING \<or> mt = MSG_PONG then (True, REASON_OK)
      else if legal (se_state s) mt then (True, REASON_OK)
      else (False, REASON_INVALID_STATE))"

definition canTransition :: "session_state \<Rightarrow> session_state \<Rightarrow> bool" where
  "canTransition f t =
     (if f = StateClosed then False
      else case t of
          StateClosed \<Rightarrow> True
        | StateDisconnected \<Rightarrow> f \<noteq> StateClosed
        | StateLobby \<Rightarrow> f = StateConnected \<or> f = StateMatching
        | StateMatching \<Rightarrow> f = StateLobby
        | StateInRoom \<Rightarrow> f = StateMatching \<or> f = StateReward \<or> f = StateDisconnected
        | StateReward \<Rightarrow> f = StateInRoom
        | StateConnected \<Rightarrow> f = StateDisconnected
        | StateOther _ \<Rightarrow> False)"

definition Transition :: "Session \<Rightarrow> session_state \<Rightarrow> bool \<times> Session" where
  "Transition s t = (if canTransition (se_state s) t then (True, s\<lparr>se_state := t\<rparr>) else (False, s))"

lemma canTransition_simps [simp]:
  "canTransition f StateClosed \<longleftrightarrow> f \<noteq> StateClosed"
  "canTransition f StateDisconnected \<longleftrightarrow> f \<noteq> StateClosed"
  "canTransition f StateLobby \<longleftrightarrow> f = StateConnected \<or> f = StateMatching"
  "canTransition f StateMatching \<longleftrightarrow> f = StateLobby"
  "canTransition f StateInRoom \<longleftrightarrow> f = StateMatching \<or> f = StateReward \<or> f = StateDisconnected"
  "canTransition f StateReward \<longleftrightarrow> f = StateInRoom"
  "canTransition f StateConnected \<longleftrightarrow> f = StateDisconnected"
  "\<not> canTransition f (StateOther n)" "\<not> canTransition StateClosed t"
  by (auto simp: canTransition_def)

section \<open>Runs of a session\<close>

text \<open>Everything the other packages may do to a session, in any order.\<close>

inductive session_step :: "Session \<Rightarrow> Session \<Rightarrow> bool" where
  identify: "session_step s (AssignIdentity s i p)"
| bind: "session_step s (BindRoom s i)"
| move: "session_step s (snd (Transition s t))"

inductive_simps session_step_iff: "session_step s s'"

lemma Transition_simps [simp]:
  "se_sessionID (snd (Transition s t)) = se_sessionID s" "se_playerID (snd (Transition s t)) = se_playerID s"
  "se_roomID (snd (Transition s t)) = se_roomID s"
  by (simp_all add: Transition_def)

lemma Transition_state: "se_state (snd (Transition s t)) = (if canTransition (se_state s) t then t else se_state s)"
  by (simp add: Transition_def)

lemma step_states:
  assumes "session_step s s'"
  shows "se_state s' = se_state s \<or> canTransition (se_state s) (se_state s')"
  using assms by (auto simp: session_step_iff AssignIdentity_def BindRoom_def Transition_state)

lemma closed_forever: "session_step\<^sup>*\<^sup>* s s' \<Longrightarrow> se_state s = StateClosed \<Longrightarrow> se_state s' = StateClosed"
  by (induction rule: rtranclp_induct) (auto dest: step_states)

text \<open>A run that visits a room or its reward stage, seen backwards: before it there was a room,
  a match, or a lost connection.\<close>

lemma enters_room:
  assumes "session_step s s'" and "se_state s' \<in> {StateInRoom, StateReward}" and "se_state s \<notin> {StateInRoom, StateReward}"
  shows "se_state s \<in> {StateMatching, StateDisconnected}"
  using step_states[OF assms(1)] assms(2,3) by auto

section \<open>Properties\<close>

text \<open>C37: Which messages pass: a login or resume only before the login, matching only in the lobby, while
  matching or, for a rematch, in a room, inputs and stage requests only in a room, a reward choice only
  in the reward stage; after the connection is lost or closed nothing passes, and a refusal always
  says that the state is invalid.\<close>

theorem Accept_table:
  "(fst (Accept s mt) \<longleftrightarrow> se_state s \<noteq> StateClosed \<and> se_state s \<noteq> StateDisconnected \<and>
     (mt \<in> {MSG_PING, MSG_PONG} \<or>
      (mt \<in> {MSG_LOGIN_REQUEST, MSG_RESUME_REQUEST} \<and> se_state s = StateConnected) \<or>
      (mt = MSG_MATCH_REQUEST \<and> se_state s \<in> {StateLobby, StateMatching, StateInRoom}) \<or>
      (mt = MSG_MATCH_CANCEL \<and> se_state s \<in> {StateLobby, StateMatching}) \<or>
      (mt \<in> {MSG_PLAYER_INPUT, MSG_NEXT_STAGE_REQUEST} \<and> se_state s \<in> {StateInRoom, StateReward}) \<or>
      (mt = MSG_REWARD_CHOICE \<and> se_state s = StateReward))) \<and>
   snd (Accept s mt) = (if fst (Accept s mt) then REASON_OK else REASON_INVALID_STATE)"
  by (cases "se_state s") (auto simp: Accept_def legal_def legalityMatrix_def)

text \<open>C38: A closed session stays closed whatever is done to it afterwards, it accepts no message, and a
  session enters a room only from matching or on the return from a lost connection.\<close>

theorem session_lifecycle:
  assumes "session_step\<^sup>*\<^sup>* s s'"
  shows "(se_state s = StateClosed \<longrightarrow> se_state s' = StateClosed \<and> (\<forall>mt. Accept s' mt = (False, REASON_INVALID_STATE))) \<and>
    (se_state s' \<in> {StateInRoom, StateReward} \<longrightarrow> se_state s \<in> {StateInRoom, StateReward} \<or>
       (\<exists>t u. session_step\<^sup>*\<^sup>* s t \<and> session_step t u \<and> session_step\<^sup>*\<^sup>* u s' \<and>
          se_state t \<in> {StateMatching, StateDisconnected} \<and> se_state u = StateInRoom))"
  using assms
proof (induction rule: rtranclp_induct)
  case (step t u)
  have c: "se_state s = StateClosed \<longrightarrow> se_state u = StateClosed"
    using closed_forever step(1,2) by (metis rtranclp.rtrancl_into_rtrancl)
  have "se_state s \<in> {StateInRoom, StateReward} \<or> (\<exists>v w. session_step\<^sup>*\<^sup>* s v \<and> session_step v w \<and> session_step\<^sup>*\<^sup>* w u \<and>
      se_state v \<in> {StateMatching, StateDisconnected} \<and> se_state w = StateInRoom)"
    if u: "se_state u \<in> {StateInRoom, StateReward}"
  proof (cases "se_state t \<in> {StateInRoom, StateReward}")
    case True
    then show ?thesis using step.IH step(2) by (meson rtranclp.rtrancl_into_rtrancl)
  next
    case False
    have "se_state t \<in> {StateMatching, StateDisconnected}" by (rule enters_room[OF step(2) u False])
    moreover from this have "se_state u = StateInRoom" using step_states[OF step(2)] u by auto
    ultimately show ?thesis using step(1,2) by blast
  qed
  then show ?case using c by (simp add: Accept_def)
qed (simp add: Accept_def)

theorem session_lifecycle_witness:
  "\<exists>s'. session_step\<^sup>*\<^sup>* (snd (Transition New_session StateClosed)) s' \<and> se_playerID s' = 4 \<and>
     Accept s' MSG_PING = (False, REASON_INVALID_STATE)"
proof -
  let ?s = "snd (Transition New_session StateClosed)"
  have r: "session_step\<^sup>*\<^sup>* ?s (AssignIdentity ?s 3 4)" by (rule r_into_rtranclp, rule identify)
  have "se_state ?s = StateClosed" by (simp add: Transition_def New_session_def)
  then show ?thesis using session_lifecycle[OF r] r by (auto simp: AssignIdentity_def intro!: exI[of _ "AssignIdentity ?s 3 4"])
qed

end
