(* ===== verification/Lobby.thy ===== *)
theory Lobby
  imports Prelude "HOL-Library.Sublist"
begin

text \<open>
  The matchmaker (\<open>lobby/matchmaker.go\<close>).  \<open>container/list\<close> gives every queued player an element
  with an identity of its own: an entry of \<open>mm_waiting\<close> is such an element, its number and its
  value, and the index \<open>mm_queued\<close> maps a player to the number of the element.  Each operation runs
  under the matchmaker's lock.
\<close>

type_synonym player_id = string

datatype lobby_error = ErrInvalidPlayersPerMatch | ErrInvalidPlayerID | ErrPlayerAlreadyQueued

record Matchmaker =
  mm_playersPerMatch :: int
  mm_waiting :: "(nat \<times> player_id) list"
  mm_queued :: "(player_id, nat) gomap"
  mm_fresh :: nat

definition NewMatchmaker :: "int \<Rightarrow> lobby_error + Matchmaker" where
  "NewMatchmaker playersPerMatch =
     (if playersPerMatch \<le> 0 then Inl ErrInvalidPlayersPerMatch
      else Inr \<lparr>mm_playersPerMatch = playersPerMatch, mm_waiting = [], mm_queued = [], mm_fresh = 0\<rparr>)"

definition PushBack :: "player_id \<Rightarrow> Matchmaker \<Rightarrow> nat \<times> Matchmaker" where
  "PushBack player m = (mm_fresh m, m\<lparr>mm_waiting := mm_waiting m @ [(mm_fresh m, player)], mm_fresh := Suc (mm_fresh m)\<rparr>)"

definition Remove_element :: "nat \<Rightarrow> Matchmaker \<Rightarrow> Matchmaker" where
  "Remove_element element m = m\<lparr>mm_waiting := filter (\<lambda>(e, _). e \<noteq> element) (mm_waiting m)\<rparr>"

text \<open>The loop of \<open>Enqueue\<close> that takes \<open>n\<close> players from the front.  \<open>Front\<close> of an empty list
  is nil and its dereference a panic, the value \<open>None\<close> here.\<close>

fun pop_players :: "nat \<Rightarrow> Matchmaker \<Rightarrow> (player_id list \<times> Matchmaker) option" where
  "pop_players 0 m = Some ([], m)"
| "pop_players (Suc n) m =
     (case mm_waiting m of [] \<Rightarrow> None
      | (front, player) # _ \<Rightarrow>
        (case pop_players n (Remove_element front (m\<lparr>mm_queued := AList.delete player (mm_queued m)\<rparr>)) of
           None \<Rightarrow> None | Some (players, m) \<Rightarrow> Some (player # players, m)))"

text \<open>The result is an error, or the match (empty when none was found) and the new state.\<close>

definition Enqueue :: "Matchmaker \<Rightarrow> player_id \<Rightarrow> (lobby_error + (player_id list \<times> Matchmaker)) option" where
  "Enqueue m player =
     (if player = [] then Some (Inl ErrInvalidPlayerID)
      else if map_of (mm_queued m) player \<noteq> None then Some (Inl ErrPlayerAlreadyQueued)
      else case PushBack player m of (element, m) \<Rightarrow>
        let m = m\<lparr>mm_queued := AList.update player element (mm_queued m)\<rparr>
        in if int (length (mm_waiting m)) < mm_playersPerMatch m then Some (Inr ([], m))
           else map_option Inr (pop_players (nat (mm_playersPerMatch m)) m))"

definition Cancel :: "Matchmaker \<Rightarrow> player_id \<Rightarrow> bool \<times> Matchmaker" where
  "Cancel m player =
     (case map_of (mm_queued m) player of
        None \<Rightarrow> (False, m)
      | Some element \<Rightarrow> (True, Remove_element element (m\<lparr>mm_queued := AList.delete player (mm_queued m)\<rparr>)))"

definition Waiting_count :: "Matchmaker \<Rightarrow> int" where
  "Waiting_count m = int (length (mm_waiting m))"

section \<open>The index agrees with the queue\<close>

definition matchmaker_ok :: "Matchmaker \<Rightarrow> bool" where
  "matchmaker_ok m \<longleftrightarrow> 0 < mm_playersPerMatch m \<and> distinct (map fst (mm_waiting m)) \<and> distinct (map snd (mm_waiting m)) \<and>
     (\<forall>e \<in> fst ` set (mm_waiting m). e < mm_fresh m) \<and>
     (\<forall>p e. map_of (mm_queued m) p = Some e \<longleftrightarrow> (e, p) \<in> set (mm_waiting m))"

definition queue :: "Matchmaker \<Rightarrow> player_id list" where
  "queue m = map snd (mm_waiting m)"

lemma matchmaker_okD:
  assumes "matchmaker_ok m"
  shows "map_of (mm_queued m) p = None \<longleftrightarrow> p \<notin> set (queue m)"
  using assms unfolding matchmaker_ok_def queue_def by (cases "map_of (mm_queued m) p") force+

lemma Remove_element_queue:
  assumes "distinct (map fst w)" and "distinct (map snd w)" and "(e, p) \<in> set w"
  shows "map snd (filter (\<lambda>(e', _). e' \<noteq> e) w) = filter (\<lambda>q. q \<noteq> p) (map snd w)"
  using assms
proof (induction w)
  case (Cons x w)
  obtain e' q where x: "x = (e', q)" by (cases x)
  show ?case
  proof (cases "(e, p) = x")
    case True
    then have "filter (\<lambda>(e', _). e' \<noteq> e) w = w" "filter (\<lambda>q. q \<noteq> p) (map snd w) = map snd w"
      using Cons.prems x by (force intro!: filter_True)+
    then show ?thesis using True x by auto
  next
    case False
    then have "(e, p) \<in> set w" "e' \<noteq> e" "q \<noteq> p" using Cons.prems x by force+
    then show ?thesis using Cons x by auto
  qed
qed simp

lemma delete_ok:
  assumes "matchmaker_ok m" and "(e, p) \<in> set (mm_waiting m)"
  shows "matchmaker_ok (Remove_element e (m\<lparr>mm_queued := AList.delete p (mm_queued m)\<rparr>)) \<and>
    queue (Remove_element e (m\<lparr>mm_queued := AList.delete p (mm_queued m)\<rparr>)) = filter (\<lambda>q. q \<noteq> p) (queue m)"
proof -
  have d: "distinct (map fst (mm_waiting m))" "distinct (map snd (mm_waiting m))" using assms(1) by (auto simp: matchmaker_ok_def)
  have "q = p \<longleftrightarrow> f = e" if "(f, q) \<in> set (mm_waiting m)" for f q
    using d that assms(2) by (metis distinct_map fst_conv inj_onD snd_conv prod.inject)
  then show ?thesis
    using assms Remove_element_queue[OF d assms(2)]
    by (auto simp: matchmaker_ok_def queue_def Remove_element_def delete_conv' distinct_map_filter)
qed

lemma pop_players_ok:
  assumes "matchmaker_ok m" and "n \<le> length (mm_waiting m)"
  shows "\<exists>m'. pop_players n m = Some (take n (queue m), m') \<and> matchmaker_ok m' \<and> queue m' = drop n (queue m) \<and>
    mm_playersPerMatch m' = mm_playersPerMatch m"
  using assms
proof (induction n arbitrary: m)
  case (Suc n)
  obtain e p w where w: "mm_waiting m = (e, p) # w" using Suc.prems(2) by (cases "mm_waiting m") auto
  let ?m = "Remove_element e (m\<lparr>mm_queued := AList.delete p (mm_queued m)\<rparr>)"
  have q: "matchmaker_ok ?m" "queue ?m = filter (\<lambda>q. q \<noteq> p) (queue m)" using delete_ok[OF Suc.prems(1), of e p] w by auto
  moreover have "filter (\<lambda>q. q \<noteq> p) (queue m) = map snd w"
    using Suc.prems(1) w by (force simp: queue_def matchmaker_ok_def intro!: filter_True)
  ultimately have "queue ?m = map snd w" "n \<le> length (mm_waiting ?m)"
    using Suc.prems(2) w by (simp_all add: queue_def) (metis length_map)
  with Suc.IH[OF q(1)] show ?case using w by (auto simp: queue_def Remove_element_def)
qed (simp add: queue_def)

section \<open>The contract\<close>

text \<open>The queue as its users see it: a list of players, first come first served.\<close>

definition spec_enqueue :: "nat \<Rightarrow> player_id list \<Rightarrow> player_id \<Rightarrow> lobby_error + (player_id list \<times> player_id list)" where
  "spec_enqueue n q p =
     (if p = [] then Inl ErrInvalidPlayerID
      else if p \<in> set q then Inl ErrPlayerAlreadyQueued
      else if length q + 1 < n then Inr ([], q @ [p])
      else Inr (take n (q @ [p]), drop n (q @ [p])))"

lemma PushBack_ok:
  assumes "matchmaker_ok m" and "p \<notin> set (queue m)" and "PushBack p m = (e, m')"
  shows "matchmaker_ok (m'\<lparr>mm_queued := AList.update p e (mm_queued m')\<rparr>) \<and>
    queue (m'\<lparr>mm_queued := AList.update p e (mm_queued m')\<rparr>) = queue m @ [p] \<and>
    mm_playersPerMatch m' = mm_playersPerMatch m \<and> length (mm_waiting m') = length (queue m) + 1"
proof -
  have "(f, p) \<notin> set (mm_waiting m)" "(mm_fresh m, q) \<notin> set (mm_waiting m)" for f q
    using assms(1,2) by (force simp: queue_def matchmaker_ok_def)+
  moreover have "e < mm_fresh m" if "(e, q) \<in> set (mm_waiting m)" for e q
    using assms(1) that by (force simp: matchmaker_ok_def)
  ultimately show ?thesis using assms unfolding matchmaker_ok_def queue_def PushBack_def
    by (auto simp: update_conv' less_Suc_eq)
qed

lemma Enqueue_spec:
  assumes "matchmaker_ok m"
  shows "case spec_enqueue (nat (mm_playersPerMatch m)) (queue m) p of
      Inl e \<Rightarrow> Enqueue m p = Some (Inl e)
    | Inr (ps, q) \<Rightarrow> \<exists>m'. Enqueue m p = Some (Inr (ps, m')) \<and> matchmaker_ok m' \<and> queue m' = q \<and>
        mm_playersPerMatch m' = mm_playersPerMatch m"
proof -
  obtain e m1 where p1: "PushBack p m = (e, m1)" by fastforce
  let ?m = "m1\<lparr>mm_queued := AList.update p e (mm_queued m1)\<rparr>"
  show ?thesis
  proof (cases "p = [] \<or> p \<in> set (queue m)")
    case True
    then show ?thesis using matchmaker_okD[OF assms, of p] by (auto simp: spec_enqueue_def Enqueue_def)
  next
    case False
    then have m: "matchmaker_ok ?m" "queue ?m = queue m @ [p]" "mm_playersPerMatch m1 = mm_playersPerMatch m"
      "length (mm_waiting m1) = length (queue m) + 1" using PushBack_ok[OF assms _ p1] by auto
    have pos: "0 < mm_playersPerMatch m" using assms by (simp add: matchmaker_ok_def)
    show ?thesis
    proof (cases "length (queue m) + 1 < nat (mm_playersPerMatch m)")
      case True
      then show ?thesis using False m p1 matchmaker_okD[OF assms, of p] pos
        by (auto simp: spec_enqueue_def Enqueue_def Let_def)
    next
      case ge: False
      then have "nat (mm_playersPerMatch m1) \<le> length (mm_waiting ?m)" using m(3,4) by simp
      from pop_players_ok[OF m(1) this] show ?thesis using False ge m p1 matchmaker_okD[OF assms, of p] pos
        by (auto simp: spec_enqueue_def Enqueue_def Let_def)
    qed
  qed
qed

lemma Cancel_spec:
  assumes "matchmaker_ok m"
  shows "matchmaker_ok (snd (Cancel m p)) \<and> fst (Cancel m p) = (p \<in> set (queue m)) \<and>
    queue (snd (Cancel m p)) = filter (\<lambda>q. q \<noteq> p) (queue m) \<and> mm_playersPerMatch (snd (Cancel m p)) = mm_playersPerMatch m"
proof (cases "map_of (mm_queued m) p")
  case None
  then show ?thesis using matchmaker_okD[OF assms, of p] assms by (force simp: Cancel_def intro!: filter_True[symmetric])
next
  case (Some e)
  then have "(e, p) \<in> set (mm_waiting m)" using assms by (simp add: matchmaker_ok_def)
  then show ?thesis using delete_ok[OF assms] Some matchmaker_okD[OF assms, of p]
    by (simp add: Cancel_def Remove_element_def)
qed

text \<open>What the lobby's users rely on, and what follows for every run of requests.\<close>

datatype 'p request = Ask 'p | Withdraw 'p

locale matching =
  fixes enqueue :: "'m \<Rightarrow> 'p \<Rightarrow> 'e + ('p list \<times> 'm)" and cancel :: "'m \<Rightarrow> 'p \<Rightarrow> bool \<times> 'm"
    and waiting :: "'m \<Rightarrow> 'p list" and ok :: "nat \<Rightarrow> 'm \<Rightarrow> bool"
  assumes enqueue_ok: "ok n m \<Longrightarrow> enqueue m p = Inr (ps, m') \<Longrightarrow>
      ok n m' \<and> p \<notin> set (waiting m) \<and> ps @ waiting m' = waiting m @ [p] \<and> length ps \<in> {0, n} \<and> length (waiting m') < n"
    and cancel_ok: "ok n m \<Longrightarrow> cancel m p = (b, m') \<Longrightarrow> ok n m' \<and> waiting m' = filter (\<lambda>q. q \<noteq> p) (waiting m)"
    and distinct_waiting: "ok n m \<Longrightarrow> distinct (waiting m)"
begin

fun serve :: "'m \<Rightarrow> 'p request list \<Rightarrow> 'p list list \<times> 'm" where
  "serve m [] = ([], m)"
| "serve m (Ask p # rs) =
     (case enqueue m p of Inl _ \<Rightarrow> serve m rs
      | Inr (ps, m') \<Rightarrow> (case serve m' rs of (ms, m'') \<Rightarrow> ((if ps = [] then ms else ps # ms), m'')))"
| "serve m (Withdraw p # rs) = serve (snd (cancel m p)) rs"

lemma serve_ok: "ok n m \<Longrightarrow> serve m rs = (ms, m') \<Longrightarrow> ok n m' \<and> (\<forall>ps \<in> set ms. length ps = n \<and> distinct ps)"
proof (induction m rs arbitrary: ms m' rule: serve.induct)
  case (2 m p rs)
  show ?case
  proof (cases "enqueue m p")
    case (Inr r)
    obtain ps m1 where r: "r = (ps, m1)" by (cases r)
    obtain ms1 m2 where s: "serve m1 rs = (ms1, m2)" by fastforce
    have e: "ok n m1" "ps @ waiting m1 = waiting m @ [p]" "length ps \<in> {0, n}" "p \<notin> set (waiting m)"
      using enqueue_ok 2(3) Inr r by auto
    have "distinct (waiting m @ [p])" using distinct_waiting[OF 2(3)] e(4) by simp
    then have "distinct ps" using e(2) by (metis distinct_append)
    then show ?thesis using 2(2)[OF Inr r[symmetric] e(1) s] 2(4) Inr r s e(3) by (auto split: if_splits)
  qed (use 2 in auto)
next
  case (3 m p rs)
  then show ?case using cancel_ok[OF 3(2), of p] by (metis prod.collapse serve.simps(3))
qed simp

text \<open>Without withdrawals the matches, in order, and then the queue are the players who were let in.\<close>

lemma serve_fifo:
  "ok n m \<Longrightarrow> serve m (map Ask qs) = (ms, m') \<Longrightarrow>
     \<exists>ps. subseq ps qs \<and> concat ms @ waiting m' = waiting m @ ps"
proof (induction qs arbitrary: m ms)
  case (Cons p qs)
  show ?case
  proof (cases "enqueue m p")
    case (Inl e)
    then have "serve m (map Ask qs) = (ms, m')" using Cons.prems(2) by simp
    then show ?thesis using Cons.IH[OF Cons.prems(1)] by (meson list_emb_Cons)
  next
    case (Inr r)
    obtain ps m1 where r: "r = (ps, m1)" by (cases r)
    obtain ms1 where s: "serve m1 (map Ask qs) = (ms1, m')" "ms = (if ps = [] then ms1 else ps # ms1)"
      using Cons.prems(2) Inr r by (auto split: prod.splits)
    have e: "ok n m1" "ps @ waiting m1 = waiting m @ [p]" using enqueue_ok Cons.prems(1) Inr r by auto
    obtain qs' where q: "subseq qs' qs" "concat ms1 @ waiting m' = waiting m1 @ qs'"
      using Cons.IH[OF e(1) s(1)] by blast
    have "concat ms @ waiting m' = ps @ waiting m1 @ qs'" using s(2) q(2) by simp
    also have "\<dots> = waiting m @ (p # qs')" using e(2) by (metis append.assoc append_Cons append_Nil)
    finally show ?thesis using q(1) by (meson subseq_Cons2)
  qed
qed auto

end

section \<open>The matchmaker keeps the contract\<close>

text \<open>\<open>Enqueue\<close> never reads the front of an empty list, so its value stands for a plain result.\<close>

definition enqueue_total :: "Matchmaker \<Rightarrow> player_id \<Rightarrow> lobby_error + (player_id list \<times> Matchmaker)" where
  "enqueue_total m p = the (Enqueue m p)"

definition matchmaker_for :: "nat \<Rightarrow> Matchmaker \<Rightarrow> bool" where
  "matchmaker_for n m \<longleftrightarrow> matchmaker_ok m \<and> nat (mm_playersPerMatch m) = n \<and> length (queue m) < n"

interpretation lobby: matching enqueue_total Cancel queue matchmaker_for
proof unfold_locales
  fix n m p ps m'
  assume m: "matchmaker_for n m" "enqueue_total m p = Inr (ps, m')"
  then show "matchmaker_for n m' \<and> p \<notin> set (queue m) \<and> ps @ queue m' = queue m @ [p] \<and> length ps \<in> {0, n} \<and> length (queue m') < n"
    using Enqueue_spec[of m p]
    by (auto simp: matchmaker_for_def enqueue_total_def spec_enqueue_def split: if_splits)
next
  fix n m p b m'
  assume "matchmaker_for n m" "Cancel m p = (b, m')"
  then show "matchmaker_for n m' \<and> queue m' = filter (\<lambda>q. q \<noteq> p) (queue m)"
    using Cancel_spec[of m p] by (auto simp: matchmaker_for_def intro: le_less_trans[OF length_filter_le])
next
  fix n m assume "matchmaker_for n m"
  then show "distinct (queue m)" by (simp add: matchmaker_for_def matchmaker_ok_def queue_def)
qed

lemma NewMatchmaker_for:
  "NewMatchmaker n = Inr m \<Longrightarrow> matchmaker_for (nat n) m \<and> queue m = []"
  by (auto simp: NewMatchmaker_def matchmaker_for_def matchmaker_ok_def queue_def split: if_splits)

section \<open>Properties\<close>

text \<open>C35: The matchmaker refines its contract, a list of players served in order of arrival: on any consistent
  state Enqueue never panics and gives exactly the error, or the match and the new queue, of
  the contract, Cancel removes exactly the named player and says whether it was there, and both
  keep the index and the list consistent.\<close>

theorem Enqueue_refines:
  assumes "matchmaker_ok m"
  shows "map_option (map_sum id (map_prod id queue)) (Enqueue m p) = Some (spec_enqueue (nat (mm_playersPerMatch m)) (queue m) p) \<and>
    (\<forall>ps m'. Enqueue m p = Some (Inr (ps, m')) \<longrightarrow> matchmaker_ok m') \<and>
    matchmaker_ok (snd (Cancel m p)) \<and> fst (Cancel m p) = (p \<in> set (queue m)) \<and>
    queue (snd (Cancel m p)) = filter (\<lambda>q. q \<noteq> p) (queue m)"
  using Enqueue_spec[OF assms, of p] Cancel_spec[OF assms, of p] by (auto split: sum.splits)

definition sample_matchmaker :: Matchmaker where
  "sample_matchmaker = \<lparr>mm_playersPerMatch = 2, mm_waiting = [(0, ''a'')], mm_queued = [(''a'', 0)], mm_fresh = 1\<rparr>"

lemma sample_matchmaker_ok: "matchmaker_ok sample_matchmaker"
  by (auto simp: sample_matchmaker_def matchmaker_ok_def)

lemma Enqueue_refines_witness:
  "map_option (map_sum id (map_prod id queue)) (Enqueue sample_matchmaker ''b'') = Some (Inr ([''a'', ''b''], []))"
  using Enqueue_refines[OF sample_matchmaker_ok, of "''b''"]
  by (simp add: sample_matchmaker_def spec_enqueue_def queue_def)



end
