(* ===== verification/Channel.thy ===== *)
theory Channel
  imports Prelude
begin

text \<open>
  Buffered Go channels as the packages use them: sends and receives inside a \<open>select\<close> with a \<open>default\<close>
  branch, so none of them waits.  A send on a closed channel and a second \<open>close\<close> are panics.  The
  locale \<open>fifo\<close> is the contract of a bounded queue: what was let in comes out in the same order.
\<close>

section \<open>Fallible steps in sequence\<close>

definition bind_sum :: "'e + 'a \<Rightarrow> ('a \<Rightarrow> 'e + 'b) \<Rightarrow> 'e + 'b" where
  "bind_sum x f = (case x of Inl e \<Rightarrow> Inl e | Inr a \<Rightarrow> f a)"

lemma bind_sum_simps [simp]: "bind_sum (Inl e) f = Inl e" "bind_sum (Inr a) f = f a"
  by (simp_all add: bind_sum_def)

lemma bind_sum_Inr: "bind_sum x f = Inr b \<longleftrightarrow> (\<exists>a. x = Inr a \<and> f a = Inr b)"
  by (cases x) auto

section \<open>Channels\<close>

record 'a chan =
  ch_cap :: nat
  ch_buf :: "'a list"
  ch_closed :: bool

datatype chan_panic = SendOnClosed | CloseOfClosed

datatype 'a received = Value 'a | Drained | Nothing

definition make_chan :: "nat \<Rightarrow> 'a chan" where
  "make_chan n = \<lparr>ch_cap = n, ch_buf = [], ch_closed = False\<rparr>"

definition try_send :: "'a \<Rightarrow> 'a chan \<Rightarrow> chan_panic + (bool \<times> 'a chan)" where
  "try_send x c =
     (if ch_closed c then Inl SendOnClosed
      else if length (ch_buf c) < ch_cap c then Inr (True, c\<lparr>ch_buf := ch_buf c @ [x]\<rparr>)
      else Inr (False, c))"

definition try_recv :: "'a chan \<Rightarrow> 'a received \<times> 'a chan" where
  "try_recv c =
     (case ch_buf c of x # xs \<Rightarrow> (Value x, c\<lparr>ch_buf := xs\<rparr>)
      | [] \<Rightarrow> (if ch_closed c then Drained else Nothing, c))"

definition close_chan :: "'a chan \<Rightarrow> chan_panic + 'a chan" where
  "close_chan c = (if ch_closed c then Inl CloseOfClosed else Inr (c\<lparr>ch_closed := True\<rparr>))"

definition chan_ok :: "'a chan \<Rightarrow> bool" where
  "chan_ok c \<longleftrightarrow> length (ch_buf c) \<le> ch_cap c"

lemma make_chan_simps [simp]: "ch_cap (make_chan n) = n" "ch_buf (make_chan n) = []" "\<not> ch_closed (make_chan n)"
  by (simp_all add: make_chan_def)

lemma try_send_open: "\<not> ch_closed c \<Longrightarrow> try_send x c =
    Inr (length (ch_buf c) < ch_cap c, if length (ch_buf c) < ch_cap c then c\<lparr>ch_buf := ch_buf c @ [x]\<rparr> else c)"
  by (simp add: try_send_def)

lemma try_send_frame:
  assumes "try_send x c = Inr (b, c')"
  shows "ch_cap c' = ch_cap c \<and> \<not> ch_closed c \<and> \<not> ch_closed c' \<and> b = (length (ch_buf c) < ch_cap c) \<and>
    ch_buf c' = (if b then ch_buf c @ [x] else ch_buf c) \<and> (chan_ok c \<longrightarrow> chan_ok c')"
  using assms by (auto simp: try_send_def chan_ok_def split: if_splits)

lemma try_recv_frame:
  assumes "try_recv c = (v, c')"
  shows "ch_cap c' = ch_cap c \<and> ch_closed c' = ch_closed c \<and> (chan_ok c \<longrightarrow> chan_ok c') \<and>
    (case v of Value x \<Rightarrow> ch_buf c = x # ch_buf c' | _ \<Rightarrow> ch_buf c = [] \<and> c' = c)"
  using assms by (auto simp: try_recv_def chan_ok_def split: list.splits if_splits)

lemma close_chan_open: "\<not> ch_closed c \<Longrightarrow> close_chan c = Inr (c\<lparr>ch_closed := True\<rparr>)"
  by (simp add: close_chan_def)

section \<open>Bounded queues\<close>

datatype ('x, 'o) act = Put 'x | Get | Other 'o

locale fifo =
  fixes put :: "'x \<Rightarrow> 'c \<Rightarrow> bool \<times> 'c" and get :: "'c \<Rightarrow> 'x option \<times> 'c" and other :: "'o \<Rightarrow> 'c \<Rightarrow> 'c"
    and contents :: "'c \<Rightarrow> 'x list" and capacity :: "'c \<Rightarrow> nat"
  assumes put_law: "put x c = (b, c') \<Longrightarrow> contents c' = (if b then contents c @ [x] else contents c) \<and>
      (b \<longrightarrow> length (contents c) < capacity c) \<and> capacity c' = capacity c"
    and get_law: "get c = (v, c') \<Longrightarrow> capacity c' = capacity c \<and>
      (case v of Some x \<Rightarrow> contents c = x # contents c' | None \<Rightarrow> contents c' = contents c)"
    and other_law: "contents (other a c) = contents c \<and> capacity (other a c) = capacity c"
begin

text \<open>A schedule gives the items let in, the items taken out, and the state after it.\<close>

fun schedule :: "'c \<Rightarrow> ('x, 'o) act list \<Rightarrow> 'x list \<times> 'x list \<times> 'c" where
  "schedule c [] = ([], [], c)"
| "schedule c (Put x # as) =
     (case put x c of (b, c') \<Rightarrow> case schedule c' as of (ins, outs, d) \<Rightarrow> ((if b then x # ins else ins), outs, d))"
| "schedule c (Get # as) =
     (case get c of (v, c') \<Rightarrow> case schedule c' as of (ins, outs, d) \<Rightarrow>
        (ins, (case v of None \<Rightarrow> outs | Some x \<Rightarrow> x # outs), d))"
| "schedule c (Other a # as) = schedule (other a c) as"

lemma schedule_fifo:
  "schedule c as = (ins, outs, d) \<Longrightarrow>
     contents c @ ins = outs @ contents d \<and> capacity d = capacity c \<and>
     (length (contents c) \<le> capacity c \<longrightarrow> length (contents d) \<le> capacity d)"
proof (induction as arbitrary: c ins outs)
  case (Cons a as)
  show ?case
  proof (cases a)
    case (Put x)
    obtain b c1 ins1 outs1 where s: "put x c = (b, c1)" "schedule c1 as = (ins1, outs1, d)"
      "ins = (if b then x # ins1 else ins1)" "outs = outs1"
      using Cons.prems Put by (auto split: prod.splits)
    show ?thesis using put_law[OF s(1)] Cons.IH[OF s(2)] s(3,4) by (auto split: if_splits)
  next
    case Get
    obtain v c1 outs1 where s: "get c = (v, c1)" "schedule c1 as = (ins, outs1, d)"
      "outs = (case v of None \<Rightarrow> outs1 | Some x \<Rightarrow> x # outs1)"
      using Cons.prems Get by (auto split: prod.splits)
    show ?thesis using get_law[OF s(1)] Cons.IH[OF s(2)] s(3) by (auto split: option.splits)
  next
    case (Other o')
    then have "schedule (other o' c) as = (ins, outs, d)" using Cons.prems by simp
    from Cons.IH[OF this] show ?thesis using other_law[of o' c] by auto
  qed
qed simp

end

text \<open>A channel that is open keeps the contract.\<close>

definition chan_put :: "'a \<Rightarrow> 'a chan \<Rightarrow> bool \<times> 'a chan" where
  "chan_put x c = (case try_send x c of Inl _ \<Rightarrow> (False, c) | Inr r \<Rightarrow> r)"

definition chan_get :: "'a chan \<Rightarrow> 'a option \<times> 'a chan" where
  "chan_get c = (case try_recv c of (Value x, c') \<Rightarrow> (Some x, c') | (_, c') \<Rightarrow> (None, c'))"

definition chan_close :: "unit \<Rightarrow> 'a chan \<Rightarrow> 'a chan" where
  "chan_close _ c = c\<lparr>ch_closed := True\<rparr>"

interpretation chan: fifo chan_put chan_get chan_close ch_buf ch_cap
  by unfold_locales
    (auto simp: chan_put_def chan_get_def chan_close_def try_send_def try_recv_def split: if_splits list.splits)

end
