(* ===== verification/Room.thy ===== *)
theory Room
  imports Simulation Director Channel
begin

text \<open>
  The room (\<open>room/room.go\<close>): one goroutine owns the world and the members, every other goroutine only
  puts commands and inputs into two bounded channels.  The goroutine is a machine whose program
  counter \<open>rm_pc\<close> names the place in \<open>run\<close>, \<open>tick\<close> and \<open>finish\<close> it has reached, one step per receive,
  so that the calls of other goroutines may fall between any two of them.  A receipt channel is a
  number; the receipts already sent are in \<open>rm_receipts\<close>.  A blocked send and every panic of the
  runtime are values of \<open>room_fault\<close>.
\<close>

section \<open>Configuration\<close>

datatype room_error = RoomClosed | ErrQueueFull | ErrInvalidSession | ErrSessionBound | ErrNotJoined
  | InvalidRoomID | InvalidRoomConfig | RoomCtx ctx_error | RoomWorld world_error

record RoomConfig =
  rc_World :: Config
  rc_ControlCapacity :: int
  rc_InputCapacity :: int
  rc_ControlsPerTick :: int
  rc_InputsPerTick :: int
  rc_TickSampleCapacity :: int
  rc_EmptyTimeout :: duration
  rc_EventCapacity :: int

definition DefaultRoomConfig :: RoomConfig where
  "DefaultRoomConfig = \<lparr>rc_World = DefaultConfig, rc_ControlCapacity = 64, rc_InputCapacity = 256,
     rc_ControlsPerTick = 16, rc_InputsPerTick = 128, rc_TickSampleCapacity = 128,
     rc_EmptyTimeout = 5 * 10 ^ 9, rc_EventCapacity = 64\<rparr>"

definition RoomConfig_validate :: "RoomConfig \<Rightarrow> room_error + unit" where
  "RoomConfig_validate c =
     (if \<not> Config_Validate (rc_World c) then Inl (RoomWorld InvalidWorldConfig)
      else if rc_ControlCapacity c < 1 \<or> rc_InputCapacity c < 1 \<or> rc_ControlsPerTick c < 1 \<or> rc_InputsPerTick c < 1 \<or>
        rc_TickSampleCapacity c < 1 \<or> rc_EmptyTimeout c \<le> 0 \<or> rc_EventCapacity c < 1 \<or> 1024 < rc_EventCapacity c
      then Inl InvalidRoomConfig else Inr ())"

section \<open>Data\<close>

record RoomSnapshot =
  rsn_RoomID :: u64
  rsn_Closed :: bool
  rsn_Snapshot :: Snapshot

record TickSample =
  ts_RoomID :: u64
  ts_ServerTick :: u64
  ts_StartedAt :: time
  ts_WorkDuration :: duration
  ts_Controls :: int
  ts_Inputs :: int
  ts_Players :: int

definition zero_sample :: TickSample where
  "zero_sample = \<lparr>ts_RoomID = 0, ts_ServerTick = 0, ts_StartedAt = 0, ts_WorkDuration = 0, ts_Controls = 0,
     ts_Inputs = 0, ts_Players = 0\<rparr>"

record RoomStats =
  st_RoomID :: u64
  st_ServerTick :: u64
  st_Players :: int
  st_ControlQueueDepth :: int
  st_InputQueueDepth :: int
  st_QueueRejections :: u64
  st_RejectedInputs :: u64
  st_DroppedSnapshots :: u64
  st_DroppedTickSamples :: u64
  st_LastTick :: TickSample
  st_Closed :: bool
  st_CloseReason :: string

record rewardStart =
  rw_catalog :: Catalog
  rw_seed :: i64
  rw_durationTicks :: u64

text \<open>A receipt channel, nil as \<open>None\<close>.\<close>

type_synonym receipt_chan = "nat option"

record control =
  c_join :: bool
  c_sessionID :: u64
  c_playerID :: entity_id
  c_result :: receipt_chan
  c_stagePlan :: "Plan option"
  c_rewardStart :: "rewardStart option"
  c_rewardChoice :: equip_id
  c_stageResult :: receipt_chan
  c_resumeState :: receipt_chan
  c_gameOutcome :: GameOutcome
  c_gameResult :: receipt_chan

definition zero_control :: control where
  "zero_control = \<lparr>c_join = False, c_sessionID = 0, c_playerID = 0, c_result = None, c_stagePlan = None,
     c_rewardStart = None, c_rewardChoice = 0, c_stageResult = None, c_resumeState = None,
     c_gameOutcome = OtherOutcome 0, c_gameResult = None\<rparr>"

record RoomResumeState =
  rr_Snapshot :: RoomSnapshot
  rr_Reward :: "RewardUpdate option"

datatype receipt = Done_receipt "room_error option" | StageResultReceipt "room_error + (Plan \<times> PerformanceMetrics)"
  | ResumeStateReceipt "room_error + RoomResumeState" | GameResultReceipt "room_error + GameResult"

record movement =
  mv_session :: u64
  mv_generation :: u64
  mv_input :: Input
  mv_received :: time

record binding =
  b_playerID :: entity_id
  b_generation :: u64

datatype room_pc = Selecting | Controls nat TickSample | Inputs nat TickSample | Simulating TickSample
  | Finishing | Draining | Exited

datatype room_fault = GamePanic game_panic | ChanPanic chan_panic | BlockedForever

record Room =
  rm_id :: u64
  rm_config :: RoomConfig
  rm_ctxDone :: bool
  rm_done :: bool
  rm_closed :: bool
  rm_controls :: "control chan"
  rm_inputs :: "movement chan"
  rm_updates :: "RoomSnapshot chan"
  rm_samples :: "TickSample chan"
  rm_events :: "(Event list \<times> bool) chan"
  rm_rewards :: "(RewardUpdate list \<times> bool) chan"
  rm_latest :: RoomSnapshot
  rm_status :: RoomStats
  rm_rejected :: u64
  rm_world :: World
  rm_members :: "(u64, binding) gomap"
  rm_generation :: u64
  rm_emptyTimer :: bool
  rm_stats :: RoomStats
  rm_pc :: room_pc
  rm_chans :: nat
  rm_receipts :: "(nat \<times> receipt) list"

section \<open>Snapshots and statistics\<close>

definition room_snapshot :: "Room \<Rightarrow> bool \<Rightarrow> RoomSnapshot" where
  "room_snapshot r final = \<lparr>rsn_RoomID = rm_id r, rsn_Closed = final, rsn_Snapshot = Snapshot_of (rm_world r)\<rparr>"

definition storeStats :: "Room \<Rightarrow> Room" where
  "storeStats r =
     (let s = (rm_stats r)\<lparr>st_ServerTick := w_tick (rm_world r), st_Players := PlayerCount (rm_world r)\<rparr>
      in r\<lparr>rm_stats := s, rm_status := s\<rparr>)"

definition drop_oldest :: "Room \<Rightarrow> Room" where
  "drop_oldest r =
     (case try_recv (rm_updates r) of
        (Value _, c) \<Rightarrow> r\<lparr>rm_updates := c, rm_stats := (rm_stats r)\<lparr>st_DroppedSnapshots := st_DroppedSnapshots (rm_stats r) + 1\<rparr>\<rparr>
      | _ \<Rightarrow> r)"

text \<open>The last send of \<open>publish\<close> has no \<open>default\<close>: on a full channel it would wait for ever.\<close>

definition publish :: "bool \<Rightarrow> Room \<Rightarrow> room_fault + Room" where
  "publish final r =
     (let s = room_snapshot r final; r = drop_oldest (r\<lparr>rm_latest := s\<rparr>)
      in case try_send s (rm_updates r) of
           Inl p \<Rightarrow> Inl (ChanPanic p)
         | Inr (False, _) \<Rightarrow> Inl BlockedForever
         | Inr (True, c) \<Rightarrow> Inr (r\<lparr>rm_updates := c\<rparr>))"

definition Stats_of :: "Room \<Rightarrow> RoomStats" where
  "Stats_of r = (rm_status r)\<lparr>st_ControlQueueDepth := int (length (ch_buf (rm_controls r))),
     st_InputQueueDepth := int (length (ch_buf (rm_inputs r))), st_QueueRejections := rm_rejected r\<rparr>"

definition new_room :: "u64 \<Rightarrow> RoomConfig \<Rightarrow> World \<Rightarrow> Room" where
  "new_room i config w =
     (let s = \<lparr>rsn_RoomID = i, rsn_Closed = False, rsn_Snapshot = Snapshot_of w\<rparr>;
          z = \<lparr>st_RoomID = i, st_ServerTick = 0, st_Players = 0, st_ControlQueueDepth = 0, st_InputQueueDepth = 0,
            st_QueueRejections = 0, st_RejectedInputs = 0, st_DroppedSnapshots = 0, st_DroppedTickSamples = 0,
            st_LastTick = zero_sample, st_Closed = False, st_CloseReason = []\<rparr>
      in storeStats \<lparr>rm_id = i, rm_config = config, rm_ctxDone = False, rm_done = False, rm_closed = False,
           rm_controls = make_chan (nat (rc_ControlCapacity config)), rm_inputs = make_chan (nat (rc_InputCapacity config)),
           rm_updates = make_chan 1, rm_samples = make_chan (nat (rc_TickSampleCapacity config)),
           rm_events = make_chan (nat (rc_EventCapacity config)), rm_rewards = make_chan (nat (rc_EventCapacity config)),
           rm_latest = s, rm_status = z, rm_rejected = 0, rm_world = w, rm_members = [], rm_generation = 0,
           rm_emptyTimer = True, rm_stats = z, rm_pc = Selecting, rm_chans = 0, rm_receipts = []\<rparr>)"

definition Start :: "ctx_error option \<Rightarrow> u64 \<Rightarrow> RoomConfig \<Rightarrow> Catalog list \<Rightarrow> room_error + Room" where
  "Start ctxErr i config catalogs =
     (if i = 0 then Inl InvalidRoomID
      else bind_sum (RoomConfig_validate config) (\<lambda>_.
        case ctxErr of Some e \<Rightarrow> Inl (RoomCtx e)
        | None \<Rightarrow>
          (case NewWorld (rc_World config) catalogs of Inl e \<Rightarrow> Inl (RoomWorld e)
           | Inr w \<Rightarrow> Inr (new_room i config w))))"

section \<open>The calls of other goroutines\<close>

text \<open>Each call returns its error or the number of the receipt channel.\<close>

type_synonym call = "room_fault + ((room_error + nat) \<times> Room)"

definition enqueue_control :: "Room \<Rightarrow> (nat \<Rightarrow> control) \<Rightarrow> call" where
  "enqueue_control r c =
     (if rm_closed r \<or> rm_ctxDone r then Inr (Inl RoomClosed, r)
      else let receipt = rm_chans r; r = r\<lparr>rm_chans := Suc receipt\<rparr>
        in case try_send (c receipt) (rm_controls r) of
             Inl p \<Rightarrow> Inl (ChanPanic p)
           | Inr (True, q) \<Rightarrow> Inr (Inr receipt, r\<lparr>rm_controls := q\<rparr>)
           | Inr (False, _) \<Rightarrow> Inr (Inl ErrQueueFull, r\<lparr>rm_rejected := rm_rejected r + 1\<rparr>))"

definition submit :: "Room \<Rightarrow> control \<Rightarrow> call" where
  "submit r c = enqueue_control r (\<lambda>ch. c\<lparr>c_result := Some ch\<rparr>)"

definition Join :: "Room \<Rightarrow> u64 \<Rightarrow> entity_id \<Rightarrow> call" where
  "Join r sessionID playerID =
     (if sessionID = 0 then Inr (Inl ErrInvalidSession, r)
      else if playerID = 0 then Inr (Inl (RoomWorld ErrInvalidPlayer), r)
      else submit r (zero_control\<lparr>c_join := True, c_sessionID := sessionID, c_playerID := playerID\<rparr>))"

definition Leave :: "Room \<Rightarrow> u64 \<Rightarrow> call" where
  "Leave r sessionID =
     (if sessionID = 0 then Inr (Inl ErrInvalidSession, r) else submit r (zero_control\<lparr>c_sessionID := sessionID\<rparr>))"

definition Room_StartStage :: "Room \<Rightarrow> Plan \<Rightarrow> call" where
  "Room_StartStage r plan =
     (case ValidateStage plan (rc_World (rm_config r)) of
        Inl e \<Rightarrow> Inr (Inl (RoomWorld (ErrPlan e)), r)
      | Inr _ \<Rightarrow> submit r (zero_control\<lparr>c_stagePlan := Some plan\<rparr>))"

definition Room_StartReward :: "Room \<Rightarrow> Catalog \<Rightarrow> i64 \<Rightarrow> u64 \<Rightarrow> call" where
  "Room_StartReward r catalog seed dur =
     submit r (zero_control\<lparr>c_rewardStart := Some \<lparr>rw_catalog = catalog, rw_seed = seed, rw_durationTicks = dur\<rparr>\<rparr>)"

definition Room_ChooseReward :: "Room \<Rightarrow> u64 \<Rightarrow> equip_id \<Rightarrow> call" where
  "Room_ChooseReward r sessionID equipmentID =
     (if sessionID = 0 then Inr (Inl ErrInvalidSession, r)
      else if equipmentID = 0 then Inr (Inl (RoomWorld (ErrEquip (ErrUnknownEquipment 0))), r)
      else submit r (zero_control\<lparr>c_sessionID := sessionID, c_rewardChoice := equipmentID\<rparr>))"

definition Room_CompletedStage :: "Room \<Rightarrow> call" where
  "Room_CompletedStage r = enqueue_control r (\<lambda>ch. zero_control\<lparr>c_stageResult := Some ch\<rparr>)"

definition Room_ResumeState :: "Room \<Rightarrow> u64 \<Rightarrow> call" where
  "Room_ResumeState r sessionID =
     (if sessionID = 0 then Inr (Inl ErrInvalidSession, r)
      else enqueue_control r (\<lambda>ch. zero_control\<lparr>c_sessionID := sessionID, c_resumeState := Some ch\<rparr>))"

definition Room_GameResult :: "Room \<Rightarrow> GameOutcome \<Rightarrow> call" where
  "Room_GameResult r outcome =
     (if \<not> GameOutcome_Valid outcome then Inr (Inl (RoomWorld ErrInvalidGameOutcome), r)
      else enqueue_control r (\<lambda>ch. zero_control\<lparr>c_gameOutcome := outcome, c_gameResult := Some ch\<rparr>))"

definition Room_Input :: "Room \<Rightarrow> u64 \<Rightarrow> Input \<Rightarrow> time \<Rightarrow> room_fault + (room_error option \<times> Room)" where
  "Room_Input r sessionID input now =
     (if sessionID = 0 then Inr (Some ErrInvalidSession, r)
      else if \<not> Input_Validate input then Inr (Some (RoomWorld ErrInvalidInput), r)
      else if rm_closed r \<or> rm_ctxDone r then Inr (Some RoomClosed, r)
      else case map_of (rm_members r) sessionID of
          None \<Rightarrow> Inr (Some ErrNotJoined, r)
        | Some member \<Rightarrow>
          (case try_send \<lparr>mv_session = sessionID, mv_generation = b_generation member, mv_input = input, mv_received = now\<rparr>
                  (rm_inputs r) of
             Inl p \<Rightarrow> Inl (ChanPanic p)
           | Inr (True, q) \<Rightarrow> Inr (None, r\<lparr>rm_inputs := q\<rparr>)
           | Inr (False, _) \<Rightarrow> Inr (Some ErrQueueFull, r\<lparr>rm_rejected := rm_rejected r + 1\<rparr>)))"

section \<open>The room goroutine\<close>

text \<open>A receipt channel has room for one value and is closed after it: a second send would panic.\<close>

definition reply :: "receipt_chan \<Rightarrow> receipt \<Rightarrow> Room \<Rightarrow> room_fault + Room" where
  "reply ch x r =
     (case ch of None \<Rightarrow> Inl BlockedForever
      | Some n \<Rightarrow> if n \<in> set (map fst (rm_receipts r)) then Inl (ChanPanic SendOnClosed)
                  else Inr (r\<lparr>rm_receipts := rm_receipts r @ [(n, x)]\<rparr>))"

definition world_call :: "Room \<Rightarrow> world_error + World \<Rightarrow> room_error option \<times> Room" where
  "world_call r x = (case x of Inl e \<Rightarrow> (Some (RoomWorld e), r) | Inr w \<Rightarrow> (None, r\<lparr>rm_world := w\<rparr>))"

definition applyControl :: "control \<Rightarrow> Room \<Rightarrow> room_error option \<times> Room" where
  "applyControl c r =
     (case c_stagePlan c of Some plan \<Rightarrow> world_call r (StartStage (rm_world r) plan)
      | None \<Rightarrow>
     (case c_rewardStart c of
        Some s \<Rightarrow> world_call r (StartReward (rm_world r) (rw_catalog s) (rw_seed s) (rw_durationTicks s))
      | None \<Rightarrow>
        if c_rewardChoice c \<noteq> 0 then
          (case map_of (rm_members r) (c_sessionID c) of
             None \<Rightarrow> (Some ErrNotJoined, r)
           | Some member \<Rightarrow> world_call r (ChooseReward (rm_world r) (b_playerID member) (c_rewardChoice c)))
        else if c_join c then
          (case map_of (rm_members r) (c_sessionID c) of
             Some member \<Rightarrow> ((if b_playerID member = c_playerID c then None else Some ErrSessionBound), r)
           | None \<Rightarrow>
             (case AddPlayer (rm_world r) (c_playerID c) of
                Inl e \<Rightarrow> (Some (RoomWorld e), r)
              | Inr w \<Rightarrow>
                let g = rm_generation r + 1
                in (None, r\<lparr>rm_world := w, rm_generation := g, rm_emptyTimer := False,
                     rm_members := AList.update (c_sessionID c) \<lparr>b_playerID = c_playerID c, b_generation = g\<rparr> (rm_members r)\<rparr>)))
        else
          (case map_of (rm_members r) (c_sessionID c) of
             None \<Rightarrow> (None, r)
           | Some member \<Rightarrow>
             let w = RemovePlayer (rm_world r) (b_playerID member);
                 r = r\<lparr>rm_world := w, rm_members := AList.delete (c_sessionID c) (rm_members r)\<rparr>
             in (None, if PlayerCount w = 0 then r\<lparr>rm_emptyTimer := True\<rparr> else r))))"

definition resume_receipt :: "Room \<Rightarrow> u64 \<Rightarrow> room_error + RoomResumeState" where
  "resume_receipt r sessionID =
     (case map_of (rm_members r) sessionID of
        None \<Rightarrow> Inl ErrNotJoined
      | Some member \<Rightarrow>
        (case ResumeState (rm_world r) (b_playerID member) of
           Inl e \<Rightarrow> Inl (RoomWorld e)
         | Inr s \<Rightarrow> Inr \<lparr>rr_Snapshot = \<lparr>rsn_RoomID = rm_id r, rsn_Closed = False, rsn_Snapshot = rs_Snapshot s\<rparr>,
                       rr_Reward = rs_Reward s\<rparr>))"

definition handle_control :: "control \<Rightarrow> Room \<Rightarrow> room_fault + Room" where
  "handle_control c r =
     (if c_stageResult c \<noteq> None then reply (c_stageResult c) (StageResultReceipt (map_sum RoomWorld id (CompletedStage (rm_world r)))) r
      else if c_resumeState c \<noteq> None then reply (c_resumeState c) (ResumeStateReceipt (resume_receipt r (c_sessionID c))) r
      else if c_gameResult c \<noteq> None
      then reply (c_gameResult c) (GameResultReceipt (map_sum RoomWorld id (GameResult_of (rm_world r) (c_gameOutcome c)))) r
      else case applyControl c r of (err, r) \<Rightarrow> reply (c_result c) (Done_receipt err) r)"

text \<open>One turn of the loop over the controls; the channel is never closed.\<close>

definition control_step :: "nat \<Rightarrow> TickSample \<Rightarrow> Room \<Rightarrow> room_fault + Room" where
  "control_step k sample r =
     (case k of 0 \<Rightarrow> Inr (r\<lparr>rm_pc := Inputs (nat (rc_InputsPerTick (rm_config r))) sample\<rparr>)
      | Suc k \<Rightarrow>
        (case try_recv (rm_controls r) of
           (Value c, q) \<Rightarrow> bind_sum (handle_control c (r\<lparr>rm_controls := q\<rparr>))
             (\<lambda>r. Inr (r\<lparr>rm_pc := Controls k (sample\<lparr>ts_Controls := ts_Controls sample + 1\<rparr>)\<rparr>))
         | _ \<Rightarrow> Inr (r\<lparr>rm_pc := Inputs (nat (rc_InputsPerTick (rm_config r))) sample\<rparr>)))"

definition reject_input :: "Room \<Rightarrow> Room" where
  "reject_input r = r\<lparr>rm_stats := (rm_stats r)\<lparr>st_RejectedInputs := st_RejectedInputs (rm_stats r) + 1\<rparr>\<rparr>"

definition process_input :: "time \<Rightarrow> movement \<Rightarrow> Room \<Rightarrow> Room" where
  "process_input now m r =
     (case map_of (rm_members r) (mv_session m) of
        None \<Rightarrow> reject_input r
      | Some member \<Rightarrow>
        if b_generation member \<noteq> mv_generation m \<or> g_InputTimeout (rc_World (rm_config r)) \<le> time_sub now (mv_received m)
        then reject_input r
        else case ApplyInput (rm_world r) (b_playerID member) (mv_input m) (mv_received m) of
            Inl _ \<Rightarrow> reject_input r
          | Inr w \<Rightarrow> r\<lparr>rm_world := w\<rparr>)"

definition input_step :: "nat \<Rightarrow> TickSample \<Rightarrow> Room \<Rightarrow> Room" where
  "input_step k sample r =
     (case k of 0 \<Rightarrow> r\<lparr>rm_pc := Simulating sample\<rparr>
      | Suc k \<Rightarrow>
        (case try_recv (rm_inputs r) of
           (Value m, q) \<Rightarrow> (process_input (ts_StartedAt sample) m (r\<lparr>rm_inputs := q\<rparr>))
             \<lparr>rm_pc := Inputs k (sample\<lparr>ts_Inputs := ts_Inputs sample + 1\<rparr>)\<rparr>
         | _ \<Rightarrow> r\<lparr>rm_pc := Simulating sample\<rparr>))"

definition backpressure :: "Room \<Rightarrow> Room" where
  "backpressure r = r\<lparr>rm_stats := (rm_stats r)\<lparr>st_CloseReason := ''event_backpressure''\<rparr>\<rparr>"

text \<open>A batch, unless empty, is handed over; an overflow or a full channel closes the room.\<close>

definition hand_over :: "'a list \<times> bool \<Rightarrow> ('a list \<times> bool) chan \<Rightarrow> room_fault + (bool \<times> ('a list \<times> bool) chan)" where
  "hand_over batch c =
     (if snd batch then Inr (False, c)
      else if fst batch = [] then Inr (True, c)
      else case try_send batch c of Inl p \<Rightarrow> Inl (ChanPanic p) | Inr x \<Rightarrow> Inr x)"

definition dispatch_events :: "Room \<Rightarrow> room_fault + Room" where
  "dispatch_events r =
     (case TakeEvents (rm_world r) of (batch, w) \<Rightarrow>
        bind_sum (hand_over batch (rm_events r)) (\<lambda>(fits, c).
          let r = r\<lparr>rm_world := w, rm_events := c\<rparr> in Inr (if fits then r else backpressure r)))"

definition dispatch_rewards :: "Room \<Rightarrow> room_fault + Room" where
  "dispatch_rewards r =
     (case TakeRewardUpdates (rm_world r) of (batch, w) \<Rightarrow>
        bind_sum (hand_over batch (rm_rewards r)) (\<lambda>(fits, c).
          let r = r\<lparr>rm_world := w, rm_rewards := c\<rparr> in Inr (if fits then r else backpressure r)))"

definition send_sample :: "TickSample \<Rightarrow> Room \<Rightarrow> room_fault + Room" where
  "send_sample sample r =
     (case try_send sample (rm_samples r) of
        Inl p \<Rightarrow> Inl (ChanPanic p)
      | Inr (True, c) \<Rightarrow> Inr (r\<lparr>rm_samples := c\<rparr>)
      | Inr (False, _) \<Rightarrow> Inr (r\<lparr>rm_stats := (rm_stats r)\<lparr>st_DroppedTickSamples := st_DroppedTickSamples (rm_stats r) + 1\<rparr>\<rparr>))"

text \<open>The rest of \<open>tick\<close>, from the simulation on, and the test of \<open>run\<close> after it.\<close>

definition simulate :: "time \<Rightarrow> time \<Rightarrow> TickSample \<Rightarrow> Room \<Rightarrow> room_fault + Room" where
  "simulate now ended sample r =
     (case Step (rm_world r) now of Inl p \<Rightarrow> Inl (GamePanic p)
      | Inr w \<Rightarrow>
        bind_sum (dispatch_events (r\<lparr>rm_world := w\<rparr>)) (\<lambda>r.
        bind_sum (dispatch_rewards r) (\<lambda>r.
        bind_sum (if w_tick (rm_world r) mod 3 = 0 then publish False r else Inr r) (\<lambda>r.
          let sample = sample\<lparr>ts_ServerTick := w_tick (rm_world r), ts_Players := PlayerCount (rm_world r),
                ts_WorkDuration := time_sub ended (ts_StartedAt sample)\<rparr>
          in bind_sum (send_sample sample r) (\<lambda>r.
            let r = storeStats (r\<lparr>rm_stats := (rm_stats r)\<lparr>st_LastTick := sample\<rparr>\<rparr>)
            in Inr (r\<lparr>rm_pc := if st_CloseReason (rm_stats r) = [] then Selecting else Finishing\<rparr>))))))"

section \<open>Waking up and closing\<close>

datatype wake = Cancelled | IdleTimeout | TickAt time

definition wake_ready :: "wake \<Rightarrow> Room \<Rightarrow> bool" where
  "wake_ready k r = (case k of Cancelled \<Rightarrow> rm_ctxDone r | IdleTimeout \<Rightarrow> rm_emptyTimer r | TickAt _ \<Rightarrow> True)"

definition close_for :: "string \<Rightarrow> Room \<Rightarrow> Room" where
  "close_for reason r = r\<lparr>rm_stats := (rm_stats r)\<lparr>st_CloseReason := reason\<rparr>, rm_pc := Finishing\<rparr>"

definition select_step :: "wake \<Rightarrow> Room \<Rightarrow> Room" where
  "select_step k r =
     (case k of Cancelled \<Rightarrow> close_for ''requested'' r
      | IdleTimeout \<Rightarrow> close_for ''idle'' r
      | TickAt now \<Rightarrow>
        if rm_ctxDone r then close_for ''requested'' r
        else r\<lparr>rm_pc := Controls (nat (rc_ControlsPerTick (rm_config r)))
               (zero_sample\<lparr>ts_RoomID := rm_id r, ts_StartedAt := now\<rparr>)\<rparr>)"

definition refuse_control :: "control \<Rightarrow> Room \<Rightarrow> room_fault + Room" where
  "refuse_control c r =
     (if c_stageResult c \<noteq> None then reply (c_stageResult c) (StageResultReceipt (Inl RoomClosed)) r
      else if c_resumeState c \<noteq> None then reply (c_resumeState c) (ResumeStateReceipt (Inl RoomClosed)) r
      else if c_gameResult c \<noteq> None then reply (c_gameResult c) (GameResultReceipt (Inl RoomClosed)) r
      else reply (c_result c) (Done_receipt (Some RoomClosed)) r)"

definition close_as :: "'a chan \<Rightarrow> ('a chan \<Rightarrow> room_fault + 'b) \<Rightarrow> room_fault + 'b" where
  "close_as c f = (case close_chan c of Inl p \<Rightarrow> Inl (ChanPanic p) | Inr c \<Rightarrow> f c)"

definition finish_cleared :: "Room \<Rightarrow> room_fault + Room" where
  "finish_cleared r =
     bind_sum (publish True (r\<lparr>rm_world := Close (rm_world r), rm_members := [],
         rm_stats := (rm_stats r)\<lparr>st_Closed := True\<rparr>\<rparr>)) (\<lambda>r.
       let r = storeStats r
       in close_as (rm_updates r) (\<lambda>updates. close_as (rm_samples r) (\<lambda>samples.
          close_as (rm_events r) (\<lambda>events. close_as (rm_rewards r) (\<lambda>rewards.
            Inr (r\<lparr>rm_updates := updates, rm_samples := samples, rm_events := events, rm_rewards := rewards,
              rm_done := True, rm_emptyTimer := False, rm_pc := Exited\<rparr>))))))"

definition drain_step :: "Room \<Rightarrow> room_fault + Room" where
  "drain_step r =
     (case try_recv (rm_controls r) of
        (Value c, q) \<Rightarrow> refuse_control c (r\<lparr>rm_controls := q\<rparr>)
      | _ \<Rightarrow> finish_cleared (r\<lparr>rm_inputs := (rm_inputs r)\<lparr>ch_buf := []\<rparr>\<rparr>))"

text \<open>One step of the goroutine.  \<open>k\<close> is the branch the \<open>select\<close> of \<open>run\<close> takes when it is there, \<open>now\<close> and
  \<open>ended\<close> are what the clock shows when the simulation begins and ends.\<close>

definition goroutine :: "wake \<Rightarrow> time \<Rightarrow> time \<Rightarrow> Room \<Rightarrow> room_fault + Room" where
  "goroutine k now ended r =
     (case rm_pc r of
        Selecting \<Rightarrow> Inr (select_step k r)
      | Controls n sample \<Rightarrow> control_step n sample r
      | Inputs n sample \<Rightarrow> Inr (input_step n sample r)
      | Simulating sample \<Rightarrow> simulate now ended sample r
      | Finishing \<Rightarrow> Inr (r\<lparr>rm_ctxDone := True, rm_closed := True, rm_pc := Draining\<rparr>)
      | Draining \<Rightarrow> drain_step r
      | Exited \<Rightarrow> Inr r)"

end
