(* ===== verification/RoomRuns.thy ===== *)
theory RoomRuns
  imports Room
begin

text \<open>
  Every run of a room: the calls of any number of goroutines between the steps of the room goroutine.
  The invariant says that the world is one the game can reach, that queues are bounded and typed, that
  every receipt channel is pending or answered but never both, that the members are exactly the players
  of the world, and that the flags agree with the program counter.
\<close>

section \<open>What the calls on the world keep\<close>

lemma StartReward_players: "StartReward w k seed dur = Inr w' \<Longrightarrow> dom (map_of (w_players w')) = dom (map_of (w_players w))"
proof -
  have fr: "w_players (fold (\<lambda>offer w. emitRewardUpdate (f w offer) w) offers v) = w_players v" for f offers v
    by (induction offers arbitrary: v) (simp_all add: emitRewardUpdate_def)
  assume "StartReward w k seed dur = Inr w'"
  then show ?thesis unfolding StartReward_def Let_def by (auto simp: fr split: if_splits list.splits sum.splits)
qed

lemma StartStage_players: "StartStage w plan = Inr w' \<Longrightarrow> dom (map_of (w_players w')) = dom (map_of (w_players w))"
proof -
  have fr: "w_players (fold spawn_monster ss v) = w_players v" for ss v
    by (induction ss arbitrary: v) (simp_all add: spawn_monster_def allocateID_def)
  have en: "keys (w_players (enter_stage plan v)) = keys (w_players v)" for v by (simp add: enter_stage_def)
  have sp: "w_players (spawnStagePickups v n) = w_players v" for v n
    by (simp add: spawnStagePickups_def place_pickup_def allocateID_def Let_def)
  have nx: "keys (w_players (prepare_next v)) = keys (w_players v)" "w_players (prepare_initial v) = w_players v" for v
    by (simp_all add: prepare_next_def prepare_initial_def)
  have em: "w_players (emit e v) = w_players v" for e v by (simp add: emit_def)
  assume s: "StartStage w plan = Inr w'"
  then obtain v where v: "ValidateStage plan (w_config w) = Inr v" by (cases "ValidateStage plan (w_config w)") (simp_all add: StartStage_def)
  have "keys (w_players w') = keys (w_players w)"
    using s unfolding StartStage_def v sum.case Let_def
    by (simp split: if_split_asm) (auto simp: em fr sp en nx)
  then show ?thesis by (metis set_keys)
qed

lemma ChooseReward_players: "ChooseReward w i e = Inr w' \<Longrightarrow> dom (map_of (w_players w')) = dom (map_of (w_players w))"
  unfolding ChooseReward_def using applyRewardSelection_players by (auto split: if_splits sum.splits)

lemma ApplyInput_players: "ApplyInput w i input now = Inr w' \<Longrightarrow> dom (map_of (w_players w')) = dom (map_of (w_players w))"
  by (auto simp: ApplyInput_def Let_def update_conv' split: if_splits option.splits)

section \<open>The invariant\<close>

definition receipt_of :: "control \<Rightarrow> receipt_chan" where
  "receipt_of c = (if c_stageResult c \<noteq> None then c_stageResult c else if c_resumeState c \<noteq> None then c_resumeState c
     else if c_gameResult c \<noteq> None then c_gameResult c else c_result c)"

definition pending :: "Room \<Rightarrow> receipt_chan list" where
  "pending r = map receipt_of (ch_buf (rm_controls r))"

definition answered :: "Room \<Rightarrow> nat list" where
  "answered r = map fst (rm_receipts r)"

definition control_typed :: "control \<Rightarrow> bool" where
  "control_typed c \<longleftrightarrow> (\<forall>p. c_stagePlan c = Some p \<longrightarrow> plan_f64 p) \<and> (\<forall>s. c_rewardStart c = Some s \<longrightarrow> catalog_ok (rw_catalog s))"

definition movement_typed :: "movement \<Rightarrow> bool" where
  "movement_typed m \<longleftrightarrow> vec_ok (i_Direction (mv_input m))"

definition queues_inv :: "Room \<Rightarrow> bool" where
  "queues_inv r \<longleftrightarrow> reachable (rc_World (rm_config r)) (rm_world r) \<and>
     chan_ok (rm_controls r) \<and> chan_ok (rm_inputs r) \<and> chan_ok (rm_updates r) \<and> chan_ok (rm_samples r) \<and>
     chan_ok (rm_events r) \<and> chan_ok (rm_rewards r) \<and> \<not> ch_closed (rm_controls r) \<and> \<not> ch_closed (rm_inputs r) \<and>
     ch_cap (rm_updates r) = 1 \<and>
     (\<forall>c \<in> set (ch_buf (rm_controls r)). control_typed c) \<and> (\<forall>m \<in> set (ch_buf (rm_inputs r)). movement_typed m)"

definition receipts_inv :: "Room \<Rightarrow> bool" where
  "receipts_inv r \<longleftrightarrow> None \<notin> set (pending r) \<and> distinct (pending r @ map Some (answered r)) \<and>
     (\<forall>n. Some n \<in> set (pending r) \<or> n \<in> set (answered r) \<longrightarrow> n < rm_chans r)"

definition flags_inv :: "Room \<Rightarrow> bool" where
  "flags_inv r \<longleftrightarrow> (rm_closed r \<longleftrightarrow> rm_pc r \<in> {Draining, Exited}) \<and> (rm_closed r \<longrightarrow> rm_ctxDone r) \<and>
     (rm_done r \<longleftrightarrow> rm_pc r = Exited) \<and>
     (rm_pc r = Exited \<longrightarrow> ch_buf (rm_controls r) = [] \<and> ch_buf (rm_inputs r) = [] \<and> rm_members r = [] \<and>
        v_State (w_stage (rm_world r)) = Closed \<and> rsn_Closed (rm_latest r) \<and> st_Closed (rm_status r)) \<and>
     (ch_closed (rm_updates r) \<longleftrightarrow> rm_pc r = Exited) \<and> (ch_closed (rm_samples r) \<longleftrightarrow> rm_pc r = Exited) \<and>
     (ch_closed (rm_events r) \<longleftrightarrow> rm_pc r = Exited) \<and> (ch_closed (rm_rewards r) \<longleftrightarrow> rm_pc r = Exited)"

text \<open>The bindings are a bijection onto the players of the world, and the timer runs exactly in an empty room.\<close>

definition bound :: "(u64, binding) gomap \<Rightarrow> entity_id set \<Rightarrow> bool" where
  "bound ms ids \<longleftrightarrow> map_ok ms \<and> ids = {b_playerID b | s b. map_of ms s = Some b} \<and>
     (\<forall>s t b c. map_of ms s = Some b \<longrightarrow> map_of ms t = Some c \<longrightarrow> b_playerID b = b_playerID c \<longrightarrow> s = t)"

definition members_inv :: "Room \<Rightarrow> bool" where
  "members_inv r \<longleftrightarrow> rm_pc r \<noteq> Exited \<longrightarrow>
     bound (rm_members r) (dom (map_of (w_players (rm_world r)))) \<and> (rm_emptyTimer r \<longleftrightarrow> rm_members r = [])"

text \<open>Generations only grow, and with fewer than \<open>2 ^ 64\<close> receipt channels they never wrap.\<close>

definition generations_inv :: "Room \<Rightarrow> bool" where
  "generations_inv r \<longleftrightarrow> rm_chans r < 2 ^ 64 \<longrightarrow> unat (rm_generation r) + length (ch_buf (rm_controls r)) \<le> rm_chans r \<and>
     (\<forall>s b. map_of (rm_members r) s = Some b \<longrightarrow> b_generation b \<le> rm_generation r) \<and>
     (\<forall>m \<in> set (ch_buf (rm_inputs r)). mv_generation m \<le> rm_generation r)"

definition room_inv :: "Room \<Rightarrow> bool" where
  "room_inv r \<longleftrightarrow> queues_inv r \<and> receipts_inv r \<and> flags_inv r \<and> members_inv r \<and> generations_inv r"

lemmas room_inv_defs = room_inv_def queues_inv_def receipts_inv_def flags_inv_def members_inv_def generations_inv_def
  pending_def answered_def

lemma bound_Nil [simp]: "bound [] {}"
  by (simp add: bound_def)

lemma bound_player: "bound ms ids \<Longrightarrow> map_of ms s = Some b \<Longrightarrow> b_playerID b \<in> ids"
  unfolding bound_def by blast

lemma bound_empty:
  assumes "bound ms {}"
  shows "ms = []"
proof (cases ms)
  case (Cons p ms')
  have "map_of ms (fst p) = Some (snd p)" by (simp add: Cons)
  from bound_player[OF assms this] show ?thesis by simp
qed simp

lemma bound_join:
  assumes "bound ms ids" and "map_of ms s = None" and "i \<notin> ids"
  shows "bound (AList.update s \<lparr>b_playerID = i, b_generation = g\<rparr> ms) (insert i ids)"
proof -
  have "b_playerID b \<noteq> i" if "map_of ms t = Some b" for t b using assms(1,3) that by (auto simp: bound_def)
  then show ?thesis using assms unfolding bound_def
    by (auto simp: update_conv' split: if_splits) (metis option.distinct(1))
qed

lemma bound_leave:
  assumes "bound ms ids" and "map_of ms s = Some b"
  shows "bound (AList.delete s ms) (ids - {b_playerID b})"
proof -
  have u: "t = s" if "map_of ms t = Some c" "b_playerID c = b_playerID b" for t c
    using assms that unfolding bound_def by blast
  have "ids - {b_playerID b} = {b_playerID c | t c. map_of (AList.delete s ms) t = Some c}" (is "_ = ?R")
  proof
    show "ids - {b_playerID b} \<subseteq> ?R"
    proof
      fix i assume i: "i \<in> ids - {b_playerID b}"
      then obtain t c where c: "map_of ms t = Some c" "i = b_playerID c" using assms(1) unfolding bound_def by blast
      then have "t \<noteq> s" using assms(2) i by auto
      then show "i \<in> ?R" using c by (auto simp: delete_conv')
    qed
    show "?R \<subseteq> ids - {b_playerID b}"
    proof
      fix i assume "i \<in> ?R"
      then obtain t c where c: "i = b_playerID c" "map_of (AList.delete s ms) t = Some c" by blast
      then have "t \<noteq> s" "map_of ms t = Some c" by (simp_all add: delete_conv' split: if_split_asm)
      then show "i \<in> ids - {b_playerID b}" using bound_player[OF assms(1), of t c] u[of t c] c(1) by auto
    qed
  qed
  moreover have del: "map_of ms t = Some c" if "map_of (AList.delete s ms) t = Some c" for t c
    using that by (simp add: delete_conv' split: if_split_asm)
  moreover have "map_ok (AList.delete s ms)" using assms(1) by (simp add: bound_def)
  moreover have "t = t'" if "map_of (AList.delete s ms) t = Some c" "map_of (AList.delete s ms) t' = Some c'"
    "b_playerID c = b_playerID c'" for t t' c c'
    using assms(1) del[OF that(1)] del[OF that(2)] that(3) unfolding bound_def by blast
  ultimately show ?thesis unfolding bound_def by (intro conjI allI impI) assumption+
qed

lemma bound_empty_iff: "bound ms ids \<Longrightarrow> ids = {} \<longleftrightarrow> ms = []"
  using bound_empty by (cases "ms = []") (auto simp: bound_def[of "[]"])

lemma PlayerCount_0: "PlayerCount w = 0 \<longleftrightarrow> dom (map_of (w_players w)) = {}"
  by (cases "w_players w") (auto simp: PlayerCount_def)

lemma new_room_inv:
  assumes "reachable (rc_World config) w" and "w_players w = []"
  shows "room_inv (new_room i config w)"
  using assms by (auto simp: new_room_def Let_def storeStats_def room_inv_defs chan_ok_def)

lemma Start_inv:
  assumes "Start e i config catalogs = Inr r" and "config_ok (rc_World config)" and "\<forall>k \<in> set catalogs. catalog_ok k"
  shows "room_inv r"
proof -
  obtain w where w: "NewWorld (rc_World config) catalogs = Inr w" "r = new_room i config w"
    using assms(1) by (auto simp: Start_def bind_sum_Inr split: if_splits option.splits sum.splits)
  have "w_players w = []" using w(1) by (auto simp: NewWorld_def split: if_splits)
  then show ?thesis using new_room_inv[OF reachable.new[OF assms(2,3) w(1)]] w(2) by simp
qed

section \<open>Calls\<close>

lemma enqueue_control_inv:
  assumes "room_inv r" and "\<And>n. receipt_of (c n) = Some n \<and> control_typed (c n)"
  shows "\<exists>x r'. enqueue_control r c = Inr (x, r') \<and> room_inv r' \<and> rm_world r' = rm_world r \<and> rm_pc r' = rm_pc r \<and>
    (\<forall>n. x = Inr n \<longrightarrow> Some n \<in> set (pending r') \<and> \<not> rm_ctxDone r) \<and> (rm_ctxDone r \<longrightarrow> x = Inl RoomClosed \<and> r' = r) \<and>
    set (pending r) \<subseteq> set (pending r') \<and> rm_receipts r' = rm_receipts r"
proof (cases "rm_closed r \<or> rm_ctxDone r")
  case True
  then show ?thesis using assms(1) by (auto simp: enqueue_control_def room_inv_def flags_inv_def)
next
  case False
  let ?n = "rm_chans r" and ?q = "rm_controls r"
  have pc: "rm_pc r \<noteq> Exited" and op: "\<not> ch_closed ?q" using assms(1) False by (auto simp: room_inv_defs)
  have fresh: "Some ?n \<notin> set (pending r)" "?n \<notin> set (answered r)" using assms(1) by (force simp: room_inv_def receipts_inv_def)+
  show ?thesis
  proof (cases "length (ch_buf ?q) < ch_cap ?q")
    case True
    let ?r = "r\<lparr>rm_chans := Suc ?n, rm_controls := ?q\<lparr>ch_buf := ch_buf ?q @ [c ?n]\<rparr>\<rparr>"
    have e: "enqueue_control r c = Inr (Inr ?n, ?r)" using False True op by (simp add: enqueue_control_def Let_def try_send_open)
    have "queues_inv ?r" using assms True by (auto simp: room_inv_def queues_inv_def chan_ok_def)
    moreover have "receipts_inv ?r" using assms fresh
      by (auto simp: room_inv_def receipts_inv_def pending_def answered_def less_Suc_eq)
    moreover have "flags_inv ?r" "members_inv ?r" "generations_inv ?r" using assms(1) pc
      by (auto simp: room_inv_def flags_inv_def members_inv_def generations_inv_def)
    ultimately have "room_inv ?r" by (simp add: room_inv_def)
    then show ?thesis using e assms(2) False by (auto simp: pending_def)
  next
    case full: False
    let ?r = "r\<lparr>rm_chans := Suc ?n, rm_rejected := rm_rejected r + 1\<rparr>"
    have e: "enqueue_control r c = Inr (Inl ErrQueueFull, ?r)" using False full op by (simp add: enqueue_control_def Let_def try_send_open)
    have "room_inv ?r" using assms(1)
      by (auto simp: room_inv_def queues_inv_def receipts_inv_def flags_inv_def members_inv_def generations_inv_def pending_def answered_def less_Suc_eq)
    then show ?thesis using e False by (auto simp: pending_def)
  qed
qed

lemma Room_Input_inv:
  assumes "room_inv r" and "vec_ok (i_Direction input)"
  shows "\<exists>x r'. Room_Input r s input now = Inr (x, r') \<and> room_inv r' \<and> rm_world r' = rm_world r \<and> rm_pc r' = rm_pc r \<and>
    pending r' = pending r \<and> rm_receipts r' = rm_receipts r \<and> (rm_ctxDone r \<longrightarrow> r' = r)"
proof -
  let ?q = "rm_inputs r"
  consider (same) x where "Room_Input r s input now = Inr (x, r)"
    | (full) x where "Room_Input r s input now = Inr (x, r\<lparr>rm_rejected := rm_rejected r + 1\<rparr>)" "\<not> rm_ctxDone r"
    | (ok) b where "map_of (rm_members r) s = Some b" "\<not> rm_ctxDone r" "length (ch_buf ?q) < ch_cap ?q"
      "Room_Input r s input now = Inr (None, r\<lparr>rm_inputs := ?q\<lparr>ch_buf := ch_buf ?q @
        [\<lparr>mv_session = s, mv_generation = b_generation b, mv_input = input, mv_received = now\<rparr>]\<rparr>\<rparr>)"
  proof -
    have op: "\<not> ch_closed ?q" and fl: "rm_closed r \<Longrightarrow> rm_ctxDone r"
      using assms(1) by (auto simp: room_inv_def queues_inv_def flags_inv_def)
    show ?thesis
    proof (cases "s = 0 \<or> \<not> Input_Validate input \<or> rm_ctxDone r \<or> map_of (rm_members r) s = None")
      case True
      then have "\<exists>x. Room_Input r s input now = Inr (x, r)" using fl by (auto simp: Room_Input_def)
      then show ?thesis using same by blast
    next
      case False
      then obtain b where "map_of (rm_members r) s = Some b" by auto
      moreover from this have "Room_Input r s input now = (if length (ch_buf ?q) < ch_cap ?q
          then Inr (None, r\<lparr>rm_inputs := ?q\<lparr>ch_buf := ch_buf ?q @
            [\<lparr>mv_session = s, mv_generation = b_generation b, mv_input = input, mv_received = now\<rparr>]\<rparr>\<rparr>)
          else Inr (Some ErrQueueFull, r\<lparr>rm_rejected := rm_rejected r + 1\<rparr>))"
        using False fl op by (auto simp: Room_Input_def try_send_open)
      ultimately show ?thesis using False full ok by (cases "length (ch_buf ?q) < ch_cap ?q") auto
    qed
  qed
  then show ?thesis
  proof cases
    case same
    then show ?thesis using assms(1) by auto
  next
    case full
    have "room_inv (r\<lparr>rm_rejected := rm_rejected r + 1\<rparr>)" using assms(1) by (simp add: room_inv_defs)
    then show ?thesis using full by (auto simp: pending_def)
  next
    case ok
    let ?r = "r\<lparr>rm_inputs := ?q\<lparr>ch_buf := ch_buf ?q @
        [\<lparr>mv_session = s, mv_generation = b_generation b, mv_input = input, mv_received = now\<rparr>]\<rparr>\<rparr>"
    have pc: "rm_pc r \<noteq> Exited" using assms(1) ok(2) by (auto simp: room_inv_defs)
    have "queues_inv ?r" using assms ok(3) by (auto simp: room_inv_def queues_inv_def chan_ok_def movement_typed_def)
    moreover have "receipts_inv ?r" "flags_inv ?r" "members_inv ?r" "generations_inv ?r" using assms(1) pc ok(1)
      by (auto simp: room_inv_def receipts_inv_def flags_inv_def members_inv_def generations_inv_def pending_def answered_def)
    ultimately have "room_inv ?r" by (simp add: room_inv_def)
    then show ?thesis using ok by (auto simp: pending_def)
  qed
qed

section \<open>Controls\<close>

lemma reachable_steps: "world_step\<^sup>*\<^sup>* w w' \<Longrightarrow> reachable c w \<Longrightarrow> reachable c w'"
  by (induction rule: rtranclp_induct) (auto intro: reachable.step)

lemma RemovePlayer_players: "w_players (RemovePlayer w i) = AList.delete i (w_players w)"
  by (auto simp: RemovePlayer_def Let_def set_stage_state_def split: option.splits prod.splits)

text \<open>What \<open>applyControl\<close> may change, and how.\<close>

definition controlled :: "Room \<Rightarrow> World \<Rightarrow> (u64, binding) gomap \<Rightarrow> u64 \<Rightarrow> bool \<Rightarrow> bool" where
  "controlled r w ms g t \<longleftrightarrow> world_step\<^sup>*\<^sup>* (rm_world r) w \<and> bound ms (dom (map_of (w_players w))) \<and> (t \<longleftrightarrow> ms = []) \<and>
     ((g = rm_generation r \<and> (\<forall>s b. map_of ms s = Some b \<longrightarrow> map_of (rm_members r) s = Some b)) \<or>
      (g = rm_generation r + 1 \<and> (\<exists>s i. map_of (rm_members r) s = None \<and> ms = AList.update s \<lparr>b_playerID = i, b_generation = g\<rparr> (rm_members r))))"

lemma controlled_world:
  assumes "bound (rm_members r) (dom (map_of (w_players (rm_world r))))" and "rm_emptyTimer r \<longleftrightarrow> rm_members r = []"
    and "\<And>w. x = Inr w \<Longrightarrow> world_step (rm_world r) w \<and> dom (map_of (w_players w)) = dom (map_of (w_players (rm_world r)))"
  shows "\<exists>w ms g t. snd (world_call r x) = r\<lparr>rm_world := w, rm_members := ms, rm_generation := g, rm_emptyTimer := t\<rparr> \<and>
    controlled r w ms g t"
proof -
  let ?w = "case x of Inl _ \<Rightarrow> rm_world r | Inr w \<Rightarrow> w"
  have "snd (world_call r x) = r\<lparr>rm_world := ?w, rm_members := rm_members r, rm_generation := rm_generation r,
      rm_emptyTimer := rm_emptyTimer r\<rparr>"
    by (cases x) (simp_all add: world_call_def)
  moreover have "controlled r ?w (rm_members r) (rm_generation r) (rm_emptyTimer r)"
    using assms by (cases x) (simp_all add: controlled_def r_into_rtranclp)
  ultimately show ?thesis by blast
qed

lemma controlled_same:
  assumes "bound (rm_members r) (dom (map_of (w_players (rm_world r))))" and "rm_emptyTimer r \<longleftrightarrow> rm_members r = []"
  shows "\<exists>w ms g t. r = r\<lparr>rm_world := w, rm_members := ms, rm_generation := g, rm_emptyTimer := t\<rparr> \<and> controlled r w ms g t"
  by (rule exI[of _ "rm_world r"], rule exI[of _ "rm_members r"], rule exI[of _ "rm_generation r"], rule exI[of _ "rm_emptyTimer r"])
    (use assms in \<open>simp add: controlled_def\<close>)

lemma AddPlayer_players:
  "AddPlayer w i = Inr w' \<Longrightarrow> dom (map_of (w_players w')) = insert i (dom (map_of (w_players w))) \<and> i \<notin> dom (map_of (w_players w))"
  by (auto simp: AddPlayer_def update_conv' split: if_splits)

lemma update_not_Nil [simp]: "AList.update k v m \<noteq> []"
  by (cases m) (auto simp: AList.update.simps)

lemma applyControl_ok:
  assumes b: "bound (rm_members r) (dom (map_of (w_players (rm_world r))))" and t: "rm_emptyTimer r \<longleftrightarrow> rm_members r = []"
    and typed: "control_typed c"
  shows "\<exists>w ms g t. snd (applyControl c r) = r\<lparr>rm_world := w, rm_members := ms, rm_generation := g, rm_emptyTimer := t\<rparr> \<and>
    controlled r w ms g t"
proof -
  note same = controlled_same[OF b t] and call = controlled_world[OF b t]
  consider (stage) p where "c_stagePlan c = Some p" | (reward) s where "c_stagePlan c = None" "c_rewardStart c = Some s"
    | (choice) "c_stagePlan c = None" "c_rewardStart c = None" "c_rewardChoice c \<noteq> 0"
    | (join) "c_stagePlan c = None" "c_rewardStart c = None" "c_rewardChoice c = 0" "c_join c"
    | (leave) "c_stagePlan c = None" "c_rewardStart c = None" "c_rewardChoice c = 0" "\<not> c_join c"
    by (cases "c_stagePlan c"; cases "c_rewardStart c"; cases "c_rewardChoice c = 0"; cases "c_join c") auto
  then show ?thesis
  proof cases
    case stage
    have "plan_f64 p" using typed stage by (simp add: control_typed_def)
    then show ?thesis using stage call[of "StartStage (rm_world r) p"] world_step.start StartStage_players by (simp add: applyControl_def)
  next
    case reward
    have "catalog_ok (rw_catalog s)" using typed reward by (simp add: control_typed_def)
    then show ?thesis using reward call[of "StartReward (rm_world r) (rw_catalog s) (rw_seed s) (rw_durationTicks s)"]
        world_step.reward StartReward_players by (simp add: applyControl_def)
  next
    case choice
    show ?thesis
    proof (cases "map_of (rm_members r) (c_sessionID c)")
      case None
      then show ?thesis using choice same by (simp add: applyControl_def)
    next
      case (Some m)
      then show ?thesis using choice call[of "ChooseReward (rm_world r) (b_playerID m) (c_rewardChoice c)"]
          world_step.choose ChooseReward_players by (simp add: applyControl_def)
    qed
  next
    case join
    have "snd (applyControl c r) = r \<or> (\<exists>w. map_of (rm_members r) (c_sessionID c) = None \<and>
      AddPlayer (rm_world r) (c_playerID c) = Inr w \<and> snd (applyControl c r) = r\<lparr>rm_world := w, rm_generation := rm_generation r + 1,
        rm_emptyTimer := False, rm_members := AList.update (c_sessionID c)
          \<lparr>b_playerID = c_playerID c, b_generation = rm_generation r + 1\<rparr> (rm_members r)\<rparr>)"
    proof (cases "map_of (rm_members r) (c_sessionID c)")
      case None
      then show ?thesis using join by (cases "AddPlayer (rm_world r) (c_playerID c)") (simp_all add: applyControl_def Let_def)
    qed (use join in \<open>simp add: applyControl_def\<close>)
    then consider (no) "snd (applyControl c r) = r" | (yes) w where "map_of (rm_members r) (c_sessionID c) = None"
      "AddPlayer (rm_world r) (c_playerID c) = Inr w" "snd (applyControl c r) = r\<lparr>rm_world := w, rm_generation := rm_generation r + 1,
        rm_emptyTimer := False, rm_members := AList.update (c_sessionID c)
          \<lparr>b_playerID = c_playerID c, b_generation = rm_generation r + 1\<rparr> (rm_members r)\<rparr>"
      by blast
    then show ?thesis
    proof cases
      case yes
      have "controlled r w (AList.update (c_sessionID c) \<lparr>b_playerID = c_playerID c, b_generation = rm_generation r + 1\<rparr> (rm_members r))
          (rm_generation r + 1) False"
        using bound_join[OF b yes(1), of "c_playerID c"] AddPlayer_players[OF yes(2)] yes(1) world_step.join[OF yes(2)]
        unfolding controlled_def by (simp add: r_into_rtranclp) blast
      moreover have "snd (applyControl c r) = r\<lparr>rm_world := w, rm_members := AList.update (c_sessionID c)
          \<lparr>b_playerID = c_playerID c, b_generation = rm_generation r + 1\<rparr> (rm_members r),
          rm_generation := rm_generation r + 1, rm_emptyTimer := False\<rparr>" using yes(3) by simp
      ultimately show ?thesis by blast
    qed (use same in simp)
  next
    case leave
    show ?thesis
    proof (cases "map_of (rm_members r) (c_sessionID c)")
      case None
      then show ?thesis using leave same by (simp add: applyControl_def)
    next
      case (Some m)
      let ?w = "RemovePlayer (rm_world r) (b_playerID m)" and ?ms = "AList.delete (c_sessionID c) (rm_members r)"
      have bd: "bound ?ms (dom (map_of (w_players ?w)))"
        using bound_leave[OF b Some] by (simp add: RemovePlayer_players delete_conv')
      have "PlayerCount ?w = 0 \<longleftrightarrow> ?ms = []" unfolding PlayerCount_0 by (rule bound_empty_iff[OF bd])
      moreover have "rm_members r \<noteq> []" using Some by auto
      ultimately have "snd (applyControl c r) = r\<lparr>rm_world := ?w, rm_members := ?ms, rm_generation := rm_generation r,
          rm_emptyTimer := (?ms = [])\<rparr>" using leave Some t by (simp add: applyControl_def Let_def)
      moreover have "controlled r ?w ?ms (rm_generation r) (?ms = [])"
      proof -
        have "world_step\<^sup>*\<^sup>* (rm_world r) ?w" using world_step.leave by (rule r_into_rtranclp)
        moreover have "map_of (rm_members r) s = Some b" if "map_of ?ms s = Some b" for s b
          using that by (simp add: delete_conv' split: if_split_asm)
        ultimately show ?thesis using bd unfolding controlled_def by blast
      qed
      ultimately show ?thesis by blast
    qed
  qed
qed

section \<open>The steps of the goroutine\<close>

definition known :: "Room \<Rightarrow> receipt_chan set" where
  "known r = set (pending r) \<union> Some ` set (answered r)"

text \<open>What every step of a run does, and what composes.\<close>

definition progress :: "Room \<Rightarrow> Room \<Rightarrow> bool" where
  "progress r r' \<longleftrightarrow> room_inv r' \<and> world_step\<^sup>*\<^sup>* (rm_world r) (rm_world r') \<and> known r \<subseteq> known r' \<and>
     (\<exists>new. rm_receipts r' = rm_receipts r @ new) \<and> rm_config r' = rm_config r \<and> (rm_ctxDone r \<longrightarrow> rm_ctxDone r')"

lemma progress_trans: "progress r s \<Longrightarrow> progress s t \<Longrightarrow> progress r t"
  unfolding progress_def by (metis (no_types, lifting) append.assoc order_trans rtranclp_trans)

lemma progressI:
  assumes "room_inv r'" and "world_step\<^sup>*\<^sup>* (rm_world r) (rm_world r')" and "pending r' = pending r"
    and "rm_receipts r' = rm_receipts r" and "rm_config r' = rm_config r" and "rm_ctxDone r \<longrightarrow> rm_ctxDone r'"
  shows "progress r r'"
  using assms by (simp add: progress_def known_def answered_def)

lemma reply_ok:
  "n \<notin> set (answered r) \<Longrightarrow> reply (Some n) x r = Inr (r\<lparr>rm_receipts := rm_receipts r @ [(n, x)]\<rparr>)"
  by (simp add: reply_def answered_def)

text \<open>A control is taken from the channel, its effect is applied, its receipt is sent.\<close>

lemma answer_inv:
  assumes r: "room_inv r" and buf: "ch_buf (rm_controls r) = c # cs" and n: "receipt_of c = Some n"
    and w: "controlled r w ms g t"
  shows "n \<notin> set (answered r) \<and> progress r (r\<lparr>rm_controls := (rm_controls r)\<lparr>ch_buf := cs\<rparr>, rm_world := w, rm_members := ms,
      rm_generation := g, rm_emptyTimer := t, rm_receipts := rm_receipts r @ [(n, x)]\<rparr>)" (is "_ \<and> progress r ?r")
proof -
  have inv: "queues_inv r" "receipts_inv r" "flags_inv r" "members_inv r" "generations_inv r" using r by (simp_all add: room_inv_def)
  have na: "n \<notin> set (answered r)" using inv(2) buf n by (auto simp: receipts_inv_def pending_def)
  have ws: "world_step\<^sup>*\<^sup>* (rm_world r) w" using w by (simp add: controlled_def)
  have "queues_inv ?r" using inv(1) buf reachable_steps[OF ws] by (auto simp: queues_inv_def chan_ok_def)
  moreover have "receipts_inv ?r" using inv(2) buf n by (auto simp: receipts_inv_def pending_def answered_def)
  moreover have "flags_inv ?r" using inv(3) buf by (auto simp: flags_inv_def)
  moreover have "members_inv ?r" using w by (simp add: members_inv_def controlled_def)
  moreover have "generations_inv ?r"
  proof (cases "rm_chans r < 2 ^ 64")
    case True
    then have le: "Suc (unat (rm_generation r) + length cs) \<le> rm_chans r"
      and ms: "\<And>s b. map_of (rm_members r) s = Some b \<Longrightarrow> b_generation b \<le> rm_generation r"
      and mv: "\<And>m. m \<in> set (ch_buf (rm_inputs r)) \<Longrightarrow> mv_generation m \<le> rm_generation r"
      using inv(5) buf by (auto simp: generations_inv_def)
    then have nw: "unat (rm_generation r + 1) = Suc (unat (rm_generation r))" using True by (simp add: unat_word_ariths)
    have up: "rm_generation r \<le> rm_generation r + 1" using nw by (simp add: word_le_nat_alt)
    from w consider "g = rm_generation r" "\<forall>s b. map_of ms s = Some b \<longrightarrow> map_of (rm_members r) s = Some b"
      | s i where "g = rm_generation r + 1" "ms = AList.update s \<lparr>b_playerID = i, b_generation = g\<rparr> (rm_members r)"
      unfolding controlled_def by blast
    then show ?thesis
    proof cases
      case 1
      then show ?thesis using le ms mv by (auto simp: generations_inv_def)
    next
      case 2
      then show ?thesis using le ms mv nw up order_trans[OF _ up] by (auto simp: generations_inv_def update_conv')
    qed
  qed (simp add: generations_inv_def)
  ultimately have "room_inv ?r" by (simp add: room_inv_def)
  then show ?thesis using na ws buf n by (auto simp: progress_def known_def pending_def answered_def)
qed

lemma receipt_of_cases: "receipt_of c = (if c_stageResult c \<noteq> None then c_stageResult c
    else if c_resumeState c \<noteq> None then c_resumeState c else if c_gameResult c \<noteq> None then c_gameResult c else c_result c)"
  by (simp add: receipt_of_def)

lemma controlled_popped:
  "controlled (r\<lparr>rm_controls := q\<rparr>) w ms g t = controlled r w ms g t"
  by (simp add: controlled_def)

lemma handle_control_ok:
  assumes r: "room_inv r" and buf: "ch_buf (rm_controls r) = c # cs"
  shows "\<exists>r'. handle_control c (r\<lparr>rm_controls := (rm_controls r)\<lparr>ch_buf := cs\<rparr>\<rparr>) = Inr r' \<and> progress r r' \<and> rm_pc r' = rm_pc r \<and>
    ch_buf (rm_controls r') = cs"
proof -
  let ?r = "r\<lparr>rm_controls := (rm_controls r)\<lparr>ch_buf := cs\<rparr>\<rparr>"
  obtain n where n: "receipt_of c = Some n" using r buf by (cases "receipt_of c") (auto simp: room_inv_def receipts_inv_def pending_def)
  have pc: "rm_pc r \<noteq> Exited" using r buf by (auto simp: room_inv_def flags_inv_def)
  have b: "bound (rm_members r) (dom (map_of (w_players (rm_world r))))" "rm_emptyTimer r \<longleftrightarrow> rm_members r = []"
    using r pc by (simp_all add: room_inv_def members_inv_def)
  have typed: "control_typed c" using r buf by (simp add: room_inv_def queues_inv_def)
  have plain: "\<exists>r'. reply (Some n) x ?r = Inr r' \<and> progress r r' \<and> rm_pc r' = rm_pc r \<and> ch_buf (rm_controls r') = cs" for x
  proof -
    obtain w ms g t where s: "r = r\<lparr>rm_world := w, rm_members := ms, rm_generation := g, rm_emptyTimer := t\<rparr>" "controlled r w ms g t"
      using controlled_same[OF b] by blast
    have eq: "rm_world r = w" "rm_members r = ms" "rm_generation r = g" "rm_emptyTimer r = t" by (subst s(1), simp)+
    note a = answer_inv[OF r buf n s(2), of x]
    have e: "r\<lparr>rm_controls := (rm_controls r)\<lparr>ch_buf := cs\<rparr>, rm_world := w, rm_members := ms, rm_generation := g, rm_emptyTimer := t,
        rm_receipts := rm_receipts r @ [(n, x)]\<rparr> = ?r\<lparr>rm_receipts := rm_receipts ?r @ [(n, x)]\<rparr>"
      unfolding eq[symmetric] by simp
    then show ?thesis using a reply_ok[of n ?r x] by (auto simp: answered_def)
  qed
  show ?thesis
  proof (cases "c_stageResult c \<noteq> None \<or> c_resumeState c \<noteq> None \<or> c_gameResult c \<noteq> None")
    case True
    then show ?thesis using n plain by (auto simp: handle_control_def receipt_of_cases split: if_split_asm)
  next
    case False
    obtain w ms g t where s: "snd (applyControl c ?r) = ?r\<lparr>rm_world := w, rm_members := ms, rm_generation := g, rm_emptyTimer := t\<rparr>"
      "controlled ?r w ms g t"
      using applyControl_ok[of ?r c] b typed by auto
    obtain err where e: "applyControl c ?r = (err, ?r\<lparr>rm_world := w, rm_members := ms, rm_generation := g, rm_emptyTimer := t\<rparr>)"
      using s(1) by (metis prod.collapse)
    have a: "n \<notin> set (answered r)" "progress r (r\<lparr>rm_controls := (rm_controls r)\<lparr>ch_buf := cs\<rparr>, rm_world := w, rm_members := ms,
      rm_generation := g, rm_emptyTimer := t, rm_receipts := rm_receipts r @ [(n, Done_receipt err)]\<rparr>)"
      using answer_inv[OF r buf n] s(2) by (auto simp: controlled_popped)
    have "c_result c = Some n" using n False by (simp add: receipt_of_def)
    then show ?thesis using False a e by (simp add: handle_control_def reply_def answered_def)
  qed
qed

lemma room_inv_pc:
  assumes "room_inv r" and "rm_pc r \<notin> {Draining, Exited}" and "pc \<notin> {Draining, Exited}"
  shows "room_inv (r\<lparr>rm_pc := pc\<rparr>)"
  using assms by (auto simp: room_inv_def queues_inv_def receipts_inv_def flags_inv_def members_inv_def generations_inv_def pending_def answered_def)

lemma progress_pc:
  assumes "room_inv r" and "rm_pc r \<notin> {Draining, Exited}" and "pc \<notin> {Draining, Exited}"
  shows "progress r (r\<lparr>rm_pc := pc\<rparr>)"
  using room_inv_pc[OF assms] by (intro progressI) (simp_all add: pending_def)

lemma control_step_ok:
  assumes "room_inv r" and "rm_pc r = Controls k sample"
  shows "\<exists>r'. control_step k sample r = Inr r' \<and> progress r r'"
proof (cases "k = 0 \<or> ch_buf (rm_controls r) = []")
  case True
  then have "control_step k sample r = Inr (r\<lparr>rm_pc := Inputs (nat (rc_InputsPerTick (rm_config r))) sample\<rparr>)"
    by (auto simp: control_step_def try_recv_def split: nat.splits)
  then show ?thesis using progress_pc[OF assms(1)] assms(2) by simp
next
  case False
  then obtain k' c cs where k: "k = Suc k'" "ch_buf (rm_controls r) = c # cs" by (metis not0_implies_Suc neq_Nil_conv)
  obtain r' where r': "handle_control c (r\<lparr>rm_controls := (rm_controls r)\<lparr>ch_buf := cs\<rparr>\<rparr>) = Inr r'" "progress r r'" "rm_pc r' = rm_pc r"
    using handle_control_ok[OF assms(1) k(2)] by blast
  let ?pc = "Controls k' (sample\<lparr>ts_Controls := ts_Controls sample + 1\<rparr>)"
  have "progress r' (r'\<lparr>rm_pc := ?pc\<rparr>)" using r' assms(2) by (intro progress_pc) (auto simp: progress_def)
  then show ?thesis using progress_trans[OF r'(2)] r'(1) k by (simp add: control_step_def try_recv_def)
qed

section \<open>Inputs and the simulation\<close>

lemma room_inv_quiet:
  assumes r: "room_inv r" and pc: "rm_pc r \<notin> {Draining, Exited}" "pc' \<notin> {Draining, Exited}"
    and w: "world_step\<^sup>*\<^sup>* (rm_world r) w" "dom (map_of (w_players w)) = dom (map_of (w_players (rm_world r)))"
    and ms: "set ms \<subseteq> set (ch_buf (rm_inputs r))" "length ms \<le> length (ch_buf (rm_inputs r))"
    and ev: "chan_ok ev" "\<not> ch_closed ev" and rw: "chan_ok rw" "\<not> ch_closed rw" and sa: "chan_ok sa" "\<not> ch_closed sa"
    and up: "chan_ok up" "\<not> ch_closed up" "ch_cap up = 1"
  shows "progress r (r\<lparr>rm_world := w, rm_inputs := (rm_inputs r)\<lparr>ch_buf := ms\<rparr>, rm_events := ev, rm_rewards := rw,
    rm_samples := sa, rm_updates := up, rm_latest := l, rm_status := ss, rm_stats := st, rm_pc := pc'\<rparr>)" (is "progress r ?r")
proof -
  have inv: "queues_inv r" "receipts_inv r" "flags_inv r" "members_inv r" "generations_inv r" using r by (simp_all add: room_inv_def)
  have "queues_inv ?r" using inv(1) reachable_steps[OF w(1)] ms ev rw sa up
    by (auto simp: queues_inv_def chan_ok_def dest: subsetD)
  moreover have "receipts_inv ?r" using inv(2) by (simp add: receipts_inv_def pending_def answered_def)
  moreover have "flags_inv ?r" using inv(3) pc ev rw sa up by (auto simp: flags_inv_def)
  moreover have "members_inv ?r" using inv(4) pc w(2) by (simp add: members_inv_def)
  moreover have "generations_inv ?r" using inv(5) ms(1) by (auto simp: generations_inv_def dest: subsetD)
  ultimately have "room_inv ?r" by (simp add: room_inv_def)
  then show ?thesis using w(1) by (intro progressI) (simp_all add: pending_def)
qed

lemma open_channels:
  assumes "room_inv r" and "rm_pc r \<notin> {Draining, Exited}"
  shows "chan_ok (rm_events r) \<and> \<not> ch_closed (rm_events r)" "chan_ok (rm_rewards r) \<and> \<not> ch_closed (rm_rewards r)"
    "chan_ok (rm_samples r) \<and> \<not> ch_closed (rm_samples r)"
    "chan_ok (rm_updates r) \<and> \<not> ch_closed (rm_updates r) \<and> ch_cap (rm_updates r) = 1"
  using assms by (auto simp: room_inv_def queues_inv_def flags_inv_def)

lemma process_input_shape:
  assumes "reachable c (rm_world r)" and "movement_typed m"
  shows "\<exists>w st. process_input now m r = r\<lparr>rm_world := w, rm_stats := st\<rparr> \<and> world_step\<^sup>*\<^sup>* (rm_world r) w \<and>
    dom (map_of (w_players w)) = dom (map_of (w_players (rm_world r)))"
proof -
  have rej: "\<exists>w st. reject_input r = r\<lparr>rm_world := w, rm_stats := st\<rparr> \<and> world_step\<^sup>*\<^sup>* (rm_world r) w \<and>
    dom (map_of (w_players w)) = dom (map_of (w_players (rm_world r)))"
    by (rule exI[of _ "rm_world r"]) (auto simp: reject_input_def)
  have acc: "\<exists>w' st. r\<lparr>rm_world := w\<rparr> = r\<lparr>rm_world := w', rm_stats := st\<rparr> \<and> world_step\<^sup>*\<^sup>* (rm_world r) w' \<and>
    dom (map_of (w_players w')) = dom (map_of (w_players (rm_world r)))"
    if w: "ApplyInput (rm_world r) i (mv_input m) t = Inr w" for i t w
    using world_step.input[OF _ w] assms(2) ApplyInput_players[OF w]
    by (intro exI[of _ w] exI[of _ "rm_stats r"]) (auto simp: movement_typed_def)
  show ?thesis unfolding process_input_def using rej acc by (simp split: option.split sum.split)
qed

lemma input_step_ok:
  assumes "room_inv r" and "rm_pc r = Inputs k sample"
  shows "progress r (input_step k sample r)"
proof (cases "k = 0 \<or> ch_buf (rm_inputs r) = []")
  case True
  then have "input_step k sample r = r\<lparr>rm_pc := Simulating sample\<rparr>" by (auto simp: input_step_def try_recv_def split: nat.splits)
  then show ?thesis using progress_pc[OF assms(1)] assms(2) by simp
next
  case False
  then obtain k' m ms where k: "k = Suc k'" "ch_buf (rm_inputs r) = m # ms" by (metis not0_implies_Suc neq_Nil_conv)
  let ?r = "r\<lparr>rm_inputs := (rm_inputs r)\<lparr>ch_buf := ms\<rparr>\<rparr>"
  have "reachable (rc_World (rm_config r)) (rm_world ?r)" "movement_typed m" using assms(1) k(2) by (simp_all add: room_inv_def queues_inv_def)
  from process_input_shape[OF this, of "ts_StartedAt sample"]
  obtain w st where w: "process_input (ts_StartedAt sample) m ?r = ?r\<lparr>rm_world := w, rm_stats := st\<rparr>" "world_step\<^sup>*\<^sup>* (rm_world r) w"
    "dom (map_of (w_players w)) = dom (map_of (w_players (rm_world r)))" by auto
  have pc: "rm_pc r \<notin> {Draining, Exited}" using assms(2) by simp
  let ?pc = "Inputs k' (sample\<lparr>ts_Inputs := ts_Inputs sample + 1\<rparr>)"
  have "progress r (r\<lparr>rm_world := w, rm_inputs := (rm_inputs r)\<lparr>ch_buf := ms\<rparr>, rm_events := rm_events r, rm_rewards := rm_rewards r,
    rm_samples := rm_samples r, rm_updates := rm_updates r, rm_latest := rm_latest r, rm_status := rm_status r, rm_stats := st, rm_pc := ?pc\<rparr>)"
    using open_channels[OF assms(1) pc] w(2,3) k(2) by (intro room_inv_quiet assms(1) pc) auto
  moreover have "input_step k sample r = (?r\<lparr>rm_world := w, rm_stats := st\<rparr>)\<lparr>rm_pc := ?pc\<rparr>"
    using k w(1) by (simp add: input_step_def try_recv_def)
  moreover have "(?r\<lparr>rm_world := w, rm_stats := st\<rparr>)\<lparr>rm_pc := ?pc\<rparr> = r\<lparr>rm_world := w,
    rm_inputs := (rm_inputs r)\<lparr>ch_buf := ms\<rparr>, rm_events := rm_events r, rm_rewards := rm_rewards r,
    rm_samples := rm_samples r, rm_updates := rm_updates r, rm_latest := rm_latest r, rm_status := rm_status r, rm_stats := st, rm_pc := ?pc\<rparr>"
    by (rule Room.equality) simp_all
  ultimately show ?thesis by (simp only:)
qed

lemma hand_over_ok:
  assumes "chan_ok c \<and> \<not> ch_closed c"
  shows "\<exists>b c'. hand_over batch c = Inr (b, c') \<and> chan_ok c' \<and> \<not> ch_closed c'"
  using assms by (auto simp: hand_over_def try_send_def chan_ok_def)

lemma dispatch_events_ok:
  assumes "chan_ok (rm_events r) \<and> \<not> ch_closed (rm_events r)"
  shows "\<exists>ev st. dispatch_events r = Inr (r\<lparr>rm_world := snd (TakeEvents (rm_world r)), rm_events := ev, rm_stats := st\<rparr>) \<and>
    chan_ok ev \<and> \<not> ch_closed ev"
proof -
  obtain batch w where t: "TakeEvents (rm_world r) = (batch, w)" by fastforce
  obtain b c where h: "hand_over batch (rm_events r) = Inr (b, c)" "chan_ok c" "\<not> ch_closed c" using hand_over_ok[OF assms] by blast
  show ?thesis by (rule exI[of _ c], rule exI[of _ "if b then rm_stats r else rm_stats (backpressure r)"])
    (use t h in \<open>simp add: dispatch_events_def backpressure_def Let_def\<close>)
qed

lemma dispatch_rewards_ok:
  assumes "chan_ok (rm_rewards r) \<and> \<not> ch_closed (rm_rewards r)"
  shows "\<exists>rw st. dispatch_rewards r = Inr (r\<lparr>rm_world := snd (TakeRewardUpdates (rm_world r)), rm_rewards := rw, rm_stats := st\<rparr>) \<and>
    chan_ok rw \<and> \<not> ch_closed rw"
proof -
  obtain batch w where t: "TakeRewardUpdates (rm_world r) = (batch, w)" by fastforce
  obtain b c where h: "hand_over batch (rm_rewards r) = Inr (b, c)" "chan_ok c" "\<not> ch_closed c" using hand_over_ok[OF assms] by blast
  show ?thesis by (rule exI[of _ c], rule exI[of _ "if b then rm_stats r else rm_stats (backpressure r)"])
    (use t h in \<open>simp add: dispatch_rewards_def backpressure_def Let_def\<close>)
qed

lemma publish_ok:
  assumes "chan_ok (rm_updates r) \<and> \<not> ch_closed (rm_updates r) \<and> ch_cap (rm_updates r) = 1"
  shows "\<exists>st. publish final r = Inr (r\<lparr>rm_latest := room_snapshot r final, rm_updates := (rm_updates r)\<lparr>ch_buf := [room_snapshot r final]\<rparr>,
      rm_stats := st\<rparr>) \<and> st_Closed st = st_Closed (rm_stats r)"
proof (cases "ch_buf (rm_updates r)")
  case Nil
  then show ?thesis using assms by (auto simp: publish_def drop_oldest_def try_recv_def try_send_def Let_def intro!: exI[of _ "rm_stats r"])
next
  case (Cons s ss)
  then have "ss = []" using assms by (cases ss) (auto simp: chan_ok_def)
  let ?st = "(rm_stats r)\<lparr>st_DroppedSnapshots := st_DroppedSnapshots (rm_stats r) + 1\<rparr>"
  let ?c = "(rm_updates r)\<lparr>ch_buf := [room_snapshot r final]\<rparr>"
  have "publish final r = Inr (r\<lparr>rm_latest := room_snapshot r final, rm_stats := ?st, rm_updates := ?c\<rparr>)"
    using assms Cons \<open>ss = []\<close> by (simp add: publish_def drop_oldest_def try_recv_def try_send_def Let_def)
  also have "r\<lparr>rm_latest := room_snapshot r final, rm_stats := ?st, rm_updates := ?c\<rparr> =
      r\<lparr>rm_latest := room_snapshot r final, rm_updates := ?c, rm_stats := ?st\<rparr>" by (rule Room.equality) simp_all
  finally show ?thesis by (intro exI[of _ ?st]) simp
qed

lemma send_sample_ok:
  assumes "chan_ok (rm_samples r) \<and> \<not> ch_closed (rm_samples r)"
  shows "\<exists>sa st. send_sample s r = Inr (r\<lparr>rm_samples := sa, rm_stats := st\<rparr>) \<and> chan_ok sa \<and> \<not> ch_closed sa"
proof (cases "length (ch_buf (rm_samples r)) < ch_cap (rm_samples r)")
  case True
  then show ?thesis using assms by (intro exI[of _ "(rm_samples r)\<lparr>ch_buf := ch_buf (rm_samples r) @ [s]\<rparr>"] exI[of _ "rm_stats r"])
    (auto simp: send_sample_def try_send_def chan_ok_def)
next
  case False
  then show ?thesis using assms by (intro exI[of _ "rm_samples r"]) (auto simp: send_sample_def try_send_def)
qed

lemma simulate_ok:
  assumes "room_inv r" and "rm_pc r = Simulating sample"
  shows "\<exists>r'. simulate now ended s r = Inr r' \<and> progress r r'"
proof -
  have pc: "rm_pc r \<notin> {Draining, Exited}" using assms(2) by simp
  note op = open_channels[OF assms(1) pc]
  have ok: "world_ok (rm_world r)" using assms(1) reachable_ok by (auto simp: room_inv_def queues_inv_def)
  obtain w where w: "Step (rm_world r) now = Inr w" "dom (map_of (w_players w)) = dom (map_of (w_players (rm_world r)))"
    using Step_ok[OF ok, of now] by blast
  define w1 where "w1 = snd (TakeEvents w)"
  define w2 where "w2 = snd (TakeRewardUpdates w1)"
  have ws: "world_step\<^sup>*\<^sup>* (rm_world r) w2"
    unfolding w2_def w1_def using rtranclp.rtrancl_into_rtrancl[OF rtranclp.rtrancl_into_rtrancl[OF
      r_into_rtranclp[of world_step, OF world_step.tick[OF w(1)]] world_step.events] world_step.updates] .
  have d: "dom (map_of (w_players w2)) = dom (map_of (w_players (rm_world r)))"
    using w(2) by (simp add: w1_def w2_def TakeEvents_def TakeRewardUpdates_def)
  let ?r0 = "r\<lparr>rm_world := w\<rparr>"
  obtain ev st1 where s1: "dispatch_events ?r0 = Inr (r\<lparr>rm_world := w1, rm_events := ev, rm_stats := st1\<rparr>)" "chan_ok ev" "\<not> ch_closed ev"
    using dispatch_events_ok[of ?r0] op(1) by (auto simp: w1_def)
  let ?r1 = "r\<lparr>rm_world := w1, rm_events := ev, rm_stats := st1\<rparr>"
  obtain rw st2 where s2: "dispatch_rewards ?r1 = Inr (?r1\<lparr>rm_world := w2, rm_rewards := rw, rm_stats := st2\<rparr>)"
    "chan_ok rw" "\<not> ch_closed rw"
    using dispatch_rewards_ok[of ?r1] op(2) by (auto simp: w2_def)
  let ?r2 = "?r1\<lparr>rm_world := w2, rm_rewards := rw, rm_stats := st2\<rparr>"
  obtain l up st3 where s3: "(if w_tick (rm_world ?r2) mod 3 = 0 then publish False ?r2 else Inr ?r2) =
      Inr (?r2\<lparr>rm_latest := l, rm_updates := up, rm_stats := st3\<rparr>)" "chan_ok up \<and> \<not> ch_closed up \<and> ch_cap up = 1"
  proof (cases "w_tick (rm_world ?r2) mod 3 = 0")
    case True
    obtain st where "publish False ?r2 = Inr (?r2\<lparr>rm_latest := room_snapshot ?r2 False,
        rm_updates := (rm_updates ?r2)\<lparr>ch_buf := [room_snapshot ?r2 False]\<rparr>, rm_stats := st\<rparr>)"
      using publish_ok[of ?r2 False] op(4) by auto
    moreover have "chan_ok ((rm_updates ?r2)\<lparr>ch_buf := [room_snapshot ?r2 False]\<rparr>)" using op(4) by (simp add: chan_ok_def)
    ultimately show ?thesis using True op(4) by (intro that) (simp, simp)
  next
    case False
    then show ?thesis using op(4) by (intro that[where l = "rm_latest r" and up = "rm_updates r" and ?st3.0 = st2]) auto
  qed
  let ?r3 = "?r2\<lparr>rm_latest := l, rm_updates := up, rm_stats := st3\<rparr>"
  define sm where "sm = s\<lparr>ts_ServerTick := w_tick (rm_world ?r3), ts_Players := PlayerCount (rm_world ?r3),
                ts_WorkDuration := time_sub ended (ts_StartedAt s)\<rparr>"
  obtain sa st4 where s4: "send_sample sm ?r3 = Inr (?r3\<lparr>rm_samples := sa, rm_stats := st4\<rparr>)" "chan_ok sa" "\<not> ch_closed sa"
    using send_sample_ok[of ?r3 sm] op(3) by auto
  define st5 where "st5 = (st4\<lparr>st_LastTick := sm\<rparr>)\<lparr>st_ServerTick := w_tick w2, st_Players := PlayerCount w2\<rparr>"
  let ?pc = "if st_CloseReason st5 = [] then Selecting else Finishing"
  let ?r5 = "?r3\<lparr>rm_samples := sa, rm_stats := st5, rm_status := st5, rm_pc := ?pc\<rparr>"
  have "simulate now ended s r = Inr ?r5"
    unfolding simulate_def w(1) sum.case s1(1) bind_sum_simps s2(1) s3(1) Let_def sm_def[symmetric] s4(1)
    by (simp add: storeStats_def Let_def st5_def)
  moreover have "?r5 = r\<lparr>rm_world := w2, rm_inputs := (rm_inputs r)\<lparr>ch_buf := ch_buf (rm_inputs r)\<rparr>, rm_events := ev, rm_rewards := rw,
    rm_samples := sa, rm_updates := up, rm_latest := l, rm_status := st5, rm_stats := st5, rm_pc := ?pc\<rparr>" (is "_ = ?r'")
    by (rule Room.equality) simp_all
  moreover have "progress r ?r'"
    using s1(2,3) s2(2,3) s3(2) s4(2,3) ws d by (intro room_inv_quiet assms(1) pc) auto
  ultimately show ?thesis by metis
qed

section \<open>Closing\<close>

lemma refuse_ok:
  assumes r: "room_inv r" and pc: "rm_pc r = Draining" and buf: "ch_buf (rm_controls r) = c # cs"
  shows "\<exists>r'. refuse_control c (r\<lparr>rm_controls := (rm_controls r)\<lparr>ch_buf := cs\<rparr>\<rparr>) = Inr r' \<and> progress r r' \<and> rm_pc r' = Draining \<and>
    ch_buf (rm_controls r') = cs"
proof -
  let ?r = "r\<lparr>rm_controls := (rm_controls r)\<lparr>ch_buf := cs\<rparr>\<rparr>"
  obtain n where n: "receipt_of c = Some n" using r buf by (cases "receipt_of c") (auto simp: room_inv_def receipts_inv_def pending_def)
  have b: "bound (rm_members r) (dom (map_of (w_players (rm_world r))))" "rm_emptyTimer r \<longleftrightarrow> rm_members r = []"
    using r pc by (simp_all add: room_inv_def members_inv_def)
  have "controlled r (rm_world r) (rm_members r) (rm_generation r) (rm_emptyTimer r)" using b by (simp add: controlled_def)
  note a = answer_inv[OF r buf n this]
  obtain x where x: "refuse_control c ?r = reply (Some n) x ?r"
    using n by (auto simp: refuse_control_def receipt_of_cases split: if_split_asm)
  have na: "n \<notin> set (answered ?r)" using a by (simp add: answered_def)
  have "progress r (?r\<lparr>rm_receipts := rm_receipts ?r @ [(n, x)]\<rparr>)" using a[of x] by simp
  then show ?thesis using x reply_ok[OF na] pc by auto
qed

definition exited_inv :: "Room \<Rightarrow> bool" where
  "exited_inv r \<longleftrightarrow> rm_pc r = Exited \<and> rm_closed r \<and> rm_ctxDone r \<and> rm_done r \<and> rm_members r = [] \<and>
     ch_buf (rm_inputs r) = [] \<and> v_State (w_stage (rm_world r)) = Closed \<and> rsn_Closed (rm_latest r) \<and> st_Closed (rm_status r) \<and>
     ch_closed (rm_updates r) \<and> ch_closed (rm_samples r) \<and> ch_closed (rm_events r) \<and> ch_closed (rm_rewards r)"

lemma finish_cleared_ok:
  assumes r: "room_inv r" and pc: "rm_pc r = Draining" and buf: "ch_buf (rm_controls r) = []"
  shows "\<exists>r'. finish_cleared (r\<lparr>rm_inputs := (rm_inputs r)\<lparr>ch_buf := []\<rparr>\<rparr>) = Inr r' \<and> progress r r' \<and> exited_inv r'"
proof -
  have inv: "queues_inv r" "receipts_inv r" "flags_inv r" "generations_inv r" using r by (simp_all add: room_inv_def)
  have op: "\<not> ch_closed (rm_events r)" "\<not> ch_closed (rm_rewards r)" "\<not> ch_closed (rm_samples r)" "\<not> ch_closed (rm_updates r)"
    and fl: "rm_closed r" "rm_ctxDone r" using inv(3) pc by (simp_all add: flags_inv_def)
  define r1 where "r1 = r\<lparr>rm_inputs := (rm_inputs r)\<lparr>ch_buf := []\<rparr>, rm_world := Close (rm_world r), rm_members := [],
    rm_stats := (rm_stats r)\<lparr>st_Closed := True\<rparr>\<rparr>"
  have "chan_ok (rm_updates r1) \<and> \<not> ch_closed (rm_updates r1) \<and> ch_cap (rm_updates r1) = 1"
    using inv(1) op by (simp add: r1_def queues_inv_def)
  from publish_ok[OF this, of True] obtain st where p: "publish True r1 = Inr (r1\<lparr>rm_latest := room_snapshot r1 True,
    rm_updates := (rm_updates r1)\<lparr>ch_buf := [room_snapshot r1 True]\<rparr>, rm_stats := st\<rparr>)" "st_Closed st" by (auto simp: r1_def)
  define st' where "st' = st\<lparr>st_ServerTick := w_tick (Close (rm_world r)), st_Players := PlayerCount (Close (rm_world r))\<rparr>"
  define r' where "r' = r1\<lparr>rm_latest := room_snapshot r1 True, rm_updates := (rm_updates r1)\<lparr>ch_buf := [room_snapshot r1 True], ch_closed := True\<rparr>,
    rm_stats := st', rm_status := st', rm_samples := (rm_samples r)\<lparr>ch_closed := True\<rparr>, rm_events := (rm_events r)\<lparr>ch_closed := True\<rparr>,
    rm_rewards := (rm_rewards r)\<lparr>ch_closed := True\<rparr>, rm_done := True, rm_emptyTimer := False, rm_pc := Exited\<rparr>"
  have "finish_cleared (r\<lparr>rm_inputs := (rm_inputs r)\<lparr>ch_buf := []\<rparr>\<rparr>) =
    bind_sum (publish True r1) (\<lambda>r. let r = storeStats r
       in close_as (rm_updates r) (\<lambda>updates. close_as (rm_samples r) (\<lambda>samples.
          close_as (rm_events r) (\<lambda>events. close_as (rm_rewards r) (\<lambda>rewards.
            Inr (r\<lparr>rm_updates := updates, rm_samples := samples, rm_events := events, rm_rewards := rewards,
              rm_done := True, rm_emptyTimer := False, rm_pc := Exited\<rparr>))))))"
    by (simp add: finish_cleared_def r1_def)
  also have "\<dots> = Inr r'"
    unfolding p(1) bind_sum_simps storeStats_def Let_def close_as_def
    using op by (simp add: close_chan_def r'_def r1_def st'_def)
  finally have eq: "finish_cleared (r\<lparr>rm_inputs := (rm_inputs r)\<lparr>ch_buf := []\<rparr>\<rparr>) = Inr r'" .
  have ws: "world_step\<^sup>*\<^sup>* (rm_world r) (Close (rm_world r))" using world_step.close by (rule r_into_rtranclp)
  have "queues_inv r'" using inv(1) reachable_steps[OF ws] buf by (simp add: r'_def r1_def queues_inv_def chan_ok_def)
  moreover have "receipts_inv r'" using inv(2) by (simp add: r'_def r1_def receipts_inv_def pending_def answered_def)
  moreover have ex: "exited_inv r'" using fl p(2) by (simp add: r'_def r1_def exited_inv_def Close_def set_stage_state_def room_snapshot_def st'_def)
  moreover have "flags_inv r'" using ex buf by (simp add: exited_inv_def flags_inv_def) (simp add: r'_def r1_def)
  moreover have "members_inv r'" using ex by (simp add: exited_inv_def members_inv_def)
  moreover have "generations_inv r'" using inv(4) by (simp add: r'_def r1_def generations_inv_def)
  ultimately have "room_inv r'" by (simp add: room_inv_def)
  then have "progress r r'" using ws by (intro progressI) (simp_all add: r'_def r1_def pending_def)
  then show ?thesis using eq ex by blast
qed

lemma drain_step_ok:
  assumes "room_inv r" and "rm_pc r = Draining"
  shows "\<exists>r'. drain_step r = Inr r' \<and> progress r r' \<and>
    (case ch_buf (rm_controls r) of [] \<Rightarrow> exited_inv r' | _ # cs \<Rightarrow> rm_pc r' = Draining \<and> ch_buf (rm_controls r') = cs)"
proof (cases "ch_buf (rm_controls r)")
  case Nil
  then show ?thesis using finish_cleared_ok[OF assms Nil] by (simp add: drain_step_def try_recv_def)
next
  case (Cons c cs)
  then show ?thesis using refuse_ok[OF assms Cons] by (simp add: drain_step_def try_recv_def)
qed

lemma select_step_ok:
  assumes "room_inv r" and "rm_pc r = Selecting"
  shows "progress r (select_step k r)"
proof -
  have c: "progress r (close_for reason r)" for reason
    using assms by (intro progressI) (auto simp: close_for_def room_inv_def queues_inv_def receipts_inv_def flags_inv_def members_inv_def
      generations_inv_def pending_def answered_def)
  show ?thesis using c progress_pc[OF assms(1)] assms(2) by (simp add: select_step_def split: wake.split)
qed

lemma closing_ok:
  assumes "room_inv r" and "rm_pc r = Finishing"
  shows "progress r (r\<lparr>rm_ctxDone := True, rm_closed := True, rm_pc := Draining\<rparr>)"
  using assms by (intro progressI) (auto simp: room_inv_def queues_inv_def receipts_inv_def flags_inv_def members_inv_def
      generations_inv_def pending_def answered_def)

lemma progress_refl: "room_inv r \<Longrightarrow> progress r r"
  by (simp add: progress_def)

lemma goroutine_ok:
  assumes "room_inv r"
  shows "\<exists>r'. goroutine k now ended r = Inr r' \<and> progress r r'"
proof (cases "rm_pc r")
  case Selecting
  then show ?thesis using select_step_ok[OF assms] by (simp add: goroutine_def)
next
  case (Controls n s)
  then show ?thesis using control_step_ok[OF assms] by (simp add: goroutine_def)
next
  case (Inputs n s)
  then show ?thesis using input_step_ok[OF assms] by (simp add: goroutine_def)
next
  case (Simulating s)
  then show ?thesis using simulate_ok[OF assms] by (simp add: goroutine_def)
next
  case Finishing
  then show ?thesis using closing_ok[OF assms] by (simp add: goroutine_def)
next
  case Draining
  then show ?thesis using drain_step_ok[OF assms] by (auto simp: goroutine_def)
next
  case Exited
  then show ?thesis using progress_refl[OF assms] by (simp add: goroutine_def)
qed

end
