(* ===== verification/RoomContract.thy ===== *)
theory RoomContract
  imports RoomRuns
begin

text \<open>
  What the users of a room rely on: the room goroutine never fails, the world only moves as the game
  allows, inputs of an earlier membership are dead, every accepted command is answered exactly once
  even when the room closes, and a cancelled room comes to its end.
\<close>

section \<open>Runs\<close>

inductive room_call :: "Room \<Rightarrow> room_error + nat \<Rightarrow> Room \<Rightarrow> bool" where
  join: "Join r s p = Inr (x, r') \<Longrightarrow> room_call r x r'"
| leave: "Leave r s = Inr (x, r') \<Longrightarrow> room_call r x r'"
| start: "plan_f64 plan \<Longrightarrow> Room_StartStage r plan = Inr (x, r') \<Longrightarrow> room_call r x r'"
| reward: "catalog_ok k \<Longrightarrow> Room_StartReward r k seed dur = Inr (x, r') \<Longrightarrow> room_call r x r'"
| choose: "Room_ChooseReward r s e = Inr (x, r') \<Longrightarrow> room_call r x r'"
| completed: "Room_CompletedStage r = Inr (x, r') \<Longrightarrow> room_call r x r'"
| resume: "Room_ResumeState r s = Inr (x, r') \<Longrightarrow> room_call r x r'"
| result: "Room_GameResult r outcome = Inr (x, r') \<Longrightarrow> room_call r x r'"

inductive room_step :: "Room \<Rightarrow> Room \<Rightarrow> bool" where
  call: "room_call r x r' \<Longrightarrow> room_step r r'"
| input: "vec_ok (i_Direction input) \<Longrightarrow> Room_Input r s input now = Inr (e, r') \<Longrightarrow> room_step r r'"
| cancel: "room_step r (r\<lparr>rm_ctxDone := True\<rparr>)"
| run: "rm_pc r = Selecting \<longrightarrow> wake_ready k r \<Longrightarrow> goroutine k now ended r = Inr r' \<Longrightarrow> room_step r r'"
| take_update: "try_recv (rm_updates r) = (u, c) \<Longrightarrow> room_step r (r\<lparr>rm_updates := c\<rparr>)"
| take_sample: "try_recv (rm_samples r) = (s, d) \<Longrightarrow> room_step r (r\<lparr>rm_samples := d\<rparr>)"
| take_events: "try_recv (rm_events r) = (b, q) \<Longrightarrow> room_step r (r\<lparr>rm_events := q\<rparr>)"
| take_rewards: "try_recv (rm_rewards r) = (w, g) \<Longrightarrow> room_step r (r\<lparr>rm_rewards := g\<rparr>)"

inductive_cases room_callE: "room_call r x r'"
inductive_cases room_stepE: "room_step r r'"

inductive room_reachable :: "Room \<Rightarrow> bool" where
  start: "config_ok (rc_World config) \<Longrightarrow> \<forall>k \<in> set catalogs. catalog_ok k \<Longrightarrow> Start e i config catalogs = Inr r \<Longrightarrow> room_reachable r"
| step: "room_reachable r \<Longrightarrow> room_step r r' \<Longrightarrow> room_reachable r'"

lemma call_shape:
  assumes "room_call r x r'"
  shows "(\<exists>e. x = Inl e \<and> r' = r) \<or> (\<exists>c. enqueue_control r c = Inr (x, r') \<and> (\<forall>n. receipt_of (c n) = Some n \<and> control_typed (c n)))"
  using assms
proof cases
  case (join s p)
  then show ?thesis unfolding Join_def submit_def
    by (auto split: if_splits simp: zero_control_def receipt_of_def control_typed_def intro!: exI)
next
  case (leave s)
  then show ?thesis unfolding Leave_def submit_def
    by (auto split: if_splits simp: zero_control_def receipt_of_def control_typed_def intro!: exI)
next
  case (start plan)
  then show ?thesis unfolding Room_StartStage_def submit_def
    by (auto split: sum.splits simp: zero_control_def receipt_of_def control_typed_def intro!: exI)
next
  case (reward k seed dur)
  then show ?thesis unfolding Room_StartReward_def submit_def
    by (auto simp: zero_control_def receipt_of_def control_typed_def intro!: exI)
next
  case (choose s e)
  then show ?thesis unfolding Room_ChooseReward_def submit_def
    by (auto split: if_splits simp: zero_control_def receipt_of_def control_typed_def intro!: exI)
next
  case completed
  then show ?thesis unfolding Room_CompletedStage_def
    by (auto simp: zero_control_def receipt_of_def control_typed_def intro!: exI)
next
  case (resume s)
  then show ?thesis unfolding Room_ResumeState_def
    by (auto split: if_splits simp: zero_control_def receipt_of_def control_typed_def intro!: exI)
next
  case (result outcome)
  then show ?thesis unfolding Room_GameResult_def
    by (auto split: if_splits simp: zero_control_def receipt_of_def control_typed_def intro!: exI)
qed

lemma call_ok:
  assumes "room_call r x r'" and "room_inv r"
  shows "progress r r' \<and> rm_world r' = rm_world r \<and> rm_pc r' = rm_pc r \<and> (rm_ctxDone r \<longrightarrow> r' = r) \<and>
    (\<forall>n. x = Inr n \<longrightarrow> Some n \<in> set (pending r'))"
proof -
  have q: "rm_config r' = rm_config r \<and> rm_ctxDone r' = rm_ctxDone r" if "enqueue_control r c = Inr (x, r')" for c
    using that by (auto simp: enqueue_control_def Let_def split: if_splits sum.splits prod.splits bool.splits)
  from call_shape[OF assms(1)] show ?thesis
  proof
    assume "\<exists>e. x = Inl e \<and> r' = r"
    then show ?thesis using progress_refl[OF assms(2)] by auto
  next
    assume "\<exists>c. enqueue_control r c = Inr (x, r') \<and> (\<forall>n. receipt_of (c n) = Some n \<and> control_typed (c n))"
    then obtain c where c: "enqueue_control r c = Inr (x, r')" "\<And>n. receipt_of (c n) = Some n \<and> control_typed (c n)" by blast
    then show ?thesis using enqueue_control_inv[OF assms(2), of c] q[OF c(1)] by (auto simp: progress_def known_def answered_def)
  qed
qed

lemma take_inv:
  assumes "room_inv r"
  shows "try_recv (rm_updates r) = (u, c) \<Longrightarrow> progress r (r\<lparr>rm_updates := c\<rparr>)"
    "try_recv (rm_samples r) = (s, d) \<Longrightarrow> progress r (r\<lparr>rm_samples := d\<rparr>)"
    "try_recv (rm_events r) = (b, q) \<Longrightarrow> progress r (r\<lparr>rm_events := q\<rparr>)"
    "try_recv (rm_rewards r) = (w, g) \<Longrightarrow> progress r (r\<lparr>rm_rewards := g\<rparr>)"
  by (intro progressI, use assms in \<open>simp_all add: room_inv_def queues_inv_def receipts_inv_def flags_inv_def members_inv_def
    generations_inv_def pending_def answered_def try_recv_frame\<close>)+

lemma room_step_ok:
  assumes "room_step r r'" and "room_inv r"
  shows "progress r r'"
  using assms(1)
proof cases
  case (call x)
  then show ?thesis using call_ok assms(2) by blast
next
  case (input i s now e)
  have q: "rm_config r' = rm_config r \<and> rm_ctxDone r' = rm_ctxDone r"
    using input(2) by (auto simp: Room_Input_def Let_def split: if_splits option.splits sum.splits prod.splits bool.splits)
  then show ?thesis using Room_Input_inv[OF assms(2) input(1), of s now] input(2) by (auto intro!: progressI)
next
  case cancel
  have "room_inv (r\<lparr>rm_ctxDone := True\<rparr>)" using assms(2)
    by (simp add: room_inv_def queues_inv_def receipts_inv_def flags_inv_def members_inv_def generations_inv_def pending_def answered_def)
  then show ?thesis unfolding cancel by (intro progressI) (simp_all add: pending_def)
next
  case (run k now ended)
  then show ?thesis using goroutine_ok[OF assms(2), of k now ended] by auto
qed (use take_inv[OF assms(2)] in \<open>simp_all\<close>)

lemma room_reachable_inv: "room_reachable r \<Longrightarrow> room_inv r"
  by (induction rule: room_reachable.induct) (auto intro: Start_inv dest: room_step_ok simp: progress_def)

lemma room_steps_ok: "room_step\<^sup>*\<^sup>* r r' \<Longrightarrow> room_inv r \<Longrightarrow> progress r r'"
proof (induction rule: rtranclp_induct)
  case (step s t)
  then have "progress r s" by simp
  from this have "progress s t" by (intro room_step_ok[OF step(2)]) (simp add: progress_def)
  with \<open>progress r s\<close> show ?case by (rule progress_trans)
qed (rule progress_refl)

section \<open>Tickets\<close>

text \<open>Commands and their answers: the laws under which nobody waits for an answer for ever.\<close>

locale tickets =
  fixes inv :: "'s \<Rightarrow> bool" and step :: "'s \<Rightarrow> 's \<Rightarrow> bool" and open' :: "'s \<Rightarrow> 'n set" and answers :: "'s \<Rightarrow> ('n \<times> 'a) list"
    and finished :: "'s \<Rightarrow> bool"
  assumes inv_step: "inv s \<Longrightarrow> step s s' \<Longrightarrow> inv s'"
    and kept: "inv s \<Longrightarrow> step s s' \<Longrightarrow> n \<in> open' s \<Longrightarrow> n \<in> open' s' \<or> n \<in> fst ` set (answers s')"
    and only_added: "inv s \<Longrightarrow> step s s' \<Longrightarrow> set (answers s) \<subseteq> set (answers s')"
    and once: "inv s \<Longrightarrow> distinct (map fst (answers s))"
    and all_done: "inv s \<Longrightarrow> finished s \<Longrightarrow> open' s = {}"
begin

lemma inv_steps: "step\<^sup>*\<^sup>* s s' \<Longrightarrow> inv s \<Longrightarrow> inv s'"
  by (induction rule: rtranclp_induct) (auto intro: inv_step)

lemma kept_steps:
  assumes "step\<^sup>*\<^sup>* s s'" and "inv s" and "n \<in> open' s"
  shows "n \<in> open' s' \<or> n \<in> fst ` set (answers s')"
  using assms
proof (induction rule: rtranclp_induct)
  case (step t u)
  have "inv t" using inv_steps step by blast
  then show ?case using kept[OF _ step(2), of n] only_added[OF _ step(2)] step by blast
qed simp

lemma answered_once:
  assumes "step\<^sup>*\<^sup>* s s'" and "inv s" and "n \<in> open' s" and "finished s'"
  shows "\<exists>!x. (n, x) \<in> set (answers s')"
proof -
  have i: "inv s'" using inv_steps assms by blast
  then have "n \<in> fst ` set (answers s')" using kept_steps[OF assms(1-3)] all_done assms(4) by blast
  then obtain x where x: "(n, x) \<in> set (answers s')" by auto
  moreover have "x' = x" if "(n, x') \<in> set (answers s')" for x'
    using once[OF i] x that eq_key_imp_eq_value by metis
  ultimately show ?thesis by blast
qed

end

interpretation room: tickets room_inv room_step "\<lambda>r. {n. Some n \<in> set (pending r)}" rm_receipts rm_done
proof unfold_locales
  fix r r' n assume i: "room_inv r" and s: "room_step r r'"
  note p = room_step_ok[OF s i]
  show "room_inv r'" using p by (simp add: progress_def)
  show "set (rm_receipts r) \<subseteq> set (rm_receipts r')" using p by (auto simp: progress_def)
  assume "n \<in> {n. Some n \<in> set (pending r)}"
  then have "Some n \<in> known r'" using p by (auto simp: progress_def known_def)
  then show "n \<in> {n. Some n \<in> set (pending r')} \<or> n \<in> fst ` set (rm_receipts r')"
    by (auto simp: known_def answered_def)
next
  fix r assume i: "room_inv r"
  have "distinct (map Some (map fst (rm_receipts r)))" using i by (simp add: room_inv_def receipts_inv_def answered_def del: map_map)
  then show "distinct (map fst (rm_receipts r))" by (simp only: distinct_map)
  assume "rm_done r"
  then show "{n. Some n \<in> set (pending r)} = {}" using i by (auto simp: room_inv_def flags_inv_def pending_def)
qed

section \<open>The way to the end\<close>

text \<open>The steps a cancelled room still has to make, at most.\<close>

definition room_work :: "Room \<Rightarrow> nat" where
  "room_work r = length (ch_buf (rm_controls r)) +
     (case rm_pc r of Exited \<Rightarrow> 0 | Draining \<Rightarrow> 1 | Finishing \<Rightarrow> 2 | Selecting \<Rightarrow> 3 | Simulating _ \<Rightarrow> 4
      | Inputs n _ \<Rightarrow> 5 + n | Controls n _ \<Rightarrow> 6 + n + nat (rc_InputsPerTick (rm_config r)))"

lemma simulate_frame:
  assumes "simulate now ended s r = Inr r'"
  shows "rm_controls r' = rm_controls r \<and> rm_config r' = rm_config r \<and> rm_pc r' \<in> {Selecting, Finishing}"
proof -
  have e: "rm_controls v' = rm_controls v \<and> rm_config v' = rm_config v" if "dispatch_events v = Inr v'" for v v'
    using that by (auto simp: dispatch_events_def bind_sum_Inr backpressure_def Let_def split: prod.splits if_splits)
  have w: "rm_controls v' = rm_controls v \<and> rm_config v' = rm_config v" if "dispatch_rewards v = Inr v'" for v v'
    using that by (auto simp: dispatch_rewards_def bind_sum_Inr backpressure_def Let_def split: prod.splits if_splits)
  have d: "rm_controls (drop_oldest v) = rm_controls v \<and> rm_config (drop_oldest v) = rm_config v" for v
    by (simp add: drop_oldest_def split: prod.split received.split)
  have p: "rm_controls v' = rm_controls v \<and> rm_config v' = rm_config v" if "(if c then publish False v else Inr v) = Inr v'" for c v v'
    using that d by (auto simp: publish_def Let_def split: if_splits sum.splits prod.splits bool.splits)
  have s: "rm_controls v' = rm_controls v \<and> rm_config v' = rm_config v" if "send_sample x v = Inr v'" for x v v'
    using that by (auto simp: send_sample_def split: sum.splits prod.splits bool.splits)
  obtain w0 where w0: "Step (rm_world r) now = Inr w0" using assms by (auto simp: simulate_def split: sum.splits)
  obtain r1 r2 r3 r4 x where c: "dispatch_events (r\<lparr>rm_world := w0\<rparr>) = Inr r1" "dispatch_rewards r1 = Inr r2"
    "(if w_tick (rm_world r2) mod 3 = 0 then publish False r2 else Inr r2) = Inr r3" "send_sample x r3 = Inr r4"
    "r' = (storeStats (r4\<lparr>rm_stats := (rm_stats r4)\<lparr>st_LastTick := x\<rparr>\<rparr>))\<lparr>rm_pc :=
       if st_CloseReason (rm_stats (storeStats (r4\<lparr>rm_stats := (rm_stats r4)\<lparr>st_LastTick := x\<rparr>\<rparr>))) = [] then Selecting else Finishing\<rparr>"
    using assms unfolding simulate_def w0 sum.case bind_sum_Inr Let_def by blast
  show ?thesis using e[OF c(1)] w[OF c(2)] p[OF c(3)] s[OF c(4)] by (simp add: c(5) storeStats_def Let_def)
qed

lemma work_decreases:
  assumes i: "room_inv r" and d: "rm_ctxDone r" and g: "goroutine k now ended r = Inr r'" and x: "rm_pc r \<noteq> Exited"
  shows "room_work r' < room_work r"
proof (cases "rm_pc r")
  case Selecting
  then show ?thesis using g d by (auto simp: goroutine_def select_step_def close_for_def room_work_def split: wake.splits)
next
  case (Controls n s)
  show ?thesis
  proof (cases "n = 0 \<or> ch_buf (rm_controls r) = []")
    case True
    then have "r' = r\<lparr>rm_pc := Inputs (nat (rc_InputsPerTick (rm_config r))) s\<rparr>"
      using g Controls by (auto simp: goroutine_def control_step_def try_recv_def split: nat.splits if_splits)
    then show ?thesis using Controls by (simp add: room_work_def)
  next
    case False
    then obtain m c cs where k: "n = Suc m" "ch_buf (rm_controls r) = c # cs" by (metis not0_implies_Suc neq_Nil_conv)
    obtain v where v: "handle_control c (r\<lparr>rm_controls := (rm_controls r)\<lparr>ch_buf := cs\<rparr>\<rparr>) = Inr v" "progress r v" "ch_buf (rm_controls v) = cs"
      using handle_control_ok[OF i k(2)] by blast
    then have "r' = v\<lparr>rm_pc := Controls m (s\<lparr>ts_Controls := ts_Controls s + 1\<rparr>)\<rparr>"
      using g Controls k by (simp add: goroutine_def control_step_def try_recv_def)
    then show ?thesis using v(2,3) k Controls by (simp add: room_work_def progress_def)
  qed
next
  case (Inputs n s)
  have f: "rm_controls (process_input t m v) = rm_controls v" for t m v
    by (simp add: process_input_def reject_input_def split: option.split sum.split)
  show ?thesis using g Inputs
    by (auto simp: goroutine_def input_step_def room_work_def f split: nat.splits prod.splits received.splits)
next
  case (Simulating s)
  have "simulate now ended s r = Inr r'" using g Simulating by (simp add: goroutine_def)
  from simulate_frame[OF this] show ?thesis using Simulating by (auto simp: room_work_def)
next
  case Finishing
  then show ?thesis using g by (auto simp: goroutine_def room_work_def)
next
  case Draining
  have "drain_step r = Inr r'" using g Draining by (simp add: goroutine_def)
  moreover have "ch_buf (rm_controls r') = []" if "exited_inv r'" "room_inv r'" using that by (simp add: exited_inv_def room_inv_def flags_inv_def)
  ultimately show ?thesis using drain_step_ok[OF i Draining] Draining
    by (auto simp: room_work_def exited_inv_def progress_def split: list.splits)
qed (use x in simp)

text \<open>The goroutine left to itself; \<open>sched\<close> gives the branch of each \<open>select\<close> and what the clock shows.\<close>

fun run_for :: "nat \<Rightarrow> (nat \<Rightarrow> wake \<times> time \<times> time) \<Rightarrow> Room \<Rightarrow> room_fault + Room" where
  "run_for 0 sched r = Inr r"
| "run_for (Suc n) sched r = (case sched n of (k, now, ended) \<Rightarrow> bind_sum (goroutine k now ended r) (run_for n sched))"

lemma run_for_ends:
  "room_inv r \<Longrightarrow> rm_ctxDone r \<Longrightarrow> room_work r \<le> n \<Longrightarrow>
     \<exists>r'. run_for n sched r = Inr r' \<and> progress r r' \<and> rm_done r'"
proof (induction n arbitrary: r)
  case 0
  then have "rm_pc r = Exited" by (cases "rm_pc r") (simp_all add: room_work_def)
  then have "rm_done r" using 0(1) by (simp add: room_inv_def flags_inv_def)
  then show ?case using progress_refl[OF 0(1)] by simp
next
  case (Suc n)
  obtain k now ended where s: "sched n = (k, now, ended)" by (cases "sched n")
  obtain r1 where r1: "goroutine k now ended r = Inr r1" "progress r r1" using goroutine_ok[OF Suc.prems(1)] by blast
  have "room_work r1 \<le> n"
  proof (cases "rm_pc r = Exited")
    case True
    then have "r1 = r" "room_work r = 0" using r1(1) Suc.prems(1) by (simp_all add: goroutine_def room_work_def room_inv_def flags_inv_def)
    then show ?thesis by simp
  next
    case False
    then show ?thesis using work_decreases[OF Suc.prems(1,2) r1(1)] Suc.prems(3) by simp
  qed
  then obtain r' where "run_for n sched r1 = Inr r'" "progress r1 r'" "rm_done r'"
    using Suc.IH[of r1] r1(2) Suc.prems(2) by (auto simp: progress_def)
  then show ?case using s r1 progress_trans by auto
qed

section \<open>Properties\<close>

definition sample_room :: Room where
  "sample_room = (case Start None 1 DefaultRoomConfig [] of Inr r \<Rightarrow> r)"

lemma sample_room_reachable: "room_reachable sample_room"
proof -
  have "Config_Validate DefaultConfig" using config_ok_Default by (simp add: config_ok_def)
  then have "Start None 1 DefaultRoomConfig [] = Inr sample_room"
    by (simp add: sample_room_def Start_def RoomConfig_validate_def DefaultRoomConfig_def NewWorld_def)
  then show ?thesis using config_ok_Default by (intro room_reachable.start[of DefaultRoomConfig "[]"]) (auto simp: DefaultRoomConfig_def)
qed

lemma sample_room_simps:
  "rm_pc sample_room = Selecting" "\<not> rm_closed sample_room" "\<not> rm_ctxDone sample_room" "rm_chans sample_room = 0"
  "rm_controls sample_room = make_chan 64" "rm_receipts sample_room = []" "rm_members sample_room = []"
  "rm_inputs sample_room = make_chan 256" "rm_config sample_room = DefaultRoomConfig" "rm_generation sample_room = 0"
  using config_ok_Default
  by (simp_all add: sample_room_def Start_def RoomConfig_validate_def DefaultRoomConfig_def NewWorld_def new_room_def Let_def
    storeStats_def config_ok_def)

text \<open>C12: The room goroutine never panics and never waits for ever, whatever the other goroutines do between
  its steps: from every reachable room its next step is defined, the world in it is one the game can
  reach, the queues stay within their capacities, and the bindings of the sessions are a bijection onto
  the players of the world while the room lives.\<close>

theorem room_never_faults:
  assumes "room_reachable r"
  shows "(\<exists>r'. goroutine k now ended r = Inr r') \<and> reachable (rc_World (rm_config r)) (rm_world r) \<and>
    length (ch_buf (rm_controls r)) \<le> ch_cap (rm_controls r) \<and> length (ch_buf (rm_inputs r)) \<le> ch_cap (rm_inputs r) \<and>
    length (ch_buf (rm_updates r)) \<le> 1 \<and>
    (rm_pc r \<noteq> Exited \<longrightarrow> bound (rm_members r) (dom (map_of (w_players (rm_world r)))) \<and> (rm_emptyTimer r \<longleftrightarrow> rm_members r = []))"
  using goroutine_ok[OF room_reachable_inv[OF assms], of k now ended] room_reachable_inv[OF assms]
  by (auto simp: room_inv_def queues_inv_def members_inv_def chan_ok_def)

theorem room_never_faults_witness:
  "\<exists>r'. goroutine (TickAt 5) 6 7 sample_room = Inr r' \<and> rm_emptyTimer sample_room"
  using room_never_faults[OF sample_room_reachable, of "TickAt 5" 6 7] by (simp add: sample_room_simps)

text \<open>C15: The room refines the game: whatever the interleaving, the world moves only by operations of the
  game run one after the other, the calls of other goroutines leave it untouched, and the answers
  already given never change.\<close>

theorem room_refines_world:
  assumes "room_reachable r" and "room_step\<^sup>*\<^sup>* r r'"
  shows "world_step\<^sup>*\<^sup>* (rm_world r) (rm_world r') \<and> (\<exists>new. rm_receipts r' = rm_receipts r @ new) \<and>
    (\<forall>x r''. room_call r' x r'' \<longrightarrow> rm_world r'' = rm_world r' \<and> rm_pc r'' = rm_pc r') \<and>
    (\<forall>s input now e r''. vec_ok (i_Direction input) \<longrightarrow> Room_Input r' s input now = Inr (e, r'') \<longrightarrow> rm_world r'' = rm_world r')"
proof -
  have p: "progress r r'" using room_steps_ok[OF assms(2) room_reachable_inv[OF assms(1)]] .
  then have i: "room_inv r'" by (simp add: progress_def)
  have "rm_world r'' = rm_world r'" if "vec_ok (i_Direction input)" "Room_Input r' s input now = Inr (e, r'')" for s input now e r''
    using Room_Input_inv[OF i that(1), of s now] that(2) by auto
  then show ?thesis using p call_ok[OF _ i] unfolding progress_def by blast
qed

theorem room_refines_world_witness:
  "world_step\<^sup>*\<^sup>* (rm_world sample_room) (rm_world (sample_room\<lparr>rm_ctxDone := True\<rparr>))"
proof -
  have "room_step\<^sup>*\<^sup>* sample_room (sample_room\<lparr>rm_ctxDone := True\<rparr>)" using room_step.cancel by (rule r_into_rtranclp)
  then show ?thesis using room_refines_world[OF sample_room_reachable] by blast
qed

text \<open>C13: Nobody waits for ever: a command the room accepted gets exactly one answer by the time the room is
  done, however it ends, and after that every further command is refused as closed.\<close>

theorem receipts_answered:
  assumes "room_reachable r" and "room_call r (Inr n) r1" and "room_step\<^sup>*\<^sup>* r1 r2" and "rm_done r2"
  shows "(\<exists>!x. (n, x) \<in> set (rm_receipts r2)) \<and>
    (\<forall>s p. s \<noteq> 0 \<longrightarrow> p \<noteq> 0 \<longrightarrow> Join r2 s p = Inr (Inl RoomClosed, r2) \<and> Leave r2 s = Inr (Inl RoomClosed, r2))"
proof -
  have c: "room_inv r1" "Some n \<in> set (pending r1)"
    using call_ok[OF assms(2) room_reachable_inv[OF assms(1)]] by (auto simp: progress_def)
  have "room_inv r2" using room_steps_ok[OF assms(3) c(1)] by (simp add: progress_def)
  then have "rm_closed r2" using assms(4) by (simp add: room_inv_def flags_inv_def)
  then show ?thesis using room.answered_once[OF assms(3) c(1), of n] c(2) assms(4)
    by (simp add: Join_def Leave_def submit_def enqueue_control_def)
qed

text \<open>C16: A cancelled room ends: however its select chooses and whatever the clock shows, the goroutine is done
  after at most room_work of its own steps, with the world closed, the members gone, the final
  snapshot marked closed and nothing left in the queues.\<close>

theorem cancelled_room_ends:
  assumes "room_reachable r" and "rm_ctxDone r"
  shows "\<exists>r'. run_for (room_work r) sched r = Inr r' \<and> rm_done r' \<and> v_State (w_stage (rm_world r')) = Closed \<and>
    rm_members r' = [] \<and> rsn_Closed (rm_latest r') \<and> st_Closed (rm_status r') \<and> ch_buf (rm_controls r') = [] \<and> ch_buf (rm_inputs r') = []"
proof -
  obtain r' where r': "run_for (room_work r) sched r = Inr r'" "progress r r'" "rm_done r'"
    using run_for_ends[OF room_reachable_inv[OF assms(1)] assms(2), of "room_work r"] by auto
  then have "flags_inv r'" by (simp add: progress_def room_inv_def)
  then show ?thesis using r'(1,3) by (auto simp: flags_inv_def)
qed

theorem cancelled_room_ends_witness:
  "\<exists>r'. run_for 3 (\<lambda>_. (Cancelled, 0, 0)) (sample_room\<lparr>rm_ctxDone := True\<rparr>) = Inr r' \<and> rm_done r'"
proof -
  have r: "room_reachable (sample_room\<lparr>rm_ctxDone := True\<rparr>)" using room_reachable.step[OF sample_room_reachable room_step.cancel] .
  have "room_work (sample_room\<lparr>rm_ctxDone := True\<rparr>) = 3" by (simp add: room_work_def sample_room_simps)
  then show ?thesis using cancelled_room_ends[OF r, of "\<lambda>_. (Cancelled, 0, 0)"] by auto
qed

theorem receipts_answered_witness:
  "\<exists>r1 r2 x. room_call sample_room (Inr 0) r1 \<and> rm_done r2 \<and> (0, x) \<in> set (rm_receipts r2) \<and> Leave r2 9 = Inr (Inl RoomClosed, r2)"
proof -
  obtain r1 where j: "Join sample_room 9 7 = Inr (Inr 0, r1)"
    by (simp add: Join_def submit_def enqueue_control_def sample_room_simps Let_def try_send_open)
  have c: "room_call sample_room (Inr 0) r1" using j by (rule room_call.join)
  let ?r = "r1\<lparr>rm_ctxDone := True\<rparr>"
  have run: "room_step\<^sup>*\<^sup>* r r'" if "run_for n (\<lambda>_. (Cancelled, 0, 0)) r = Inr r'" "rm_ctxDone r" "room_inv r" for n r r'
    using that
  proof (induction n arbitrary: r)
    case (Suc n)
    obtain v where v: "goroutine Cancelled 0 0 r = Inr v" "progress r v" using goroutine_ok[OF Suc.prems(3)] by blast
    have "room_step r v" using Suc.prems(2) v(1) by (intro room_step.run[of _ Cancelled]) (simp_all add: wake_ready_def)
    moreover have "room_step\<^sup>*\<^sup>* v r'" using Suc v by (simp add: progress_def)
    ultimately show ?case by (rule converse_rtranclp_into_rtranclp)
  qed simp
  have cx: "room_step r1 ?r" by (rule room_step.cancel)
  have rr: "room_reachable ?r" using c sample_room_reachable cx room_reachable.step room_step.call by metis
  obtain r2 where r2: "run_for (room_work ?r) (\<lambda>_. (Cancelled, 0, 0)) ?r = Inr r2" "rm_done r2"
    using run_for_ends[OF room_reachable_inv[OF rr], of "room_work ?r"] by auto
  have "room_step\<^sup>*\<^sup>* r1 r2" using cx run[OF r2(1)] room_reachable_inv[OF rr] by (simp add: converse_rtranclp_into_rtranclp)
  note a = receipts_answered[OF sample_room_reachable c this r2(2)]
  obtain x where "(0, x) \<in> set (rm_receipts r2)" using a by blast
  moreover have "Leave r2 9 = Inr (Inl RoomClosed, r2)" using a[THEN conjunct2, rule_format, of 9 1] by simp
  ultimately show ?thesis using c r2(2) by blast
qed

text \<open>C14: Inputs cannot outlive a membership: when a session joins (again), every input it queued earlier
  carries an older generation and is rejected instead of steering the new player, as long as fewer than
  2 ^ 64 commands were ever submitted.\<close>

theorem stale_inputs_rejected:
  assumes "room_reachable r" and "rm_chans r < 2 ^ 64" and "ch_buf (rm_controls r) = c # cs"
    and "applyControl c (r\<lparr>rm_controls := (rm_controls r)\<lparr>ch_buf := cs\<rparr>\<rparr>) = (None, r')"
    and "map_of (rm_members r) s = None" and "map_of (rm_members r') s = Some b"
    and "m \<in> set (ch_buf (rm_inputs r))" and "mv_session m = s"
  shows "process_input now m r' = reject_input r'"
proof -
  let ?r = "r\<lparr>rm_controls := (rm_controls r)\<lparr>ch_buf := cs\<rparr>\<rparr>"
  have i: "room_inv r" using room_reachable_inv[OF assms(1)] .
  have bd: "bound (rm_members r) (dom (map_of (w_players (rm_world r))))" "rm_emptyTimer r \<longleftrightarrow> rm_members r = []" and ty: "control_typed c"
    using i assms(3) by (auto simp: room_inv_def members_inv_def flags_inv_def queues_inv_def)
  obtain w ms g t where sh: "snd (applyControl c ?r) = ?r\<lparr>rm_world := w, rm_members := ms, rm_generation := g, rm_emptyTimer := t\<rparr>"
    "controlled ?r w ms g t"
    using applyControl_ok[of ?r c] bd ty by auto
  have ms: "rm_members r' = ms" using sh(1) assms(4) by simp
  have bg: "b_generation b = rm_generation r + 1"
    using sh(2) assms(5,6) ms by (auto simp: controlled_def update_conv' split: if_splits)
  have le: "mv_generation m \<le> rm_generation r" "Suc (unat (rm_generation r)) \<le> rm_chans r"
    using i assms(2,3,7) by (auto simp: room_inv_def generations_inv_def)
  then have "unat (rm_generation r + 1) = Suc (unat (rm_generation r))" using assms(2) by (simp add: unat_word_ariths)
  then have "b_generation b \<noteq> mv_generation m" using bg le(1) by (auto simp: word_le_nat_alt)
  then show ?thesis using assms(6,8) by (simp add: process_input_def)
qed

text \<open>A session that joined, queued an input, left, and whose second join is next.\<close>

definition sample_input_0 :: Input where
  "sample_input_0 = zero_input\<lparr>i_Seq := 1\<rparr>"

definition sample_controls :: "control list" where
  "sample_controls = [zero_control\<lparr>c_join := True, c_sessionID := 9, c_playerID := 7, c_result := Some 0\<rparr>,
     zero_control\<lparr>c_sessionID := 9, c_result := Some 1\<rparr>,
     zero_control\<lparr>c_join := True, c_sessionID := 9, c_playerID := 7, c_result := Some 2\<rparr>]"

theorem stale_inputs_rejected_witness:
  "\<exists>r c cs r' m. room_reachable r \<and> ch_buf (rm_inputs r) = [m] \<and> ch_buf (rm_controls r) = c # cs \<and>
     applyControl c (r\<lparr>rm_controls := (rm_controls r)\<lparr>ch_buf := cs\<rparr>\<rparr>) = (None, r') \<and> process_input 0 m r' = reject_input r'"
proof -
  define w where "w = rm_world sample_room"
  have wd: "w_players w = []" "w_config w = DefaultConfig" "w_stage w = zero_view" "w_runStarted w = False" "w_rewardRound w = None"
    "w_departedPlayers w = []"
    using config_ok_Default by (simp_all add: w_def sample_room_def Start_def RoomConfig_validate_def DefaultRoomConfig_def
      NewWorld_def new_room_def Let_def storeStats_def config_ok_def)
  define s0 where "s0 = zero_sample\<lparr>ts_RoomID := rm_id sample_room, ts_StartedAt := 0\<rparr>"
  define r1 where "r1 = sample_room\<lparr>rm_pc := Controls 16 s0\<rparr>"
  have "goroutine (TickAt 0) 0 0 sample_room = Inr r1"
    by (simp add: goroutine_def sample_room_simps select_step_def r1_def s0_def DefaultRoomConfig_def)
  then have c1: "room_reachable r1" using room_reachable.step[OF sample_room_reachable] room_step.run[of sample_room "TickAt 0"]
    by (simp add: wake_ready_def)
  define r2 where "r2 = r1\<lparr>rm_chans := 1, rm_controls := \<lparr>ch_cap = 64, ch_buf = [sample_controls ! 0], ch_closed = False\<rparr>\<rparr>"
  have "Join r1 9 7 = Inr (Inr 0, r2)"
    by (simp add: Join_def submit_def enqueue_control_def Let_def try_send_def r1_def r2_def sample_room_simps make_chan_def
      sample_controls_def)
  then have c2: "room_reachable r2" using c1 by (metis room_reachable.step room_step.call room_call.join)
  define w3 where "w3 = w\<lparr>w_departedPlayers := [], w_players := [(7, new_player DefaultConfig 7)]\<rparr>"
  have add: "AddPlayer w 7 = Inr w3"
    using wd by (simp add: AddPlayer_def PlayerCount_def FirstWorldEntityID_def zero_view_def DefaultConfig_def w3_def)
  define r3 where "r3 = r2\<lparr>rm_controls := make_chan 64, rm_world := w3, rm_generation := 1, rm_emptyTimer := False,
    rm_members := [(9, \<lparr>b_playerID = 7, b_generation = 1\<rparr>)], rm_receipts := [(0, Done_receipt None)],
    rm_pc := Controls 15 (s0\<lparr>ts_Controls := ts_Controls s0 + 1\<rparr>)\<rparr>"
  have "goroutine Cancelled 0 0 r2 = Inr r3"
    using add by (simp add: goroutine_def control_step_def try_recv_def handle_control_def applyControl_def r2_def r1_def r3_def
      sample_controls_def zero_control_def sample_room_simps reply_def make_chan_def w_def[symmetric] Let_def)
  then have c3: "room_reachable r3" using room_reachable.step[OF c2] room_step.run[of r2 Cancelled] by (simp add: r2_def r1_def)
  define m where "m = \<lparr>mv_session = 9, mv_generation = 1, mv_input = sample_input_0, mv_received = 0\<rparr>"
  define r4 where "r4 = r3\<lparr>rm_inputs := \<lparr>ch_cap = 256, ch_buf = [m], ch_closed = False\<rparr>\<rparr>"
  have iv: "Input_Validate sample_input_0" "vec_ok (i_Direction sample_input_0)"
    by (simp_all add: sample_input_0_def zero_input_def Input_Validate_def vec_ok_def zero_vec_def Vec2_Finite_def)
  have "Room_Input r3 9 sample_input_0 0 = Inr (None, r4)"
    using iv by (simp add: Room_Input_def r3_def r2_def r1_def r4_def m_def sample_room_simps try_send_def make_chan_def)
  then have c4: "room_reachable r4" using room_reachable.step[OF c3 room_step.input[OF iv(2)]] by blast
  define r5 where "r5 = r4\<lparr>rm_chans := 2, rm_controls := \<lparr>ch_cap = 64, ch_buf = [sample_controls ! 1], ch_closed = False\<rparr>\<rparr>"
  have "Leave r4 9 = Inr (Inr 1, r5)"
    by (simp add: Leave_def submit_def enqueue_control_def Let_def try_send_def r1_def r2_def r3_def r4_def r5_def sample_room_simps
      make_chan_def sample_controls_def)
  then have c5: "room_reachable r5" using c4 by (metis room_reachable.step room_step.call room_call.leave)
  define r6 where "r6 = r5\<lparr>rm_chans := 3, rm_controls := \<lparr>ch_cap = 64, ch_buf = tl sample_controls, ch_closed = False\<rparr>\<rparr>"
  have "Join r5 9 7 = Inr (Inr 2, r6)"
    by (simp add: Join_def submit_def enqueue_control_def Let_def try_send_def r1_def r2_def r3_def r4_def r5_def r6_def sample_room_simps
      make_chan_def sample_controls_def)
  then have c6: "room_reachable r6" using c5 by (metis room_reachable.step room_step.call room_call.join)
  define w7 where "w7 = w3\<lparr>w_players := []\<rparr>"
  have rem: "RemovePlayer w3 7 = w7" using wd by (simp add: RemovePlayer_def w3_def w7_def Let_def)
  define r7 where "r7 = r6\<lparr>rm_controls := \<lparr>ch_cap = 64, ch_buf = [sample_controls ! 2], ch_closed = False\<rparr>, rm_world := w7,
    rm_members := [], rm_emptyTimer := True, rm_receipts := [(0, Done_receipt None), (1, Done_receipt None)],
    rm_pc := Controls 14 (s0\<lparr>ts_Controls := ts_Controls s0 + 2\<rparr>)\<rparr>"
  have "goroutine Cancelled 0 0 r6 = Inr r7"
    using rem by (simp add: goroutine_def control_step_def try_recv_def handle_control_def applyControl_def r6_def r5_def r4_def r3_def r7_def
      sample_controls_def zero_control_def reply_def Let_def w7_def PlayerCount_def)
  then have c7: "room_reachable r7" using room_reachable.step[OF c6] room_step.run[of r6 Cancelled]
    by (simp add: r6_def r5_def r4_def r3_def)
  let ?c = "sample_controls ! 2"
  obtain r' where a: "applyControl ?c (r7\<lparr>rm_controls := (rm_controls r7)\<lparr>ch_buf := []\<rparr>\<rparr>) = (None, r')"
    "map_of (rm_members r') 9 = Some \<lparr>b_playerID = 7, b_generation = 2\<rparr>"
    using wd by (simp add: applyControl_def sample_controls_def zero_control_def r7_def r6_def r5_def r4_def r3_def w7_def w3_def
      AddPlayer_def PlayerCount_def FirstWorldEntityID_def zero_view_def DefaultConfig_def Let_def)
  have b: "ch_buf (rm_controls r7) = ?c # []" "ch_buf (rm_inputs r7) = [m]" "rm_chans r7 < 2 ^ 64" "map_of (rm_members r7) 9 = None"
    by (simp_all add: r7_def r6_def r5_def r4_def)
  have "process_input 0 m r' = reject_input r'"
    by (rule stale_inputs_rejected[OF c7 b(3,1) a(1) b(4) a(2)]) (simp_all add: b(2), simp add: m_def)
  then show ?thesis using c7 a(1) b by blast
qed

end
