(* ===== verification/Connection.thy ===== *)
theory Connection
  imports Channel Frame "HOL-Library.Sublist"
begin

text \<open>
  Connections and the server that owns them (\<open>network/server.go\<close>).  A connection has a bounded queue for
  reliable frames, a slot for the latest snapshot, a writer goroutine (the only one that writes to the
  socket) and a reader goroutine.  What has been flushed to the socket is kept, frame by frame and with
  the queue it came from; \<open>cn_alive\<close> says whether writes to the socket still succeed.
\<close>

section \<open>Connections\<close>

record serverCounters =
  reliableRejected :: u64
  snapshotReplaced :: u64

datatype wire_frame = Reliable "byte list" | Latest "byte list"

text \<open>Where the writer goroutine is: at its first \<open>select\<close>, at its second, emptying the snapshot slot, returned.\<close>

datatype writer_pc = Polling | Waiting_frame | Emptying | Writer_done

record Connection =
  cn_out :: "byte list chan"
  cn_snapshot :: "byte list chan"
  cn_dead :: bool
  cn_queueOnce :: bool
  cn_closeOnce :: bool
  cn_counters :: serverCounters
  cn_ctx :: "nat option"
  cn_alive :: bool
  cn_wire :: "wire_frame list"
  cn_writer :: writer_pc

definition newConnection :: "serverCounters \<Rightarrow> Connection" where
  "newConnection counters = \<lparr>cn_out = make_chan 256, cn_snapshot = make_chan 1, cn_dead = False, cn_queueOnce = False,
     cn_closeOnce = False, cn_counters = counters, cn_ctx = None, cn_alive = True, cn_wire = [], cn_writer = Polling\<rparr>"

definition SetContext :: "nat option \<Rightarrow> Connection \<Rightarrow> Connection" where
  "SetContext v c = c\<lparr>cn_ctx := v\<rparr>"

definition Context :: "Connection \<Rightarrow> nat option" where
  "Context c = cn_ctx c"

definition IsClosed :: "Connection \<Rightarrow> bool" where
  "IsClosed c = cn_dead c"

definition recordReliableRejection :: "Connection \<Rightarrow> Connection" where
  "recordReliableRejection c = c\<lparr>cn_counters := (cn_counters c)\<lparr>reliableRejected := reliableRejected (cn_counters c) + 1\<rparr>\<rparr>"

definition Send :: "byte list \<Rightarrow> Connection \<Rightarrow> chan_panic + (bool \<times> Connection)" where
  "Send frame c =
     (if cn_dead c then Inr (False, recordReliableRejection c)
      else bind_sum (try_send frame (cn_out c)) (\<lambda>(sent, q).
        Inr (sent, if sent then c\<lparr>cn_out := q\<rparr> else recordReliableRejection c)))"

text \<open>The loop of \<open>SendSnapshot\<close> ends once the slot takes the frame; with a slot of no capacity it would not.\<close>

partial_function (option) publish_latest :: "byte list \<Rightarrow> Connection \<Rightarrow> (chan_panic + Connection) option" where
  "publish_latest frame c =
     (case try_send frame (cn_snapshot c) of
        Inl p \<Rightarrow> Some (Inl p)
      | Inr (sent, q) \<Rightarrow>
        if sent then Some (Inr (c\<lparr>cn_snapshot := q\<rparr>))
        else (case try_recv (cn_snapshot c) of
           (Value _, q) \<Rightarrow> publish_latest frame (c\<lparr>cn_snapshot := q,
             cn_counters := (cn_counters c)\<lparr>snapshotReplaced := snapshotReplaced (cn_counters c) + 1\<rparr>\<rparr>)
         | _ \<Rightarrow> publish_latest frame c))"

definition SendSnapshot :: "byte list \<Rightarrow> Connection \<Rightarrow> (chan_panic + (bool \<times> Connection)) option" where
  "SendSnapshot frame c =
     (if cn_dead c then Some (Inr (False, c))
      else map_option (map_sum id (Pair True)) (publish_latest frame c))"

definition closeQueue :: "Connection \<Rightarrow> chan_panic + Connection" where
  "closeQueue c =
     (let c = c\<lparr>cn_dead := True\<rparr>
      in if cn_queueOnce c then Inr c
         else bind_sum (close_chan (cn_out c)) (\<lambda>q. Inr (c\<lparr>cn_out := q, cn_queueOnce := True\<rparr>)))"

definition CloseAfterFlush :: "Connection \<Rightarrow> chan_panic + Connection" where
  "CloseAfterFlush c = closeQueue c"

text \<open>\<open>Close\<close> of a connection; the flag of the result says whether this call runs \<open>onClose\<close>.\<close>

definition Close_connection :: "Connection \<Rightarrow> bool \<times> Connection" where
  "Close_connection c =
     (if cn_closeOnce c then (False, c)
      else (True, c\<lparr>cn_closeOnce := True, cn_dead := True, cn_alive := False\<rparr>))"

section \<open>The writer\<close>

definition writeFrame :: "wire_frame \<Rightarrow> Connection \<Rightarrow> bool \<times> Connection" where
  "writeFrame frame c = (if cn_alive c then (True, c\<lparr>cn_wire := cn_wire c @ [frame]\<rparr>) else (False, c))"

definition write_then :: "writer_pc \<Rightarrow> wire_frame \<Rightarrow> Connection \<Rightarrow> Connection" where
  "write_then pc frame c = (case writeFrame frame c of (ok, c) \<Rightarrow> c\<lparr>cn_writer := if ok then pc else Writer_done\<rparr>)"

datatype branch = TakeOut | TakeSnapshot

text \<open>One step of the writer; the second \<open>select\<close> takes \<open>branch\<close> and waits if that is not ready.\<close>

definition writer_step :: "branch \<Rightarrow> Connection \<Rightarrow> Connection" where
  "writer_step branch c =
     (case cn_writer c of
        Polling \<Rightarrow>
          (case try_recv (cn_snapshot c) of
             (Value f, q) \<Rightarrow> write_then Polling (Latest f) (c\<lparr>cn_snapshot := q\<rparr>)
           | _ \<Rightarrow> c\<lparr>cn_writer := Waiting_frame\<rparr>)
      | Waiting_frame \<Rightarrow>
          (case branch of
             TakeOut \<Rightarrow>
               (case try_recv (cn_out c) of
                  (Value f, q) \<Rightarrow> write_then Polling (Reliable f) (c\<lparr>cn_out := q\<rparr>)
                | (Drained, _) \<Rightarrow> c\<lparr>cn_writer := Emptying\<rparr>
                | (Nothing, _) \<Rightarrow> c)
           | TakeSnapshot \<Rightarrow>
               (case try_recv (cn_snapshot c) of
                  (Value f, q) \<Rightarrow> write_then Polling (Latest f) (c\<lparr>cn_snapshot := q\<rparr>)
                | _ \<Rightarrow> c))
      | Emptying \<Rightarrow>
          (case try_recv (cn_snapshot c) of
             (Value f, q) \<Rightarrow> write_then Emptying (Latest f) (c\<lparr>cn_snapshot := q\<rparr>)
           | _ \<Rightarrow> c\<lparr>cn_writer := Writer_done\<rparr>)
      | Writer_done \<Rightarrow> c)"

text \<open>
  The second \<open>select\<close> in Go: it takes any branch that is ready.  \<open>choice\<close> is the one taken when both are; when only the
  other one is ready it takes that one, and when none is the writer waits.
\<close>

definition branch_ready :: "branch \<Rightarrow> Connection \<Rightarrow> bool" where
  "branch_ready branch c = (case branch of TakeOut \<Rightarrow> fst (try_recv (cn_out c)) \<noteq> Nothing
     | TakeSnapshot \<Rightarrow> fst (try_recv (cn_snapshot c)) \<noteq> Nothing)"

primrec other_branch :: "branch \<Rightarrow> branch" where
  "other_branch TakeOut = TakeSnapshot" | "other_branch TakeSnapshot = TakeOut"

definition writer_select :: "branch \<Rightarrow> Connection \<Rightarrow> Connection" where
  "writer_select choice c = writer_step (if branch_ready choice c then choice else other_branch choice) c"

section \<open>The reader\<close>

text \<open>The handler of the messages is the caller's: it changes the caller's state and may reject the message.\<close>

type_synonym ('s, 'e) handler = "'s \<Rightarrow> Header \<Rightarrow> byte list \<Rightarrow> 'e option \<times> 's"

lemma ReadFrame_shrinks:
  "ReadFrame r = Inr (h, body, r') \<Longrightarrow> length (concat (st_chunks r')) < length (concat (st_chunks r))"
  using ReadFrame_bytes[of r] by (auto simp: Let_def HeaderLen_def split: if_splits)

function readLoop :: "('s, 'e) handler \<Rightarrow> 's \<Rightarrow> stream \<Rightarrow> 's" where
  "readLoop handle s r =
     (case ReadFrame r of
        Inl _ \<Rightarrow> s
      | Inr (h, payload, r') \<Rightarrow>
        (case handle s h payload of (Some _, s') \<Rightarrow> s' | (None, s') \<Rightarrow> readLoop handle s' r'))"
  by pat_completeness auto

termination readLoop
  by (relation "measure (\<lambda>(_, _, r). length (concat (st_chunks r)))") (auto simp: ReadFrame_shrinks)

declare readLoop.simps [simp del]

section \<open>The life of a connection\<close>

text \<open>Where \<open>run\<close> is: waiting for the reader, waiting for the writer, finished.\<close>

datatype run_pc = Await_reader | Await_writer | Run_done

definition run_step :: "bool \<Rightarrow> run_pc \<Rightarrow> Connection \<Rightarrow> chan_panic + (run_pc \<times> Connection)" where
  "run_step readerDone pc c =
     (case pc of
        Await_reader \<Rightarrow> (if readerDone then bind_sum (closeQueue c) (\<lambda>c. Inr (Await_writer, c)) else Inr (pc, c))
      | Await_writer \<Rightarrow> (if cn_writer c = Writer_done then Inr (Run_done, snd (Close_connection c)) else Inr (pc, c))
      | Run_done \<Rightarrow> Inr (pc, c))"

definition conn_ok :: "Connection \<Rightarrow> bool" where
  "conn_ok c \<longleftrightarrow> chan_ok (cn_out c) \<and> ch_cap (cn_out c) = 256 \<and> chan_ok (cn_snapshot c) \<and> ch_cap (cn_snapshot c) = 1 \<and>
     \<not> ch_closed (cn_snapshot c) \<and> (ch_closed (cn_out c) \<longleftrightarrow> cn_queueOnce c) \<and> (cn_queueOnce c \<longrightarrow> cn_dead c)"

lemma newConnection_ok: "conn_ok (newConnection k)"
  by (simp add: newConnection_def conn_ok_def chan_ok_def)

lemma recordReliableRejection_simps [simp]:
  "cn_out (recordReliableRejection c) = cn_out c" "cn_snapshot (recordReliableRejection c) = cn_snapshot c"
  "cn_dead (recordReliableRejection c) = cn_dead c" "cn_queueOnce (recordReliableRejection c) = cn_queueOnce c"
  "cn_alive (recordReliableRejection c) = cn_alive c" "cn_wire (recordReliableRejection c) = cn_wire c"
  "cn_writer (recordReliableRejection c) = cn_writer c" "conn_ok (recordReliableRejection c) = conn_ok c"
  by (simp_all add: recordReliableRejection_def conn_ok_def)

lemma Send_ok:
  assumes "conn_ok c"
  shows "\<exists>b c'. Send f c = Inr (b, c') \<and> conn_ok c' \<and> cn_wire c' = cn_wire c \<and> cn_alive c' = cn_alive c \<and>
    b = (\<not> cn_dead c \<and> length (ch_buf (cn_out c)) < 256) \<and> ch_buf (cn_out c') = (if b then ch_buf (cn_out c) @ [f] else ch_buf (cn_out c)) \<and>
    (b \<longrightarrow> cn_counters c' = cn_counters c) \<and>
    (\<not> b \<longrightarrow> reliableRejected (cn_counters c') = reliableRejected (cn_counters c) + 1)"
  using assms by (auto simp: Send_def conn_ok_def try_send_def chan_ok_def recordReliableRejection_def)

lemma publish_latest_ok:
  assumes "conn_ok c"
  shows "\<exists>k. publish_latest f c = Some (Inr (c\<lparr>cn_snapshot := (cn_snapshot c)\<lparr>ch_buf := [f]\<rparr>, cn_counters := k\<rparr>)) \<and>
    snapshotReplaced k = snapshotReplaced (cn_counters c) + (if ch_buf (cn_snapshot c) = [] then 0 else 1)"
proof (cases "ch_buf (cn_snapshot c)")
  case Nil
  then have "publish_latest f c = Some (Inr (c\<lparr>cn_snapshot := (cn_snapshot c)\<lparr>ch_buf := [f]\<rparr>\<rparr>))"
    using assms by (subst publish_latest.simps) (simp add: try_send_def conn_ok_def)
  then show ?thesis using Nil by (intro exI[of _ "cn_counters c"]) simp
next
  case (Cons g gs)
  then have gs: "gs = []" using assms by (cases gs) (auto simp: conn_ok_def chan_ok_def)
  let ?k = "(cn_counters c)\<lparr>snapshotReplaced := snapshotReplaced (cn_counters c) + 1\<rparr>"
  let ?c = "c\<lparr>cn_snapshot := (cn_snapshot c)\<lparr>ch_buf := []\<rparr>, cn_counters := ?k\<rparr>"
  have "publish_latest f c = publish_latest f ?c"
    using assms Cons gs by (subst publish_latest.simps) (simp add: try_send_def try_recv_def conn_ok_def)
  also have "\<dots> = Some (Inr (?c\<lparr>cn_snapshot := (cn_snapshot c)\<lparr>ch_buf := [f]\<rparr>\<rparr>))"
    using assms by (subst publish_latest.simps) (simp add: try_send_def conn_ok_def)
  also have "?c\<lparr>cn_snapshot := (cn_snapshot c)\<lparr>ch_buf := [f]\<rparr>\<rparr> = c\<lparr>cn_snapshot := (cn_snapshot c)\<lparr>ch_buf := [f]\<rparr>, cn_counters := ?k\<rparr>"
    by (rule Connection.equality) simp_all
  finally show ?thesis using Cons by (intro exI[of _ ?k]) simp
qed

lemma SendSnapshot_ok:
  assumes "conn_ok c"
  shows "\<exists>c'. SendSnapshot f c = Some (Inr (\<not> cn_dead c, c')) \<and> conn_ok c' \<and> cn_wire c' = cn_wire c \<and> cn_alive c' = cn_alive c \<and>
    cn_out c' = cn_out c \<and> ch_buf (cn_snapshot c') = (if cn_dead c then ch_buf (cn_snapshot c) else [f]) \<and> cn_dead c' = cn_dead c \<and>
    cn_writer c' = cn_writer c"
proof (cases "cn_dead c")
  case True
  then show ?thesis using assms by (simp add: SendSnapshot_def)
next
  case False
  obtain k where "publish_latest f c = Some (Inr (c\<lparr>cn_snapshot := (cn_snapshot c)\<lparr>ch_buf := [f]\<rparr>, cn_counters := k\<rparr>))"
    using publish_latest_ok[OF assms] by blast
  then show ?thesis using False assms by (simp add: SendSnapshot_def conn_ok_def chan_ok_def)
qed

lemma closeQueue_ok:
  assumes "conn_ok c"
  shows "\<exists>c'. closeQueue c = Inr c' \<and> conn_ok c' \<and> cn_wire c' = cn_wire c \<and> cn_alive c' = cn_alive c \<and> cn_dead c' \<and> cn_queueOnce c' \<and>
    ch_buf (cn_out c') = ch_buf (cn_out c) \<and> cn_snapshot c' = cn_snapshot c \<and> cn_writer c' = cn_writer c"
  using assms by (auto simp: closeQueue_def Let_def conn_ok_def close_chan_def chan_ok_def)

lemma write_then_simps [simp]:
  "cn_out (write_then pc f c) = cn_out c" "cn_snapshot (write_then pc f c) = cn_snapshot c" "cn_dead (write_then pc f c) = cn_dead c"
  "cn_queueOnce (write_then pc f c) = cn_queueOnce c" "cn_alive (write_then pc f c) = cn_alive c"
  "cn_wire (write_then pc f c) = (if cn_alive c then cn_wire c @ [f] else cn_wire c)"
  "cn_writer (write_then pc f c) = (if cn_alive c then pc else Writer_done)"
  by (simp_all add: write_then_def writeFrame_def)

lemma conn_ok_write_then [simp]: "conn_ok (write_then pc f c) = conn_ok c"
  by (simp add: conn_ok_def)

lemma conn_ok_snapshot: "conn_ok c \<Longrightarrow> try_recv (cn_snapshot c) = (v, q) \<Longrightarrow> conn_ok (c\<lparr>cn_snapshot := q\<rparr>)"
  using try_recv_frame[of "cn_snapshot c" v q] by (simp add: conn_ok_def)

lemma conn_ok_out: "conn_ok c \<Longrightarrow> try_recv (cn_out c) = (v, q) \<Longrightarrow> conn_ok (c\<lparr>cn_out := q\<rparr>)"
  using try_recv_frame[of "cn_out c" v q] by (simp add: conn_ok_def)

lemma conn_ok_writer [simp]: "conn_ok (c\<lparr>cn_writer := pc\<rparr>) = conn_ok c"
  by (simp add: conn_ok_def)

lemma writer_step_ok: "conn_ok c \<Longrightarrow> conn_ok (writer_step b c)"
  by (auto simp: writer_step_def conn_ok_snapshot conn_ok_out split: writer_pc.split branch.split prod.split received.split)

section \<open>The reliable queue is a queue\<close>

text \<open>Everything else that can happen to a connection between its sends and the writer's takes.\<close>

datatype conn_act = Publish "byte list" | Force_close | Flush_close | Other_branch | Break_socket | Recall "nat option"

definition conn_other :: "conn_act \<Rightarrow> Connection \<Rightarrow> Connection" where
  "conn_other a c =
     (case a of
        Publish f \<Rightarrow> (case SendSnapshot f c of Some (Inr (_, c')) \<Rightarrow> c' | _ \<Rightarrow> c)
      | Force_close \<Rightarrow> snd (Close_connection c)
      | Flush_close \<Rightarrow> (case CloseAfterFlush c of Inr c' \<Rightarrow> c' | Inl _ \<Rightarrow> c)
      | Other_branch \<Rightarrow> writer_step TakeSnapshot c
      | Break_socket \<Rightarrow> c\<lparr>cn_alive := False\<rparr>
      | Recall v \<Rightarrow> SetContext v c)"

definition conn_put :: "byte list \<Rightarrow> Connection \<Rightarrow> bool \<times> Connection" where
  "conn_put f c = (case Send f c of Inl _ \<Rightarrow> (False, c) | Inr r \<Rightarrow> r)"

definition conn_get :: "Connection \<Rightarrow> byte list option \<times> Connection" where
  "conn_get c = ((if cn_writer c = Waiting_frame \<and> ch_buf (cn_out c) \<noteq> [] then Some (hd (ch_buf (cn_out c))) else None),
     writer_step TakeOut c)"

lemma map_sum_Inr: "map_sum id g x = Inr z \<longleftrightarrow> (\<exists>y. x = Inr y \<and> z = g y)"
  by (cases x) auto

definition same_link :: "Connection \<Rightarrow> Connection \<Rightarrow> bool" where
  "same_link c c' \<longleftrightarrow> cn_out c' = cn_out c \<and> cn_wire c' = cn_wire c \<and> cn_alive c' = cn_alive c"

lemma publish_latest_frame:
  assumes "publish_latest f c = Some (Inr c')"
  shows "same_link c c'"
proof -
  have "case y of Inl _ \<Rightarrow> True | Inr c' \<Rightarrow> same_link c c'" if "publish_latest f c = Some y" for y
    using that
  proof (rule publish_latest.raw_induct[rotated])
    fix rec f c y
    assume IH: "\<And>f c y. rec f c = Some y \<Longrightarrow> case y of Inl _ \<Rightarrow> True | Inr c' \<Rightarrow> same_link c c'"
      and b: "(case try_send f (cn_snapshot c) of Inl p \<Rightarrow> Some (Inl p)
        | Inr (sent, q) \<Rightarrow> if sent then Some (Inr (c\<lparr>cn_snapshot := q\<rparr>))
          else (case try_recv (cn_snapshot c) of
             (Value _, q) \<Rightarrow> rec f (c\<lparr>cn_snapshot := q,
               cn_counters := (cn_counters c)\<lparr>snapshotReplaced := snapshotReplaced (cn_counters c) + 1\<rparr>\<rparr>)
           | _ \<Rightarrow> rec f c)) = Some y"
    show "case y of Inl _ \<Rightarrow> True | Inr c' \<Rightarrow> same_link c c'"
    proof (cases "try_send f (cn_snapshot c)")
      case (Inr x)
      obtain s q where x: "x = (s, q)" by (cases x)
      obtain v q' where v: "try_recv (cn_snapshot c) = (v, q')" by fastforce
      let ?c = "c\<lparr>cn_snapshot := q', cn_counters := (cn_counters c)\<lparr>snapshotReplaced := snapshotReplaced (cn_counters c) + 1\<rparr>\<rparr>"
      consider "y = Inr (c\<lparr>cn_snapshot := q\<rparr>)" | "rec f ?c = Some y" | "rec f c = Some y"
        using b by (cases s; cases v) (simp_all add: Inr x v)
      then show ?thesis
        by cases (use IH[of f ?c y] IH[of f c y] in \<open>auto simp: same_link_def split: sum.splits\<close>)
    qed (use b in auto)
  qed
  then show ?thesis using assms by fastforce
qed

lemma SendSnapshot_frame:
  "SendSnapshot f c = Some (Inr (b, c')) \<Longrightarrow> same_link c c'"
  using publish_latest_frame[of f c c'] by (auto simp: SendSnapshot_def map_sum_Inr same_link_def split: if_splits)

lemma conn_other_frame:
  "ch_buf (cn_out (conn_other a c)) = ch_buf (cn_out c) \<and> ch_cap (cn_out (conn_other a c)) = ch_cap (cn_out c)"
proof (cases a)
  case (Publish f)
  show ?thesis
  proof (cases "\<exists>b d. SendSnapshot f c = Some (Inr (b, d))")
    case True
    then obtain b d where d: "SendSnapshot f c = Some (Inr (b, d))" by blast
    from SendSnapshot_frame[OF d] show ?thesis by (simp add: conn_other_def Publish d same_link_def)
  next
    case False
    then have "conn_other a c = c" by (auto simp: conn_other_def Publish split: option.split sum.split)
    then show ?thesis by simp
  qed
next
  case Flush_close
  then show ?thesis by (auto simp: conn_other_def CloseAfterFlush_def closeQueue_def Let_def close_chan_def split: if_splits)
next
  case Other_branch
  then show ?thesis by (simp add: conn_other_def writer_step_def split: writer_pc.split prod.split received.split)
qed (simp_all add: conn_other_def Close_connection_def SetContext_def)

interpretation reliable: fifo conn_put conn_get conn_other "\<lambda>c. ch_buf (cn_out c)" "\<lambda>c. ch_cap (cn_out c)"
proof unfold_locales
  fix x c b c' assume "conn_put x c = (b, c')"
  then show "ch_buf (cn_out c') = (if b then ch_buf (cn_out c) @ [x] else ch_buf (cn_out c)) \<and>
      (b \<longrightarrow> length (ch_buf (cn_out c)) < ch_cap (cn_out c)) \<and> ch_cap (cn_out c') = ch_cap (cn_out c)"
    by (auto simp: conn_put_def Send_def try_send_def split: if_splits)
next
  fix c v c' assume "conn_get c = (v, c')"
  then show "ch_cap (cn_out c') = ch_cap (cn_out c) \<and>
      (case v of Some x \<Rightarrow> ch_buf (cn_out c) = x # ch_buf (cn_out c') | None \<Rightarrow> ch_buf (cn_out c') = ch_buf (cn_out c))"
    by (cases "ch_buf (cn_out c)")
      (auto simp: conn_get_def writer_step_def try_recv_def split: writer_pc.splits prod.splits received.splits if_splits list.splits)
next
  fix a c show "ch_buf (cn_out (conn_other a c)) = ch_buf (cn_out c) \<and> ch_cap (cn_out (conn_other a c)) = ch_cap (cn_out c)"
    by (rule conn_other_frame)
qed

fun reliable_frames :: "wire_frame list \<Rightarrow> byte list list" where
  "reliable_frames [] = []"
| "reliable_frames (Reliable f # w) = f # reliable_frames w"
| "reliable_frames (Latest f # w) = reliable_frames w"

lemma reliable_frames_append [simp]: "reliable_frames (v @ w) = reliable_frames v @ reliable_frames w"
  by (induction v rule: reliable_frames.induct) auto

text \<open>What each action adds to the wire: a taken frame if the socket lives, and nothing reliable otherwise.\<close>

lemma conn_put_wire: "cn_wire (snd (conn_put x c)) = cn_wire c \<and> cn_alive (snd (conn_put x c)) = cn_alive c"
  by (auto simp: conn_put_def Send_def try_send_def split: if_splits)

lemma conn_get_wire:
  "conn_get c = (v, c') \<Longrightarrow> cn_alive c' = cn_alive c \<and>
     reliable_frames (cn_wire c') = reliable_frames (cn_wire c) @ (case v of Some x \<Rightarrow> if cn_alive c then [x] else [] | None \<Rightarrow> [])"
  by (cases "ch_buf (cn_out c)")
    (auto simp: conn_get_def writer_step_def try_recv_def split: writer_pc.splits prod.splits received.splits if_splits list.splits)

lemma conn_other_wire:
  "reliable_frames (cn_wire (conn_other a c)) = reliable_frames (cn_wire c) \<and> (cn_alive (conn_other a c) \<longrightarrow> cn_alive c)"
proof (cases a)
  case (Publish f)
  show ?thesis
  proof (cases "\<exists>b d. SendSnapshot f c = Some (Inr (b, d))")
    case True
    then obtain b d where d: "SendSnapshot f c = Some (Inr (b, d))" by blast
    from SendSnapshot_frame[OF d] show ?thesis by (simp add: conn_other_def Publish d same_link_def)
  next
    case False
    then have "conn_other a c = c" by (auto simp: conn_other_def Publish split: option.split sum.split)
    then show ?thesis by simp
  qed
next
  case Flush_close
  then show ?thesis by (auto simp: conn_other_def CloseAfterFlush_def closeQueue_def Let_def close_chan_def split: if_splits)
next
  case Other_branch
  then show ?thesis by (simp add: conn_other_def writer_step_def split: writer_pc.split prod.split received.split)
qed (simp_all add: conn_other_def Close_connection_def SetContext_def)

lemma schedule_wire:
  "reliable.schedule c as = (ins, outs, d) \<Longrightarrow>
     \<exists>w. reliable_frames (cn_wire d) = reliable_frames (cn_wire c) @ w \<and> prefix w outs \<and> (cn_alive d \<longrightarrow> w = outs \<and> cn_alive c) \<and>
       (\<not> cn_alive c \<longrightarrow> w = [])"
proof (induction as arbitrary: c ins outs)
  case (Cons a as)
  show ?case
  proof (cases a)
    case (Put x)
    obtain b c1 ins1 where s: "conn_put x c = (b, c1)" "reliable.schedule c1 as = (ins1, outs, d)"
      using Cons.prems Put by (auto split: prod.splits)
    then show ?thesis using Cons.IH[OF s(2)] conn_put_wire[of x c] by simp
  next
    case Get
    obtain v c1 outs1 where s: "conn_get c = (v, c1)" "reliable.schedule c1 as = (ins, outs1, d)"
      "outs = (case v of None \<Rightarrow> outs1 | Some x \<Rightarrow> x # outs1)"
      using Cons.prems Get by (auto split: prod.splits)
    then show ?thesis using Cons.IH[OF s(2)] conn_get_wire[OF s(1)] by (cases v; cases "cn_alive c") auto
  next
    case (Other o')
    then have "reliable.schedule (conn_other o' c) as = (ins, outs, d)" using Cons.prems by simp
    from Cons.IH[OF this] show ?thesis using conn_other_wire[of o' c] by (cases "cn_alive (conn_other o' c)") auto
  qed
qed simp

section \<open>Flushing\<close>

definition writer_work :: "Connection \<Rightarrow> nat" where
  "writer_work c = (case cn_writer c of
     Polling \<Rightarrow> 2 * (length (ch_buf (cn_out c)) + length (ch_buf (cn_snapshot c))) + 3
   | Waiting_frame \<Rightarrow> 2 * (length (ch_buf (cn_out c)) + length (ch_buf (cn_snapshot c))) + 2
   | Emptying \<Rightarrow> length (ch_buf (cn_snapshot c)) + 1 | Writer_done \<Rightarrow> 0)"

definition flushing :: "Connection \<Rightarrow> bool" where
  "flushing c \<longleftrightarrow> conn_ok c \<and> cn_queueOnce c \<and> cn_alive c \<and>
     (cn_writer c \<in> {Emptying, Writer_done} \<longrightarrow> ch_buf (cn_out c) = []) \<and> (cn_writer c = Writer_done \<longrightarrow> ch_buf (cn_snapshot c) = [])"

lemma flushing_step:
  assumes "flushing c" and "cn_writer c \<noteq> Writer_done"
  shows "flushing (writer_select b c) \<and> writer_work (writer_select b c) < writer_work c \<and>
    reliable_frames (cn_wire (writer_select b c)) @ ch_buf (cn_out (writer_select b c)) =
      reliable_frames (cn_wire c) @ ch_buf (cn_out c)"
proof -
  define d where "d = (if branch_ready b c then b else other_branch b)"
  have ok: "conn_ok (writer_step d c)" using writer_step_ok assms(1) by (simp add: flushing_def)
  have cl: "ch_closed (cn_out c)" "\<not> ch_closed (cn_snapshot c)" "cn_alive c" "cn_queueOnce c"
    using assms(1) by (auto simp: flushing_def conn_ok_def)
  have sel: "writer_select b c = writer_step d c" by (simp add: writer_select_def d_def)
  show ?thesis
  proof (cases "cn_writer c")
    case Polling
    then show ?thesis using ok cl unfolding sel by (cases "ch_buf (cn_snapshot c)")
      (auto simp: flushing_def writer_step_def try_recv_def writer_work_def)
  next
    case Waiting_frame
    show ?thesis
    proof (cases d)
      case TakeOut
      then show ?thesis using ok cl Waiting_frame unfolding sel TakeOut by (cases "ch_buf (cn_out c)")
        (auto simp: flushing_def writer_step_def try_recv_def writer_work_def)
    next
      case TakeSnapshot
      then have "ch_buf (cn_snapshot c) \<noteq> []"
        using cl(1,2) by (cases b) (auto simp: d_def branch_ready_def try_recv_def split: list.splits if_splits)
      then show ?thesis using ok cl Waiting_frame unfolding sel TakeSnapshot by (cases "ch_buf (cn_snapshot c)")
        (auto simp: flushing_def writer_step_def try_recv_def writer_work_def)
    qed
  next
    case Emptying
    then show ?thesis using ok cl assms(1) unfolding sel by (cases "ch_buf (cn_snapshot c)")
      (auto simp: flushing_def writer_step_def try_recv_def writer_work_def)
  qed (use assms(2) in simp)
qed

lemma flush_ends:
  "flushing c \<Longrightarrow> writer_work c \<le> length bs \<Longrightarrow>
     cn_writer (fold writer_select bs c) = Writer_done \<and> ch_buf (cn_snapshot (fold writer_select bs c)) = [] \<and>
     reliable_frames (cn_wire (fold writer_select bs c)) = reliable_frames (cn_wire c) @ ch_buf (cn_out c)"
proof (induction bs arbitrary: c)
  case Nil
  then have "cn_writer c = Writer_done" by (cases "cn_writer c") (simp_all add: writer_work_def)
  then show ?case using Nil(1) by (simp add: flushing_def)
next
  case (Cons b bs)
  show ?case
  proof (cases "cn_writer c = Writer_done")
    case True
    then have "writer_select b c = c" "writer_work c = 0" by (simp_all add: writer_select_def writer_step_def writer_work_def)
    then show ?thesis using Cons.IH[OF Cons.prems(1)] by simp
  next
    case False
    note st = flushing_step[OF Cons.prems(1) False, of b]
    then have "writer_work (writer_select b c) \<le> length bs" using Cons.prems(2) by simp
    from Cons.IH[OF conjunct1[OF st] this] show ?thesis using st by simp
  qed
qed

section \<open>The server\<close>

text \<open>
  \<open>sv_all\<close> holds every connection ever accepted, \<open>sv_tracked\<close> the keys of \<open>Server.conns\<close>; the counters are
  shared by all connections of the server.  \<open>sv_disconnected\<close> lists the calls of the disconnect handler.
\<close>

record Server =
  sv_all :: "(nat, Connection) gomap"
  sv_tracked :: "nat list"
  sv_counters :: serverCounters
  sv_onDisconnect :: bool
  sv_disconnected :: "nat list"

record ServerStats =
  ActiveConnections :: int
  ReliableQueueDepth :: int
  ReliableQueueCapacity :: int
  SnapshotsPending :: int
  ReliableSendRejections :: u64
  SnapshotReplacements :: u64

definition NewServer :: Server where
  "NewServer = \<lparr>sv_all = [], sv_tracked = [], sv_counters = \<lparr>reliableRejected = 0, snapshotReplaced = 0\<rparr>,
     sv_onDisconnect = False, sv_disconnected = []\<rparr>"

definition OnDisconnect :: "bool \<Rightarrow> Server \<Rightarrow> Server" where
  "OnDisconnect handler s = s\<lparr>sv_onDisconnect := handler\<rparr>"

definition track :: "nat \<Rightarrow> Server \<Rightarrow> Server" where
  "track i s = s\<lparr>sv_tracked := List.insert i (sv_tracked s)\<rparr>"

definition untrack :: "nat \<Rightarrow> Server \<Rightarrow> Server" where
  "untrack i s = s\<lparr>sv_tracked := removeAll i (sv_tracked s)\<rparr>"

text \<open>An operation of one connection, with the counters of the server.\<close>

definition with_conn :: "nat \<Rightarrow> (Connection \<Rightarrow> 'r \<times> Connection) \<Rightarrow> Server \<Rightarrow> 'r option \<times> Server" where
  "with_conn i f s =
     (case map_of (sv_all s) i of None \<Rightarrow> (None, s)
      | Some c \<Rightarrow> (case f (c\<lparr>cn_counters := sv_counters s\<rparr>) of (r, c) \<Rightarrow>
          (Some r, s\<lparr>sv_all := AList.update i c (sv_all s), sv_counters := cn_counters c\<rparr>)))"

definition onClose :: "nat \<Rightarrow> Server \<Rightarrow> Server" where
  "onClose i s =
     (let s = untrack i s
      in if sv_onDisconnect s then s\<lparr>sv_disconnected := sv_disconnected s @ [i]\<rparr> else s)"

definition Close_server_conn :: "nat \<Rightarrow> Server \<Rightarrow> Server" where
  "Close_server_conn i s = (case with_conn i Close_connection s of (Some True, s) \<Rightarrow> onClose i s | (_, s) \<Rightarrow> s)"

definition accept_conn :: "Server \<Rightarrow> Server" where
  "accept_conn s =
     (let i = length (sv_all s)
      in track i (s\<lparr>sv_all := AList.update i (newConnection (sv_counters s)) (sv_all s)\<rparr>))"

text \<open>What \<open>Accept\<close> returns, and whether the context is done when it does.\<close>

datatype accept_result = Accepted | Accept_timeout | Accept_failed io_error

fun Serve :: "(accept_result \<times> bool) list \<Rightarrow> Server \<Rightarrow> io_error option option \<times> Server" where
  "Serve [] s = (None, s)"
| "Serve ((Accepted, _) # as) s = Serve as (accept_conn s)"
| "Serve ((_, True) # as) s = (Some None, s)"
| "Serve ((Accept_timeout, False) # as) s = Serve as s"
| "Serve ((Accept_failed e, False) # as) s = (Some (Some e), s)"

definition sum_over :: "(Connection \<Rightarrow> nat) \<Rightarrow> Server \<Rightarrow> int" where
  "sum_over f s = int (\<Sum>i\<leftarrow>sv_tracked s. case map_of (sv_all s) i of None \<Rightarrow> 0 | Some c \<Rightarrow> f c)"

definition Server_Stats :: "Server \<Rightarrow> ServerStats" where
  "Server_Stats s = \<lparr>ActiveConnections = int (length (sv_tracked s)),
     ReliableQueueDepth = sum_over (\<lambda>c. length (ch_buf (cn_out c))) s,
     ReliableQueueCapacity = sum_over (\<lambda>c. ch_cap (cn_out c)) s,
     SnapshotsPending = sum_over (\<lambda>c. length (ch_buf (cn_snapshot c))) s,
     ReliableSendRejections = reliableRejected (sv_counters s), SnapshotReplacements = snapshotReplaced (sv_counters s)\<rparr>"

definition ActiveConns :: "Server \<Rightarrow> int" where
  "ActiveConns s = int (length (sv_tracked s))"

definition CloseConnections :: "Server \<Rightarrow> Server" where
  "CloseConnections s = fold Close_server_conn (sv_tracked s) s"

section \<open>Runs of a server\<close>

text \<open>What the goroutines of one connection and its users may do to it, apart from closing it.\<close>

inductive conn_move :: "Connection \<Rightarrow> Connection \<Rightarrow> bool" where
  send: "Send f c = Inr (b, c') \<Longrightarrow> conn_move c c'"
| snapshot: "SendSnapshot f c = Some (Inr (b, c')) \<Longrightarrow> conn_move c c'"
| flush: "CloseAfterFlush c = Inr c' \<Longrightarrow> conn_move c c'"
| remember: "conn_move c (SetContext v c)"
| writer: "conn_move c (writer_step b c)"
| broken: "conn_move c (c\<lparr>cn_alive := False\<rparr>)"

inductive server_step :: "Server \<Rightarrow> Server \<Rightarrow> bool" where
  accept: "server_step s (accept_conn s)"
| move: "conn_move (c\<lparr>cn_counters := sv_counters s\<rparr>) c' \<Longrightarrow> map_of (sv_all s) i = Some c \<Longrightarrow>
    server_step s (s\<lparr>sv_all := AList.update i c' (sv_all s), sv_counters := cn_counters c'\<rparr>)"
| close: "server_step s (Close_server_conn i s)"
| handler: "server_step s (OnDisconnect h s)"

inductive server_reachable :: "Server \<Rightarrow> bool" where
  new: "server_reachable NewServer"
| step: "server_reachable s \<Longrightarrow> server_step s s' \<Longrightarrow> server_reachable s'"

text \<open>A connection is tracked exactly until its first \<open>Close\<close>, and the disconnect handler is called for it at most once.\<close>

definition server_inv :: "Server \<Rightarrow> bool" where
  "server_inv s \<longleftrightarrow> keys (sv_all s) = [0..<length (sv_all s)] \<and> distinct (sv_tracked s) \<and> distinct (sv_disconnected s) \<and>
     (\<forall>i c. map_of (sv_all s) i = Some c \<longrightarrow> conn_ok c \<and> (i \<in> set (sv_tracked s) \<longleftrightarrow> \<not> cn_closeOnce c) \<and>
        (i \<in> set (sv_disconnected s) \<longrightarrow> cn_closeOnce c)) \<and>
     set (sv_tracked s) \<union> set (sv_disconnected s) \<subseteq> dom (map_of (sv_all s))"

lemma conn_move_ok:
  assumes "conn_move c c'" and "conn_ok c"
  shows "conn_ok c' \<and> cn_closeOnce c' = cn_closeOnce c"
  using assms(1)
proof cases
  case (send f b)
  then show ?thesis using Send_ok[OF assms(2), of f] by (auto simp: Send_def recordReliableRejection_def bind_sum_Inr split: if_splits)
next
  case (snapshot f b)
  have "cn_closeOnce c' = cn_closeOnce c"
  proof (cases "cn_dead c")
    case False
    then show ?thesis using snapshot publish_latest_ok[OF assms(2), of f] by (auto simp: SendSnapshot_def)
  qed (use snapshot in \<open>simp add: SendSnapshot_def\<close>)
  then show ?thesis using snapshot SendSnapshot_ok[OF assms(2), of f] by auto
next
  case flush
  then show ?thesis using closeQueue_ok[OF assms(2)] by (auto simp: CloseAfterFlush_def closeQueue_def Let_def bind_sum_Inr split: if_splits)
next
  case (remember v)
  then show ?thesis using assms(2) by (simp add: SetContext_def conn_ok_def)
next
  case (writer b)
  have "cn_closeOnce (write_then pc f d) = cn_closeOnce d" for pc f d by (simp add: write_then_def writeFrame_def)
  then have "cn_closeOnce (writer_step b c) = cn_closeOnce c"
    by (simp add: writer_step_def split: writer_pc.split branch.split prod.split received.split)
  then show ?thesis using writer_step_ok[OF assms(2)] writer by simp
next
  case broken
  then show ?thesis using assms(2) by (simp add: conn_ok_def)
qed

lemma conn_ok_counters [simp]: "conn_ok (c\<lparr>cn_counters := k\<rparr>) = conn_ok c"
  by (simp add: conn_ok_def)

lemma server_inv_update:
  assumes "server_inv s" and "map_of (sv_all s) i = Some c" and "conn_ok c'" and "cn_closeOnce c' = cn_closeOnce c"
  shows "server_inv (s\<lparr>sv_all := AList.update i c' (sv_all s), sv_counters := k\<rparr>)"
proof -
  have k: "keys (AList.update i c' (sv_all s)) = keys (sv_all s)" using assms(2) by (auto simp: keys_update set_keys)
  then have "length (AList.update i c' (sv_all s)) = length (sv_all s)" by (metis length_keys)
  then show ?thesis using assms k by (auto simp: server_inv_def update_conv' subset_iff)
qed

lemma Close_server_conn_cases:
  assumes "server_inv s"
  shows "(Close_server_conn i s = s \<and> i \<notin> set (sv_tracked s)) \<or>
    (\<exists>c. map_of (sv_all s) i = Some c \<and> cn_closeOnce c \<and> Close_server_conn i s = s\<lparr>sv_all := AList.update i (c\<lparr>cn_counters := sv_counters s\<rparr>) (sv_all s)\<rparr>) \<or>
    (\<exists>c. map_of (sv_all s) i = Some c \<and> \<not> cn_closeOnce c \<and> Close_server_conn i s = s\<lparr>sv_all := AList.update i
       (c\<lparr>cn_counters := sv_counters s, cn_closeOnce := True, cn_dead := True, cn_alive := False\<rparr>) (sv_all s),
       sv_tracked := removeAll i (sv_tracked s),
       sv_disconnected := (if sv_onDisconnect s then sv_disconnected s @ [i] else sv_disconnected s)\<rparr>)"
proof (cases "map_of (sv_all s) i")
  case None
  then have "i \<notin> set (sv_tracked s)" using assms by (auto simp: server_inv_def)
  then show ?thesis using None by (simp add: Close_server_conn_def with_conn_def)
next
  case (Some c)
  then show ?thesis by (cases "cn_closeOnce c")
    (simp_all add: Close_server_conn_def with_conn_def Close_connection_def onClose_def untrack_def)
qed

lemma Close_server_conn_inv:
  assumes "server_inv s"
  shows "server_inv (Close_server_conn i s) \<and> set (sv_tracked (Close_server_conn i s)) = set (sv_tracked s) - {i}"
  using Close_server_conn_cases[OF assms, of i]
proof (elim disjE exE conjE)
  fix c :: Connection assume c: "map_of (sv_all s) i = Some c" "cn_closeOnce c"
    "Close_server_conn i s = s\<lparr>sv_all := AList.update i (c\<lparr>cn_counters := sv_counters s\<rparr>) (sv_all s)\<rparr>"
  have ok: "conn_ok c" "i \<notin> set (sv_tracked s)" using assms c(1,2) by (auto simp: server_inv_def)
  have "server_inv (s\<lparr>sv_all := AList.update i (c\<lparr>cn_counters := sv_counters s\<rparr>) (sv_all s), sv_counters := sv_counters s\<rparr>)"
    by (rule server_inv_update[OF assms c(1)]) (simp_all add: ok)
  then show ?thesis using c(3) ok by simp
next
  fix c :: Connection let ?c = "c\<lparr>cn_counters := sv_counters s, cn_closeOnce := True, cn_dead := True, cn_alive := False\<rparr>"
  assume c: "map_of (sv_all s) i = Some c" "\<not> cn_closeOnce c"
    "Close_server_conn i s = s\<lparr>sv_all := AList.update i ?c (sv_all s), sv_tracked := removeAll i (sv_tracked s),
       sv_disconnected := (if sv_onDisconnect s then sv_disconnected s @ [i] else sv_disconnected s)\<rparr>"
  have k: "keys (AList.update i ?c (sv_all s)) = keys (sv_all s)" using c(1) by (auto simp: keys_update set_keys)
  then have len: "length (AList.update i ?c (sv_all s)) = length (sv_all s)" by (metis length_keys)
  have ok: "conn_ok ?c" "i \<notin> set (sv_disconnected s)" using assms c(1,2) by (auto simp: server_inv_def conn_ok_def)
  have "server_inv (Close_server_conn i s)"
    using assms ok c(1) k len unfolding server_inv_def c(3) by (auto simp: update_conv' subset_iff distinct_removeAll)
  then show ?thesis by (simp add: c(3))
qed (use assms in simp)

lemma accept_conn_inv:
  assumes "server_inv s"
  shows "server_inv (accept_conn s)"
proof -
  let ?n = "length (sv_all s)"
  have k: "keys (sv_all s) = [0..<?n]" using assms by (simp add: server_inv_def)
  then have new: "?n \<notin> set (keys (sv_all s))" by simp
  then have n: "map_of (sv_all s) ?n = None" "?n \<notin> set (sv_tracked s)" "?n \<notin> set (sv_disconnected s)"
    using assms by (auto simp: set_keys server_inv_def domIff)
  have u: "keys (AList.update ?n c (sv_all s)) = [0..<Suc ?n]" for c :: Connection using new k by (simp add: keys_update)
  then have "length (AList.update ?n c (sv_all s)) = Suc ?n" for c :: Connection by (metis length_keys length_upt diff_zero)
  then show ?thesis using assms n u newConnection_ok[of "sv_counters s"]
    by (auto simp: accept_conn_def Let_def track_def server_inv_def update_conv' newConnection_def subset_iff)
qed

lemma tracked_iff:
  assumes "server_inv s"
  shows "i \<in> set (sv_tracked s) \<longleftrightarrow> (\<exists>c. map_of (sv_all s) i = Some c \<and> \<not> cn_closeOnce c)"
  using assms by (auto simp: server_inv_def)

lemma Close_disconnects:
  assumes "server_inv s"
  shows "sv_disconnected (Close_server_conn i s) =
    (if i \<in> set (sv_tracked s) \<and> sv_onDisconnect s then sv_disconnected s @ [i] else sv_disconnected s)"
  using Close_server_conn_cases[OF assms, of i] tracked_iff[OF assms, of i] by auto

lemma accept_active:
  assumes "server_inv s"
  shows "ActiveConns (accept_conn s) = ActiveConns s + 1"
proof -
  have "length (sv_all s) \<notin> set (sv_tracked s)"
  proof
    assume "length (sv_all s) \<in> set (sv_tracked s)"
    then have "length (sv_all s) \<in> dom (map_of (sv_all s))" using assms unfolding server_inv_def by blast
    then have "length (sv_all s) \<in> set (keys (sv_all s))" by (simp add: set_keys)
    then show False using assms by (simp add: server_inv_def)
  qed
  then show ?thesis by (simp add: ActiveConns_def accept_conn_def track_def Let_def)
qed
lemma server_reachable_inv: "server_reachable s \<Longrightarrow> server_inv s"
proof (induction rule: server_reachable.induct)
  case new
  show ?case by (simp add: NewServer_def server_inv_def)
next
  case (step s s')
  from step(2) show ?case
  proof cases
    case accept
    then show ?thesis using accept_conn_inv[OF step(3)] by simp
  next
    case (move c c' i)
    have "conn_ok c" using step(3) move(3) by (simp add: server_inv_def)
    then show ?thesis using conn_move_ok[OF move(2)] server_inv_update[OF step(3) move(3)] move(1) by simp
  next
    case (close i)
    then show ?thesis using Close_server_conn_inv[OF step(3)] by simp
  next
    case (handler h)
    then show ?thesis using step(3) by (simp add: OnDisconnect_def server_inv_def)
  qed
qed

lemma CloseConnections_inv:
  assumes "server_inv s"
  shows "server_inv (CloseConnections s) \<and> sv_tracked (CloseConnections s) = []"
proof -
  have "server_inv (fold Close_server_conn is s) \<and> set (sv_tracked (fold Close_server_conn is s)) = set (sv_tracked s) - set is"
    if "server_inv s" for "is" s
    using that
  proof (induction "is" arbitrary: s)
    case (Cons i "is")
    then show ?case using Cons.IH[of "Close_server_conn i s"] Close_server_conn_inv[OF Cons.prems, of i] by auto
  qed simp
  from this[OF assms, of "sv_tracked s"] show ?thesis by (simp add: CloseConnections_def)
qed

section \<open>Reading what was written\<close>

text \<open>The handler applied to a list of messages until it rejects one.\<close>

fun handle_all :: "('s, 'e) handler \<Rightarrow> 's \<Rightarrow> (Header \<times> byte list) list \<Rightarrow> 's" where
  "handle_all handle s [] = s"
| "handle_all handle s ((h, body) # ms) = (case handle s h body of (Some _, s') \<Rightarrow> s' | (None, s') \<Rightarrow> handle_all handle s' ms)"

definition sendable :: "Header \<times> byte list \<Rightarrow> bool" where
  "sendable m \<longleftrightarrow> h_Magic (fst m) = Magic \<and> h_Version (fst m) = VersionV1 \<and> h_MessageType (fst m) \<noteq> 0 \<and>
     h_BodyLength (fst m) = of_nat (length (snd m)) \<and> length (snd m) \<le> 64 * 1024"

lemma EncodeFrame_sendable:
  assumes "sendable m"
  shows "EncodeFrame (fst m) (snd m) = Inr (frame_bytes (fst m) (snd m))"
proof -
  have eq: "(fst m)\<lparr>h_BodyLength := of_nat (length (snd m))\<rparr> = fst m" using assms by (simp add: sendable_def)
  have "EncodeFrame (fst m) (snd m) = Inr (frame_bytes ((fst m)\<lparr>h_BodyLength := of_nat (length (snd m))\<rparr>) (snd m))"
    using assms by (simp add: EncodeFrame_def WriteFrame_def bytesBuffer_Write_def MaxBodyLen_def Let_def sendable_def)
  then show ?thesis unfolding eq .
qed

lemma ReadFrame_sendable:
  assumes "sendable m" and "concat (st_chunks r) = frame_bytes (fst m) (snd m) @ rest"
  shows "\<exists>r'. ReadFrame r = Inr (fst m, snd m, r') \<and> concat (st_chunks r') = rest"
proof -
  have n: "unat (h_BodyLength (fst m)) = length (snd m)" using assms(1)
    by (simp add: sendable_def unat_of_nat take_bit_nat_eq_self)
  then have le: "\<not> MaxBodyLen < h_BodyLength (fst m)" using assms(1) by (simp add: word_less_nat_alt MaxBodyLen_def sendable_def)
  have "frame_result (ReadFrame r) = Inr (fst m, snd m, rest)"
    unfolding ReadFrame_bytes assms(2) Let_def parse_frame_bytes drop_frame_bytes n using assms(1) le
    by (simp add: HeaderLen_def sendable_def)
  then show ?thesis by (cases "ReadFrame r") auto
qed

lemma readLoop_handle_all:
  "list_all sendable ms \<Longrightarrow> concat (st_chunks r) = concat (map (\<lambda>m. frame_bytes (fst m) (snd m)) ms) \<Longrightarrow>
     readLoop handle s r = handle_all handle s ms"
proof (induction ms arbitrary: s r)
  case Nil
  have e: "concat (st_chunks r) = []" using Nil(2) by simp
  have "frame_result (ReadFrame r) \<noteq> Inr x" for x unfolding ReadFrame_bytes e by (simp add: Let_def HeaderLen_def)
  then have "\<exists>e. ReadFrame r = Inl e" by (metis frame_result.simps(2) prod_cases3 sum.exhaust)
  then show ?case by (auto simp: readLoop.simps[of handle s r])
next
  case (Cons m ms)
  obtain h body where m: "m = (h, body)" by (cases m)
  obtain r' where r': "ReadFrame r = Inr (h, body, r')" "concat (st_chunks r') = concat (map (\<lambda>m. frame_bytes (fst m) (snd m)) ms)"
    using ReadFrame_sendable[of m r] Cons.prems m by auto
  then show ?case using Cons.IH[OF _ r'(2)] Cons.prems m
    by (auto simp: readLoop.simps[of handle s r] split: prod.split option.split)
qed

section \<open>Properties\<close>

text \<open>C22: Reliable frames are never lost, duplicated or reordered: under every interleaving of sends, snapshots,
  closes, socket failures and writer steps, the frames a new connection accepted are those its writer
  took followed by those still queued (at most 256), the taken ones reach the socket in this order as a
  prefix, and all of them do while the socket lives.\<close>

theorem reliable_delivery:
  assumes "reliable.schedule (newConnection k) as = (accepted, taken, c)"
  shows "accepted = taken @ ch_buf (cn_out c) \<and> length (ch_buf (cn_out c)) \<le> 256 \<and>
    prefix (reliable_frames (cn_wire c)) taken \<and> (cn_alive c \<longrightarrow> reliable_frames (cn_wire c) = taken)"
  using reliable.schedule_fifo[OF assms] schedule_wire[OF assms] by (auto simp: newConnection_def)

theorem reliable_delivery_witness:
  "\<exists>accepted taken c. reliable.schedule (newConnection \<lparr>reliableRejected = 0, snapshotReplaced = 0\<rparr>)
     [Put [1], Other Break_socket, Put [2], Get, Get] = (accepted, taken, c) \<and>
     accepted = [[1], [2]] \<and> taken @ ch_buf (cn_out c) = accepted \<and> prefix (reliable_frames (cn_wire c)) taken"
proof -
  let ?as = "[Put [1], Other Break_socket, Put [2], Get, Get] :: (byte list, conn_act) act list"
  let ?c = "newConnection \<lparr>reliableRejected = 0, snapshotReplaced = 0\<rparr>"
  obtain ins outs d where s: "reliable.schedule ?c ?as = (ins, outs, d)" by (metis prod_cases3)
  then have "ins = [[1], [2]]"
    by (simp add: conn_put_def conn_get_def conn_other_def Send_def try_send_def newConnection_def make_chan_def split: prod.splits)
  then show ?thesis using reliable_delivery[OF s] s by auto
qed

definition sample_link :: Connection where
  "sample_link = (newConnection \<lparr>reliableRejected = 0, snapshotReplaced = 0\<rparr>)\<lparr>cn_out := (make_chan 256)\<lparr>ch_buf := [[1], [2]]\<rparr>,
     cn_snapshot := (make_chan 1)\<lparr>ch_buf := [[9]]\<rparr>, cn_writer := Waiting_frame\<rparr>"

text \<open>C23: A graceful close flushes: after CloseAfterFlush on a healthy connection whose writer still runs, whichever ready branch
  the writer's select takes each time, the writer returns after at most two steps for every queued frame
  and pending snapshot and three more; then every queued reliable frame is on the socket in order, no
  snapshot is left in the slot, and nothing more was accepted.  Both calls succeed without a panic, also when repeated.\<close>

theorem graceful_close:
  assumes "conn_ok c" and "cn_alive c" and "cn_writer c \<in> {Polling, Waiting_frame}"
  shows "\<exists>c1 c2. CloseAfterFlush c = Inr c1 \<and> CloseAfterFlush c1 = Inr c2 \<and> (\<forall>f. \<exists>c3. Send f c1 = Inr (False, c3)) \<and>
    (\<forall>choices. 2 * (length (ch_buf (cn_out c)) + length (ch_buf (cn_snapshot c))) + 3 \<le> length choices \<longrightarrow>
       cn_writer (fold writer_select choices c1) = Writer_done \<and> ch_buf (cn_snapshot (fold writer_select choices c1)) = [] \<and>
       reliable_frames (cn_wire (fold writer_select choices c1)) = reliable_frames (cn_wire c) @ ch_buf (cn_out c))"
proof -
  obtain c1 where c1: "CloseAfterFlush c = Inr c1" "conn_ok c1" "cn_wire c1 = cn_wire c" "cn_alive c1 = cn_alive c" "cn_dead c1"
    "cn_queueOnce c1" "ch_buf (cn_out c1) = ch_buf (cn_out c)" "cn_snapshot c1 = cn_snapshot c" "cn_writer c1 = cn_writer c"
    using closeQueue_ok[OF assms(1)] by (auto simp: CloseAfterFlush_def)
  obtain c2 where "CloseAfterFlush c1 = Inr c2" using closeQueue_ok[OF c1(2)] by (auto simp: CloseAfterFlush_def)
  moreover have fl: "flushing c1" using c1 assms(2,3) by (auto simp: flushing_def)
  moreover have "writer_work c1 \<le> 2 * (length (ch_buf (cn_out c)) + length (ch_buf (cn_snapshot c))) + 3"
    using assms(3) c1(7-9) by (auto simp: writer_work_def)
  ultimately show ?thesis using c1 flush_ends[OF fl] by (auto simp: Send_def)
qed

theorem graceful_close_witness:
  "\<exists>c1. CloseAfterFlush sample_link = Inr c1 \<and>
     reliable_frames (cn_wire (fold writer_select (replicate 9 TakeSnapshot) c1)) = [[1], [2]] \<and>
     reliable_frames (cn_wire (fold writer_select (replicate 9 TakeOut) c1)) = [[1], [2]]"
proof -
  have c: "conn_ok sample_link" "cn_alive sample_link" "cn_writer sample_link \<in> {Polling, Waiting_frame}"
    by (simp_all add: sample_link_def newConnection_def conn_ok_def chan_ok_def)
  have b: "ch_buf (cn_out sample_link) = [[1], [2]]" "ch_buf (cn_snapshot sample_link) = [[9]]" "cn_wire sample_link = []"
    by (simp_all add: sample_link_def newConnection_def)
  obtain c1 where "CloseAfterFlush sample_link = Inr c1"
    "\<And>choices. 9 \<le> length choices \<Longrightarrow> reliable_frames (cn_wire (fold writer_select choices c1)) = [[1], [2]]"
    using graceful_close[OF c] unfolding b by auto
  then show ?thesis by (metis length_replicate order_refl)
qed

text \<open>C24: The latest snapshot wins: publishing on a live connection always ends, never panics, and leaves exactly
  the new snapshot pending whatever was there; the replaced one is counted; the reliable queue and the
  socket are untouched, and on a dead connection nothing changes.\<close>

theorem latest_snapshot_wins:
  assumes "conn_ok c"
  shows "\<exists>c'. SendSnapshot f c = Some (Inr (\<not> cn_dead c, c')) \<and> conn_ok c' \<and> cn_out c' = cn_out c \<and> cn_wire c' = cn_wire c \<and>
    (if cn_dead c then c' = c
     else ch_buf (cn_snapshot c') = [f] \<and> snapshotReplaced (cn_counters c') =
       snapshotReplaced (cn_counters c) + (if ch_buf (cn_snapshot c) = [] then 0 else 1))"
proof (cases "cn_dead c")
  case True
  then show ?thesis using assms by (simp add: SendSnapshot_def)
next
  case False
  obtain k where k: "publish_latest f c = Some (Inr (c\<lparr>cn_snapshot := (cn_snapshot c)\<lparr>ch_buf := [f]\<rparr>, cn_counters := k\<rparr>))"
    "snapshotReplaced k = snapshotReplaced (cn_counters c) + (if ch_buf (cn_snapshot c) = [] then 0 else 1)"
    using publish_latest_ok[OF assms] by blast
  then show ?thesis using False assms by (simp add: SendSnapshot_def conn_ok_def chan_ok_def)
qed

theorem latest_snapshot_wins_witness:
  "\<exists>c'. SendSnapshot [1] (newConnection \<lparr>reliableRejected = 0, snapshotReplaced = 0\<rparr>) = Some (Inr (True, c')) \<and>
     ch_buf (cn_snapshot c') = [[1]]"
  using latest_snapshot_wins[OF newConnection_ok, of "[1]" "\<lparr>reliableRejected = 0, snapshotReplaced = 0\<rparr>"]
  by (auto simp: newConnection_def)

text \<open>C25: Reading is the inverse of writing for whole conversations: the read loop on any chunks of the bytes
  of a sequence of encoded messages behaves exactly as the handler applied to the messages one after
  the other, and returns.\<close>

theorem readLoop_equiv:
  assumes "list_all sendable ms" and "list_all2 (\<lambda>m bs. EncodeFrame (fst m) (snd m) = Inr bs) ms bss"
    and "concat (st_chunks r) = concat bss"
  shows "readLoop handle s r = handle_all handle s ms"
proof -
  have "bss = map (\<lambda>m. frame_bytes (fst m) (snd m)) ms"
    using assms(2,1) by (induction rule: list_all2_induct) (simp_all add: EncodeFrame_sendable)
  then show ?thesis using readLoop_handle_all[OF assms(1)] assms(3) by simp
qed

theorem readLoop_equiv_witness:
  "\<exists>bs. readLoop (\<lambda>n h body. (None :: unit option, n + length body)) 0 \<lparr>st_chunks = [take 3 bs, drop 3 bs], st_end = EOF\<rparr> = (3 :: nat)"
proof -
  let ?m = "(sample_header\<lparr>h_BodyLength := 3\<rparr>, [1, 2, 3]) :: Header \<times> byte list"
  have m: "list_all sendable [?m]" by (simp add: sendable_def sample_header_def MSG_PING_def)
  have e: "list_all2 (\<lambda>m bs. EncodeFrame (fst m) (snd m) = Inr bs) [?m] [frame_bytes (fst ?m) (snd ?m)]"
    using m EncodeFrame_sendable[of ?m] by simp
  have "readLoop (\<lambda>n h body. (None :: unit option, n + length body)) 0
     \<lparr>st_chunks = [take 3 (frame_bytes (fst ?m) (snd ?m)), drop 3 (frame_bytes (fst ?m) (snd ?m))], st_end = EOF\<rparr> =
     handle_all (\<lambda>n h body. (None :: unit option, n + length body)) 0 [?m]"
    by (rule readLoop_equiv[OF m e]) simp
  then show ?thesis by (intro exI[of _ "frame_bytes (fst ?m) (snd ?m)"]) simp
qed

text \<open>C26: In every run of the server each connection is closed once and the tracked set is exact: it holds, each once, the accepted
  connections that have not been closed; accepting adds one.  The disconnect handler has run at most once per
  connection and only after its close; closing a tracked connection runs it and a second close does not.  The
  statistics are within their capacities, and closing all connections leaves none behind.\<close>

theorem server_closes_once:
  assumes "server_reachable s"
  shows "distinct (sv_tracked s) \<and> set (sv_tracked s) = {i. \<exists>c. map_of (sv_all s) i = Some c \<and> \<not> cn_closeOnce c} \<and>
    ActiveConns s = int (card {i. \<exists>c. map_of (sv_all s) i = Some c \<and> \<not> cn_closeOnce c}) \<and>
    ActiveConns (accept_conn s) = ActiveConns s + 1 \<and>
    distinct (sv_disconnected s) \<and> set (sv_disconnected s) \<subseteq> {i. \<exists>c. map_of (sv_all s) i = Some c \<and> cn_closeOnce c} \<and>
    (\<forall>i. sv_disconnected (Close_server_conn i s) =
       (if i \<in> set (sv_tracked s) \<and> sv_onDisconnect s then sv_disconnected s @ [i] else sv_disconnected s)) \<and>
    ActiveConnections (Server_Stats s) = ActiveConns s \<and>
    ReliableQueueDepth (Server_Stats s) \<le> ReliableQueueCapacity (Server_Stats s) \<and>
    ReliableQueueCapacity (Server_Stats s) = 256 * ActiveConns s \<and> SnapshotsPending (Server_Stats s) \<le> ActiveConns s \<and>
    ActiveConns (CloseConnections s) = 0 \<and> distinct (sv_disconnected (CloseConnections s))"
proof -
  have i: "server_inv s" using server_reachable_inv[OF assms] .
  have c: "\<exists>c. map_of (sv_all s) i = Some c \<and> conn_ok c" if "i \<in> set (sv_tracked s)" for i
  proof -
    obtain c where "map_of (sv_all s) i = Some c" using i \<open>i \<in> set (sv_tracked s)\<close> by (auto simp: server_inv_def)
    then show ?thesis using i by (auto simp: server_inv_def)
  qed
  have cap: "sum_over (\<lambda>c. ch_cap (cn_out c)) s = 256 * int (length (sv_tracked s))"
  proof -
    have e: "map (\<lambda>i. case map_of (sv_all s) i of None \<Rightarrow> 0 | Some c \<Rightarrow> ch_cap (cn_out c)) (sv_tracked s) = map (\<lambda>_. 256) (sv_tracked s)"
      using c by (force simp: conn_ok_def intro!: map_cong)
    show ?thesis unfolding sum_over_def e by (simp add: sum_list_triv)
  qed
  have dep: "sum_over (\<lambda>c. length (ch_buf (cn_out c))) s \<le> sum_over (\<lambda>c. ch_cap (cn_out c)) s"
    unfolding sum_over_def using c by (force simp: conn_ok_def chan_ok_def intro!: sum_list_mono)
  have snp: "sum_over (\<lambda>c. length (ch_buf (cn_snapshot c))) s \<le> int (length (sv_tracked s))"
  proof -
    have "(\<Sum>i\<leftarrow>sv_tracked s. case map_of (sv_all s) i of None \<Rightarrow> 0 | Some c \<Rightarrow> length (ch_buf (cn_snapshot c))) \<le> (\<Sum>i\<leftarrow>sv_tracked s. 1)"
      using c by (force simp: conn_ok_def chan_ok_def intro!: sum_list_mono)
    then show ?thesis by (simp add: sum_over_def sum_list_triv)
  qed
  have t: "set (sv_tracked s) = {i. \<exists>c. map_of (sv_all s) i = Some c \<and> \<not> cn_closeOnce c}" using tracked_iff[OF i] by blast
  have "distinct (sv_tracked s)" using i by (simp add: server_inv_def)
  then have "ActiveConns s = int (card {i. \<exists>c. map_of (sv_all s) i = Some c \<and> \<not> cn_closeOnce c})"
    unfolding t[symmetric] ActiveConns_def by (simp add: distinct_card)
  moreover have "set (sv_disconnected s) \<subseteq> {i. \<exists>c. map_of (sv_all s) i = Some c \<and> cn_closeOnce c}"
    using i unfolding server_inv_def by blast
  moreover have "server_inv (CloseConnections s) \<and> sv_tracked (CloseConnections s) = []" by (rule CloseConnections_inv[OF i])
  moreover note \<open>distinct (sv_tracked s)\<close> t cap dep snp accept_active[OF i] Close_disconnects[OF i]
  ultimately show ?thesis using i by (simp add: Server_Stats_def ActiveConns_def server_inv_def)
qed

theorem server_closes_once_witness:
  "ActiveConns (accept_conn (accept_conn NewServer)) = 2 \<and> ActiveConns (CloseConnections (accept_conn (accept_conn NewServer))) = 0"
proof -
  have r: "server_reachable (accept_conn NewServer)" "server_reachable (accept_conn (accept_conn NewServer))"
    by (intro server_reachable.step[OF server_reachable.step[OF server_reachable.new server_step.accept] server_step.accept]
        server_reachable.step[OF server_reachable.new server_step.accept])+
  have "ActiveConns NewServer = 0" by (simp add: ActiveConns_def NewServer_def)
  then show ?thesis using server_closes_once[OF server_reachable.new] server_closes_once[OF r(1)] server_closes_once[OF r(2)] by simp
qed

end
