(* ===== verification/Wire.thy ===== *)
theory Wire
  imports Simulation Protocol Frame
begin

text \<open>
  The messages of the protocol and the conversions between them and the game (package \<open>convert\<close>).
  A message is a record with the fields of its \<open>.proto\<close> definition; a field that holds a message is an
  option where the code tests it for nil.  Coordinates and combat values travel as \<open>float32\<close>: going out
  they are rounded (\<open>float32\<close>), coming in they are exact.  The encoding of a message into bytes belongs
  to the protobuf library; it is the parameter \<open>codec\<close> of the definitions that use it.
\<close>

section \<open>Single precision\<close>

text \<open>The conversion \<open>float32(x)\<close>; its values are \<open>float64\<close> values again.\<close>

fun float32 :: "f64 \<Rightarrow> f64" where
  "float32 (Fin x) = (let v = round_to Binary32 x
     in if v \<noteq> 0 \<and> int (overflow_exp Binary32) \<le> ilog2 \<bar>v\<bar> then Inf (v < 0) else Fin v)"
| "float32 y = y"

definition is_f32 :: "f64 \<Rightarrow> bool" where
  "is_f32 x \<longleftrightarrow> float32 x = x"

definition f32_vec :: "Vec2 \<Rightarrow> bool" where
  "f32_vec v \<longleftrightarrow> is_f32 (X v) \<and> is_f32 (Y v)"

lemma round_32_64: "rnd (round_to Binary32 x) = round_to Binary32 x"
proof -
  obtain m e where r: "round_to Binary32 x = of_int m * 2 powi e" "\<bar>m\<bar> \<le> 2 ^ 24" "- 149 \<le> e"
    using round_form[of Binary32 x] by auto
  have "rnd (of_int m * 2 powi e) = of_int m * 2 powi e" using r(2,3) by (intro rnd_grid_le) auto
  then show ?thesis using r(1) by simp
qed

text \<open>Widening loses nothing: every \<open>float32\<close> value is a \<open>float64\<close> value.\<close>

lemma overflow_32: "v \<noteq> 0 \<and> 128 \<le> ilog2 \<bar>v\<bar> \<longleftrightarrow> (2 ^ 128 :: rat) \<le> \<bar>v\<bar>"
  using ilog2_ge[of "\<bar>v\<bar>" 128] by (auto simp: power_int_def)

lemma float32_Fin: "float32 (Fin x) = (let v = round_to Binary32 x in if 2 ^ 128 \<le> \<bar>v\<bar> then Inf (v < 0) else Fin v)"
  using overflow_32[of "round_to Binary32 x"] by (simp add: Let_def)

lemma float32_idem [simp]: "float32 (float32 x) = float32 x"
  by (cases x) (auto simp: float32_Fin Let_def simp del: float32.simps(1))

lemma is_f32_float32 [simp]: "is_f32 (float32 x)"
  by (simp add: is_f32_def)

lemma f32_is_f64: "is_f32 x \<Longrightarrow> is_f64 x"
proof (cases x)
  case (Fin v)
  assume "is_f32 x"
  then have v: "round_to Binary32 v = v" "\<bar>v\<bar> < 2 ^ 128"
    using Fin by (auto simp: is_f32_def float32_Fin Let_def not_le simp del: float32.simps(1) split: if_splits)
  then have "\<bar>v\<bar> < 2 ^ 1024" by (meson less_le_trans less_imp_le one_le_numeral power_increasing numeral_le_iff semiring_norm(68) semiring_norm(71))
  then show ?thesis using v(1) Fin round_32_64[of v] by simp
qed auto

lemma float32_mono: "a \<le> b \<Longrightarrow> \<bar>b\<bar> < 2 ^ 127 \<Longrightarrow> 0 \<le> a \<Longrightarrow>
    \<exists>x y. float32 (Fin a) = Fin x \<and> float32 (Fin b) = Fin y \<and> 0 \<le> x \<and> x \<le> y"
proof -
  assume a: "a \<le> b" "\<bar>b\<bar> < 2 ^ 127" "0 \<le> a"
  have p: "round_to Binary32 (2 ^ 127) = 2 ^ 127" using round_powi[of Binary32 127] by (simp add: power_int_def)
  have "round_to Binary32 b \<le> 2 ^ 127" using a round_mono[of b "2 ^ 127" Binary32] p by simp
  moreover have m: "0 \<le> round_to Binary32 a" "round_to Binary32 a \<le> round_to Binary32 b"
    using a round_mono[of a b Binary32] round_nonneg[of a Binary32] by auto
  ultimately show ?thesis by (simp add: float32_Fin Let_def abs_of_nonneg del: float32.simps(1))
qed

section \<open>Messages\<close>

record PlayerInput =
  in_InputSeq :: u32
  in_ClientTickMs :: u64
  in_Move :: "Vec2 option"
  in_Aim :: "Vec2 option"
  in_Shoot :: bool
  in_UsePotion :: bool
  in_Reload :: bool

record PlayerSnapshot =
  psn_PlayerId :: u64
  psn_Position :: Vec2
  psn_Velocity :: Vec2
  psn_Aim :: Vec2
  psn_Hp :: f64
  psn_MaxHp :: f64
  psn_Attack :: f64
  psn_Defense :: f64
  psn_MoveSpeed :: f64
  psn_Alive :: bool
  psn_WeaponId :: u32
  psn_RelicId :: u32
  psn_PotionId :: u32
  psn_Ammo :: u32
  psn_MagazineCapacity :: u32
  psn_ReloadTicksRemaining :: u32
  psn_ReloadDurationTicks :: u32

record MonsterSnapshot =
  msn_MonsterId :: u64
  msn_Position :: Vec2
  msn_Velocity :: Vec2
  msn_Hp :: f64
  msn_MaxHp :: f64
  msn_State :: u32

datatype pb_PickupKind = PICKUP_KIND_UNSPECIFIED | PICKUP_KIND_HEALTH | PICKUP_KIND_WEAPON

record PickupSnapshot =
  pks_PickupId :: u64
  pks_Kind :: pb_PickupKind
  pks_Position :: Vec2
  pks_EquipmentId :: u32
  pks_Value :: f64

record pb_StageState =
  sst_Index :: u32
  sst_Seed :: i64
  sst_State :: u32
  sst_MonstersRemaining :: u32
  sst_StageLimit :: u32
  sst_DifficultyScore :: f64
  sst_DifficultyAdjustment :: f64
  sst_PreviousClearSeconds :: f64
  sst_PreviousTeamHpPercent :: f64

record WorldSnapshot =
  ws_ServerTick :: u64
  ws_LastProcessedInput :: u32
  ws_Self :: "PlayerSnapshot option"
  ws_Players :: "PlayerSnapshot list"
  ws_Monsters :: "MonsterSnapshot list"
  ws_Stage :: pb_StageState
  ws_Pickups :: "PickupSnapshot list"

text \<open>What the server sends.\<close>

datatype message =
    StageStartedEvent u32 u64
  | ProjectileSpawnEvent u64 u64 Vec2 Vec2 u64 u64
  | ProjectileDestroyEvent u64 u64 Vec2 u64
  | DamageEvent u64 u64 f64 f64 u64
  | DeathEvent u64 u64 u64
  | StageClearedEvent u32 u64
  | TeamDefeatedEvent u32 u64
  | WorldSnapshotMsg WorldSnapshot
  | Pong u64 u64 u64
  | LoginResponse u32 ReasonCode string u64 u64
  | MatchFound u64 string "u64 list"
  | RewardOptions u32 "u32 list" u64
  | RewardApplied ReasonCode u32
  | Disconnect ReasonCode string

text \<open>What \<open>proto.Marshal\<close> and \<open>proto.Unmarshal\<close> do with the messages the server uses; None is an error.\<close>

record codec =
  marshal :: "message \<Rightarrow> byte list option"
  unmarshal_Ping :: "byte list \<Rightarrow> (u64 \<times> u64) option"
  unmarshal_LoginRequest :: "byte list \<Rightarrow> (u32 \<times> string \<times> string) option"
  unmarshal_MatchRequest :: "byte list \<Rightarrow> (u32 \<times> string) option"
  unmarshal_MatchCancel :: "byte list \<Rightarrow> unit option"
  unmarshal_PlayerInput :: "byte list \<Rightarrow> PlayerInput option"
  unmarshal_RewardChoice :: "byte list \<Rightarrow> u32 option"
  unmarshal_NextStageRequest :: "byte list \<Rightarrow> unit option"

section \<open>Coming in\<close>

datatype convert_error = ErrNilInput | UnknownEventKind u8

definition widen_vec :: "Vec2 \<Rightarrow> Vec2" where
  "widen_vec v = vec2 (X v) (Y v)"

definition Input_of :: "PlayerInput option \<Rightarrow> convert_error + Input" where
  "Input_of m =
     (case m of None \<Rightarrow> Inl ErrNilInput
      | Some m \<Rightarrow> Inr \<lparr>i_Seq = in_InputSeq m,
          i_Direction = (case in_Move m of None \<Rightarrow> zero_vec | Some v \<Rightarrow> widen_vec v),
          i_Aim = (case in_Aim m of None \<Rightarrow> zero_vec | Some v \<Rightarrow> widen_vec v),
          i_Shoot = in_Shoot m, i_UsePotion = in_UsePotion m, i_Reload = in_Reload m\<rparr>)"

section \<open>Going out: events\<close>

definition vec2f :: "Vec2 \<Rightarrow> Vec2" where
  "vec2f v = vec2 (float32 (X v)) (float32 (Y v))"

definition Event_message :: "Event \<Rightarrow> convert_error + (message_type \<times> message)" where
  "Event_message e =
     (case ev_Kind e of
        StageStarted \<Rightarrow> Inr (MSG_STAGE_STARTED_EVENT, StageStartedEvent (ev_StageIndex e) (ev_ServerTick e))
      | ProjectileSpawned \<Rightarrow> Inr (MSG_PROJECTILE_SPAWN, ProjectileSpawnEvent (ev_EntityID e) (ev_SourceID e)
          (vec2f (ev_Position e)) (vec2f (ev_Velocity e)) (ev_ExpiresAtTick e) (ev_ServerTick e))
      | ProjectileDestroyed \<Rightarrow> Inr (MSG_PROJECTILE_DESTROY, ProjectileDestroyEvent (ev_EntityID e) (ev_SourceID e)
          (vec2f (ev_Position e)) (ev_ServerTick e))
      | DamageDealt \<Rightarrow> Inr (MSG_DAMAGE_EVENT, DamageEvent (ev_SourceID e) (ev_TargetID e)
          (float32 (ev_Amount e)) (float32 (ev_Health e)) (ev_ServerTick e))
      | EntityDied \<Rightarrow> Inr (MSG_DEATH_EVENT, DeathEvent (ev_EntityID e) (ev_SourceID e) (ev_ServerTick e))
      | StageCleared \<Rightarrow> Inr (MSG_STAGE_CLEARED_EVENT, StageClearedEvent (ev_StageIndex e) (ev_ServerTick e))
      | TeamDefeated \<Rightarrow> Inr (MSG_TEAM_DEFEATED_EVENT, TeamDefeatedEvent (ev_StageIndex e) (ev_ServerTick e))
      | OtherEvent k \<Rightarrow> Inl (UnknownEventKind k))"

section \<open>Going out: snapshots\<close>

definition PlayerSnapshot_of :: "Player \<Rightarrow> PlayerSnapshot" where
  "PlayerSnapshot_of p = \<lparr>psn_PlayerId = p_ID p, psn_Position = vec2f (p_Position p), psn_Velocity = vec2f (p_Velocity p),
     psn_Aim = vec2f (p_Aim p), psn_Hp = float32 (p_Health p), psn_MaxHp = float32 (cs_MaxHealth (p_CurrentStats p)),
     psn_Attack = float32 (cs_Attack (p_CurrentStats p)), psn_Defense = float32 (cs_Defense (p_CurrentStats p)),
     psn_MoveSpeed = float32 (cs_MoveSpeed (p_CurrentStats p)), psn_Alive = p_Alive p,
     psn_WeaponId = eq_WeaponID (p_Equipment p), psn_RelicId = eq_RelicID (p_Equipment p),
     psn_PotionId = eq_PotionID (p_Equipment p), psn_Ammo = p_Ammo p, psn_MagazineCapacity = p_MagazineCapacity p,
     psn_ReloadTicksRemaining = p_ReloadTicksRemaining p, psn_ReloadDurationTicks = p_ReloadDurationTicks p\<rparr>"

definition PickupSnapshot_of :: "PickupView \<Rightarrow> PickupSnapshot" where
  "PickupSnapshot_of p = \<lparr>pks_PickupId = pk_ID p,
     pks_Kind = (if pk_Kind p = HealthPickup then PICKUP_KIND_HEALTH
                 else if pk_Kind p = WeaponPickup then PICKUP_KIND_WEAPON else PICKUP_KIND_UNSPECIFIED),
     pks_Position = vec2f (pk_Position p), pks_EquipmentId = pk_EquipmentID p, pks_Value = float32 (pk_Value p)\<rparr>"

primrec MonsterState_number :: "MonsterState \<Rightarrow> u32" where
  "MonsterState_number MonsterIdle = 0" | "MonsterState_number MonsterChase = 1"
| "MonsterState_number MonsterAttack = 2" | "MonsterState_number MonsterDead = 3"

definition MonsterSnapshot_of :: "MonsterView \<Rightarrow> MonsterSnapshot" where
  "MonsterSnapshot_of m = \<lparr>msn_MonsterId = mv_ID m, msn_Position = vec2f (mv_Position m), msn_Velocity = vec2f (mv_Velocity m),
     msn_Hp = float32 (mv_Health m), msn_MaxHp = float32 (mv_MaxHealth m), msn_State = MonsterState_number (mv_State m)\<rparr>"

primrec StageState_number :: "StageState \<Rightarrow> u32" where
  "StageState_number Waiting = 0" | "StageState_number Playing = 1" | "StageState_number StageClear = 2"
| "StageState_number Reward = 3" | "StageState_number PreparingNextStage = 4" | "StageState_number Failed = 5"
| "StageState_number Closed = 6"

definition StageState_of :: "StageView \<Rightarrow> pb_StageState" where
  "StageState_of v = \<lparr>sst_Index = v_Index v, sst_Seed = v_Seed v, sst_State = StageState_number (v_State v),
     sst_MonstersRemaining = word_of_int (v_MonstersRemaining v), sst_StageLimit = v_StageLimit v,
     sst_DifficultyScore = float32 (v_DifficultyScore v), sst_DifficultyAdjustment = float32 (v_DifficultyAdjustment v),
     sst_PreviousClearSeconds = float32 (v_PreviousClearSeconds v),
     sst_PreviousTeamHpPercent = float32 (v_PreviousTeamHPPercent v)\<rparr>"

text \<open>One turn of the loop over the players.\<close>

definition add_player_row :: "entity_id \<Rightarrow> Player \<Rightarrow> WorldSnapshot \<Rightarrow> WorldSnapshot" where
  "add_player_row self p out =
     (let row = PlayerSnapshot_of p
      in if p_ID p = self then out\<lparr>ws_Self := Some row, ws_LastProcessedInput := p_LastProcessedInputSeq p\<rparr>
         else out\<lparr>ws_Players := ws_Players out @ [row]\<rparr>)"

definition WorldSnapshot_of :: "Snapshot \<Rightarrow> entity_id \<Rightarrow> WorldSnapshot" where
  "WorldSnapshot_of s self =
     fold (add_player_row self) (sn_Players s)
       \<lparr>ws_ServerTick = sn_ServerTick s, ws_LastProcessedInput = 0, ws_Self = None, ws_Players = [],
        ws_Monsters = map MonsterSnapshot_of (sn_Monsters s), ws_Stage = StageState_of (sn_Stage s),
        ws_Pickups = map PickupSnapshot_of (sn_Pickups s)\<rparr>"

lemma WorldSnapshot_of_rows:
  "fold (add_player_row self) ps out = out\<lparr>
     ws_Self := (case filter (\<lambda>p. p_ID p = self) ps of [] \<Rightarrow> ws_Self out | q # qs \<Rightarrow> Some (PlayerSnapshot_of (last (q # qs)))),
     ws_LastProcessedInput := (case filter (\<lambda>p. p_ID p = self) ps of [] \<Rightarrow> ws_LastProcessedInput out
       | q # qs \<Rightarrow> p_LastProcessedInputSeq (last (q # qs))),
     ws_Players := ws_Players out @ map PlayerSnapshot_of (filter (\<lambda>p. p_ID p \<noteq> self) ps)\<rparr>"
proof (induction ps arbitrary: out)
  case (Cons p ps)
  then show ?case by (auto simp: add_player_row_def Let_def split: list.split)
qed simp

lemma filter_unique: "distinct (map f l) \<Longrightarrow> x \<in> set l \<Longrightarrow> filter (\<lambda>y. f y = f x) l = [x]"
proof (induction l)
  case (Cons y l)
  then have "f y \<notin> f ` set l" by simp
  then have "filter (\<lambda>z. f z = f y) l = []" by (metis (mono_tags, lifting) filter_empty_conv imageI)
  then show ?case using Cons by auto
qed simp

lemma map_sort_key: "map f (sort_key f l) = sort (map f l)"
  by (rule properties_for_sort[symmetric]) simp_all

lemma player_entry: "world_ok w \<Longrightarrow> (i, ps) \<in> set (w_players w) \<Longrightarrow> map_of (w_players w) i = Some ps \<and> player_ok (w_config w) i ps"
  using world_okD(3)[of w] entries_ok_map_ok[of "player_ok (w_config w)" "w_players w"]
  by (auto simp: entries_ok_def map_ok_def keys_def)

lemma Snapshot_players:
  assumes "world_ok w"
  shows "map p_ID (sn_Players (Snapshot_of w)) = ordered_keys (w_players w)"
    and "set (sn_Players (Snapshot_of w)) = ps_player ` snd ` set (w_players w)"
proof -
  have "p_ID (ps_player ps) = i" if "(i, ps) \<in> set (w_players w)" for i ps
    using player_entry[OF assms that] by (simp add: player_ok_def)
  then have "map p_ID (map (\<lambda>(_, p). ps_player p) (w_players w)) = keys (w_players w)"
    by (auto simp: keys_def)
  then show "map p_ID (sn_Players (Snapshot_of w)) = ordered_keys (w_players w)"
    by (simp add: Snapshot_of_def ordered_keys_def map_sort_key)
  show "set (sn_Players (Snapshot_of w)) = ps_player ` snd ` set (w_players w)"
    by (simp add: Snapshot_of_def image_image case_prod_beta)
qed

lemma Snapshot_self:
  assumes "world_ok w"
  shows "filter (\<lambda>p. p_ID p = i) (sn_Players (Snapshot_of w)) =
    (case map_of (w_players w) i of None \<Rightarrow> [] | Some ps \<Rightarrow> [ps_player ps])"
proof (cases "map_of (w_players w) i")
  case None
  have "i \<notin> set (map p_ID (sn_Players (Snapshot_of w)))"
    unfolding Snapshot_players(1)[OF assms] using None by (simp add: set_keys domIff)
  then show ?thesis using None by (auto simp: filter_empty_conv)
next
  case (Some ps)
  then have "ps_player ps \<in> set (sn_Players (Snapshot_of w))" and "p_ID (ps_player ps) = i"
    using player_entry[OF assms] unfolding Snapshot_players(2)[OF assms]
    by (auto simp: player_ok_def image_iff dest!: map_of_SomeD, force)
  moreover have "distinct (map p_ID (sn_Players (Snapshot_of w)))"
    unfolding Snapshot_players(1)[OF assms] using entries_ok_map_ok[OF world_okD(3)[OF assms]] by simp
  ultimately show ?thesis using Some filter_unique by fastforce
qed

lemma Snapshot_rows:
  assumes "world_ok w"
  shows "sn_Players (Snapshot_of w) = map (\<lambda>j. ps_player (the (map_of (w_players w) j))) (ordered_keys (w_players w))"
proof -
  have "p = ps_player (the (map_of (w_players w) (p_ID p)))" if p: "p \<in> set (sn_Players (Snapshot_of w))" for p
  proof -
    obtain i ps where ps: "(i, ps) \<in> set (w_players w)" "p = ps_player ps"
      using p unfolding Snapshot_players(2)[OF assms] by force
    then have "map_of (w_players w) i = Some ps" "p_ID (ps_player ps) = i"
      using player_entry[OF assms] by (auto simp: player_ok_def)
    then show ?thesis using ps(2) by simp
  qed
  then have "map (\<lambda>p. ps_player (the (map_of (w_players w) (p_ID p)))) (sn_Players (Snapshot_of w)) = sn_Players (Snapshot_of w)"
    by (intro map_idI) simp
  then show ?thesis unfolding Snapshot_players(1)[OF assms, symmetric] map_map comp_def by simp
qed

text \<open>A row a client can draw: its health is between zero and its maximum, as finite single precision values.\<close>

definition row_ok :: "PlayerSnapshot \<Rightarrow> bool" where
  "row_ok r \<longleftrightarrow> (\<exists>hp mx. psn_Hp r = Fin hp \<and> psn_MaxHp r = Fin mx \<and> 0 \<le> hp \<and> hp \<le> mx) \<and>
     f32_vec (psn_Position r) \<and> is_f32 (psn_Hp r) \<and> is_f32 (psn_MaxHp r) \<and> psn_Ammo r \<le> psn_MagazineCapacity r"

lemma PlayerSnapshot_row_ok:
  assumes "player_ok c i ps"
  shows "row_ok (PlayerSnapshot_of (ps_player ps))"
proof -
  let ?p = "ps_player ps"
  note b = player_ok_bounds[OF assms]
  obtain m where m: "cs_MaxHealth (p_CurrentStats ?p) = Fin m" "m \<le> 1000000"
    using b by (cases "cs_MaxHealth (p_CurrentStats ?p)") (auto simp: CombatStats_Valid_def not_less)
  obtain h where h: "p_Health ?p = Fin h" "0 \<le> h" "h \<le> m"
    using b m by (cases "p_Health ?p") auto
  obtain x y where "float32 (Fin h) = Fin x" "float32 (Fin m) = Fin y" "0 \<le> x" "x \<le> y"
    using float32_mono[OF h(3) _ h(2)] m(2) h by (force simp: abs_of_nonneg)
  moreover from this have "is_f32 (Fin x)" "is_f32 (Fin y)" by (metis is_f32_float32)+
  ultimately show ?thesis using b m h
    by (auto simp: row_ok_def PlayerSnapshot_of_def vec2f_def f32_vec_def simp del: float32.simps intro: is_f32_float32)
qed

section \<open>Properties\<close>

text \<open>C29: A player's snapshot of any reachable world is complete and personal: it has the tick and the stage of the world; the
  receiver's own row and acknowledged input are at the top exactly when the player is in the world, every other player
  has one row in the order of the IDs and the receiver has none there; monsters and pickups have one row each in the order of
  the IDs.  Every row is the conversion of that entity's state, and every player's row can be drawn - health
  between zero and the maximum in finite single precision values.\<close>

theorem WorldSnapshot_personal:
  assumes "reachable c w" and "ws = WorldSnapshot_of (Snapshot_of w) i"
  shows "(case map_of (w_players w) i of
       None \<Rightarrow> ws_Self ws = None \<and> ws_LastProcessedInput ws = 0
     | Some ps \<Rightarrow> ws_Self ws = Some (PlayerSnapshot_of (ps_player ps)) \<and> ws_LastProcessedInput ws = p_LastProcessedInputSeq (ps_player ps)) \<and>
     ws_Players ws = map (\<lambda>j. PlayerSnapshot_of (ps_player (the (map_of (w_players w) j)))) (filter (\<lambda>j. j \<noteq> i) (ordered_keys (w_players w))) \<and>
     map psn_PlayerId (ws_Players ws) = filter (\<lambda>j. j \<noteq> i) (ordered_keys (w_players w)) \<and>
     ws_Monsters ws = map (\<lambda>j. MonsterSnapshot_of (monster_view (ms_monster (the (map_of (w_monsters w) j))))) (ordered_keys (w_monsters w)) \<and>
     map msn_MonsterId (ws_Monsters ws) = ordered_keys (w_monsters w) \<and>
     ws_Pickups ws = map (\<lambda>j. PickupSnapshot_of (the (map_of (w_pickups w) j))) (ordered_keys (w_pickups w)) \<and>
     ws_Stage ws = StageState_of (w_stage w) \<and> ws_ServerTick ws = w_tick w \<and>
     list_all row_ok (ws_Players ws) \<and> pred_option row_ok (ws_Self ws)"
proof -
  have ok: "world_ok w" using reachable_ok[OF assms(1)] .
  let ?ps = "sn_Players (Snapshot_of w)"
  have rows: "row_ok (PlayerSnapshot_of p)" if "p \<in> set ?ps" for p
    using that player_entry[OF ok] PlayerSnapshot_row_ok unfolding Snapshot_players(2)[OF ok] by fastforce
  have players: "ws_Players ws = map PlayerSnapshot_of (filter (\<lambda>p. p_ID p \<noteq> i) ?ps)"
    by (simp add: assms(2) WorldSnapshot_of_def WorldSnapshot_of_rows)
  have ids: "p_ID (ps_player (the (map_of (w_players w) j))) = j" if "j \<in> set (ordered_keys (w_players w))" for j
    using that entries_okD[OF world_okD(3)[OF ok], of j] by (auto simp: player_ok_def)
  have "filter (\<lambda>p. p_ID p \<noteq> i) ?ps = map (\<lambda>j. ps_player (the (map_of (w_players w) j))) (filter (\<lambda>j. j \<noteq> i) (ordered_keys (w_players w)))"
    unfolding Snapshot_rows[OF ok] filter_map comp_def using ids by (intro arg_cong[where f = "map _"] filter_cong) auto
  then have "ws_Players ws = map (\<lambda>j. PlayerSnapshot_of (ps_player (the (map_of (w_players w) j)))) (filter (\<lambda>j. j \<noteq> i) (ordered_keys (w_players w)))"
    unfolding players by simp
  moreover have "map psn_PlayerId (ws_Players ws) = filter (\<lambda>j. j \<noteq> i) (ordered_keys (w_players w))"
    unfolding players Snapshot_players(1)[OF ok, symmetric] by (simp add: PlayerSnapshot_of_def filter_map o_def)
  moreover have "ws_Monsters ws = map (\<lambda>j. MonsterSnapshot_of (monster_view (ms_monster (the (map_of (w_monsters w) j))))) (ordered_keys (w_monsters w))"
    "ws_Pickups ws = map (\<lambda>j. PickupSnapshot_of (the (map_of (w_pickups w) j))) (ordered_keys (w_pickups w))"
    "ws_Stage ws = StageState_of (w_stage w)" "ws_ServerTick ws = w_tick w"
    by (simp_all add: assms(2) WorldSnapshot_of_def WorldSnapshot_of_rows Snapshot_of_def)
  moreover have "map msn_MonsterId (ws_Monsters ws) = ordered_keys (w_monsters w)"
  proof -
    have "m_ID (ms_monster (the (map_of (w_monsters w) j))) = j" if "j \<in> dom (map_of (w_monsters w))" for j
      using that entries_okD[OF world_okD(5)[OF ok], of j] by (auto simp: monster_ok_def)
    then show ?thesis unfolding calculation(3)
      by (auto simp: MonsterSnapshot_of_def monster_view_def o_def intro!: map_idI)
  qed
  moreover have self: "ws_Self ws = map_option (\<lambda>ps. PlayerSnapshot_of (ps_player ps)) (map_of (w_players w) i) \<and>
    ws_LastProcessedInput ws = (case map_of (w_players w) i of None \<Rightarrow> 0 | Some ps \<Rightarrow> p_LastProcessedInputSeq (ps_player ps))"
    using Snapshot_self[OF ok, of i] by (simp add: assms(2) WorldSnapshot_of_def WorldSnapshot_of_rows split: option.split)
  moreover have "pred_option row_ok (ws_Self ws)"
    using self PlayerSnapshot_row_ok[OF conjunct2[OF player_entry[OF ok]]] by (auto simp: pred_option_def dest!: map_of_SomeD)
  moreover have "list_all row_ok (ws_Players ws)" using rows by (auto simp: players list_all_iff)
  ultimately show ?thesis by (simp split: option.split)
qed
theorem WorldSnapshot_personal_witness:
  "\<exists>w v. NewWorld DefaultConfig [] = Inr w \<and> AddPlayer w 7 = Inr v \<and>
     map psn_PlayerId (ws_Players (WorldSnapshot_of (Snapshot_of v) 8)) = [7] \<and>
     ws_Self (WorldSnapshot_of (Snapshot_of v) 8) = None \<and> ws_Self (WorldSnapshot_of (Snapshot_of v) 7) \<noteq> None"
proof -
  obtain w where w: "NewWorld DefaultConfig [] = Inr w" "reachable DefaultConfig w" using reachable_Default by blast
  let ?v = "w\<lparr>w_departedPlayers := [], w_players := [(7, new_player DefaultConfig 7)]\<rparr>"
  have add: "AddPlayer w 7 = Inr ?v"
    using w(1) config_ok_Default
    by (auto simp: NewWorld_def AddPlayer_def PlayerCount_def FirstWorldEntityID_def zero_view_def config_ok_def DefaultConfig_def)
  have "reachable DefaultConfig ?v" using reachable.step[OF w(2) world_step.join[OF add]] .
  note WorldSnapshot_personal[OF this refl, of 8] WorldSnapshot_personal[OF this refl, of 7]
  then show ?thesis using w(1) add by (auto simp: ordered_keys_def keys_def)
qed

end
