(* ===== verification/Router.thy ===== *)
theory Router
  imports Wire Connection Session Room
begin

text \<open>
  Package \<open>router\<close>: joining and leaving a room, and the three dispatchers that carry what a room publishes to
  its players.  A dispatcher knows its receivers only as sinks: a sink is a reference of type \<open>'s\<close>
  into a state of type \<open>'w\<close>, and sending to it is an argument of the definitions.  The map of
  sinks is an association list whose order stands for the order in which Go walks the map, so that a
  theorem for every list holds for every order.
\<close>

section \<open>Joining and leaving\<close>

text \<open>\<open>Join\<close> and \<open>Leave\<close> wait for a receipt of the room; each is cut there into two steps.  The value of the receipt
  is the argument \<open>result\<close> of the second step.\<close>

definition Join_submit :: "Session \<Rightarrow> Room \<Rightarrow> call" where
  "Join_submit sess rm = (case Identity sess of (sessionID, playerID) \<Rightarrow> Room.Join rm sessionID playerID)"

definition Join_receive :: "u64 \<Rightarrow> room_error option \<Rightarrow> Session \<Rightarrow> room_error option \<times> Session" where
  "Join_receive roomID result sess =
     (case result of Some err \<Rightarrow> (Some err, sess)
      | None \<Rightarrow> (None, snd (Transition (BindRoom sess roomID) StateInRoom)))"

definition Leave_submit :: "Session \<Rightarrow> Room \<Rightarrow> room_fault + ((room_error + nat) \<times> Session \<times> Room)" where
  "Leave_submit sess rm =
     (case Identity sess of (sessionID, _) \<Rightarrow>
        bind_sum (Room.Leave rm sessionID) (\<lambda>(receipt, rm). Inr (receipt, BindRoom sess 0, rm)))"

definition Leave_receive :: "room_error option \<Rightarrow> Session \<Rightarrow> room_error option \<times> Session" where
  "Leave_receive result sess = (result, sess)"

section \<open>Receivers\<close>

type_synonym 's sinks = "(entity_id, 's) gomap"

definition subscribe :: "entity_id \<Rightarrow> 's option \<Rightarrow> 's sinks \<Rightarrow> 's sinks" where
  "subscribe playerID sink m =
     (case sink of None \<Rightarrow> AList.delete playerID m | Some s \<Rightarrow> AList.update playerID s m)"

lemma map_of_subscribe: "map_of (subscribe i s m) = (map_of m)(i := s)"
  by (cases s) (auto simp: subscribe_def update_conv' delete_conv')

text \<open>Sending one frame to every receiver; the players whose sink refused it are returned.\<close>

fun send_all :: "('s \<Rightarrow> byte list \<Rightarrow> 'w \<Rightarrow> chan_panic + (bool \<times> 'w)) \<Rightarrow> byte list \<Rightarrow> 's sinks \<Rightarrow> 'w \<Rightarrow>
    chan_panic + (entity_id list \<times> 'w)" where
  "send_all send frame [] w = Inr ([], w)"
| "send_all send frame ((i, s) # m) w =
     bind_sum (send s frame w) (\<lambda>(ok, w).
     bind_sum (send_all send frame m w) (\<lambda>(refused, w).
       Inr (if ok then refused else i # refused, w)))"

definition message_header :: "message_type \<Rightarrow> u32 \<Rightarrow> Header" where
  "message_header mt sequence = \<lparr>h_Magic = Magic, h_Version = VersionV1, h_Flags = 0, h_MessageType = mt, h_Reserved = 0,
     h_BodyLength = 0, h_Sequence = sequence\<rparr>"

datatype encode_error = MarshalError | EncodeError frame_error

text \<open>Marshalling a message and putting it into a frame.\<close>

definition encode_message :: "codec \<Rightarrow> message_type \<Rightarrow> u32 \<Rightarrow> message \<Rightarrow> encode_error + byte list" where
  "encode_message pb mt sequence m =
     (case marshal pb m of None \<Rightarrow> Inl MarshalError
      | Some body \<Rightarrow> map_sum EncodeError id (EncodeFrame (message_header mt sequence) body))"

section \<open>Snapshots\<close>

record 's SnapshotDispatcher =
  sd_sinks :: "'s sinks"

definition NewSnapshotDispatcher :: "'s SnapshotDispatcher" where
  "NewSnapshotDispatcher = \<lparr>sd_sinks = []\<rparr>"

definition SnapshotDispatcher_Subscribe :: "entity_id \<Rightarrow> 's option \<Rightarrow> 's SnapshotDispatcher \<Rightarrow> 's SnapshotDispatcher" where
  "SnapshotDispatcher_Subscribe playerID sink d = d\<lparr>sd_sinks := subscribe playerID sink (sd_sinks d)\<rparr>"

definition SnapshotDispatcher_Unsubscribe :: "entity_id \<Rightarrow> 's SnapshotDispatcher \<Rightarrow> 's SnapshotDispatcher" where
  "SnapshotDispatcher_Unsubscribe playerID d = d\<lparr>sd_sinks := AList.delete playerID (sd_sinks d)\<rparr>"

definition SnapshotDispatcher_Subscribers :: "'s SnapshotDispatcher \<Rightarrow> int" where
  "SnapshotDispatcher_Subscribers d = int (length (sd_sinks d))"

text \<open>A snapshot sink never says anything the dispatcher listens to, so sending is a function of the state.\<close>

definition deliver :: "codec \<Rightarrow> ('s \<Rightarrow> byte list \<Rightarrow> 'w \<Rightarrow> 'w) \<Rightarrow> 's \<Rightarrow> Snapshot \<Rightarrow> entity_id \<Rightarrow> 'w \<Rightarrow> 'w" where
  "deliver pb send sink s selfID w =
     (case encode_message pb MSG_WORLD_SNAPSHOT 0 (WorldSnapshotMsg (WorldSnapshot_of s selfID)) of
        Inl _ \<Rightarrow> w | Inr frame \<Rightarrow> send sink frame w)"

definition SnapshotDispatcher_Dispatch :: "codec \<Rightarrow> ('s \<Rightarrow> byte list \<Rightarrow> 'w \<Rightarrow> 'w) \<Rightarrow> 's SnapshotDispatcher \<Rightarrow> RoomSnapshot \<Rightarrow> 'w \<Rightarrow> 'w" where
  "SnapshotDispatcher_Dispatch pb send d snap w =
     fold (\<lambda>p w. case map_of (sd_sinks d) (p_ID p) of None \<Rightarrow> w
                 | Some sink \<Rightarrow> deliver pb send sink (rsn_Snapshot snap) (p_ID p) w)
       (sn_Players (rsn_Snapshot snap)) w"

text \<open>The loop over the snapshots a room publishes until it closes the channel.\<close>

definition SnapshotDispatcher_Run :: "codec \<Rightarrow> ('s \<Rightarrow> byte list \<Rightarrow> 'w \<Rightarrow> 'w) \<Rightarrow> 's SnapshotDispatcher \<Rightarrow> RoomSnapshot list \<Rightarrow> 'w \<Rightarrow> 'w" where
  "SnapshotDispatcher_Run pb send d snaps w = fold (SnapshotDispatcher_Dispatch pb send d) snaps w"

section \<open>Events\<close>

datatype event_failure = ConvertFailure convert_error | EncodeFailure encode_error

text \<open>What a dispatcher writes to its log, if it has one.\<close>

datatype log_entry = InvalidEvent u64 Event event_failure | Saturated u64 entity_id

lemma Saturated_image [simp]: "Saturated r i \<in> Saturated r ` R \<longleftrightarrow> i \<in> R"
  by auto

record 's EventDispatcher =
  ed_sinks :: "'s sinks"
  ed_logger :: bool
  ed_roomID :: u64
  ed_log :: "log_entry list"

definition NewEventDispatcher :: "'s EventDispatcher" where
  "NewEventDispatcher = \<lparr>ed_sinks = [], ed_logger = True, ed_roomID = 0, ed_log = []\<rparr>"

definition EventDispatcher_SetLogger :: "bool \<Rightarrow> 's EventDispatcher \<Rightarrow> 's EventDispatcher" where
  "EventDispatcher_SetLogger logger d = d\<lparr>ed_logger := logger\<rparr>"

definition EventDispatcher_Subscribe :: "entity_id \<Rightarrow> 's option \<Rightarrow> 's EventDispatcher \<Rightarrow> 's EventDispatcher" where
  "EventDispatcher_Subscribe playerID sink d = d\<lparr>ed_sinks := subscribe playerID sink (ed_sinks d)\<rparr>"

definition EventDispatcher_Unsubscribe :: "entity_id \<Rightarrow> 's EventDispatcher \<Rightarrow> 's EventDispatcher" where
  "EventDispatcher_Unsubscribe playerID d = d\<lparr>ed_sinks := AList.delete playerID (ed_sinks d)\<rparr>"

definition EventDispatcher_Subscribers :: "'s EventDispatcher \<Rightarrow> int" where
  "EventDispatcher_Subscribers d = int (length (ed_sinks d))"

definition logBadEvent :: "Event \<Rightarrow> event_failure \<Rightarrow> 's EventDispatcher \<Rightarrow> 's EventDispatcher" where
  "logBadEvent e err d =
     (if \<not> ed_logger d then d else d\<lparr>ed_log := ed_log d @ [InvalidEvent (ed_roomID d) e err]\<rparr>)"

definition EventDispatcher_broadcast :: "('s \<Rightarrow> byte list \<Rightarrow> 'w \<Rightarrow> chan_panic + (bool \<times> 'w)) \<Rightarrow> byte list \<Rightarrow>
    's EventDispatcher \<Rightarrow> 'w \<Rightarrow> chan_panic + ('s EventDispatcher \<times> 'w)" where
  "EventDispatcher_broadcast send frame d w =
     bind_sum (send_all send frame (ed_sinks d) w) (\<lambda>(refused, w).
       Inr (if ed_logger d then d\<lparr>ed_log := ed_log d @ map (Saturated (ed_roomID d)) refused\<rparr> else d, w))"

definition event_frame :: "codec \<Rightarrow> Event \<Rightarrow> event_failure + byte list" where
  "event_frame pb e =
     (case Event_message e of Inl err \<Rightarrow> Inl (ConvertFailure err)
      | Inr (mt, msg) \<Rightarrow> map_sum EncodeFailure id (encode_message pb mt 0 msg))"

definition dispatch_event :: "codec \<Rightarrow> ('s \<Rightarrow> byte list \<Rightarrow> 'w \<Rightarrow> chan_panic + (bool \<times> 'w)) \<Rightarrow> Event \<Rightarrow>
    's EventDispatcher \<Rightarrow> 'w \<Rightarrow> chan_panic + ('s EventDispatcher \<times> 'w)" where
  "dispatch_event pb send e d w =
     (case event_frame pb e of Inl err \<Rightarrow> Inr (logBadEvent e err d, w)
      | Inr frame \<Rightarrow> EventDispatcher_broadcast send frame d w)"

fun EventDispatcher_Dispatch :: "codec \<Rightarrow> ('s \<Rightarrow> byte list \<Rightarrow> 'w \<Rightarrow> chan_panic + (bool \<times> 'w)) \<Rightarrow> Event list \<Rightarrow>
    's EventDispatcher \<Rightarrow> 'w \<Rightarrow> chan_panic + ('s EventDispatcher \<times> 'w)" where
  "EventDispatcher_Dispatch pb send [] d w = Inr (d, w)"
| "EventDispatcher_Dispatch pb send (e # es) d w =
     bind_sum (dispatch_event pb send e d w) (\<lambda>(d, w). EventDispatcher_Dispatch pb send es d w)"

definition EventDispatcher_Run :: "codec \<Rightarrow> ('s \<Rightarrow> byte list \<Rightarrow> 'w \<Rightarrow> chan_panic + (bool \<times> 'w)) \<Rightarrow> Room \<Rightarrow> Event list list \<Rightarrow>
    's EventDispatcher \<Rightarrow> 'w \<Rightarrow> chan_panic + ('s EventDispatcher \<times> 'w)" where
  "EventDispatcher_Run pb send rm batches d w =
     fold (\<lambda>es r. bind_sum r (\<lambda>(d, w). EventDispatcher_Dispatch pb send es d w)) batches
       (Inr (d\<lparr>ed_roomID := st_RoomID (Stats_of rm)\<rparr>, w))"

section \<open>The end of a room\<close>

definition CloseReasonCode :: "string \<Rightarrow> ReasonCode" where
  "CloseReasonCode reason =
     (if reason = ''requested'' then REASON_ROOM_CLOSED
      else if reason = ''idle'' then REASON_ROOM_IDLE
      else if reason = ''event_backpressure'' then REASON_EVENT_BACKPRESSURE
      else REASON_ROOM_CLOSED)"

definition DisconnectFrame :: "codec \<Rightarrow> ReasonCode \<Rightarrow> string \<Rightarrow> encode_error + byte list" where
  "DisconnectFrame pb reason msg = encode_message pb MSG_DISCONNECT 0 (Disconnect reason msg)"

record ('s, 'w) CloseWatcher =
  cw_sinks :: "'s sinks"
  cw_onClose :: "(u64 \<Rightarrow> string \<Rightarrow> 'w \<Rightarrow> 'w) option"
  cw_logger :: bool
  cw_roomID :: u64
  cw_log :: "log_entry list"

definition NewCloseWatcher :: "('s, 'w) CloseWatcher" where
  "NewCloseWatcher = \<lparr>cw_sinks = [], cw_onClose = None, cw_logger = True, cw_roomID = 0, cw_log = []\<rparr>"

definition CloseWatcher_SetLogger :: "bool \<Rightarrow> ('s, 'w) CloseWatcher \<Rightarrow> ('s, 'w) CloseWatcher" where
  "CloseWatcher_SetLogger logger c = c\<lparr>cw_logger := logger\<rparr>"

definition CloseWatcher_OnClose :: "(u64 \<Rightarrow> string \<Rightarrow> 'w \<Rightarrow> 'w) option \<Rightarrow> ('s, 'w) CloseWatcher \<Rightarrow> ('s, 'w) CloseWatcher" where
  "CloseWatcher_OnClose f c = c\<lparr>cw_onClose := f\<rparr>"

definition CloseWatcher_Subscribe :: "entity_id \<Rightarrow> 's option \<Rightarrow> ('s, 'w) CloseWatcher \<Rightarrow> ('s, 'w) CloseWatcher" where
  "CloseWatcher_Subscribe playerID sink c = c\<lparr>cw_sinks := subscribe playerID sink (cw_sinks c)\<rparr>"

definition CloseWatcher_Unsubscribe :: "entity_id \<Rightarrow> ('s, 'w) CloseWatcher \<Rightarrow> ('s, 'w) CloseWatcher" where
  "CloseWatcher_Unsubscribe playerID c = c\<lparr>cw_sinks := AList.delete playerID (cw_sinks c)\<rparr>"

definition CloseWatcher_broadcast :: "('s \<Rightarrow> byte list \<Rightarrow> 'w \<Rightarrow> chan_panic + (bool \<times> 'w)) \<Rightarrow> byte list \<Rightarrow>
    ('s, 'w) CloseWatcher \<Rightarrow> 'w \<Rightarrow> chan_panic + (('s, 'w) CloseWatcher \<times> 'w)" where
  "CloseWatcher_broadcast send frame c w =
     bind_sum (send_all send frame (cw_sinks c) w) (\<lambda>(refused, w).
       Inr (if cw_logger c then c\<lparr>cw_log := cw_log c @ map (Saturated (cw_roomID c)) refused\<rparr> else c, w))"

definition fireCallback :: "u64 \<Rightarrow> string \<Rightarrow> ('s, 'w) CloseWatcher \<Rightarrow> 'w \<Rightarrow> 'w" where
  "fireCallback roomID reason c w = (case cw_onClose c of None \<Rightarrow> w | Some f \<Rightarrow> f roomID reason w)"

text \<open>\<open>Run\<close> once the room is done; before that it waits.\<close>

definition CloseWatcher_Run :: "codec \<Rightarrow> ('s \<Rightarrow> byte list \<Rightarrow> 'w \<Rightarrow> chan_panic + (bool \<times> 'w)) \<Rightarrow> Room \<Rightarrow>
    ('s, 'w) CloseWatcher \<Rightarrow> 'w \<Rightarrow> chan_panic + (('s, 'w) CloseWatcher \<times> 'w)" where
  "CloseWatcher_Run pb send rm c w =
     (if \<not> rm_done rm then Inr (c, w)
      else let stats = Stats_of rm; c = c\<lparr>cw_roomID := st_RoomID stats\<rparr>
        in case DisconnectFrame pb (CloseReasonCode (st_CloseReason stats)) (st_CloseReason stats) of
             Inl _ \<Rightarrow> Inr (c, fireCallback (st_RoomID stats) (st_CloseReason stats) c w)
           | Inr frame \<Rightarrow> bind_sum (CloseWatcher_broadcast send frame c w) (\<lambda>(c, w).
               Inr (c, fireCallback (st_RoomID stats) (st_CloseReason stats) c w)))"

section \<open>What a dispatcher may rely on\<close>

text \<open>
  The frames of a batch that can be encoded are \<open>frames_of\<close>.  The interface \<open>EventSink\<close>: sending never panics, an accepted frame is the next one of that sink and a
  refused one leaves it as it was and hands the connection behind the sink over to be closed, and no other sink
  notices.  \<open>apart\<close> says which sinks are different receivers, \<open>closing\<close> lists the connections to be closed.
\<close>

definition frames_of :: "codec \<Rightarrow> Event list \<Rightarrow> byte list list" where
  "frames_of pb es = concat (map (\<lambda>e. case event_frame pb e of Inl _ \<Rightarrow> [] | Inr f \<Rightarrow> [f]) es)"

locale event_sink =
  fixes send :: "'s \<Rightarrow> byte list \<Rightarrow> 'w \<Rightarrow> chan_panic + (bool \<times> 'w)" and taken :: "'s \<Rightarrow> 'w \<Rightarrow> byte list list"
    and ok :: "'w \<Rightarrow> bool" and apart :: "'s \<Rightarrow> 's \<Rightarrow> 'w \<Rightarrow> bool" and behind :: "'s \<Rightarrow> 'w \<Rightarrow> nat option" and closing :: "'w \<Rightarrow> nat list"
  assumes send_law: "ok w \<Longrightarrow> \<exists>b w'. send s f w = Inr (b, w') \<and> ok w' \<and> (\<forall>t u. apart t u w' = apart t u w) \<and>
      taken s w' = taken s w @ (if b then [f] else []) \<and> (\<forall>t. apart s t w \<longrightarrow> taken t w' = taken t w) \<and>
      (\<forall>t. behind t w' = behind t w) \<and>
      closing w' = closing w @ (if b then [] else case behind s w of None \<Rightarrow> [] | Some c \<Rightarrow> [c])"
begin

text \<open>Receivers of a map that are pairwise apart.\<close>

fun all_apart :: "'s sinks \<Rightarrow> 'w \<Rightarrow> bool" where
  "all_apart [] w = True"
| "all_apart ((_, s) # m) w = ((\<forall>t \<in> set (map snd m). apart s t w \<and> apart t s w) \<and> all_apart m w)"

lemma all_apart_cong: "\<forall>t u. apart t u w' = apart t u w \<Longrightarrow> all_apart m w' = all_apart m w"
  by (induction m) auto

lemma send_all_law:
  "ok w \<Longrightarrow> all_apart m w \<Longrightarrow> map_ok m \<Longrightarrow>
     \<exists>refused w' cl. send_all send f m w = Inr (refused, w') \<and> ok w' \<and> (\<forall>t u. apart t u w' = apart t u w) \<and>
       set refused \<subseteq> set (keys m) \<and>
       (\<forall>(i, s) \<in> set m. taken s w' = taken s w @ (if i \<in> set refused then [] else [f])) \<and>
       (\<forall>t. (\<forall>s \<in> set (map snd m). apart s t w) \<longrightarrow> taken t w' = taken t w) \<and>
       (\<forall>t. behind t w' = behind t w) \<and> closing w' = closing w @ cl \<and>
       set cl = {c. \<exists>(i, s) \<in> set m. i \<in> set refused \<and> behind s w = Some c}"
proof (induction m arbitrary: w)
  case (Cons x m)
  obtain i s where x: "x = (i, s)" by (cases x)
  obtain b w1 where 1: "send s f w = Inr (b, w1)" "ok w1" "\<forall>t u. apart t u w1 = apart t u w"
    "taken s w1 = taken s w @ (if b then [f] else [])" "\<forall>t. apart s t w \<longrightarrow> taken t w1 = taken t w"
    "\<forall>t. behind t w1 = behind t w" "closing w1 = closing w @ (if b then [] else case behind s w of None \<Rightarrow> [] | Some c \<Rightarrow> [c])"
    using send_law[OF Cons.prems(1), of s f] by blast
  have m: "all_apart m w1" "map_ok m" "i \<notin> set (keys m)"
    using Cons.prems(2,3) x all_apart_cong[OF 1(3)] by (auto simp: map_ok_def)
  obtain refused w2 cl where 2: "send_all send f m w1 = Inr (refused, w2)" "ok w2" "\<forall>t u. apart t u w2 = apart t u w1"
    "set refused \<subseteq> set (keys m)" "\<forall>(i, s) \<in> set m. taken s w2 = taken s w1 @ (if i \<in> set refused then [] else [f])"
    "\<forall>t. (\<forall>s \<in> set (map snd m). apart s t w1) \<longrightarrow> taken t w2 = taken t w1"
    "\<forall>t. behind t w2 = behind t w1" "closing w2 = closing w1 @ cl"
    "set cl = {c. \<exists>(i, s) \<in> set m. i \<in> set refused \<and> behind s w1 = Some c}"
    using Cons.IH[OF 1(2) m(1,2)] by blast
  let ?refused = "if b then refused else i # refused"
  let ?cl = "(if b then [] else case behind s w of None \<Rightarrow> [] | Some c \<Rightarrow> [c]) @ cl"
  have "send_all send f (x # m) w = Inr (?refused, w2)" using 1(1) 2(1) x by simp
  moreover have "taken s w2 = taken s w @ (if i \<in> set ?refused then [] else [f])"
    using 1(3,4) 2(4,6) Cons.prems(2) m(3) x by auto
  moreover have other: "j \<noteq> i" if "(j, t) \<in> set m" for j t using m(3) that by (force simp: keys_def)
  have "\<forall>(j, t) \<in> set m. taken t w2 = taken t w @ (if j \<in> set ?refused then [] else [f])"
  proof clarify
    fix j t assume j: "(j, t) \<in> set m"
    have "taken t w1 = taken t w" using 1(5) Cons.prems(2) x j by force
    then show "taken t w2 = taken t w @ (if j \<in> set ?refused then [] else [f])" using 2(5) j other[OF j] by fastforce
  qed
  moreover have "\<forall>t. (\<forall>s \<in> set (map snd (x # m)). apart s t w) \<longrightarrow> taken t w2 = taken t w"
    using 1(3,5) 2(6) x by simp
  moreover have rest: "(\<exists>(j, t) \<in> set m. j \<in> set ?refused \<and> behind t w = Some c) \<longleftrightarrow> c \<in> set cl" for c
  proof -
    have "(\<exists>(j, t) \<in> set m. j \<in> set ?refused \<and> behind t w = Some c) \<longleftrightarrow> (\<exists>(j, t) \<in> set m. j \<in> set refused \<and> behind t w = Some c)"
      using other by (intro bex_cong) auto
    then show ?thesis using 2(9) 1(6) by simp
  qed
  have "set ?cl = {c. \<exists>(j, t) \<in> set (x # m). j \<in> set ?refused \<and> behind t w = Some c}"
  proof -
    have "c \<in> set ?cl \<longleftrightarrow> (i \<in> set ?refused \<and> behind s w = Some c) \<or> c \<in> set cl" for c
      using 2(4) m(3) by (cases b; cases "behind s w") auto
    then have "c \<in> set ?cl \<longleftrightarrow> (\<exists>(j, t) \<in> set (x # m). j \<in> set ?refused \<and> behind t w = Some c)" for c
      by (simp only: x list.simps(15) bex_simps(5) prod.case rest)
    then show ?thesis by blast
  qed
  moreover have "set ?refused \<subseteq> set (keys (x # m))" using 2(4) x by (auto simp: keys_def)
  ultimately show ?case using 1(3,6,7) 2(2,3,4,7,8) x by (intro exI[of _ ?refused] exI[of _ w2] exI[of _ ?cl]) simp
qed (auto simp: keys_def)

text \<open>A batch reaches every receiver in order; one that refuses a frame misses it, is logged, its connection
  and no other is being closed, and it disturbs nobody.\<close>

lemma Dispatch_law:
  "ok w \<Longrightarrow> all_apart (ed_sinks d) w \<Longrightarrow> map_ok (ed_sinks d) \<Longrightarrow>
     \<exists>new w' cl. EventDispatcher_Dispatch pb send es d w =
         Inr (if ed_logger d then d\<lparr>ed_log := ed_log d @ new\<rparr> else d, w') \<and> ok w' \<and>
       (\<forall>(i, s) \<in> set (ed_sinks d). \<exists>fs. taken s w' = taken s w @ fs \<and> subseq fs (frames_of pb es) \<and>
          (Saturated (ed_roomID d) i \<notin> set new \<longrightarrow> fs = frames_of pb es)) \<and>
       (\<forall>t. behind t w' = behind t w) \<and> closing w' = closing w @ cl \<and>
       set cl = {c. \<exists>(i, s) \<in> set (ed_sinks d). Saturated (ed_roomID d) i \<in> set new \<and> behind s w = Some c}"
proof (induction es arbitrary: d w)
  case (Cons e es)
  let ?e = "\<lambda>n. if ed_logger d then d\<lparr>ed_log := ed_log d @ n\<rparr> else d"
  let ?to = "\<lambda>n. {c. \<exists>(i, s) \<in> set (ed_sinks d). Saturated (ed_roomID d) i \<in> set n \<and> behind s w = Some c}"
  have step: "\<exists>n w1 cl. dispatch_event pb send e d w = Inr (?e n, w1) \<and> ok w1 \<and> all_apart (ed_sinks d) w1 \<and>
      (\<forall>(i, s) \<in> set (ed_sinks d). \<exists>fs. taken s w1 = taken s w @ fs \<and> subseq fs (frames_of pb [e]) \<and>
        (Saturated (ed_roomID d) i \<notin> set n \<longrightarrow> fs = frames_of pb [e])) \<and>
      (\<forall>t. behind t w1 = behind t w) \<and> closing w1 = closing w @ cl \<and> set cl = ?to n"
  proof (cases "event_frame pb e")
    case (Inl err)
    then show ?thesis using Cons.prems
      by (intro exI[of _ "[InvalidEvent (ed_roomID d) e err]"] exI[of _ w] exI[of _ "[]"])
        (auto simp: dispatch_event_def logBadEvent_def frames_of_def)
  next
    case (Inr f)
    obtain refused w1 cl where r: "send_all send f (ed_sinks d) w = Inr (refused, w1)" "ok w1" "\<forall>t u. apart t u w1 = apart t u w"
      "\<forall>(i, s) \<in> set (ed_sinks d). taken s w1 = taken s w @ (if i \<in> set refused then [] else [f])"
      "\<forall>t. behind t w1 = behind t w" "closing w1 = closing w @ cl"
      "set cl = {c. \<exists>(i, s) \<in> set (ed_sinks d). i \<in> set refused \<and> behind s w = Some c}"
      using send_all_law[OF Cons.prems, of f] by blast
    have "\<exists>fs. taken s w1 = taken s w @ fs \<and> subseq fs [f] \<and> (i \<notin> set refused \<longrightarrow> fs = [f])"
      if "(i, s) \<in> set (ed_sinks d)" for i s using r(4) that by (intro exI[of _ "if i \<in> set refused then [] else [f]"]) auto
    moreover have "Saturated (ed_roomID d) i \<in> set (map (Saturated (ed_roomID d)) refused) \<longleftrightarrow> i \<in> set refused" for i by auto
    ultimately show ?thesis using Inr r(1,2,5,6,7) all_apart_cong[OF r(3)] Cons.prems(2)
      by (intro exI[of _ "map (Saturated (ed_roomID d)) refused"] exI[of _ w1] exI[of _ cl])
        (auto simp: dispatch_event_def EventDispatcher_broadcast_def frames_of_def)
  qed
  then obtain n w1 cl where n: "dispatch_event pb send e d w = Inr (?e n, w1)" "ok w1" "all_apart (ed_sinks d) w1"
    "\<forall>(i, s) \<in> set (ed_sinks d). \<exists>fs. taken s w1 = taken s w @ fs \<and> subseq fs (frames_of pb [e]) \<and>
        (Saturated (ed_roomID d) i \<notin> set n \<longrightarrow> fs = frames_of pb [e])"
    "\<forall>t. behind t w1 = behind t w" "closing w1 = closing w @ cl" "set cl = ?to n" by blast
  have e: "ed_sinks (?e n) = ed_sinks d" "ed_roomID (?e n) = ed_roomID d" "ed_logger (?e n) = ed_logger d" by simp_all
  obtain new w2 cl2 where w2: "EventDispatcher_Dispatch pb send es (?e n) w1 =
      Inr (if ed_logger d then (?e n)\<lparr>ed_log := ed_log (?e n) @ new\<rparr> else ?e n, w2)" "ok w2"
    "\<forall>(i, s) \<in> set (ed_sinks d). \<exists>fs. taken s w2 = taken s w1 @ fs \<and> subseq fs (frames_of pb es) \<and>
        (Saturated (ed_roomID d) i \<notin> set new \<longrightarrow> fs = frames_of pb es)"
    "\<forall>t. behind t w2 = behind t w1" "closing w2 = closing w1 @ cl2"
    "set cl2 = {c. \<exists>(i, s) \<in> set (ed_sinks d). Saturated (ed_roomID d) i \<in> set new \<and> behind s w1 = Some c}"
    using Cons.IH[of w1 "?e n"] n(2,3) Cons.prems(3) unfolding e by blast
  have fr: "frames_of pb (e # es) = frames_of pb [e] @ frames_of pb es" by (simp add: frames_of_def)
  have "\<exists>fs. taken s w2 = taken s w @ fs \<and> subseq fs (frames_of pb (e # es)) \<and>
      (Saturated (ed_roomID d) i \<notin> set (n @ new) \<longrightarrow> fs = frames_of pb (e # es))" if i: "(i, s) \<in> set (ed_sinks d)" for i s
  proof -
    obtain f1 f2 where "taken s w1 = taken s w @ f1" "subseq f1 (frames_of pb [e])" "taken s w2 = taken s w1 @ f2"
      "subseq f2 (frames_of pb es)" "Saturated (ed_roomID d) i \<notin> set n \<longrightarrow> f1 = frames_of pb [e]"
      "Saturated (ed_roomID d) i \<notin> set new \<longrightarrow> f2 = frames_of pb es" using n(4) w2(3) i by blast
    then show ?thesis unfolding fr by (intro exI[of _ "f1 @ f2"]) (auto intro: list_emb_append_mono)
  qed
  moreover have "EventDispatcher_Dispatch pb send (e # es) d w = Inr (?e (n @ new), w2)"
    using n(1) w2(1) by (cases "ed_logger d") simp_all
  moreover have "set (cl @ cl2) = ?to (n @ new)" using n(5,7) w2(6) by auto
  ultimately show ?case using w2(2,4,5) n(5,6) by (intro exI[of _ "n @ new"] exI[of _ w2] exI[of _ "cl @ cl2"]) auto
qed (auto simp: frames_of_def intro: exI[of _ "[]"])

end

end
