(* ===== verification/Sinks.thy ===== *)
theory Sinks
  imports Router
begin

text \<open>
  The sinks the server hands to the dispatchers (\<open>cmd/gameserver\<close>): \<open>closingSink\<close>, which closes a connection
  whose reliable queue is full, and \<open>deferredEventSink\<close>, which holds the first events of a new room back
  until the players have been told about the match.  Connections and deferred sinks are objects with an
  address; \<open>hub_closing\<close> lists the connections for which a goroutine that closes them has been started.
\<close>

section \<open>The objects\<close>

record deferredEventSink =
  ds_downstream :: nat
  ds_pending :: "byte list list"
  ds_released :: bool

record hub =
  hub_server :: Server
  hub_deferred :: "(nat, deferredEventSink) gomap"
  hub_closing :: "nat list"

definition NewHub :: hub where
  "NewHub = \<lparr>hub_server = NewServer, hub_deferred = [], hub_closing = []\<rparr>"

definition hub_conn :: "hub \<Rightarrow> nat \<Rightarrow> Connection option" where
  "hub_conn h i = map_of (sv_all (hub_server h)) i"

definition set_conn :: "nat \<Rightarrow> Connection \<Rightarrow> hub \<Rightarrow> hub" where
  "set_conn i c h = h\<lparr>hub_server := (hub_server h)\<lparr>sv_all := AList.update i c (sv_all (hub_server h)),
     sv_counters := cn_counters c\<rparr>\<rparr>"

text \<open>\<open>Send\<close> and \<open>SendSnapshot\<close> of a connection of the server; a reference always leads to a connection.\<close>

definition hub_Send :: "nat \<Rightarrow> byte list \<Rightarrow> hub \<Rightarrow> chan_panic + (bool \<times> hub)" where
  "hub_Send i frame h =
     (case hub_conn h i of None \<Rightarrow> Inr (False, h)
      | Some c \<Rightarrow> bind_sum (Send frame (c\<lparr>cn_counters := sv_counters (hub_server h)\<rparr>)) (\<lambda>(ok, c). Inr (ok, set_conn i c h)))"

definition hub_SendSnapshot :: "nat \<Rightarrow> byte list \<Rightarrow> hub \<Rightarrow> hub" where
  "hub_SendSnapshot i frame h =
     (case hub_conn h i of None \<Rightarrow> h
      | Some c \<Rightarrow> (case SendSnapshot frame (c\<lparr>cn_counters := sv_counters (hub_server h)\<rparr>) of
          Some (Inr (_, c)) \<Rightarrow> set_conn i c h | _ \<Rightarrow> h))"

definition spawn_close :: "nat \<Rightarrow> hub \<Rightarrow> hub" where
  "spawn_close i h = h\<lparr>hub_closing := hub_closing h @ [i]\<rparr>"

section \<open>The sinks\<close>

definition closingSink_Send :: "nat \<Rightarrow> byte list \<Rightarrow> hub \<Rightarrow> chan_panic + (bool \<times> hub)" where
  "closingSink_Send i frame h =
     bind_sum (hub_Send i frame h) (\<lambda>(ok, h). Inr (if ok then (True, h) else (False, spawn_close i h)))"

definition maxDeferredEvents :: nat where
  "maxDeferredEvents = 128"

definition newDeferredEventSink :: "nat \<Rightarrow> hub \<Rightarrow> nat \<times> hub" where
  "newDeferredEventSink downstream h =
     (let k = length (hub_deferred h)
      in (k, h\<lparr>hub_deferred := AList.update k \<lparr>ds_downstream = downstream, ds_pending = [], ds_released = False\<rparr> (hub_deferred h)\<rparr>))"

definition set_deferred :: "nat \<Rightarrow> deferredEventSink \<Rightarrow> hub \<Rightarrow> hub" where
  "set_deferred k s h = h\<lparr>hub_deferred := AList.update k s (hub_deferred h)\<rparr>"

definition deferredEventSink_Send :: "nat \<Rightarrow> byte list \<Rightarrow> hub \<Rightarrow> chan_panic + (bool \<times> hub)" where
  "deferredEventSink_Send k frame h =
     (case map_of (hub_deferred h) k of None \<Rightarrow> Inr (False, h)
      | Some s \<Rightarrow>
        if ds_released s then closingSink_Send (ds_downstream s) frame h
        else if length (ds_pending s) = maxDeferredEvents then Inr (False, spawn_close (ds_downstream s) h)
        else Inr (True, set_deferred k (s\<lparr>ds_pending := ds_pending s @ [frame]\<rparr>) h))"

text \<open>The loop of \<open>Release\<close>, which stops at the first frame the connection refuses.\<close>

fun release_all :: "nat \<Rightarrow> byte list list \<Rightarrow> hub \<Rightarrow> chan_panic + hub" where
  "release_all i [] h = Inr h"
| "release_all i (f # fs) h =
     bind_sum (closingSink_Send i f h) (\<lambda>(ok, h). if ok then release_all i fs h else Inr h)"

definition Release :: "nat \<Rightarrow> hub \<Rightarrow> chan_panic + hub" where
  "Release k h =
     (case map_of (hub_deferred h) k of None \<Rightarrow> Inr h
      | Some s \<Rightarrow> bind_sum (release_all (ds_downstream s) (ds_pending s) h)
          (\<lambda>h. Inr (set_deferred k (s\<lparr>ds_pending := [], ds_released := True\<rparr>) h)))"

datatype sink = ClosingSink nat | DeferredSink nat

definition sink_Send :: "sink \<Rightarrow> byte list \<Rightarrow> hub \<Rightarrow> chan_panic + (bool \<times> hub)" where
  "sink_Send s frame h = (case s of ClosingSink i \<Rightarrow> closingSink_Send i frame h | DeferredSink k \<Rightarrow> deferredEventSink_Send k frame h)"

section \<open>What they keep\<close>

definition hub_ok :: "hub \<Rightarrow> bool" where
  "hub_ok h \<longleftrightarrow> server_inv (hub_server h) \<and> (\<forall>k s. map_of (hub_deferred h) k = Some s \<longrightarrow>
     ds_downstream s < length (sv_all (hub_server h)) \<and> length (ds_pending s) \<le> maxDeferredEvents \<and>
     (ds_released s \<longrightarrow> ds_pending s = [])) \<and> keys (hub_deferred h) = [0..<length (hub_deferred h)]"

text \<open>The frames a sink has accepted and that are still in the server, in the order of acceptance.\<close>

definition queued :: "nat \<Rightarrow> hub \<Rightarrow> byte list list" where
  "queued i h = (case hub_conn h i of None \<Rightarrow> [] | Some c \<Rightarrow> ch_buf (cn_out c))"

definition sink_taken :: "sink \<Rightarrow> hub \<Rightarrow> byte list list" where
  "sink_taken s h = (case s of ClosingSink i \<Rightarrow> queued i h
     | DeferredSink k \<Rightarrow> (case map_of (hub_deferred h) k of None \<Rightarrow> []
         | Some d \<Rightarrow> if ds_released d then queued (ds_downstream d) h else ds_pending d))"

text \<open>The connection behind a sink; sinks of different connections are different receivers.\<close>

definition sink_conn :: "sink \<Rightarrow> hub \<Rightarrow> nat option" where
  "sink_conn s h = (case s of ClosingSink i \<Rightarrow> Some i | DeferredSink k \<Rightarrow> map_option ds_downstream (map_of (hub_deferred h) k))"

definition sinks_apart :: "sink \<Rightarrow> sink \<Rightarrow> hub \<Rightarrow> bool" where
  "sinks_apart s t h \<longleftrightarrow> s \<noteq> t \<and> (sink_conn s h \<noteq> sink_conn t h)"

lemma hub_ok_conn: "hub_ok h \<Longrightarrow> hub_conn h i = Some c \<Longrightarrow> conn_ok c"
  by (simp add: hub_ok_def server_inv_def hub_conn_def)

lemma set_conn_ok:
  assumes "hub_ok h" and "hub_conn h i = Some c" and "conn_ok c'" and "cn_closeOnce c' = cn_closeOnce c"
  shows "hub_ok (set_conn i c' h)"
proof -
  have "i \<in> dom (map_of (sv_all (hub_server h)))" using assms(2) by (auto simp: hub_conn_def)
  then have "keys (AList.update i c' (sv_all (hub_server h))) = keys (sv_all (hub_server h))"
    by (simp add: keys_update set_keys)
  then have "length (AList.update i c' (sv_all (hub_server h))) = length (sv_all (hub_server h))" by (metis length_keys)
  then show ?thesis
    using assms server_inv_update[of "hub_server h" i c c' "cn_counters c'"] by (simp add: hub_ok_def set_conn_def hub_conn_def)
qed

lemma queued_set_conn: "queued j (set_conn i c h) = (if j = i then ch_buf (cn_out c) else queued j h)"
  by (simp add: queued_def hub_conn_def set_conn_def update_conv')

lemma spawn_close_simps [simp]:
  "hub_server (spawn_close i h) = hub_server h" "hub_deferred (spawn_close i h) = hub_deferred h"
  "hub_closing (spawn_close i h) = hub_closing h @ [i]" "hub_ok (spawn_close i h) = hub_ok h" "queued j (spawn_close i h) = queued j h"
  by (simp_all add: spawn_close_def hub_ok_def queued_def hub_conn_def)

lemma set_conn_simps [simp]:
  "hub_deferred (set_conn i c h) = hub_deferred h" "hub_closing (set_conn i c h) = hub_closing h"
  by (simp_all add: set_conn_def)

lemma hub_Send_ok:
  assumes "hub_ok h"
  shows "\<exists>b h'. hub_Send i f h = Inr (b, h') \<and> hub_ok h' \<and> hub_deferred h' = hub_deferred h \<and> hub_closing h' = hub_closing h \<and>
    (\<forall>j. queued j h' = (if j = i \<and> b then queued j h @ [f] else queued j h))"
proof (cases "hub_conn h i")
  case None
  then show ?thesis using assms by (intro exI[of _ False] exI[of _ h]) (simp add: hub_Send_def)
next
  case (Some c)
  let ?c = "c\<lparr>cn_counters := sv_counters (hub_server h)\<rparr>"
  have c: "conn_ok ?c" using hub_ok_conn[OF assms Some] by simp
  obtain b c' where s: "Send f ?c = Inr (b, c')" "conn_ok c'"
    "ch_buf (cn_out c') = (if b then ch_buf (cn_out ?c) @ [f] else ch_buf (cn_out ?c))"
    using Send_ok[OF c, of f] by blast
  have "cn_closeOnce c' = cn_closeOnce c" using conn_move_ok[OF conn_move.send[OF s(1)] c] by simp
  then have "hub_ok (set_conn i c' h)" by (rule set_conn_ok[OF assms Some s(2)])
  then show ?thesis using Some s by (auto simp: hub_Send_def queued_set_conn) (auto simp: queued_def)
qed

lemma closingSink_Send_ok:
  assumes "hub_ok h"
  shows "\<exists>b h'. closingSink_Send i f h = Inr (b, h') \<and> hub_ok h' \<and> hub_deferred h' = hub_deferred h \<and>
    hub_closing h' = (if b then hub_closing h else hub_closing h @ [i]) \<and>
    (\<forall>j. queued j h' = (if j = i \<and> b then queued j h @ [f] else queued j h))"
  using hub_Send_ok[OF assms, of i f] by (force simp: closingSink_Send_def)

lemma set_deferred_simps [simp]:
  "hub_server (set_deferred k s h) = hub_server h" "hub_closing (set_deferred k s h) = hub_closing h"
  "queued j (set_deferred k s h) = queued j h"
  "map_of (hub_deferred (set_deferred k s h)) = (map_of (hub_deferred h))(k \<mapsto> s)"
  by (simp_all add: set_deferred_def queued_def hub_conn_def update_conv')

lemma set_deferred_ok:
  assumes "hub_ok h" and "map_of (hub_deferred h) k = Some s" and "ds_downstream s' = ds_downstream s"
    and "length (ds_pending s') \<le> maxDeferredEvents" and "ds_released s' \<longrightarrow> ds_pending s' = []"
  shows "hub_ok (set_deferred k s' h)"
proof -
  have "keys (AList.update k s' (hub_deferred h)) = keys (hub_deferred h)"
    using assms(2) by (auto simp: keys_update set_keys)
  then have k: "keys (hub_deferred (set_deferred k s' h)) = keys (hub_deferred h)"
    "length (hub_deferred (set_deferred k s' h)) = length (hub_deferred h)"
    by (simp_all add: set_deferred_def) (metis length_keys)
  show ?thesis using assms k by (auto simp: hub_ok_def)
qed

lemma spawn_close_sinks [simp]:
  "sink_conn s (spawn_close i h) = sink_conn s h" "sink_taken s (spawn_close i h) = sink_taken s h"
  "sinks_apart s t (spawn_close i h) = sinks_apart s t h"
  by (simp_all add: sink_conn_def sink_taken_def sinks_apart_def cong: sink.case_cong option.case_cong if_cong)

lemma set_deferred_sinks:
  assumes "map_of (hub_deferred h) k = Some d" and "ds_downstream d' = ds_downstream d"
  shows "sink_conn t (set_deferred k d' h) = sink_conn t h"
    and "sinks_apart t u (set_deferred k d' h) = sinks_apart t u h"
    and "sink_taken t (set_deferred k d' h) =
      (if t = DeferredSink k then if ds_released d' then queued (ds_downstream d) h else ds_pending d' else sink_taken t h)"
proof -
  show "sink_conn t (set_deferred k d' h) = sink_conn t h" for t using assms by (simp add: sink_conn_def split: sink.split)
  then show "sinks_apart t u (set_deferred k d' h) = sinks_apart t u h" by (simp add: sinks_apart_def)
qed (use assms in \<open>simp add: sink_taken_def split: sink.split cong: option.case_cong if_cong\<close>)

interpretation sinks: event_sink sink_Send sink_taken hub_ok sinks_apart sink_conn hub_closing
proof
  fix h s f assume ok: "hub_ok h"
  let ?goal = "\<lambda>b h'. hub_ok h' \<and> (\<forall>t u. sinks_apart t u h' = sinks_apart t u h) \<and>
      sink_taken s h' = sink_taken s h @ (if b then [f] else []) \<and> (\<forall>t. sinks_apart s t h \<longrightarrow> sink_taken t h' = sink_taken t h) \<and>
      (\<forall>t. sink_conn t h' = sink_conn t h) \<and>
      hub_closing h' = hub_closing h @ (if b then [] else case sink_conn s h of None \<Rightarrow> [] | Some c \<Rightarrow> [c])"
  have direct: "\<exists>b h'. closingSink_Send i f h = Inr (b, h') \<and> ?goal b h'"
    if i: "sink_conn s h = Some i" "sink_taken s h = queued i h" "\<And>h'. hub_deferred h' = hub_deferred h \<Longrightarrow> sink_taken s h' = queued i h'" for i
  proof -
    obtain b h' where s: "closingSink_Send i f h = Inr (b, h')" "hub_ok h'" "hub_deferred h' = hub_deferred h"
      "\<forall>j. queued j h' = (if j = i \<and> b then queued j h @ [f] else queued j h)"
      "hub_closing h' = (if b then hub_closing h else hub_closing h @ [i])" using closingSink_Send_ok[OF ok, of i f] by blast
    have "sink_taken t h' = sink_taken t h" if "sink_conn t h \<noteq> Some i" for t
      using that s(3,4) by (auto simp: sink_taken_def sink_conn_def split: sink.splits option.splits)
    moreover have "sink_conn t h' = sink_conn t h" for t using s(3) by (cases t) (simp_all add: sink_conn_def)
    ultimately show ?thesis using s i by (auto simp: sinks_apart_def)
  qed
  show "\<exists>b h'. sink_Send s f h = Inr (b, h') \<and> ?goal b h'"
  proof (cases s)
    case (ClosingSink i)
    then show ?thesis using direct[of i] by (simp add: sink_Send_def sink_conn_def sink_taken_def)
  next
    case (DeferredSink k)
    show ?thesis
    proof (cases "map_of (hub_deferred h) k")
      case None
      then show ?thesis using DeferredSink ok
        by (intro exI[of _ False] exI[of _ h]) (simp add: sink_Send_def deferredEventSink_Send_def sink_conn_def)
    next
      case (Some d)
      have le: "length (ds_pending d) \<le> maxDeferredEvents" using ok Some by (auto simp: hub_ok_def)
      show ?thesis
      proof (cases "ds_released d")
        case True
        then show ?thesis using direct[of "ds_downstream d"] Some DeferredSink
          by (simp add: sink_Send_def sink_conn_def sink_taken_def deferredEventSink_Send_def)
      next
        case False
        show ?thesis
        proof (cases "length (ds_pending d) = maxDeferredEvents")
          case True
          then have "sink_Send s f h = Inr (False, spawn_close (ds_downstream d) h)"
            using Some False DeferredSink by (simp add: sink_Send_def deferredEventSink_Send_def)
          moreover have "sink_conn s h = Some (ds_downstream d)" using Some DeferredSink by (simp add: sink_conn_def)
          ultimately show ?thesis using ok by (intro exI[of _ False] exI[of _ "spawn_close (ds_downstream d) h"]) simp
        next
          case full: False
          let ?h = "set_deferred k (d\<lparr>ds_pending := ds_pending d @ [f]\<rparr>) h"
          have "hub_ok ?h" by (rule set_deferred_ok[OF ok Some]) (use False full le in auto)
          moreover have "sink_Send s f h = Inr (True, ?h)"
            using Some False full DeferredSink by (simp add: sink_Send_def deferredEventSink_Send_def)
          moreover have "sink_taken s h = ds_pending d" using Some False DeferredSink by (simp add: sink_taken_def)
          ultimately show ?thesis using False DeferredSink set_deferred_sinks[OF Some, of "d\<lparr>ds_pending := ds_pending d @ [f]\<rparr>"]
            by (intro exI[of _ True] exI[of _ ?h]) (auto simp: sinks_apart_def)
        qed
      qed
    qed
  qed
qed

section \<open>Opening a room\<close>

text \<open>Before the release, events go to the sink and other messages straight to the connection, in any order.\<close>

datatype opening_act = Room_event "byte list" | Direct_message "byte list"

fun before_release :: "nat \<Rightarrow> nat \<Rightarrow> opening_act list \<Rightarrow> hub \<Rightarrow> chan_panic + (byte list list \<times> byte list list \<times> hub)" where
  "before_release k i [] h = Inr ([], [], h)"
| "before_release k i (Room_event f # as) h =
     bind_sum (deferredEventSink_Send k f h) (\<lambda>(ok, h). bind_sum (before_release k i as h)
       (\<lambda>(es, ms, h). Inr (if ok then f # es else es, ms, h)))"
| "before_release k i (Direct_message f # as) h =
     bind_sum (hub_Send i f h) (\<lambda>(ok, h). bind_sum (before_release k i as h)
       (\<lambda>(es, ms, h). Inr (es, if ok then f # ms else ms, h)))"

definition room_events :: "opening_act list \<Rightarrow> byte list list" where
  "room_events as = concat (map (\<lambda>a. case a of Room_event f \<Rightarrow> [f] | Direct_message _ \<Rightarrow> []) as)"

lemma before_release_ok:
  "hub_ok h \<Longrightarrow> map_of (hub_deferred h) k = Some d \<Longrightarrow> \<not> ds_released d \<Longrightarrow> ds_downstream d = i \<Longrightarrow>
     \<exists>es ms h' cl. before_release k i as h = Inr (es, ms, h') \<and> hub_ok h' \<and>
       map_of (hub_deferred h') k = Some (d\<lparr>ds_pending := ds_pending d @ es\<rparr>) \<and> queued i h' = queued i h @ ms \<and>
       hub_closing h' = hub_closing h @ cl \<and> (es = room_events as \<or> i \<in> set cl)"
proof (induction as arbitrary: h d)
  case Nil
  then show ?case by (simp add: room_events_def)
next
  case (Cons a as)
  show ?case
  proof (cases a)
    case (Direct_message f)
    obtain b h1 where s: "hub_Send i f h = Inr (b, h1)" "hub_ok h1" "hub_deferred h1 = hub_deferred h"
      "hub_closing h1 = hub_closing h" "queued i h1 = (if b then queued i h @ [f] else queued i h)"
      using hub_Send_ok[OF Cons.prems(1), of i f] by auto
    obtain es ms h' cl where r: "before_release k i as h1 = Inr (es, ms, h')" "hub_ok h'"
      "map_of (hub_deferred h') k = Some (d\<lparr>ds_pending := ds_pending d @ es\<rparr>)" "queued i h' = queued i h1 @ ms"
      "hub_closing h' = hub_closing h1 @ cl" "es = room_events as \<or> i \<in> set cl"
      using Cons.IH[OF s(2), of d] Cons.prems s(3) by auto
    then show ?thesis using s Direct_message by (cases b) (simp_all add: room_events_def)
  next
    case (Room_event f)
    show ?thesis
    proof (cases "length (ds_pending d) = maxDeferredEvents")
      case True
      then have s: "deferredEventSink_Send k f h = Inr (False, spawn_close i h)"
        using Cons.prems by (simp add: deferredEventSink_Send_def)
      obtain es ms h' cl where "before_release k i as (spawn_close i h) = Inr (es, ms, h')" "hub_ok h'"
        "map_of (hub_deferred h') k = Some (d\<lparr>ds_pending := ds_pending d @ es\<rparr>)" "queued i h' = queued i h @ ms"
        "hub_closing h' = (hub_closing h @ [i]) @ cl"
        using Cons.IH[of "spawn_close i h" d] Cons.prems by auto
      then show ?thesis using s Room_event by (auto intro!: exI[of _ "i # cl"])
    next
      case False
      let ?d = "d\<lparr>ds_pending := ds_pending d @ [f]\<rparr>" let ?h = "set_deferred k ?d h"
      have s: "deferredEventSink_Send k f h = Inr (True, ?h)" using Cons.prems False by (simp add: deferredEventSink_Send_def)
      have "length (ds_pending d) \<le> maxDeferredEvents" using Cons.prems(1,2) by (auto simp: hub_ok_def)
      then have "hub_ok ?h" using set_deferred_ok[OF Cons.prems(1,2), of ?d] False Cons.prems(3) by simp
      then obtain es ms h' cl where "before_release k i as ?h = Inr (es, ms, h')" "hub_ok h'"
        "map_of (hub_deferred h') k = Some (?d\<lparr>ds_pending := ds_pending ?d @ es\<rparr>)" "queued i h' = queued i h @ ms"
        "hub_closing h' = hub_closing h @ cl" "es = room_events as \<or> i \<in> set cl"
        using Cons.IH[of ?h ?d] Cons.prems(3,4) by auto
      then show ?thesis using s Room_event by (auto simp: room_events_def)
    qed
  qed
qed

lemma release_all_ok:
  "hub_ok h \<Longrightarrow> \<exists>n h' cl. release_all i fs h = Inr h' \<and> hub_ok h' \<and> hub_deferred h' = hub_deferred h \<and>
     queued i h' = queued i h @ take n fs \<and> hub_closing h' = hub_closing h @ cl \<and> (n \<ge> length fs \<or> i \<in> set cl)"
proof (induction fs arbitrary: h)
  case (Cons f fs)
  obtain b h1 where s: "closingSink_Send i f h = Inr (b, h1)" "hub_ok h1" "hub_deferred h1 = hub_deferred h"
    "hub_closing h1 = (if b then hub_closing h else hub_closing h @ [i])"
    "queued i h1 = (if b then queued i h @ [f] else queued i h)" using closingSink_Send_ok[OF Cons.prems, of i f] by auto
  show ?case
  proof (cases b)
    case True
    obtain n h' cl where "release_all i fs h1 = Inr h'" "hub_ok h'" "hub_deferred h' = hub_deferred h1"
      "queued i h' = queued i h1 @ take n fs" "hub_closing h' = hub_closing h1 @ cl" "n \<ge> length fs \<or> i \<in> set cl"
      using Cons.IH[OF s(2)] by blast
    then show ?thesis using s True by (intro exI[of _ "Suc n"] exI[of _ h'] exI[of _ cl]) auto
  next
    case False
    then show ?thesis using s by (intro exI[of _ 0] exI[of _ h1] exI[of _ "[i]"]) auto
  qed
qed simp

lemma Release_ok:
  assumes "hub_ok h" and "map_of (hub_deferred h) k = Some d"
  shows "\<exists>n h' cl. Release k h = Inr h' \<and> hub_ok h' \<and> queued (ds_downstream d) h' = queued (ds_downstream d) h @ take n (ds_pending d) \<and>
    hub_closing h' = hub_closing h @ cl \<and> (n \<ge> length (ds_pending d) \<or> ds_downstream d \<in> set cl) \<and>
    map_of (hub_deferred h') k = Some (d\<lparr>ds_pending := [], ds_released := True\<rparr>)"
proof -
  obtain n h1 cl where r: "release_all (ds_downstream d) (ds_pending d) h = Inr h1" "hub_ok h1" "hub_deferred h1 = hub_deferred h"
    "queued (ds_downstream d) h1 = queued (ds_downstream d) h @ take n (ds_pending d)" "hub_closing h1 = hub_closing h @ cl"
    "n \<ge> length (ds_pending d) \<or> ds_downstream d \<in> set cl" using release_all_ok[OF assms(1), of "ds_downstream d" "ds_pending d"] by blast
  have "hub_ok (set_deferred k (d\<lparr>ds_pending := [], ds_released := True\<rparr>) h1)"
    using set_deferred_ok[OF r(2), of k d] r(3) assms(2) by simp
  then show ?thesis using r assms(2) by (auto simp: Release_def)
qed

lemma newDeferredEventSink_ok:
  assumes "hub_ok h" and "hub_conn h i = Some c" and "newDeferredEventSink i h = (k, h')"
  shows "hub_ok h' \<and> map_of (hub_deferred h') k = Some \<lparr>ds_downstream = i, ds_pending = [], ds_released = False\<rparr> \<and>
    queued j h' = queued j h \<and> hub_closing h' = hub_closing h \<and> hub_server h' = hub_server h"
proof -
  let ?n = "length (hub_deferred h)" let ?d = "\<lparr>ds_downstream = i, ds_pending = [], ds_released = False\<rparr>"
  have k: "k = ?n" "h' = h\<lparr>hub_deferred := AList.update ?n ?d (hub_deferred h)\<rparr>"
    using assms(3) by (auto simp: newDeferredEventSink_def Let_def)
  have keys: "keys (hub_deferred h) = [0..<?n]" using assms(1) by (simp add: hub_ok_def)
  then have u: "keys (AList.update ?n ?d (hub_deferred h)) = [0..<Suc ?n]" by (simp add: keys_update)
  then have "length (AList.update ?n ?d (hub_deferred h)) = Suc ?n" by (metis length_keys length_upt diff_zero)
  moreover have "i \<in> set (keys (sv_all (hub_server h)))" using assms(2) by (auto simp: hub_conn_def set_keys)
  then have "i < length (sv_all (hub_server h))" using assms(1) by (simp add: hub_ok_def server_inv_def)
  ultimately show ?thesis using assms(1) u by (auto simp: k hub_ok_def update_conv' queued_def hub_conn_def)
qed

section \<open>Properties\<close>

definition sample_codec :: codec where
  "sample_codec = \<lparr>marshal = (\<lambda>_. Some [1]), unmarshal_Ping = (\<lambda>_. Some (0, 0)), unmarshal_LoginRequest = (\<lambda>_. Some (2, [], [])),
     unmarshal_MatchRequest = (\<lambda>_. Some (0, [])), unmarshal_MatchCancel = (\<lambda>_. Some ()), unmarshal_PlayerInput = (\<lambda>_. None),
     unmarshal_RewardChoice = (\<lambda>_. Some 1), unmarshal_NextStageRequest = (\<lambda>_. Some ())\<rparr>"

definition sample_hub :: hub where
  "sample_hub = NewHub\<lparr>hub_server := accept_conn (accept_conn NewServer)\<rparr>"

lemma sample_hub_ok: "hub_ok sample_hub"
proof -
  have "server_reachable (accept_conn (accept_conn NewServer))"
    by (intro server_reachable.step[OF server_reachable.step[OF server_reachable.new server_step.accept] server_step.accept])
  then show ?thesis using server_reachable_inv by (auto simp: sample_hub_def hub_ok_def NewHub_def keys_def)
qed

lemma sample_hub_queued: "queued 0 sample_hub = []" "queued (Suc 0) sample_hub = []" "hub_closing sample_hub = []"
    "hub_conn sample_hub 0 \<noteq> None"
  by (simp_all add: queued_def hub_conn_def sample_hub_def NewHub_def NewServer_def accept_conn_def track_def newConnection_def Let_def)





end
