(* ===== verification/Results.thy ===== *)
theory Results
  imports Director Channel "HOL-Library.Char_ord"
begin

text \<open>
  Game results on their way to the database (\<open>persistence/results.go\<close>): the envelope with its validation,
  and the store, which inserts a result once per match ID.  The database is the two tables the code
  uses, with the uniqueness of \<open>match_id\<close> that MySQL enforces and what the types of the columns do to a value; where a
  statement may fail for reasons of its own, the failure is an argument.  JSON and the digest are parameters.
\<close>

section \<open>Envelopes\<close>

record ResultEnvelope =
  e_MatchID :: string
  e_RoomID :: u64
  e_CreatedAt :: time
  e_Result :: GameResult

definition Envelope_Clone :: "ResultEnvelope \<Rightarrow> ResultEnvelope" where
  "Envelope_Clone e = e"

text \<open>\<open>^[A-Za-z0-9][A-Za-z0-9._:-]{0,63}$\<close>\<close>

definition id_letter :: "char \<Rightarrow> bool" where
  "id_letter c \<longleftrightarrow> (CHR ''A'' \<le> c \<and> c \<le> CHR ''Z'') \<or> (CHR ''a'' \<le> c \<and> c \<le> CHR ''z'') \<or> (CHR ''0'' \<le> c \<and> c \<le> CHR ''9'')"

definition matchIDPattern :: "string \<Rightarrow> bool" where
  "matchIDPattern s =
     (case s of [] \<Rightarrow> False
      | c # cs \<Rightarrow> id_letter c \<and> length cs \<le> 63 \<and> list_all (\<lambda>d. id_letter d \<or> d \<in> set ''._:-'') cs)"

fun stages_valid :: "GameResult \<Rightarrow> u32 \<Rightarrow> StageSummary list \<Rightarrow> bool" where
  "stages_valid r previousStage [] = True"
| "stages_valid r previousStage (s # ss) =
     (if ss_Index s = 0 \<or> ss_Index s \<le> previousStage \<or> gr_FinalStageIndex r < ss_Index s \<or>
        ss_ClearTick s < gr_StartedAtTick r \<or> gr_EndedAtTick r < ss_ClearTick s \<or>
        IsNaN (ss_DifficultyScore s) \<or> IsInf (ss_DifficultyScore s) \<or> ss_DifficultyScore s \<le> Fin 0 \<or>
        Metrics_Validate (ss_Performance s) \<noteq> Inr ()
      then False else stages_valid r (ss_Index s) ss)"

fun players_valid :: "u64 list \<Rightarrow> PlayerResult list \<Rightarrow> bool" where
  "players_valid seen [] = True"
| "players_valid seen (p # ps) =
     (if pr_PlayerID p = 0 \<or> \<not> CombatStats_Valid (pr_Stats p) \<or> IsNaN (pr_Health p) \<or> IsInf (pr_Health p) \<or>
        pr_Health p < Fin 0 \<or> cs_MaxHealth (pr_Stats p) < pr_Health p \<or> (pr_Alive p \<and> pr_Health p \<le> Fin 0)
      then False
      else if pr_PlayerID p \<in> set seen then False
      else players_valid (pr_PlayerID p # seen) ps)"

definition Envelope_Validate :: "ResultEnvelope \<Rightarrow> bool" where
  "Envelope_Validate e =
     (let r = e_Result e
      in if \<not> matchIDPattern (e_MatchID e) \<or> e_RoomID e = 0 \<or> \<not> GameOutcome_Valid (gr_Outcome r) \<or>
           gr_EndedAtTick r < gr_StartedAtTick r \<or> gr_FinalStageIndex r = 0 \<or> length (gr_Players r) = 0 \<or> 128 < length (gr_Players r)
         then False
         else if \<not> stages_valid r 0 (gr_ClearedStages r) then False
         else if gr_Outcome r = GameVictory \<and> gr_ClearedStages r = [] then False
         else players_valid [] (gr_Players r))"

section \<open>Errors\<close>

text \<open>An error with the sentinels \<open>errors.Is\<close> finds in it.\<close>

datatype persist_sentinel = ErrInvalidResultEnvelope | ErrResultConflict | ErrResultNotFound | ErrResultBackend
  | ErrInvalidResultStore | ErrInvalidDeadLetter | Ctx_canceled | Ctx_deadline | ErrResultWriterClosed | ErrResultQueueFull | ErrInvalidResultWriter
  | ErrResultDeadLetter | OtherPersistError string

type_synonym persist_error = "persist_sentinel list"

definition Is :: "persist_error \<Rightarrow> persist_sentinel \<Rightarrow> bool" where
  "Is err s \<longleftrightarrow> s \<in> set err"

definition resultBackendError :: "persist_error \<Rightarrow> persist_error" where
  "resultBackendError err = ErrResultBackend # err"

section \<open>The store\<close>

datatype PersistDisposition = PersistInserted | PersistIdempotent

type_synonym bytes = "u8 list"

record match_row =
  mr_RoomID :: u64
  mr_Outcome :: string
  mr_StartedTick :: u64
  mr_EndedTick :: u64
  mr_FinalStage :: u32
  mr_Payload :: bytes
  mr_Digest :: bytes
  mr_CreatedAt :: time

record database =
  db_results :: "(string, match_row) gomap"
  db_players :: "((string \<times> u64), PlayerResult) gomap"

text \<open>\<open>encoding/json\<close> and \<open>crypto/sha256\<close>: the JSON of a result, the JSON of a result with its schema version
  and room, the decoder, and the digest.  A column of type \<open>JSON\<close> gives a document back in the form MySQL
  normalises it to, \<open>js_column\<close>.\<close>

record json_codec =
  js_result :: "GameResult \<Rightarrow> bytes option"
  js_canonical :: "int \<Rightarrow> u64 \<Rightarrow> GameResult \<Rightarrow> bytes option"
  js_decode :: "bytes \<Rightarrow> GameResult option"
  js_sha256 :: "bytes \<Rightarrow> bytes"
  js_column :: "bytes \<Rightarrow> bytes"

definition resultSchemaVersion :: int where
  "resultSchemaVersion = 1"

definition resultPayload :: "json_codec \<Rightarrow> ResultEnvelope \<Rightarrow> persist_error + (bytes \<times> bytes)" where
  "resultPayload js e =
     (case js_result js (e_Result e) of None \<Rightarrow> Inl [OtherPersistError ''encode result'']
      | Some payload \<Rightarrow>
        (case js_canonical js resultSchemaVersion (e_RoomID e) (e_Result e) of None \<Rightarrow> Inl [OtherPersistError ''hash result'']
         | Some hashPayload \<Rightarrow> Inr (payload, js_sha256 js hashPayload)))"

text \<open>Where the transaction may fail: every statement has an answer of its own.\<close>

record db_answers =
  da_begin :: "persist_error option"
  da_insert :: "persist_error option"
  da_verify :: "persist_error option"
  da_player :: "u64 \<Rightarrow> persist_error option"
  da_commit :: "persist_error option"
  da_now :: time

fun insert_players :: "(u64 \<Rightarrow> persist_error option) \<Rightarrow> string \<Rightarrow> PlayerResult list \<Rightarrow> database \<Rightarrow> persist_error + database" where
  "insert_players answer matchID [] db = Inr db"
| "insert_players answer matchID (p # ps) db =
     (case answer (pr_PlayerID p) of Some err \<Rightarrow> Inl (resultBackendError err)
      | None \<Rightarrow> insert_players answer matchID ps (db\<lparr>db_players := AList.update (matchID, pr_PlayerID p) p (db_players db)\<rparr>))"

text \<open>The column \<open>created_at\<close> is a \<open>DATETIME(6)\<close> (\<open>migrations/001_match_results.sql\<close>): MySQL rounds a time to whole microseconds.\<close>

definition datetime6 :: "time \<Rightarrow> time" where
  "datetime6 t = (t + 500) div 1000 * 1000"

definition result_row :: "json_codec \<Rightarrow> bytes \<Rightarrow> bytes \<Rightarrow> time \<Rightarrow> ResultEnvelope \<Rightarrow> match_row" where
  "result_row js payload digest createdAt e = \<lparr>mr_RoomID = e_RoomID e, mr_Outcome = GameOutcome_String (gr_Outcome (e_Result e)),
     mr_StartedTick = gr_StartedAtTick (e_Result e), mr_EndedTick = gr_EndedAtTick (e_Result e),
     mr_FinalStage = gr_FinalStageIndex (e_Result e), mr_Payload = js_column js payload, mr_Digest = digest, mr_CreatedAt = datetime6 createdAt\<rparr>"

text \<open>Everything before the commit is undone by the deferred rollback: the database changes only with the commit.\<close>

definition Persist :: "json_codec \<Rightarrow> db_answers \<Rightarrow> ResultEnvelope \<Rightarrow> database \<Rightarrow> (persist_error + PersistDisposition) \<times> database" where
  "Persist js answers e db =
     (if \<not> Envelope_Validate e then (Inl [ErrInvalidResultEnvelope], db)
      else case resultPayload js e of Inl err \<Rightarrow> (Inl err, db)
      | Inr (payload, digest) \<Rightarrow>
        let createdAt = (if e_CreatedAt e = 0 then da_now answers else e_CreatedAt e)
        in case da_begin answers of Some err \<Rightarrow> (Inl (resultBackendError err), db)
        | None \<Rightarrow>
          case da_insert answers of Some err \<Rightarrow> (Inl (resultBackendError err), db)
          | None \<Rightarrow>
            (case map_of (db_results db) (e_MatchID e) of
               Some existing \<Rightarrow>
                 (case da_verify answers of Some err \<Rightarrow> (Inl (resultBackendError err), db)
                  | None \<Rightarrow>
                    if mr_Digest existing \<noteq> digest then (Inl [ErrResultConflict], db)
                    else case da_commit answers of Some err \<Rightarrow> (Inl (resultBackendError err), db)
                      | None \<Rightarrow> (Inr PersistIdempotent, db))
             | None \<Rightarrow>
                 (case insert_players (da_player answers) (e_MatchID e) (gr_Players (e_Result e))
                         (db\<lparr>db_results := AList.update (e_MatchID e) (result_row js payload digest createdAt e) (db_results db)\<rparr>) of
                    Inl err \<Rightarrow> (Inl err, db)
                  | Inr db' \<Rightarrow>
                    (case da_commit answers of Some err \<Rightarrow> (Inl (resultBackendError err), db)
                     | None \<Rightarrow> (Inr PersistInserted, db')))))"

definition Load_result :: "json_codec \<Rightarrow> persist_error option \<Rightarrow> string \<Rightarrow> database \<Rightarrow> persist_error + ResultEnvelope" where
  "Load_result js failure matchID db =
     (if \<not> matchIDPattern matchID then Inl [ErrInvalidResultEnvelope]
      else case failure of Some err \<Rightarrow> Inl (resultBackendError err)
      | None \<Rightarrow>
        (case map_of (db_results db) matchID of None \<Rightarrow> Inl [ErrResultNotFound]
         | Some row \<Rightarrow>
           (case js_decode js (mr_Payload row) of None \<Rightarrow> Inl [ErrResultBackend]
            | Some r \<Rightarrow>
              let e = \<lparr>e_MatchID = matchID, e_RoomID = mr_RoomID row, e_CreatedAt = mr_CreatedAt row, e_Result = r\<rparr>
              in if \<not> Envelope_Validate e then Inl [ErrResultBackend] else Inr e)))"

section \<open>What the store keeps\<close>

definition healthy :: "db_answers \<Rightarrow> bool" where
  "healthy a \<longleftrightarrow> da_begin a = None \<and> da_insert a = None \<and> da_verify a = None \<and> da_player a = (\<lambda>_. None) \<and> da_commit a = None"

lemma insert_players_results:
  "insert_players answer i ps db = Inr db' \<Longrightarrow> db_results db' = db_results db"
  by (induction ps arbitrary: db) (auto split: option.splits)

lemma insert_players_rows:
  "insert_players answer i ps db = Inr db' \<Longrightarrow> distinct (map pr_PlayerID ps) \<Longrightarrow>
     (\<forall>p \<in> set ps. map_of (db_players db') (i, pr_PlayerID p) = Some p) \<and>
     (\<forall>k. k \<notin> (\<lambda>p. (i, pr_PlayerID p)) ` set ps \<longrightarrow> map_of (db_players db') k = map_of (db_players db) k)"
proof (induction ps arbitrary: db)
  case (Cons p ps)
  let ?db = "db\<lparr>db_players := AList.update (i, pr_PlayerID p) p (db_players db)\<rparr>"
  have s: "insert_players answer i ps ?db = Inr db'" using Cons.prems(1) by (auto split: option.splits)
  have n: "(i, pr_PlayerID p) \<notin> (\<lambda>p. (i, pr_PlayerID p)) ` set ps" using Cons.prems(2) by auto
  note IH = Cons.IH[OF s] Cons.prems(2)
  then have "map_of (db_players db') (i, pr_PlayerID p) = Some p" using n by (simp add: update_conv')
  then show ?case using IH by (auto simp: update_conv')
qed simp

lemma players_valid_distinct:
  "players_valid seen ps \<Longrightarrow> distinct (map pr_PlayerID ps) \<and> set (map pr_PlayerID ps) \<inter> set seen = {}"
proof (induction ps arbitrary: seen)
  case (Cons p ps)
  have "players_valid (pr_PlayerID p # seen) ps" "pr_PlayerID p \<notin> set seen" using Cons.prems by (auto split: if_splits)
  then show ?case using Cons.IH[of "pr_PlayerID p # seen"] by auto
qed simp

lemma Envelope_Validate_players: "Envelope_Validate e \<Longrightarrow> distinct (map pr_PlayerID (gr_Players (e_Result e)))"
  using players_valid_distinct[of "[]" "gr_Players (e_Result e)"] by (auto simp: Envelope_Validate_def Let_def split: if_splits)

lemma insert_players_healthy: "\<exists>db'. insert_players (\<lambda>_. None) i ps db = Inr db'"
  by (induction ps arbitrary: db) simp_all

text \<open>A call that does not insert leaves the database as it was.\<close>

lemma Persist_frame: "fst (Persist js a e db) \<noteq> Inr PersistInserted \<Longrightarrow> snd (Persist js a e db) = db"
  by (auto simp: Persist_def Let_def split: sum.splits option.splits)

lemma Persist_new:
  assumes "Envelope_Validate e" and "resultPayload js e = Inr (payload, digest)" and "map_of (db_results db) (e_MatchID e) = None"
    and "healthy a"
  shows "\<exists>db'. Persist js a e db = (Inr PersistInserted, db') \<and>
    db_results db' = AList.update (e_MatchID e)
      (result_row js payload digest (if e_CreatedAt e = 0 then da_now a else e_CreatedAt e) e) (db_results db) \<and>
    (\<forall>p \<in> set (gr_Players (e_Result e)). map_of (db_players db') (e_MatchID e, pr_PlayerID p) = Some p)"
proof -
  let ?t = "if e_CreatedAt e = 0 then da_now a else e_CreatedAt e"
  let ?db = "db\<lparr>db_results := AList.update (e_MatchID e) (result_row js payload digest ?t e) (db_results db)\<rparr>"
  obtain db' where i: "insert_players (\<lambda>_. None) (e_MatchID e) (gr_Players (e_Result e)) ?db = Inr db'"
    using insert_players_healthy by blast
  then have "db_results db' = AList.update (e_MatchID e) (result_row js payload digest ?t e) (db_results db)"
    using insert_players_results by fastforce
  moreover have "\<forall>p \<in> set (gr_Players (e_Result e)). map_of (db_players db') (e_MatchID e, pr_PlayerID p) = Some p"
    using insert_players_rows[OF i Envelope_Validate_players[OF assms(1)]] by blast
  ultimately show ?thesis using assms i by (intro exI[of _ db']) (simp add: Persist_def healthy_def)
qed

lemma Persist_again:
  assumes "map_of (db_results db) (e_MatchID e) = Some row"
  shows "snd (Persist js a e db) = db" and "fst (Persist js a e db) \<noteq> Inr PersistInserted"
    and "resultPayload js e = Inr (payload, digest) \<Longrightarrow> mr_Digest row = digest \<Longrightarrow> Envelope_Validate e \<Longrightarrow> healthy a \<Longrightarrow>
      fst (Persist js a e db) = Inr PersistIdempotent"
    and "resultPayload js e = Inr (payload, digest) \<Longrightarrow> mr_Digest row \<noteq> digest \<Longrightarrow> Envelope_Validate e \<Longrightarrow> healthy a \<Longrightarrow>
      fst (Persist js a e db) = Inl [ErrResultConflict]"
  using assms by (auto simp: Persist_def Let_def healthy_def split: sum.splits option.splits)

section \<open>Properties\<close>

text \<open>C30: A stored result is stored once and comes back: when the JSON of a valid new envelope survives the column, the
  envelope is inserted with a row for each of its players and no other match is touched; loading its match gives exactly
  this envelope, with its creation time (or the time of the insert if it has none) rounded to the microseconds of the column, so
  an envelope stamped in whole microseconds comes back unchanged.  However often it, or another result with the same match ID,
  is persisted later and whatever fails then, the database does not change - the same result is recognised as such
  and a different one is a conflict.\<close>

theorem results_roundtrip:
  assumes "Envelope_Validate e" and "resultPayload js e = Inr (payload, digest)"
    and "js_decode js (js_column js payload) = Some (e_Result e)"
    and "map_of (db_results db) (e_MatchID e) = None" and "healthy a"
  shows "\<exists>db'. Persist js a e db = (Inr PersistInserted, db') \<and>
    Load_result js None (e_MatchID e) db' =
      Inr (e\<lparr>e_CreatedAt := datetime6 (if e_CreatedAt e = 0 then da_now a else e_CreatedAt e)\<rparr>) \<and>
    (e_CreatedAt e \<noteq> 0 \<and> 1000 dvd e_CreatedAt e \<longrightarrow> Load_result js None (e_MatchID e) db' = Inr e) \<and>
    (\<forall>p \<in> set (gr_Players (e_Result e)). map_of (db_players db') (e_MatchID e, pr_PlayerID p) = Some p) \<and>
    (\<forall>m. m \<noteq> e_MatchID e \<longrightarrow> map_of (db_results db') m = map_of (db_results db) m) \<and>
    (\<forall>f a'. e_MatchID f = e_MatchID e \<longrightarrow> snd (Persist js a' f db') = db' \<and> fst (Persist js a' f db') \<noteq> Inr PersistInserted) \<and>
    (\<forall>a'. healthy a' \<longrightarrow> fst (Persist js a' e db') = Inr PersistIdempotent) \<and>
    (\<forall>f a' p d. e_MatchID f = e_MatchID e \<and> Envelope_Validate f \<and> healthy a' \<and> resultPayload js f = Inr (p, d) \<and> d \<noteq> digest \<longrightarrow>
       fst (Persist js a' f db') = Inl [ErrResultConflict])"
proof -
  let ?t = "if e_CreatedAt e = 0 then da_now a else e_CreatedAt e"
  let ?row = "result_row js payload digest ?t e" and ?e = "e\<lparr>e_CreatedAt := datetime6 ?t\<rparr>"
  obtain db' where p: "Persist js a e db = (Inr PersistInserted, db')"
    "db_results db' = AList.update (e_MatchID e) ?row (db_results db)"
    "\<forall>p \<in> set (gr_Players (e_Result e)). map_of (db_players db') (e_MatchID e, pr_PlayerID p) = Some p"
    using Persist_new[OF assms(1,2,4,5)] by blast
  then have row: "map_of (db_results db') (e_MatchID e) = Some ?row" by (simp add: update_conv')
  have id: "matchIDPattern (e_MatchID e)" using assms(1) by (auto simp: Envelope_Validate_def Let_def split: if_splits)
  have e: "\<lparr>e_MatchID = e_MatchID e, e_RoomID = e_RoomID e, e_CreatedAt = datetime6 ?t, e_Result = e_Result e\<rparr> = ?e" by simp
  have v: "Envelope_Validate ?e" using assms(1) by (simp add: Envelope_Validate_def)
  have load: "Load_result js None (e_MatchID e) db' = Inr ?e"
    using row id assms(3) v by (simp add: Load_result_def result_row_def e[symmetric] del: ResultEnvelope.update_defs)
  have d: "mr_Digest ?row = digest" by (simp add: result_row_def)
  show ?thesis
  proof (intro exI[of _ db'] conjI allI impI)
    assume c: "e_CreatedAt e \<noteq> 0 \<and> 1000 dvd e_CreatedAt e"
    then have "datetime6 ?t = e_CreatedAt e" by (auto simp: datetime6_def dvd_def)
    then show "Load_result js None (e_MatchID e) db' = Inr e" using load by simp
  next
    fix m assume "m \<noteq> e_MatchID e"
    then show "map_of (db_results db') m = map_of (db_results db) m" by (simp add: p(2) update_conv')
  next
    fix f :: ResultEnvelope and a' assume f: "e_MatchID f = e_MatchID e"
    then have r: "map_of (db_results db') (e_MatchID f) = Some ?row" using row by simp
    show "snd (Persist js a' f db') = db'" by (rule Persist_again(1)[OF r])
    show "fst (Persist js a' f db') \<noteq> Inr PersistInserted" by (rule Persist_again(2)[OF r])
  next
    fix a' assume "healthy a'"
    then show "fst (Persist js a' e db') = Inr PersistIdempotent" using Persist_again(3)[OF row assms(2) d assms(1)] by simp
  next
    fix f :: ResultEnvelope and a' p' d' assume f: "e_MatchID f = e_MatchID e \<and> Envelope_Validate f \<and> healthy a' \<and> resultPayload js f = Inr (p', d') \<and> d' \<noteq> digest"
    then have r: "map_of (db_results db') (e_MatchID f) = Some ?row" using row by simp
    show "fst (Persist js a' f db') = Inl [ErrResultConflict]" using Persist_again(4)[OF r, of js p' d' a'] f d by auto
  qed (use p load in auto)
qed

text \<open>An abandoned run of one player in the first stage.\<close>

definition sample_result :: GameResult where
  "sample_result = \<lparr>gr_Outcome = GameAbandoned, gr_StartedAtTick = 1, gr_EndedAtTick = 9, gr_FinalStageIndex = 1, gr_ClearedStages = [],
     gr_Players = [\<lparr>pr_PlayerID = 7, pr_Alive = True, pr_Health = Fin 1, pr_Stats = \<lparr>cs_Attack = Fin 1, cs_Defense = Fin 0,
       cs_MaxHealth = Fin 2, cs_MoveSpeed = Fin 1, cs_AttackCooldownTicks = 1\<rparr>, pr_Equipment = zero_equipment\<rparr>]\<rparr>"

definition sample_envelope :: ResultEnvelope where
  "sample_envelope = \<lparr>e_MatchID = ''match-1'', e_RoomID = 1, e_CreatedAt = 5500, e_Result = sample_result\<rparr>"

definition sample_json :: json_codec where
  "sample_json = \<lparr>js_result = (\<lambda>_. Some [1]), js_canonical = (\<lambda>_ _ _. Some [2]), js_decode = (\<lambda>_. Some sample_result), js_sha256 = id, js_column = id\<rparr>"

definition sample_answers :: db_answers where
  "sample_answers = \<lparr>da_begin = None, da_insert = None, da_verify = None, da_player = (\<lambda>_. None), da_commit = None, da_now = 0\<rparr>"

lemma sample_envelope_valid: "Envelope_Validate sample_envelope"
  by (simp add: Envelope_Validate_def sample_envelope_def sample_result_def matchIDPattern_def id_letter_def less_eq_char_def
      GameOutcome_Valid_def CombatStats_Valid_def)

theorem results_roundtrip_witness:
  "\<exists>db'. Persist sample_json sample_answers sample_envelope \<lparr>db_results = [], db_players = []\<rparr> = (Inr PersistInserted, db') \<and>
     fst (Persist sample_json sample_answers sample_envelope db') = Inr PersistIdempotent \<and>
     Load_result sample_json None ''match-1'' db' = Inr (sample_envelope\<lparr>e_CreatedAt := 6000\<rparr>)"
proof -
  have p: "resultPayload sample_json sample_envelope = Inr ([1], [2])" by (simp add: resultPayload_def sample_json_def)
  have d: "js_decode sample_json (js_column sample_json [1]) = Some (e_Result sample_envelope)"
    by (simp add: sample_json_def sample_envelope_def)
  have t: "datetime6 5500 = 6000" "e_CreatedAt sample_envelope = 5500" "e_MatchID sample_envelope = ''match-1''"
    by (simp_all add: datetime6_def sample_envelope_def)
  have h: "healthy sample_answers" by (simp add: healthy_def sample_answers_def)
  show ?thesis using results_roundtrip[OF sample_envelope_valid p d, of "\<lparr>db_results = [], db_players = []\<rparr>" sample_answers] h unfolding t by (auto simp: t(1))
qed

end
