(* ===== verification/Writer.thy ===== *)
theory Writer
  imports Results
begin

text \<open>
  The asynchronous result writer (\<open>persistence/result_writer.go\<close>).  \<open>Submit\<close> and \<open>Shutdown\<close> run under the writer's
  lock; the worker goroutine \<open>run\<close> is a machine whose program counter says which envelope it holds and
  what it does with it.  What the database, the dead-letter file and the timer answer is an argument of
  each step.  \<open>wr_accepted\<close> and \<open>wr_fates\<close> record, in order, the envelopes accepted and what became of
  each one the worker is done with.
\<close>

section \<open>Options and failures\<close>

record ResultWriterOptions =
  ro_QueueCapacity :: int
  ro_MaxAttempts :: int
  ro_AttemptTimeout :: duration
  ro_RetryBackoff :: duration
  ro_FailureSink :: bool

definition ResultWriterOptions_Validate :: "ResultWriterOptions \<Rightarrow> bool" where
  "ResultWriterOptions_Validate o' \<longleftrightarrow>
     \<not> (ro_QueueCapacity o' < 1 \<or> 100000 < ro_QueueCapacity o' \<or> ro_MaxAttempts o' < 1 \<or> 100 < ro_MaxAttempts o' \<or>
        ro_AttemptTimeout o' \<le> 0 \<or> ro_RetryBackoff o' < 0 \<or> \<not> ro_FailureSink o')"

definition DefaultResultWriterOptions :: ResultWriterOptions where
  "DefaultResultWriterOptions = \<lparr>ro_QueueCapacity = 256, ro_MaxAttempts = 3, ro_AttemptTimeout = 2 * 10 ^ 9,
     ro_RetryBackoff = 100 * 10 ^ 6, ro_FailureSink = False\<rparr>"

record ResultFailure =
  rf_FailedAt :: time
  rf_Attempts :: int
  rf_Kind :: string
  rf_Envelope :: ResultEnvelope

definition resultFailureKind :: "persist_error \<Rightarrow> string" where
  "resultFailureKind err =
     (if Is err Ctx_canceled then ''shutdown''
      else if Is err ErrResultConflict then ''conflict''
      else if Is err ErrInvalidResultEnvelope then ''invalid''
      else ''backend'')"

section \<open>State\<close>

datatype fate = Saved PersistDisposition | DeadLetter ResultFailure | Lost

text \<open>\<open>Nil_context\<close> is the panic of the worker when it hands a context to \<open>StoreFailure\<close> that was never set.\<close>

datatype worker_pc = Fetching | Attempting ResultEnvelope int | Backing_off ResultEnvelope int
  | Storing ResultFailure | Storing_again ResultFailure persist_error | Worker_done | Nil_context

record ResultWriter =
  wr_options :: ResultWriterOptions
  wr_queue :: "ResultEnvelope chan"
  wr_canceled :: bool
  wr_closed :: bool
  wr_cleanup :: bool
  wr_firstDeadLetterError :: "persist_error option"
  wr_inFlight :: i64
  wr_submitted :: u64
  wr_persisted :: u64
  wr_idempotent :: u64
  wr_retries :: u64
  wr_failed :: u64
  wr_rejected :: u64
  wr_deadLetterFailures :: u64
  wr_pc :: worker_pc
  wr_accepted :: "ResultEnvelope list"
  wr_fates :: "(ResultEnvelope \<times> fate) list"

definition NewResultWriter :: "bool \<Rightarrow> ResultWriterOptions \<Rightarrow> persist_error + ResultWriter" where
  "NewResultWriter sink options =
     (if \<not> sink then Inl [ErrInvalidResultWriter]
      else if \<not> ResultWriterOptions_Validate options then Inl [ErrInvalidResultWriter]
      else Inr \<lparr>wr_options = options, wr_queue = make_chan (nat (ro_QueueCapacity options)), wr_canceled = False, wr_closed = False,
        wr_cleanup = False, wr_firstDeadLetterError = None, wr_inFlight = 0, wr_submitted = 0, wr_persisted = 0, wr_idempotent = 0,
        wr_retries = 0, wr_failed = 0, wr_rejected = 0, wr_deadLetterFailures = 0, wr_pc = Fetching, wr_accepted = [], wr_fates = []\<rparr>)"

section \<open>Submitting\<close>

definition count_rejected :: "ResultWriter \<Rightarrow> ResultWriter" where
  "count_rejected w = w\<lparr>wr_rejected := wr_rejected w + 1\<rparr>"

definition Submit :: "ResultEnvelope \<Rightarrow> ResultWriter \<Rightarrow> chan_panic + (persist_error option \<times> ResultWriter)" where
  "Submit e w =
     (if \<not> Envelope_Validate e then Inr (Some [ErrInvalidResultEnvelope], count_rejected w)
      else if wr_closed w then Inr (Some [ErrResultWriterClosed], count_rejected w)
      else bind_sum (try_send (Envelope_Clone e) (wr_queue w)) (\<lambda>(sent, q).
        Inr (if sent then (None, w\<lparr>wr_queue := q, wr_submitted := wr_submitted w + 1, wr_accepted := wr_accepted w @ [e]\<rparr>)
             else (Some [ErrResultQueueFull], count_rejected w))))"

record ResultWriterStats =
  ws_QueueDepth :: int
  ws_InFlight :: i64
  ws_Submitted :: u64
  ws_Persisted :: u64
  ws_Idempotent :: u64
  ws_Retries :: u64
  ws_Failed :: u64
  ws_Rejected :: u64
  ws_DeadLetterFailures :: u64

definition Writer_Stats :: "ResultWriter \<Rightarrow> ResultWriterStats" where
  "Writer_Stats w = \<lparr>ws_QueueDepth = int (length (ch_buf (wr_queue w))), ws_InFlight = wr_inFlight w, ws_Submitted = wr_submitted w,
     ws_Persisted = wr_persisted w, ws_Idempotent = wr_idempotent w, ws_Retries = wr_retries w, ws_Failed = wr_failed w,
     ws_Rejected = wr_rejected w, ws_DeadLetterFailures = wr_deadLetterFailures w\<rparr>"

section \<open>The worker\<close>

text \<open>The context a dead letter is written under: the worker's own, or the cleanup budget that \<open>Shutdown\<close> sets.\<close>

datatype store_context = Worker_context | Cleanup_context

record worker_answers =
  wa_persist :: "ResultEnvelope \<Rightarrow> persist_error + PersistDisposition"
  wa_store :: "store_context \<Rightarrow> ResultFailure \<Rightarrow> persist_error option"
  wa_timer :: bool
  wa_now :: time

text \<open>The worker is done with the envelope it holds.\<close>

definition settle :: "ResultEnvelope \<Rightarrow> fate \<Rightarrow> ResultWriter \<Rightarrow> ResultWriter" where
  "settle e f w = w\<lparr>wr_fates := wr_fates w @ [(e, f)], wr_inFlight := wr_inFlight w - 1, wr_pc := Fetching\<rparr>"

definition storeFailure :: "time \<Rightarrow> ResultEnvelope \<Rightarrow> int \<Rightarrow> persist_error \<Rightarrow> ResultWriter \<Rightarrow> ResultWriter" where
  "storeFailure now e used cause w = w\<lparr>wr_failed := wr_failed w + 1,
     wr_pc := Storing \<lparr>rf_FailedAt = now, rf_Attempts = used, rf_Kind = resultFailureKind cause, rf_Envelope = Envelope_Clone e\<rparr>\<rparr>"

definition record_lost :: "persist_error \<Rightarrow> ResultWriter \<Rightarrow> ResultWriter" where
  "record_lost err w = w\<lparr>wr_deadLetterFailures := wr_deadLetterFailures w + 1,
     wr_firstDeadLetterError := (case wr_firstDeadLetterError w of None \<Rightarrow> Some err | Some first \<Rightarrow> Some first)\<rparr>"

text \<open>One attempt of \<open>persist\<close>; \<open>k\<close> counts the attempts from one.\<close>

definition attempt_step :: "worker_answers \<Rightarrow> ResultEnvelope \<Rightarrow> int \<Rightarrow> ResultWriter \<Rightarrow> ResultWriter" where
  "attempt_step a e k w =
     (if wr_canceled w then storeFailure (wa_now a) e (k - 1) [Ctx_canceled] w
      else case wa_persist a e of
          Inr PersistIdempotent \<Rightarrow> settle e (Saved PersistIdempotent) (w\<lparr>wr_idempotent := wr_idempotent w + 1\<rparr>)
        | Inr PersistInserted \<Rightarrow> settle e (Saved PersistInserted) (w\<lparr>wr_persisted := wr_persisted w + 1\<rparr>)
        | Inl err \<Rightarrow>
          if Is err ErrInvalidResultEnvelope \<or> Is err ErrResultConflict \<or> k = ro_MaxAttempts (wr_options w)
          then storeFailure (wa_now a) e k err w
          else w\<lparr>wr_retries := wr_retries w + 1, wr_pc := Backing_off e k\<rparr>)"

text \<open>The end of \<open>waitContext\<close>; when both channels are ready \<open>wa_timer\<close> says which one \<open>select\<close> takes.\<close>

definition waitContext :: "bool \<Rightarrow> duration \<Rightarrow> bool \<Rightarrow> bool" where
  "waitContext canceled dur timer = (if dur = 0 then \<not> canceled else if canceled then timer else True)"

definition backoff_step :: "worker_answers \<Rightarrow> ResultEnvelope \<Rightarrow> int \<Rightarrow> ResultWriter \<Rightarrow> ResultWriter" where
  "backoff_step a e k w =
     (if waitContext (wr_canceled w) (ro_RetryBackoff (wr_options w)) (wa_timer a) then w\<lparr>wr_pc := Attempting e (k + 1)\<rparr>
      else storeFailure (wa_now a) e k [Ctx_canceled] w)"

text \<open>The two calls of \<open>StoreFailure\<close>: under the worker's context while it lives, under the cleanup budget after that;
  \<open>wr_cleanup\<close> says whether that context has been set.\<close>

definition store_step :: "worker_answers \<Rightarrow> ResultFailure \<Rightarrow> ResultWriter \<Rightarrow> ResultWriter" where
  "store_step a f w =
     (if wr_canceled w then w\<lparr>wr_pc := Storing_again f [Ctx_canceled]\<rparr>
      else case wa_store a Worker_context f of
          None \<Rightarrow> settle (rf_Envelope f) (DeadLetter f) w
        | Some err \<Rightarrow> w\<lparr>wr_pc := Storing_again f err\<rparr>)"

definition store_again_step :: "worker_answers \<Rightarrow> ResultFailure \<Rightarrow> persist_error \<Rightarrow> ResultWriter \<Rightarrow> ResultWriter" where
  "store_again_step a f err w =
     (if \<not> wr_canceled w then settle (rf_Envelope f) Lost (record_lost err w)
      else if \<not> wr_cleanup w then w\<lparr>wr_pc := Nil_context\<rparr>
      else case wa_store a Cleanup_context f of
          None \<Rightarrow> settle (rf_Envelope f) (DeadLetter f) w
        | Some err \<Rightarrow> settle (rf_Envelope f) Lost (record_lost err w))"

definition worker_step :: "worker_answers \<Rightarrow> ResultWriter \<Rightarrow> ResultWriter" where
  "worker_step a w =
     (case wr_pc w of
        Fetching \<Rightarrow>
          (case try_recv (wr_queue w) of
             (Value e, q) \<Rightarrow> w\<lparr>wr_queue := q, wr_inFlight := wr_inFlight w + 1, wr_pc := Attempting e 1\<rparr>
           | (Drained, _) \<Rightarrow> w\<lparr>wr_canceled := True, wr_pc := Worker_done\<rparr>
           | (Nothing, _) \<Rightarrow> w)
      | Attempting e k \<Rightarrow> attempt_step a e k w
      | Backing_off e k \<Rightarrow> backoff_step a e k w
      | Storing f \<Rightarrow> store_step a f w
      | Storing_again f err \<Rightarrow> store_again_step a f err w
      | Worker_done \<Rightarrow> w
      | Nil_context \<Rightarrow> w)"

section \<open>Shutting down\<close>

text \<open>\<open>Shutdown\<close> has three parts: closing the queue, cancelling when its context ends first, and the error once the worker is done.\<close>

definition shutdown_close :: "ResultWriter \<Rightarrow> chan_panic + ResultWriter" where
  "shutdown_close w =
     (if wr_closed w then Inr w
      else bind_sum (close_chan (wr_queue w)) (\<lambda>q. Inr (w\<lparr>wr_closed := True, wr_queue := q\<rparr>)))"

definition shutdown_cancel :: "ResultWriter \<Rightarrow> ResultWriter" where
  "shutdown_cancel w = w\<lparr>wr_cleanup := True, wr_canceled := True\<rparr>"

definition shutdownError :: "ResultWriter \<Rightarrow> persist_error option" where
  "shutdownError w =
     (if wr_deadLetterFailures w \<noteq> 0 then Some (ErrResultDeadLetter # (case wr_firstDeadLetterError w of None \<Rightarrow> [] | Some err \<Rightarrow> err))
      else None)"

definition shutdown_result :: "persist_error option \<Rightarrow> ResultWriter \<Rightarrow> persist_error option" where
  "shutdown_result ctxErr w =
     (case ctxErr of None \<Rightarrow> shutdownError w
      | Some err \<Rightarrow> Some (err @ (case shutdownError w of None \<Rightarrow> [] | Some e \<Rightarrow> e)))"
section \<open>Runs of a writer\<close>

inductive writer_move :: "ResultWriter \<Rightarrow> ResultWriter \<Rightarrow> bool" where
  submit: "Submit e w = Inr (err, w') \<Longrightarrow> writer_move w w'"
| work: "writer_move w (worker_step a w)"
| close: "shutdown_close w = Inr w' \<Longrightarrow> writer_move w w'"
| cancel: "writer_move w (shutdown_cancel w)"

inductive writer_reachable :: "ResultWriter \<Rightarrow> bool" where
  new: "NewResultWriter True options = Inr w \<Longrightarrow> writer_reachable w"
| step: "writer_reachable w \<Longrightarrow> writer_move w w' \<Longrightarrow> writer_reachable w'"

text \<open>The envelope the worker holds.\<close>

primrec in_hand :: "worker_pc \<Rightarrow> ResultEnvelope list" where
  "in_hand Fetching = []" | "in_hand (Attempting e k) = [e]" | "in_hand (Backing_off e k) = [e]"
| "in_hand (Storing f) = [rf_Envelope f]" | "in_hand (Storing_again f err) = [rf_Envelope f]" | "in_hand Worker_done = []"
| "in_hand Nil_context = []"

primrec failing :: "worker_pc \<Rightarrow> nat" where
  "failing Fetching = 0" | "failing (Attempting e k) = 0" | "failing (Backing_off e k) = 0"
| "failing (Storing f) = 1" | "failing (Storing_again f err) = 1" | "failing Worker_done = 0"
| "failing Nil_context = 0"

text \<open>How many of the finished envelopes had a fate of this kind.\<close>

definition fated :: "(fate \<Rightarrow> bool) \<Rightarrow> ResultWriter \<Rightarrow> nat" where
  "fated P w = length (filter (\<lambda>(_, f). P f) (wr_fates w))"

primrec is_saved :: "fate \<Rightarrow> bool" where
  "is_saved (Saved d) = True" | "is_saved (DeadLetter f) = False" | "is_saved Lost = False"

primrec pc_ok :: "int \<Rightarrow> worker_pc \<Rightarrow> bool" where
  "pc_ok n Fetching = True" | "pc_ok n (Attempting e k) = (1 \<le> k \<and> k \<le> n)" | "pc_ok n (Backing_off e k) = (1 \<le> k \<and> k < n)"
| "pc_ok n (Storing f) = True" | "pc_ok n (Storing_again f err) = True" | "pc_ok n Worker_done = True"
| "pc_ok n Nil_context = False"

text \<open>A dead letter carries the envelope it is about.\<close>

fun fate_ok :: "ResultEnvelope \<times> fate \<Rightarrow> bool" where
  "fate_ok (e, DeadLetter f) = (rf_Envelope f = e)"
| "fate_ok _ = True"

definition writer_inv :: "ResultWriter \<Rightarrow> bool" where
  "writer_inv w \<longleftrightarrow> ResultWriterOptions_Validate (wr_options w) \<and>
     wr_accepted w = map fst (wr_fates w) @ in_hand (wr_pc w) @ ch_buf (wr_queue w) \<and> list_all Envelope_Validate (wr_accepted w) \<and>
     list_all fate_ok (wr_fates w) \<and> chan_ok (wr_queue w) \<and> ch_cap (wr_queue w) = nat (ro_QueueCapacity (wr_options w)) \<and> (ch_closed (wr_queue w) \<longleftrightarrow> wr_closed w) \<and>
     (wr_pc w = Worker_done \<longrightarrow> wr_closed w \<and> ch_buf (wr_queue w) = []) \<and>
     (wr_canceled w \<longrightarrow> wr_cleanup w \<or> wr_pc w = Worker_done) \<and> pc_ok (ro_MaxAttempts (wr_options w)) (wr_pc w)"

definition counters_ok :: "ResultWriter \<Rightarrow> bool" where
  "counters_ok w \<longleftrightarrow> wr_submitted w = of_nat (length (wr_accepted w)) \<and>
     wr_persisted w + wr_idempotent w = of_nat (fated is_saved w) \<and>
     wr_failed w = of_nat (fated (\<lambda>f. \<not> is_saved f) w) + of_nat (failing (wr_pc w)) \<and>
     wr_deadLetterFailures w = of_nat (fated (\<lambda>f. f = Lost) w) \<and> wr_inFlight w = of_nat (length (in_hand (wr_pc w)))"

lemma fated_settle [simp]: "fated P (settle e f w) = fated P w + (if P f then 1 else 0)"
  by (simp add: fated_def settle_def)

lemma settle_simps [simp]:
  "wr_options (settle e f w) = wr_options w" "wr_queue (settle e f w) = wr_queue w" "wr_canceled (settle e f w) = wr_canceled w"
  "wr_cleanup (settle e f w) = wr_cleanup w" "wr_closed (settle e f w) = wr_closed w" "wr_inFlight (settle e f w) = wr_inFlight w - 1" "wr_submitted (settle e f w) = wr_submitted w"
  "wr_persisted (settle e f w) = wr_persisted w" "wr_idempotent (settle e f w) = wr_idempotent w" "wr_failed (settle e f w) = wr_failed w"
  "wr_deadLetterFailures (settle e f w) = wr_deadLetterFailures w" "wr_pc (settle e f w) = Fetching"
  "wr_accepted (settle e f w) = wr_accepted w" "wr_fates (settle e f w) = wr_fates w @ [(e, f)]"
  by (simp_all add: settle_def)

lemma worker_step_ok:
  assumes "writer_inv w" and "counters_ok w"
  shows "writer_inv (worker_step a w) \<and> counters_ok (worker_step a w)"
proof (cases "wr_pc w")
  case Fetching
  obtain v q where v: "try_recv (wr_queue w) = (v, q)" by fastforce
  show ?thesis using assms try_recv_frame[OF v] Fetching v
    by (cases v) (auto simp: worker_step_def writer_inv_def counters_ok_def fated_def ResultWriterOptions_Validate_def
      try_recv_def chan_ok_def split: list.splits if_splits)
next
  case (Attempting e k)
  show ?thesis
  proof (cases "wr_canceled w")
    case True
    then show ?thesis using assms Attempting
      by (auto simp: worker_step_def attempt_step_def storeFailure_def writer_inv_def counters_ok_def fated_def Envelope_Clone_def)
  next
    case False
    then show ?thesis using assms Attempting
      by (cases "wa_persist a e")
        (auto simp: worker_step_def attempt_step_def storeFailure_def writer_inv_def counters_ok_def Envelope_Clone_def
          split: PersistDisposition.split, auto simp: fated_def algebra_simps)
  qed
next
  case (Backing_off e k)
  then show ?thesis using assms
    by (auto simp: worker_step_def backoff_step_def storeFailure_def writer_inv_def counters_ok_def fated_def Envelope_Clone_def)
next
  case (Storing f)
  then show ?thesis using assms
    by (cases "wa_store a Worker_context f") (auto simp: worker_step_def store_step_def writer_inv_def counters_ok_def, auto simp: fated_def)
next
  case (Storing_again f err)
  then show ?thesis using assms
    by (cases "wa_store a Cleanup_context f")
      (auto simp: worker_step_def store_again_step_def record_lost_def writer_inv_def counters_ok_def, auto simp: fated_def)
next
  case Worker_done
  then show ?thesis using assms by (simp add: worker_step_def)
next
  case Nil_context
  then show ?thesis using assms by (simp add: writer_inv_def)
qed

lemma Submit_split:
  assumes "Submit e w = Inr (err, w')"
  shows "w' = count_rejected w \<or> Envelope_Validate e \<and> \<not> wr_closed w \<and> length (ch_buf (wr_queue w)) < ch_cap (wr_queue w) \<and>
     w' = w\<lparr>wr_queue := (wr_queue w)\<lparr>ch_buf := ch_buf (wr_queue w) @ [e]\<rparr>, wr_submitted := wr_submitted w + 1, wr_accepted := wr_accepted w @ [e]\<rparr>"
  using assms by (auto simp: Submit_def try_send_def bind_sum_Inr Envelope_Clone_def split: if_splits)

lemma submit_ok:
  assumes "Submit e w = Inr (err, w')" and "writer_inv w" and "counters_ok w"
  shows "writer_inv w' \<and> counters_ok w'"
  using Submit_split[OF assms(1)]
proof
  assume "w' = count_rejected w"
  then show ?thesis using assms(2,3) by (auto simp: count_rejected_def writer_inv_def counters_ok_def fated_def)
next
  assume "Envelope_Validate e \<and> \<not> wr_closed w \<and> length (ch_buf (wr_queue w)) < ch_cap (wr_queue w) \<and>
     w' = w\<lparr>wr_queue := (wr_queue w)\<lparr>ch_buf := ch_buf (wr_queue w) @ [e]\<rparr>, wr_submitted := wr_submitted w + 1, wr_accepted := wr_accepted w @ [e]\<rparr>"
  then show ?thesis using assms(2,3) by (auto simp: writer_inv_def counters_ok_def fated_def chan_ok_def)
qed
lemma writer_move_ok:
  assumes "writer_move w w'" and "writer_inv w" and "counters_ok w"
  shows "writer_inv w' \<and> counters_ok w'"
  using assms(1)
proof cases
  case (submit e err)
  then show ?thesis using submit_ok assms(2,3) by blast
next
  case (work a)
  then show ?thesis using worker_step_ok[OF assms(2,3)] by simp
next
  case close
  then show ?thesis using assms(2,3)
    by (auto simp: shutdown_close_def close_chan_def bind_sum_Inr writer_inv_def counters_ok_def fated_def chan_ok_def split: if_splits)
next
  case cancel
  then show ?thesis using assms(2,3) by (auto simp: shutdown_cancel_def writer_inv_def counters_ok_def fated_def)
qed

lemma writer_reachable_ok: "writer_reachable w \<Longrightarrow> writer_inv w \<and> counters_ok w"
proof (induction rule: writer_reachable.induct)
  case (new options w)
  then show ?case by (auto simp: NewResultWriter_def writer_inv_def counters_ok_def fated_def chan_ok_def split: if_splits)
next
  case (step w w')
  then show ?case using writer_move_ok by blast
qed
section \<open>Draining\<close>

primrec rank :: "int \<Rightarrow> worker_pc \<Rightarrow> nat" where
  "rank n Fetching = 0" | "rank n (Attempting e k) = 2 * nat (n - k) + 3" | "rank n (Backing_off e k) = 2 * nat (n - k) + 2"
| "rank n (Storing f) = 2" | "rank n (Storing_again f err) = 1" | "rank n Worker_done = 0"
| "rank n Nil_context = 0"

text \<open>How many steps the worker has before it at most, once the queue is closed.\<close>

definition writer_work :: "ResultWriter \<Rightarrow> nat" where
  "writer_work w = (if wr_pc w = Worker_done then 0
     else rank (ro_MaxAttempts (wr_options w)) (wr_pc w) + (2 * nat (ro_MaxAttempts (wr_options w)) + 2) * length (ch_buf (wr_queue w)) + 1)"

lemma settle_work: "writer_work (settle e f w) = (2 * nat (ro_MaxAttempts (wr_options w)) + 2) * length (ch_buf (wr_queue w)) + 1"
  by (simp add: writer_work_def)

lemma worker_step_work:
  assumes "writer_inv w" and "wr_closed w" and "wr_pc w \<noteq> Worker_done"
  shows "writer_work (worker_step a w) < writer_work w"
proof (cases "wr_pc w")
  case Fetching
  have "ch_closed (wr_queue w)" "1 \<le> ro_MaxAttempts (wr_options w)" using assms by (auto simp: writer_inv_def ResultWriterOptions_Validate_def)
  then show ?thesis using Fetching
    by (cases "ch_buf (wr_queue w)") (auto simp: worker_step_def try_recv_def writer_work_def nat_diff_distrib)
next
  case (Attempting e k)
  show ?thesis
  proof (cases "wr_canceled w")
    case True
    then show ?thesis using Attempting by (simp add: worker_step_def attempt_step_def storeFailure_def writer_work_def)
  next
    case False
    then show ?thesis using Attempting
      by (cases "wa_persist a e") (auto simp: worker_step_def attempt_step_def storeFailure_def settle_work writer_work_def split: PersistDisposition.split)
  qed
next
  case (Backing_off e k)
  have "k < ro_MaxAttempts (wr_options w)" using assms(1) Backing_off by (simp add: writer_inv_def)
  then show ?thesis using Backing_off by (auto simp: worker_step_def backoff_step_def storeFailure_def writer_work_def)
next
  case (Storing f)
  then show ?thesis by (cases "wa_store a Worker_context f") (auto simp: worker_step_def store_step_def settle_work writer_work_def)
next
  case (Storing_again f err)
  moreover have "wr_canceled w \<longrightarrow> wr_cleanup w" using assms(1,3) by (auto simp: writer_inv_def)
  ultimately show ?thesis
    by (cases "wa_store a Cleanup_context f") (auto simp: worker_step_def store_again_step_def record_lost_def settle_work writer_work_def)
qed (use assms in \<open>simp_all add: writer_inv_def\<close>)

lemma worker_step_closed: "wr_closed (worker_step a w) = wr_closed w"
  by (simp add: worker_step_def attempt_step_def backoff_step_def store_step_def store_again_step_def storeFailure_def record_lost_def
      split: worker_pc.split prod.split received.split sum.split PersistDisposition.split option.split)

lemma worker_drains:
  "writer_inv w \<Longrightarrow> counters_ok w \<Longrightarrow> wr_closed w \<Longrightarrow> writer_work w \<le> length as \<Longrightarrow>
     writer_inv (fold worker_step as w) \<and> counters_ok (fold worker_step as w) \<and> wr_pc (fold worker_step as w) = Worker_done"
proof (induction as arbitrary: w)
  case Nil
  then show ?case by (auto simp: writer_work_def split: if_splits)
next
  case (Cons a as)
  have "writer_work (worker_step a w) \<le> length as"
  proof (cases "wr_pc w = Worker_done")
    case True
    then show ?thesis by (simp add: worker_step_def writer_work_def)
  next
    case False
    then show ?thesis using worker_step_work[OF Cons.prems(1,3) False, of a] Cons.prems(4) by simp
  qed
  then show ?case using Cons worker_step_ok[of w a] worker_step_closed[of a w] by simp
qed

lemma worker_step_accepted: "wr_accepted (worker_step a w) = wr_accepted w"
  by (simp add: worker_step_def attempt_step_def backoff_step_def store_step_def store_again_step_def storeFailure_def record_lost_def
      split: worker_pc.split prod.split received.split sum.split PersistDisposition.split option.split)

lemma fold_accepted: "wr_accepted (fold worker_step as w) = wr_accepted w"
  by (induction as arbitrary: w) (simp_all add: worker_step_accepted)

section \<open>Properties\<close>

text \<open>C31: No accepted result disappears: in every run of the writer the accepted envelopes, all of them valid, are in
  order those finished, the one in hand and those queued; each finished one was persisted, put into the
  dead-letter file as it was, or counted as lost, and the statistics count exactly that.  The worker never hands a
  context to the dead-letter file that was not set: while it runs, it is cancelled only after the cleanup budget is there.\<close>

theorem results_conserved:
  assumes "writer_reachable w"
  shows "wr_accepted w = map fst (wr_fates w) @ in_hand (wr_pc w) @ ch_buf (wr_queue w) \<and> list_all Envelope_Validate (wr_accepted w) \<and>
    list_all fate_ok (wr_fates w) \<and> int (length (ch_buf (wr_queue w))) \<le> ro_QueueCapacity (wr_options w) \<and>
    ws_Submitted (Writer_Stats w) = of_nat (length (wr_accepted w)) \<and>
    ws_Persisted (Writer_Stats w) + ws_Idempotent (Writer_Stats w) = of_nat (fated is_saved w) \<and>
    ws_Failed (Writer_Stats w) = of_nat (fated (\<lambda>f. \<not> is_saved f) w) + of_nat (failing (wr_pc w)) \<and>
    ws_DeadLetterFailures (Writer_Stats w) = of_nat (fated (\<lambda>f. f = Lost) w) \<and>
    ws_InFlight (Writer_Stats w) = of_nat (length (in_hand (wr_pc w))) \<and>
    wr_pc w \<noteq> Nil_context \<and> (wr_canceled w \<longrightarrow> wr_cleanup w \<or> wr_pc w = Worker_done)"
  using writer_reachable_ok[OF assms]
  by (auto simp: writer_inv_def counters_ok_def Writer_Stats_def chan_ok_def ResultWriterOptions_Validate_def)

definition sample_options :: ResultWriterOptions where
  "sample_options = DefaultResultWriterOptions\<lparr>ro_FailureSink := True\<rparr>"

lemma sample_writer: "\<exists>w w'. NewResultWriter True sample_options = Inr w \<and> writer_reachable w \<and> Submit sample_envelope w = Inr (None, w') \<and>
    writer_reachable w' \<and> wr_accepted w' = [sample_envelope] \<and> \<not> wr_closed w'"
proof -
  obtain w where w: "NewResultWriter True sample_options = Inr w"
    by (simp add: NewResultWriter_def sample_options_def DefaultResultWriterOptions_def ResultWriterOptions_Validate_def)
  then have r: "writer_reachable w" by (rule writer_reachable.new)
  obtain w' where s: "Submit sample_envelope w = Inr (None, w')" "wr_accepted w' = [sample_envelope]" "\<not> wr_closed w'"
    using w sample_envelope_valid by (auto simp: NewResultWriter_def Submit_def try_send_def sample_options_def
      DefaultResultWriterOptions_def ResultWriterOptions_Validate_def)
  then show ?thesis using w r writer_reachable.step[OF r writer_move.submit[OF s(1)]] by blast
qed

theorem results_conserved_witness:
  "\<exists>w. wr_accepted w = [sample_envelope] \<and> ws_Submitted (Writer_Stats w) = 1"
proof -
  obtain w where w: "writer_reachable w" "wr_accepted w = [sample_envelope]" using sample_writer by blast
  from results_conserved[OF w(1)] w(2) show ?thesis by (intro exI[of _ w]) simp
qed

text \<open>C32: Shutting down drains the writer: closing the queue never panics, whatever the database, the files and the
  timers answer the worker ends after at most writer_work steps, by then every accepted result has its
  fate, nothing more is accepted, and the shutdown reports an error exactly if a result was lost.\<close>

theorem shutdown_drains:
  assumes "writer_reachable w" and "length (wr_accepted w) < 2 ^ 64"
  shows "\<exists>w1. shutdown_close w = Inr w1 \<and> (\<forall>e. \<exists>err w2. Submit e w1 = Inr (Some err, w2)) \<and>
    (\<forall>as. writer_work w1 \<le> length as \<longrightarrow> wr_pc (fold worker_step as w1) = Worker_done \<and>
       map fst (wr_fates (fold worker_step as w1)) = wr_accepted w \<and>
       (shutdownError (fold worker_step as w1) = None \<longleftrightarrow> Lost \<notin> snd ` set (wr_fates (fold worker_step as w1))))"
proof -
  have ok: "writer_inv w" "counters_ok w" using writer_reachable_ok[OF assms(1)] by auto
  have "ch_closed (wr_queue w) = wr_closed w" using ok(1) by (simp add: writer_inv_def)
  then obtain w1 where w1: "shutdown_close w = Inr w1" "wr_closed w1" "wr_accepted w1 = wr_accepted w"
    by (cases "wr_closed w") (auto simp: shutdown_close_def close_chan_def)
  have ok1: "writer_inv w1" "counters_ok w1" using writer_move_ok[OF writer_move.close[OF w1(1)] ok] by auto
  have "map fst (wr_fates v) = wr_accepted w \<and> (shutdownError v = None \<longleftrightarrow> Lost \<notin> snd ` set (wr_fates v)) \<and> wr_pc v = Worker_done"
    if v: "v = fold worker_step as w1" "writer_work w1 \<le> length as" for as v
  proof -
    have d: "writer_inv v" "counters_ok v" "wr_pc v = Worker_done" using worker_drains[OF ok1 w1(2)] v by auto
    then have all: "map fst (wr_fates v) = wr_accepted w" using w1(3) v(1) by (simp add: writer_inv_def fold_accepted)
    then have "length (wr_fates v) < 2 ^ 64" using assms(2) by (metis length_map)
    moreover have "fated (\<lambda>f. f = Lost) v \<le> length (wr_fates v)" by (simp add: fated_def)
    ultimately have "wr_deadLetterFailures v = 0 \<longleftrightarrow> fated (\<lambda>f. f = Lost) v = 0"
      using d(2) by (simp add: counters_ok_def word_of_nat_eq_0_iff nat_dvd_not_less)
        (metis gr0I le_less_trans nat_dvd_not_less dvd_0_right)
    moreover have "fated (\<lambda>f. f = Lost) v = 0 \<longleftrightarrow> Lost \<notin> snd ` set (wr_fates v)"
      by (auto simp: fated_def filter_empty_conv image_iff)
    ultimately show ?thesis using all d(3) by (simp add: shutdownError_def)
  qed
  moreover have "\<exists>err w2. Submit e w1 = Inr (Some err, w2)" for e using w1(2) by (simp add: Submit_def)
  ultimately show ?thesis using w1(1) by blast
qed

theorem shutdown_drains_witness:
  "\<exists>w w1. wr_accepted w = [sample_envelope] \<and> shutdown_close w = Inr w1 \<and>
     (\<forall>as. writer_work w1 \<le> length as \<longrightarrow> map fst (wr_fates (fold worker_step as w1)) = [sample_envelope])"
proof -
  obtain w where w: "writer_reachable w" "wr_accepted w = [sample_envelope]" using sample_writer by blast
  have "length (wr_accepted w) < 2 ^ 64" using w(2) by simp
  from shutdown_drains[OF w(1) this] show ?thesis unfolding w(2) using w(2) by blast
qed

end
