(* ===== verification/Status.thy ===== *)
theory Status
  imports Room
begin

text \<open>
  What the server tells its operators: the sample of a decision of the director that \<open>metrics\<close> accepts, and
  the read-only status of \<open>admin\<close>, with the entries that \<open>application.go\<close> fills in.  The collectors of
  Prometheus themselves and the HTTP transport are left out.
\<close>

section \<open>Metrics\<close>

record DirectorSample =
  dsm_Duration :: duration
  dsm_ClearTimeSeconds :: f64
  dsm_TeamHPPercent :: f64
  dsm_AverageDPS :: f64
  dsm_DeathCount :: int
  dsm_DamageTaken :: f64
  dsm_EquipmentPower :: f64
  dsm_PreviousDifficulty :: f64
  dsm_NewDifficulty :: f64
  dsm_Adjustment :: f64
  dsm_MonsterCount :: int

definition validDirectorSample :: "DirectorSample \<Rightarrow> bool" where
  "validDirectorSample s =
     (if dsm_Duration s < 0 \<or> dsm_DeathCount s < 0 \<or> dsm_MonsterCount s < 1 \<or>
        dsm_TeamHPPercent s < Fin 0 \<or> Fin 1 < dsm_TeamHPPercent s then False
      else if list_ex (\<lambda>v. IsNaN v \<or> IsInf v) [dsm_ClearTimeSeconds s, dsm_TeamHPPercent s, dsm_AverageDPS s, dsm_DamageTaken s,
        dsm_EquipmentPower s, dsm_PreviousDifficulty s, dsm_NewDifficulty s, dsm_Adjustment s] then False
      else Fin 0 < dsm_ClearTimeSeconds s \<and> Fin 0 \<le> dsm_AverageDPS s \<and> Fin 0 \<le> dsm_DamageTaken s \<and>
        Fin 0 < dsm_EquipmentPower s \<and> Fin 0 < dsm_PreviousDifficulty s \<and> Fin 0 < dsm_NewDifficulty s)"

text \<open>The step of a counter that may have been reset.\<close>

definition counterDelta :: "u64 \<Rightarrow> u64 \<Rightarrow> u64" where
  "counterDelta current previous = (if previous \<le> current then current - previous else current)"

section \<open>The status of the server\<close>

record DirectorDecision =
  dd_ObservedAt :: time
  dd_RoomID :: u64
  dd_StageIndex :: u32
  dd_Seed :: i64
  dd_ClearTimeSeconds :: f64
  dd_TeamHPPercent :: f64
  dd_AverageDPS :: f64
  dd_DeathCount :: int
  dd_DamageTaken :: f64
  dd_EquipmentPower :: f64
  dd_PreviousDifficulty :: f64
  dd_NewDifficulty :: f64
  dd_Adjustment :: f64
  dd_MonsterCount :: int
  dd_DurationMicros :: int
  dd_Reasons :: "string list"

record RoomStatus =
  rt_RoomID :: u64
  rt_StageIndex :: u32
  rt_StageSeed :: i64
  rt_Phase :: string
  rt_ServerTick :: u64
  rt_Players :: int
  rt_Monsters :: int
  rt_Projectiles :: int
  rt_ControlQueueDepth :: int
  rt_InputQueueDepth :: int
  rt_QueueRejections :: u64
  rt_RejectedInputs :: u64
  rt_DroppedSnapshots :: u64
  rt_DroppedTickSamples :: u64
  rt_TickWorkMillis :: f64

record QueueStatus =
  qs_ControlDepth :: int
  qs_InputDepth :: int
  qs_Rejections :: u64
  qs_RejectedInputs :: u64
  qs_DroppedSnapshots :: u64
  qs_DroppedTickSamples :: u64

record AdminSnapshot =
  as_GeneratedAt :: time
  as_Environment :: string
  as_UptimeSeconds :: f64
  as_OnlinePlayers :: int
  as_ActiveRooms :: int
  as_MatchQueuePlayers :: int
  as_ActiveMonsters :: int
  as_ActiveProjectiles :: int
  as_RoomQueues :: QueueStatus
  as_Rooms :: "RoomStatus list"
  as_RecentDirectorDecisions :: "DirectorDecision list"

definition stagePhase :: "StageState \<Rightarrow> string" where
  "stagePhase s =
     (case s of Waiting \<Rightarrow> ''waiting'' | Playing \<Rightarrow> ''playing'' | StageClear \<Rightarrow> ''stage_clear'' | Reward \<Rightarrow> ''reward''
      | PreparingNextStage \<Rightarrow> ''preparing_next_stage'' | Failed \<Rightarrow> ''failed'' | Closed \<Rightarrow> ''closed'')"

text \<open>The status of one room: its last snapshot, its statistics, and its projectiles as the application counts them.\<close>

definition room_status :: "u64 \<Rightarrow> RoomSnapshot \<Rightarrow> RoomStats \<Rightarrow> int \<Rightarrow> RoomStatus" where
  "room_status roomID snap stats projectiles =
     (let s = rsn_Snapshot snap
      in \<lparr>rt_RoomID = roomID, rt_StageIndex = v_Index (sn_Stage s), rt_StageSeed = v_Seed (sn_Stage s),
          rt_Phase = stagePhase (v_State (sn_Stage s)), rt_ServerTick = sn_ServerTick s,
          rt_Players = int (length (sn_Players s)), rt_Monsters = int (length (sn_Monsters s)), rt_Projectiles = projectiles,
          rt_ControlQueueDepth = st_ControlQueueDepth stats, rt_InputQueueDepth = st_InputQueueDepth stats,
          rt_QueueRejections = st_QueueRejections stats, rt_RejectedInputs = st_RejectedInputs stats,
          rt_DroppedSnapshots = st_DroppedSnapshots stats, rt_DroppedTickSamples = st_DroppedTickSamples stats,
          rt_TickWorkMillis = f64_of_int (ts_WorkDuration (st_LastTick stats)) / f64_of_int (10 ^ 6)\<rparr>)"

definition add_queues :: "RoomStatus \<Rightarrow> QueueStatus \<Rightarrow> QueueStatus" where
  "add_queues s q = \<lparr>qs_ControlDepth = qs_ControlDepth q + rt_ControlQueueDepth s, qs_InputDepth = qs_InputDepth q + rt_InputQueueDepth s,
     qs_Rejections = qs_Rejections q + rt_QueueRejections s, qs_RejectedInputs = qs_RejectedInputs q + rt_RejectedInputs s,
     qs_DroppedSnapshots = qs_DroppedSnapshots q + rt_DroppedSnapshots s,
     qs_DroppedTickSamples = qs_DroppedTickSamples q + rt_DroppedTickSamples s\<rparr>"

definition no_queues :: QueueStatus where
  "no_queues = \<lparr>qs_ControlDepth = 0, qs_InputDepth = 0, qs_Rejections = 0, qs_RejectedInputs = 0, qs_DroppedSnapshots = 0,
     qs_DroppedTickSamples = 0\<rparr>"

end
