(* ===== verification/App.thy ===== *)
theory App
  imports Sinks Writer Lobby Status
begin

text \<open>
  The application (\<open>cmd/gameserver/application.go\<close>, \<open>main.go\<close>): connections, sessions, the queue of players and the
  active rooms, and what each message of a client does to them.  Objects behind pointers have an
  address: sessions and active rooms a number, connections their number in the server.  Work that a
  handler leaves to a goroutine is a \<open>task\<close>; the tasks themselves are in the next theories.  Logging
  and metrics are left out.
\<close>

section \<open>Gameplay\<close>

record Gameplay =
  gp_catalog :: Catalog
  gp_rewardDurationTicks :: u64
  gp_stageLimit :: u32
  gp_firstStageSeedBase :: i64
  gp_planner :: RuleConfig
  gp_valid :: bool

definition FirstStageSeed :: "Gameplay \<Rightarrow> u64 \<Rightarrow> i64" where
  "FirstStageSeed g roomID = gp_firstStageSeedBase g + roomID"

section \<open>State\<close>

record participant =
  pt_conn :: nat
  pt_session :: nat
  pt_queuedAt :: time

record activeRoom =
  ar_room :: Room
  ar_matchID :: string
  ar_createdAt :: time
  ar_snapshots :: "nat SnapshotDispatcher"
  ar_events :: "sink EventDispatcher"
  ar_close :: "(sink, hub) CloseWatcher"
  ar_watched :: bool
  ar_rematching :: bool
  ar_rewardStage :: u32
  ar_rewarded :: "(entity_id, bool) gomap"
  ar_delivered :: "(entity_id, bool) gomap"
  ar_ready :: "(entity_id, bool) gomap"
  ar_advancing :: bool
  ar_completed :: bool
  ar_resultSubmitting :: bool
  ar_resultQueued :: bool
  ar_monsters :: int
  ar_projectiles :: "entity_id list"
  ar_stats :: RoomStats

text \<open>What a goroutine that has been started still has to do, and what it waits for.  A number called \<open>r\<close> is the
  address of an active room, \<open>n\<close> a receipt.\<close>

datatype task =
    Create_match "participant list" u32
  | Match_join nat u64 "participant list" "participant list" u32
  | Match_joining nat u64 "participant list" "participant list" u32 nat
  | Match_start nat u64 "participant list" "(entity_id \<times> nat) list" u32 Plan nat
  | Match_starting nat u64 "participant list" "(entity_id \<times> nat) list" u32 nat
  | Create_rematch u64 nat "participant list" u32
  | Rematch_join u64 nat u64 nat Plan "participant list" "participant list" u32
  | Rematch_joining u64 nat u64 nat Plan "participant list" "participant list" u32 nat
  | Rematch_start u64 nat u64 nat Plan "participant list" "(entity_id \<times> nat) list" u32 nat
  | Rematch_starting u64 nat u64 nat "participant list" "(entity_id \<times> nat) list" u32 nat
  | Rematch_closing nat nat
  | Leave_room nat nat
  | Leaving_room nat nat nat
  | Leave_former_room nat u64
  | Leaving_former_room nat u64 nat
  | Await_choice nat u64 entity_id nat u32 u32 nat
  | Await_delivery u64 entity_id nat u32 u32 room_error
  | Begin_reward u64 u32
  | Reward_completed nat u64 u32 nat
  | Reward_completing nat u64 u32 nat
  | Reward_submit nat u64 u32 i64 nat
  | Reward_submitting nat u64 u32 nat
  | Advance_completed u64 nat nat
  | Advance_completing u64 nat nat
  | Advance_submit u64 nat Plan PerformanceMetrics Decision nat
  | Advance_submitting u64 nat Plan PerformanceMetrics Decision nat nat
  | Submit_result u64 GameOutcome "(nat \<times> nat) option"
  | Result_ask nat u64 GameOutcome "(nat \<times> nat) option"
  | Result_asking nat u64 "(nat \<times> nat) option" nat
  | Result_send nat ResultEnvelope
  | Result_finish nat bool "(nat \<times> nat) option"

text \<open>A connection's reader is at rest or between the two halves of \<open>handleMatchRequest\<close>.\<close>

datatype reader_pc = Reading | Queueing participant string u32 | Reader_exited

record gameApplication =
  ap_ctxDone :: bool
  ap_sessionIDs :: u64
  ap_playerIDs :: u64
  ap_matcher :: Matchmaker
  ap_roomConfig :: RoomConfig
  ap_gameplay :: Gameplay
  ap_hub :: hub
  ap_sessions :: "nat \<Rightarrow> Session"
  ap_nsessions :: nat
  ap_readers :: "nat \<Rightarrow> reader_pc"
  ap_connections :: "(nat, nat) gomap"
  ap_waiting :: "(player_id, participant) gomap"
  ap_rooms :: "(u64, nat) gomap"
  ap_nextRoomID :: u64
  ap_objects :: "nat \<Rightarrow> activeRoom option"
  ap_nobjects :: nat
  ap_startedAt :: time
  ap_environment :: string
  ap_recentDirector :: "DirectorDecision list"
  ap_resultWriter :: "ResultWriter option"
  ap_tasks :: "task list"

datatype app_fault = InRoom room_fault | InChannel chan_panic | QueueEmpty | NilMap | NilContext | Spinning

datatype app_error = ErrClosing | ErrSendRejected | ErrEncode encode_error | ErrDecode | ErrRoom room_error | ErrLobby lobby_error
  | ErrConvert convert_error | ErrMatchID | ErrEncounter encounter_error | MatchTransitionFailed | ParticipantDisappeared player_id

type_synonym 'a app_step = "gameApplication \<Rightarrow> app_fault + ('a \<times> gameApplication)"

definition buildGameApplication :: "time \<Rightarrow> Gameplay \<Rightarrow> lobby_error + gameApplication" where
  "buildGameApplication now gameplay =
     (case NewMatchmaker 2 of Inl e \<Rightarrow> Inl e
      | Inr matcher \<Rightarrow> Inr \<lparr>ap_ctxDone = False, ap_sessionIDs = 0, ap_playerIDs = 0, ap_matcher = matcher,
          ap_roomConfig = (if gp_valid gameplay
            then DefaultRoomConfig\<lparr>rc_World := (rc_World DefaultRoomConfig)\<lparr>g_StageLimit := gp_stageLimit gameplay\<rparr>\<rparr>
            else DefaultRoomConfig),
          ap_gameplay = gameplay, ap_hub = NewHub\<lparr>hub_server := OnDisconnect True NewServer\<rparr>, ap_sessions = (\<lambda>_. New_session), ap_nsessions = 0,
          ap_readers = (\<lambda>_. Reading), ap_connections = [], ap_waiting = [], ap_rooms = [], ap_nextRoomID = 0,
          ap_objects = (\<lambda>_. None), ap_nobjects = 0, ap_startedAt = now,
          ap_environment = ''development'', ap_recentDirector = [], ap_resultWriter = None, ap_tasks = []\<rparr>)"

definition newConfiguredGameApplication :: "time \<Rightarrow> Gameplay \<Rightarrow> (lobby_error + gameApplication) option" where
  "newConfiguredGameApplication now gameplay = (if gp_valid gameplay then Some (buildGameApplication now gameplay) else None)"

section \<open>Objects\<close>

definition spawn :: "task \<Rightarrow> gameApplication \<Rightarrow> gameApplication" where
  "spawn t a = a\<lparr>ap_tasks := ap_tasks a @ [t]\<rparr>"

definition session_at :: "gameApplication \<Rightarrow> nat \<Rightarrow> Session" where
  "session_at a s = ap_sessions a s"

definition on_session :: "nat \<Rightarrow> (Session \<Rightarrow> 'r \<times> Session) \<Rightarrow> gameApplication \<Rightarrow> 'r \<times> gameApplication" where
  "on_session s f a = (case f (ap_sessions a s) of (x, v) \<Rightarrow> (x, a\<lparr>ap_sessions := (ap_sessions a)(s := v)\<rparr>))"

definition transition :: "nat \<Rightarrow> session_state \<Rightarrow> gameApplication \<Rightarrow> bool \<times> gameApplication" where
  "transition s t a = on_session s (\<lambda>v. Transition v t) a"

definition on_active :: "nat \<Rightarrow> (activeRoom \<Rightarrow> activeRoom) \<Rightarrow> gameApplication \<Rightarrow> gameApplication" where
  "on_active r f a = a\<lparr>ap_objects := (ap_objects a)(r := map_option f (ap_objects a r))\<rparr>"

text \<open>\<open>a.rooms[id]\<close>: the address of the active room, nil as None.\<close>

definition lookup_room :: "gameApplication \<Rightarrow> u64 \<Rightarrow> nat option" where
  "lookup_room a roomID = map_of (ap_rooms a) roomID"

definition room_at :: "gameApplication \<Rightarrow> nat \<Rightarrow> Room option" where
  "room_at a r = map_option ar_room (ap_objects a r)"

text \<open>A call of a room's method; an address always leads to a room.\<close>

definition on_room :: "nat \<Rightarrow> (Room \<Rightarrow> room_fault + ('r \<times> Room)) \<Rightarrow> 'r option app_step" where
  "on_room r f a =
     (case ap_objects a r of None \<Rightarrow> Inr (None, a)
      | Some active \<Rightarrow>
        (case f (ar_room active) of Inl e \<Rightarrow> Inl (InRoom e)
         | Inr (x, rm) \<Rightarrow> Inr (Some x, a\<lparr>ap_objects := (ap_objects a)(r \<mapsto> active\<lparr>ar_room := rm\<rparr>)\<rparr>)))"

definition receipt_at :: "gameApplication \<Rightarrow> nat \<Rightarrow> nat \<Rightarrow> receipt option" where
  "receipt_at a r n = (case ap_objects a r of None \<Rightarrow> None | Some active \<Rightarrow> map_of (rm_receipts (ar_room active)) n)"

definition room_done :: "gameApplication \<Rightarrow> nat \<Rightarrow> bool" where
  "room_done a r = (case ap_objects a r of None \<Rightarrow> False | Some active \<Rightarrow> rm_done (ar_room active))"

text \<open>\<open>Room.Close\<close> up to its wait: it cancels the room's context.\<close>

definition cancel_room :: "nat \<Rightarrow> gameApplication \<Rightarrow> gameApplication" where
  "cancel_room r a = on_active r (\<lambda>active. active\<lparr>ar_room := (ar_room active)\<lparr>rm_ctxDone := True\<rparr>\<rparr>) a"

definition set_flag :: "entity_id \<Rightarrow> (entity_id, bool) gomap \<Rightarrow> (entity_id, bool) gomap" where
  "set_flag i m = AList.update i True m"

definition flag :: "(entity_id, bool) gomap \<Rightarrow> entity_id \<Rightarrow> bool" where
  "flag m i = (map_of m i = Some True)"

text \<open>The key of a player in the queue.\<close>

definition player_key :: "u64 \<Rightarrow> player_id" where
  "player_key playerID = nat_digits (unat playerID)"

definition conn_closed :: "gameApplication \<Rightarrow> nat \<Rightarrow> bool" where
  "conn_closed a c = (case hub_conn (ap_hub a) c of None \<Rightarrow> True | Some conn \<Rightarrow> IsClosed conn)"

section \<open>Sending\<close>

definition sendMessage :: "codec \<Rightarrow> nat \<Rightarrow> u32 \<Rightarrow> message_type \<Rightarrow> message \<Rightarrow> app_error option app_step" where
  "sendMessage pb c sequence mt m a =
     (case encode_message pb mt sequence m of Inl e \<Rightarrow> Inr (Some (ErrEncode e), a)
      | Inr frame \<Rightarrow>
        (case hub_Send c frame (ap_hub a) of Inl p \<Rightarrow> Inl (InChannel p)
         | Inr (ok, h) \<Rightarrow> Inr (if ok then None else Some ErrSendRejected, a\<lparr>ap_hub := h\<rparr>)))"

definition hub_CloseAfterFlush :: "nat \<Rightarrow> hub \<Rightarrow> chan_panic + hub" where
  "hub_CloseAfterFlush i h =
     (case hub_conn h i of None \<Rightarrow> Inr h
      | Some c \<Rightarrow> bind_sum (CloseAfterFlush (c\<lparr>cn_counters := sv_counters (hub_server h)\<rparr>)) (\<lambda>c. Inr (set_conn i c h)))"

definition sendDisconnect :: "codec \<Rightarrow> nat \<Rightarrow> u32 \<Rightarrow> ReasonCode \<Rightarrow> string \<Rightarrow> app_error option app_step" where
  "sendDisconnect pb c sequence reason msg a =
     bind_sum (sendMessage pb c sequence MSG_DISCONNECT (Disconnect reason msg) a) (\<lambda>(err, a).
       case err of Some e \<Rightarrow> Inr (Some e, a)
       | None \<Rightarrow>
         (case hub_CloseAfterFlush c (ap_hub a) of Inl p \<Rightarrow> Inl (InChannel p)
          | Inr h \<Rightarrow> Inr (Some ErrClosing, a\<lparr>ap_hub := h\<rparr>)))"

section \<open>Losing a connection\<close>

definition unsubscribe_all :: "entity_id \<Rightarrow> activeRoom \<Rightarrow> activeRoom" where
  "unsubscribe_all playerID active = active\<lparr>ar_snapshots := SnapshotDispatcher_Unsubscribe playerID (ar_snapshots active),
     ar_events := EventDispatcher_Unsubscribe playerID (ar_events active),
     ar_close := CloseWatcher_Unsubscribe playerID (ar_close active)\<rparr>"

definition disconnected :: "nat \<Rightarrow> gameApplication \<Rightarrow> gameApplication" where
  "disconnected c a =
     (case map_of (ap_connections a) c of
        None \<Rightarrow> a\<lparr>ap_connections := AList.delete c (ap_connections a)\<rparr>
      | Some s \<Rightarrow>
        let a = a\<lparr>ap_connections := AList.delete c (ap_connections a)\<rparr>;
            sess = session_at a s; playerID = snd (Identity sess); roomID = se_roomID sess; key = player_key playerID;
            a = a\<lparr>ap_matcher := snd (Cancel (ap_matcher a) key), ap_waiting := AList.delete key (ap_waiting a)\<rparr>;
            lastConnected = \<not> list_ex (\<lambda>(_, other). se_roomID (session_at a other) = roomID) (ap_connections a)
        in case lookup_room a roomID of
             None \<Rightarrow> snd (transition s StateDisconnected a)
           | Some r \<Rightarrow>
             let a = snd (transition s StateDisconnected (on_active r (unsubscribe_all playerID) a))
             in if lastConnected then spawn (Submit_result roomID GameAbandoned (Some (s, r))) a
                else spawn (Leave_room s r) a)"

text \<open>\<open>Close\<close> of a connection, with the disconnect handler of the server.\<close>

definition close_connection :: "nat \<Rightarrow> gameApplication \<Rightarrow> gameApplication" where
  "close_connection c a =
     (case hub_conn (ap_hub a) c of None \<Rightarrow> a
      | Some conn \<Rightarrow>
        if cn_closeOnce conn then a
        else disconnected c (a\<lparr>ap_hub := (ap_hub a)\<lparr>hub_server := Close_server_conn c (hub_server (ap_hub a))\<rparr>\<rparr>))"

section \<open>Ping and login\<close>

definition handlePing :: "codec \<Rightarrow> nat \<Rightarrow> Header \<Rightarrow> byte list \<Rightarrow> app_error option app_step" where
  "handlePing pb c h payload a =
     (case unmarshal_Ping pb payload of None \<Rightarrow> Inr (Some ErrDecode, a)
      | Some (clientTimeMs, nonce) \<Rightarrow> sendMessage pb c (h_Sequence h) MSG_PONG (Pong clientTimeMs 0 nonce) a)"

definition gameplayProtocolVersion :: u32 where
  "gameplayProtocolVersion = 2"

definition next_ids :: "gameApplication \<Rightarrow> (u64 \<times> u64) \<times> gameApplication" where
  "next_ids a = ((ap_sessionIDs a + 1, ap_playerIDs a + 1),
     a\<lparr>ap_sessionIDs := ap_sessionIDs a + 1, ap_playerIDs := ap_playerIDs a + 1\<rparr>)"

definition handleLogin :: "codec \<Rightarrow> nat \<Rightarrow> Header \<Rightarrow> byte list \<Rightarrow> nat \<Rightarrow> app_error option app_step" where
  "handleLogin pb c h payload s a =
     (case unmarshal_LoginRequest pb payload of None \<Rightarrow> Inr (Some ErrDecode, a)
      | Some (version, _, _) \<Rightarrow>
        if version \<noteq> gameplayProtocolVersion
        then sendMessage pb c (h_Sequence h) MSG_LOGIN_RESPONSE
          (LoginResponse gameplayProtocolVersion REASON_INVALID_VERSION ''unsupported protocol version'' 0 0) a
        else case next_ids a of ((sessionID, playerID), a) \<Rightarrow>
          let a = snd (on_session s (\<lambda>v. ((), AssignIdentity v sessionID playerID)) a); a = snd (transition s StateLobby a)
          in sendMessage pb c (h_Sequence h) MSG_LOGIN_RESPONSE
               (LoginResponse gameplayProtocolVersion REASON_OK ''ok'' sessionID playerID) a)"

text \<open>The session of a connection, made at its first message.\<close>

definition connection_session :: "nat \<Rightarrow> gameApplication \<Rightarrow> nat \<times> gameApplication" where
  "connection_session c a =
     (case hub_conn (ap_hub a) c of
        None \<Rightarrow> (0, a)
      | Some conn \<Rightarrow>
        (case Context conn of
           Some s \<Rightarrow> (s, a)
         | None \<Rightarrow>
           let s = ap_nsessions a
           in (s, a\<lparr>ap_nsessions := Suc s, ap_sessions := (ap_sessions a)(s := New_session),
                 ap_hub := set_conn c (SetContext (Some s) (conn\<lparr>cn_counters := sv_counters (hub_server (ap_hub a))\<rparr>)) (ap_hub a)\<rparr>)))"

definition routeMessage :: "codec \<Rightarrow> nat \<Rightarrow> Header \<Rightarrow> byte list \<Rightarrow> app_error option app_step" where
  "routeMessage pb c h payload a =
     (case connection_session c a of (s, a) \<Rightarrow>
       case Accept (session_at a s) (h_MessageType h) of
         (False, reason) \<Rightarrow> sendDisconnect pb c (h_Sequence h) reason ''invalid message for session state'' a
       | (True, _) \<Rightarrow>
         if h_MessageType h = MSG_PING then handlePing pb c h payload a
         else if h_MessageType h = MSG_LOGIN_REQUEST then handleLogin pb c h payload s a
         else Inr (None, a))"

section \<open>Matching\<close>

text \<open>A rematch is for the two connected players of a room whose run is over.\<close>

definition LatestSnapshot :: "Room \<Rightarrow> RoomSnapshot" where
  "LatestSnapshot rm = rm_latest rm"

definition room_members :: "u64 \<Rightarrow> gameApplication \<Rightarrow> participant list" where
  "room_members roomID a =
     map (\<lambda>(c, s). \<lparr>pt_conn = c, pt_session = s, pt_queuedAt = 0\<rparr>)
       (filter (\<lambda>(c, s). se_roomID (session_at a s) = roomID \<and> se_state (session_at a s) = StateInRoom \<and> \<not> conn_closed a c)
         (ap_connections a))"

definition handleRematchRequest :: "nat \<Rightarrow> u32 \<Rightarrow> gameApplication \<Rightarrow> app_error option \<times> gameApplication" where
  "handleRematchRequest s sequence a =
     (let oldID = se_roomID (session_at a s)
      in case lookup_room a oldID of None \<Rightarrow> (None, a)
      | Some r \<Rightarrow>
        (case ap_objects a r of None \<Rightarrow> (None, a)
         | Some old \<Rightarrow>
           if ar_rematching old then (None, a)
           else let phase = v_State (sn_Stage (rsn_Snapshot (LatestSnapshot (ar_room old))))
             in if phase \<noteq> Failed \<and> \<not> (phase = StageClear \<and> ar_completed old) then (None, a)
             else let players = room_members oldID a
               in if length players \<noteq> 2 then (None, a)
               else (None, spawn (Create_rematch oldID r players sequence) (on_active r (\<lambda>old. old\<lparr>ar_rematching := True\<rparr>) a))))"

text \<open>The first half of \<open>handleMatchRequest\<close> ends where it takes the lock of the application.\<close>

definition handleMatchRequest :: "codec \<Rightarrow> time \<Rightarrow> nat \<Rightarrow> Header \<Rightarrow> byte list \<Rightarrow> nat \<Rightarrow> gameApplication \<Rightarrow> app_error option \<times> gameApplication" where
  "handleMatchRequest pb now c h payload s a =
     (case unmarshal_MatchRequest pb payload of None \<Rightarrow> (Some ErrDecode, a)
      | Some _ \<Rightarrow>
        if se_state (session_at a s) = StateInRoom then handleRematchRequest s (h_Sequence h) a
        else if se_state (session_at a s) = StateMatching then (None, a)
        else case transition s StateMatching a of
            (False, a) \<Rightarrow> (Some MatchTransitionFailed, a)
          | (True, a) \<Rightarrow>
            (None, a\<lparr>ap_readers := (ap_readers a)(c := Queueing \<lparr>pt_conn = c, pt_session = s, pt_queuedAt = now\<rparr>
              (player_key (snd (Identity (session_at a s)))) (h_Sequence h))\<rparr>))"

text \<open>Taking the players of a match out of the waiting list; a player that is not in it ends the loop.\<close>

fun take_participants :: "player_id list \<Rightarrow> (player_id, participant) gomap \<Rightarrow> (player_id + participant list) \<times> (player_id, participant) gomap" where
  "take_participants [] m = (Inr [], m)"
| "take_participants (i # is) m =
     (case map_of m i of
        None \<Rightarrow> (Inl i, AList.delete i m)
      | Some p \<Rightarrow> (case take_participants is (AList.delete i m) of (x, m) \<Rightarrow> (map_sum id ((#) p) x, m)))"

definition queue_member :: "participant \<Rightarrow> player_id \<Rightarrow> u32 \<Rightarrow> app_error option app_step" where
  "queue_member member key sequence a =
     (let a = a\<lparr>ap_waiting := AList.update key member (ap_waiting a)\<rparr>
      in case Enqueue (ap_matcher a) key of
           None \<Rightarrow> Inl QueueEmpty
         | Some (Inl e) \<Rightarrow>
           Inr (Some (ErrLobby e), snd (transition (pt_session member) StateLobby (a\<lparr>ap_waiting := AList.delete key (ap_waiting a)\<rparr>)))
         | Some (Inr (players, m)) \<Rightarrow>
           let a = a\<lparr>ap_matcher := m\<rparr>
           in if players = [] then Inr (None, a)
              else case take_participants players (ap_waiting a) of
                  (Inl i, w) \<Rightarrow> Inr (Some (ParticipantDisappeared i), a\<lparr>ap_waiting := w\<rparr>)
                | (Inr ps, w) \<Rightarrow> Inr (None, spawn (Create_match ps sequence) (a\<lparr>ap_waiting := w\<rparr>)))"

definition handleMatchCancel :: "codec \<Rightarrow> byte list \<Rightarrow> nat \<Rightarrow> gameApplication \<Rightarrow> app_error option \<times> gameApplication" where
  "handleMatchCancel pb payload s a =
     (case unmarshal_MatchCancel pb payload of None \<Rightarrow> (Some ErrDecode, a)
      | Some _ \<Rightarrow>
        if se_state (session_at a s) \<noteq> StateMatching then (None, a)
        else let key = player_key (snd (Identity (session_at a s)))
          in (None, snd (transition s StateLobby
                (a\<lparr>ap_matcher := snd (Cancel (ap_matcher a) key), ap_waiting := AList.delete key (ap_waiting a)\<rparr>))))"

section \<open>In the room\<close>

definition handlePlayerInput :: "codec \<Rightarrow> time \<Rightarrow> byte list \<Rightarrow> nat \<Rightarrow> app_error option app_step" where
  "handlePlayerInput pb now payload s a =
     (case unmarshal_PlayerInput pb payload of None \<Rightarrow> Inr (Some ErrDecode, a)
      | Some m \<Rightarrow>
        if se_state (session_at a s) = StateReward then Inr (None, a)
        else case Input_of (Some m) of Inl e \<Rightarrow> Inr (Some (ErrConvert e), a)
        | Inr input \<Rightarrow>
          (case lookup_room a (se_roomID (session_at a s)) of
             None \<Rightarrow> Inr (Some (ErrRoom RoomClosed), a)
           | Some r \<Rightarrow>
             bind_sum (on_room r (\<lambda>rm. Room_Input rm (fst (Identity (session_at a s))) input now) a) (\<lambda>(err, a).
               Inr (case err of Some (Some e) \<Rightarrow> Some (ErrRoom e) | _ \<Rightarrow> None, a))))"

definition rejectRewardChoice :: "codec \<Rightarrow> nat \<Rightarrow> u32 \<Rightarrow> u32 \<Rightarrow> room_error \<Rightarrow> unit app_step" where
  "rejectRewardChoice pb c sequence equipmentID cause a =
     (let reason = (if cause = ErrQueueFull \<or> cause = RoomClosed then REASON_INTERNAL else REASON_INVALID_STATE)
      in bind_sum (sendMessage pb c sequence MSG_REWARD_APPLIED (RewardApplied reason equipmentID) a) (\<lambda>(err, a).
           Inr ((), if err = None then a else close_connection c a)))"

definition handleRewardChoice :: "codec \<Rightarrow> nat \<Rightarrow> Header \<Rightarrow> byte list \<Rightarrow> nat \<Rightarrow> app_error option app_step" where
  "handleRewardChoice pb c h payload s a =
     (case unmarshal_RewardChoice pb payload of None \<Rightarrow> Inr (Some ErrDecode, a)
      | Some equipmentID \<Rightarrow>
        let roomID = se_roomID (session_at a s)
        in case lookup_room a roomID of
             None \<Rightarrow> Inr (Some (ErrRoom RoomClosed), a)
           | Some r \<Rightarrow>
             (case Identity (session_at a s) of (sessionID, playerID) \<Rightarrow>
               bind_sum (on_room r (\<lambda>rm. Room_ChooseReward rm sessionID equipmentID) a) (\<lambda>(x, a).
                 case x of
                   Some (Inr n) \<Rightarrow> Inr (None, spawn (Await_choice r roomID playerID c (h_Sequence h) equipmentID n) a)
                 | Some (Inl e) \<Rightarrow> bind_sum (rejectRewardChoice pb c (h_Sequence h) equipmentID e a) (\<lambda>(_, a). Inr (None, a))
                 | None \<Rightarrow> Inr (None, a))))"

text \<open>The gate of the director: one decision, once everybody in the room has his reward and is ready.\<close>

definition stage_members :: "u64 \<Rightarrow> gameApplication \<Rightarrow> entity_id list" where
  "stage_members roomID a =
     map (\<lambda>(c, s). snd (Identity (session_at a s)))
       (filter (\<lambda>(c, s). \<not> (conn_closed a c \<or> se_roomID (session_at a s) \<noteq> roomID \<or> se_state (session_at a s) \<noteq> StateReward))
         (ap_connections a))"

definition tryAdvanceStage :: "u64 \<Rightarrow> gameApplication \<Rightarrow> gameApplication" where
  "tryAdvanceStage roomID a =
     (case lookup_room a roomID of None \<Rightarrow> a
      | Some r \<Rightarrow>
        (case ap_objects a r of None \<Rightarrow> a
         | Some active \<Rightarrow>
           if ar_completed active \<or> ar_advancing active \<or> ar_rewardStage active = 0 then a
           else if list_ex (\<lambda>i. \<not> flag (ar_rewarded active) i \<or> \<not> flag (ar_ready active) i) (stage_members roomID a) then a
           else if stage_members roomID a = [] then a
           else spawn (Advance_completed roomID r 0) (on_active r (\<lambda>active. active\<lparr>ar_advancing := True\<rparr>) a)))"

definition handleNextStageRequest :: "codec \<Rightarrow> byte list \<Rightarrow> nat \<Rightarrow> gameApplication \<Rightarrow> app_error option \<times> gameApplication" where
  "handleNextStageRequest pb payload s a =
     (case unmarshal_NextStageRequest pb payload of None \<Rightarrow> (Some ErrDecode, a)
      | Some _ \<Rightarrow>
        let playerID = snd (Identity (session_at a s)); roomID = se_roomID (session_at a s)
        in case lookup_room a roomID of None \<Rightarrow> (None, a)
           | Some r \<Rightarrow>
             (case ap_objects a r of None \<Rightarrow> (None, a)
              | Some active \<Rightarrow>
                if ar_completed active \<or> \<not> flag (ar_rewarded active) playerID then (None, a)
                else (None, tryAdvanceStage roomID (on_active r (\<lambda>active. active\<lparr>ar_ready := set_flag playerID (ar_ready active)\<rparr>) a))))"

section \<open>Every message\<close>

definition handle_message :: "codec \<Rightarrow> time \<Rightarrow> nat \<Rightarrow> Header \<Rightarrow> byte list \<Rightarrow> app_error option app_step" where
  "handle_message pb now c h payload a =
     (let mt = h_MessageType h
      in if mt = MSG_PING \<or> mt = MSG_LOGIN_REQUEST then
           bind_sum (routeMessage pb c h payload a) (\<lambda>(err, a).
             Inr (err, if err = None \<and> mt = MSG_LOGIN_REQUEST
               then case hub_conn (ap_hub a) c of None \<Rightarrow> a
                 | Some conn \<Rightarrow> (case Context conn of None \<Rightarrow> a
                     | Some s \<Rightarrow> if se_state (session_at a s) = StateLobby
                       then a\<lparr>ap_connections := AList.update c s (ap_connections a)\<rparr> else a)
               else a))
         else case Option.bind (hub_conn (ap_hub a) c) Context of
           None \<Rightarrow> sendDisconnect pb c (h_Sequence h) REASON_INVALID_STATE ''login required'' a
         | Some s \<Rightarrow>
           (case Accept (session_at a s) mt of
              (False, reason) \<Rightarrow> sendDisconnect pb c (h_Sequence h) reason ''invalid message for session state'' a
            | (True, _) \<Rightarrow>
              if mt = MSG_MATCH_REQUEST then Inr (handleMatchRequest pb now c h payload s a)
              else if mt = MSG_MATCH_CANCEL then Inr (handleMatchCancel pb payload s a)
              else if mt = MSG_PLAYER_INPUT then handlePlayerInput pb now payload s a
              else if mt = MSG_REWARD_CHOICE then handleRewardChoice pb c h payload s a
              else if mt = MSG_NEXT_STAGE_REQUEST then Inr (handleNextStageRequest pb payload s a)
              else Inr (None, a)))"

text \<open>The reader of a connection: it hands over a message when it is at rest, and stops at the first error.\<close>

definition after_handling :: "nat \<Rightarrow> app_error option \<times> gameApplication \<Rightarrow> gameApplication" where
  "after_handling c x = (case x of (None, a) \<Rightarrow> a | (Some _, a) \<Rightarrow> a\<lparr>ap_readers := (ap_readers a)(c := Reader_exited)\<rparr>)"

definition read_message :: "codec \<Rightarrow> time \<Rightarrow> nat \<Rightarrow> Header \<Rightarrow> byte list \<Rightarrow> unit app_step" where
  "read_message pb now c h payload a =
     (if ap_readers a c \<noteq> Reading then Inr ((), a)
      else bind_sum (handle_message pb now c h payload a) (\<lambda>x. Inr ((), after_handling c x)))"

definition reader_continues :: "nat \<Rightarrow> unit app_step" where
  "reader_continues c a =
     (case ap_readers a c of
        Queueing member key sequence \<Rightarrow>
          bind_sum (queue_member member key sequence (a\<lparr>ap_readers := (ap_readers a)(c := Reading)\<rparr>))
            (\<lambda>x. Inr ((), after_handling c x))
      | _ \<Rightarrow> Inr ((), a))"

end
