(* ===== verification/Matches.thy ===== *)
theory Matches
  imports App
begin

text \<open>
  The goroutines that bring players into a room and out of it: \<open>createMatch\<close>, \<open>createRematch\<close>, \<open>leaveRoom\<close>
  and \<open>leaveFormerRoom\<close> of \<open>application.go\<close>.  Each waits for receipts of a room's goroutine, and each
  stretch between two waits is one step.  \<open>services\<close> bundles what is not the server's own code:
  the protobuf codec, Go's \<open>math.Pow\<close>, and the text of an error; \<open>answers\<close> is what the clock, the
  random source and the two-way \<open>select\<close>s give in a step.
\<close>

record services =
  sv_codec :: codec
  sv_pow :: "f64 \<Rightarrow> f64 \<Rightarrow> f64"
  sv_text :: "app_error \<Rightarrow> string"

record answers =
  an_random :: "u8 list option"
  an_now :: time
  an_timer :: bool
  an_duration :: duration

section \<open>A new room\<close>

text \<open>The random match ID (\<open>results.go\<close>).\<close>

definition hex_digit :: "nat \<Rightarrow> char" where
  "hex_digit n = (if n < 10 then char_of (48 + n) else char_of (87 + n))"

definition hex_string :: "u8 list \<Rightarrow> string" where
  "hex_string bs = concat (map (\<lambda>b. [hex_digit (unat b div 16), hex_digit (unat b mod 16)]) bs)"

definition newMatchID :: "u8 list option \<Rightarrow> string option" where
  "newMatchID random = map_option (\<lambda>value. ''match-'' @ hex_string value) random"

definition new_active :: "string \<Rightarrow> time \<Rightarrow> Room \<Rightarrow> activeRoom" where
  "new_active matchID now rm = \<lparr>ar_room = rm, ar_matchID = matchID, ar_createdAt = now, ar_snapshots = NewSnapshotDispatcher,
     ar_events = NewEventDispatcher, ar_close = NewCloseWatcher, ar_watched = False, ar_rematching = False, ar_rewardStage = 0,
     ar_rewarded = [], ar_delivered = [], ar_ready = [], ar_advancing = False, ar_completed = False, ar_resultSubmitting = False,
     ar_resultQueued = False, ar_monsters = 0, ar_projectiles = [], ar_stats = (rm_status rm)\<lparr>st_RoomID := 0\<rparr>\<rparr>"

definition newActiveRoom :: "answers \<Rightarrow> gameApplication \<Rightarrow> (app_error + u64 \<times> nat) \<times> gameApplication" where
  "newActiveRoom w a =
     (case newMatchID (an_random w) of None \<Rightarrow> (Inl ErrMatchID, a)
      | Some matchID \<Rightarrow>
        let roomID = ap_nextRoomID a + 1; a = a\<lparr>ap_nextRoomID := roomID\<rparr>
        in case Start (if ap_ctxDone a then Some Canceled else None) roomID (ap_roomConfig a) [gp_catalog (ap_gameplay a)] of
             Inl e \<Rightarrow> (Inl (ErrRoom e), a)
           | Inr rm \<Rightarrow>
             let r = ap_nobjects a
             in (Inr (roomID, r), a\<lparr>ap_nobjects := Suc r, ap_objects := (ap_objects a)(r \<mapsto> new_active matchID (an_now w) rm),
                   ap_rooms := AList.update roomID r (ap_rooms a)\<rparr>))"

definition firstStageSeed :: "gameApplication \<Rightarrow> u64 \<Rightarrow> i64" where
  "firstStageSeed a roomID = (if gp_valid (ap_gameplay a) then FirstStageSeed (ap_gameplay a) roomID else roomID)"

section \<open>Shared parts\<close>

text \<open>Doing something for every player in turn.\<close>

fun for_players :: "(participant \<Rightarrow> unit app_step) \<Rightarrow> participant list \<Rightarrow> unit app_step" where
  "for_players f [] a = Inr ((), a)"
| "for_players f (p # ps) a = bind_sum (f p a) (\<lambda>(_, a). for_players f ps a)"

definition player_of :: "gameApplication \<Rightarrow> participant \<Rightarrow> entity_id" where
  "player_of a p = snd (Identity (session_at a (pt_session p)))"

definition failMatch :: "services \<Rightarrow> participant list \<Rightarrow> string \<Rightarrow> unit app_step" where
  "failMatch v players cause =
     for_players (\<lambda>p a. bind_sum (sendDisconnect (sv_codec v) (pt_conn p) 0 REASON_ROOM_CLOSED cause a) (\<lambda>(_, a). Inr ((), a))) players"

definition detachPendingMatch :: "nat \<Rightarrow> participant list \<Rightarrow> gameApplication \<Rightarrow> gameApplication" where
  "detachPendingMatch r players a = fold (\<lambda>p a. on_active r (unsubscribe_all (player_of a p)) a) players a"

text \<open>A deferred sink for a player, in front of his connection.\<close>

definition defer_events :: "participant \<Rightarrow> (entity_id \<times> nat) list \<Rightarrow> gameApplication \<Rightarrow> nat \<times> (entity_id \<times> nat) list \<times> gameApplication" where
  "defer_events p pending a =
     (case newDeferredEventSink (pt_conn p) (ap_hub a) of (k, h) \<Rightarrow>
        (k, AList.update (player_of a p) k pending, a\<lparr>ap_hub := h\<rparr>))"

definition room_token :: "u64 \<Rightarrow> string" where
  "room_token roomID = ''room-'' @ nat_digits (unat roomID)"

definition send_match_found :: "services \<Rightarrow> u64 \<Rightarrow> u32 \<Rightarrow> participant list \<Rightarrow> participant \<Rightarrow> unit app_step" where
  "send_match_found v roomID sequence players p a =
     (let self = player_of a p; teammates = filter (\<lambda>i. i \<noteq> self) (map (player_of a) players)
      in bind_sum (sendMessage (sv_codec v) (pt_conn p) sequence MSG_MATCH_FOUND (MatchFound roomID (room_token roomID) teammates) a)
           (\<lambda>(err, a). Inr ((), if err = None then a else close_connection (pt_conn p) a)))"

definition release_pending :: "(entity_id \<times> nat) list \<Rightarrow> participant \<Rightarrow> unit app_step" where
  "release_pending pending p a =
     (case map_of pending (player_of a p) of None \<Rightarrow> Inl NilMap
      | Some k \<Rightarrow> (case Release k (ap_hub a) of Inl e \<Rightarrow> Inl (InChannel e) | Inr h \<Rightarrow> Inr ((), a\<lparr>ap_hub := h\<rparr>)))"

definition announce_match :: "services \<Rightarrow> u64 \<Rightarrow> u32 \<Rightarrow> participant list \<Rightarrow> (entity_id \<times> nat) list \<Rightarrow> unit app_step" where
  "announce_match v roomID sequence players pending a =
     bind_sum (for_players (send_match_found v roomID sequence players) players a) (\<lambda>(_, a).
       for_players (release_pending pending) players a)"

text \<open>One attempt of \<open>startOpeningStage\<close>: an error, a receipt to wait for, or another attempt.\<close>

datatype attempt_result = Attempt_failed room_error | Attempt_receipt nat | Attempt_again

definition opening_attempt :: "answers \<Rightarrow> nat \<Rightarrow> Plan \<Rightarrow> nat \<Rightarrow> attempt_result app_step" where
  "opening_attempt w r plan k a =
     (if k \<ge> 10 then Inr (Attempt_failed ErrQueueFull, a)
      else bind_sum (on_room r (\<lambda>rm. Room_StartStage rm plan) a) (\<lambda>(x, a).
        Inr (case x of
            Some (Inr n) \<Rightarrow> Attempt_receipt n
          | Some (Inl e) \<Rightarrow> if e = ErrQueueFull then if room_done a r \<and> \<not> an_timer w then Attempt_failed RoomClosed else Attempt_again
                             else Attempt_failed e
          | None \<Rightarrow> Attempt_failed RoomClosed, a)))"

text \<open>Waiting for the receipt or for the end of the room; None while neither is there.\<close>

definition await_result :: "answers \<Rightarrow> nat \<Rightarrow> nat \<Rightarrow> gameApplication \<Rightarrow> room_error option option" where
  "await_result w r n a =
     (case receipt_at a r n of
        Some (Done_receipt result) \<Rightarrow> if room_done a r \<and> \<not> an_timer w then Some (Some RoomClosed) else Some result
      | _ \<Rightarrow> if room_done a r then Some (Some RoomClosed) else None)"

definition await_receipt :: "nat \<Rightarrow> nat \<Rightarrow> gameApplication \<Rightarrow> room_error option option" where
  "await_receipt r n a = (case receipt_at a r n of Some (Done_receipt result) \<Rightarrow> Some result | _ \<Rightarrow> None)"

section \<open>The first match\<close>

definition match_failed :: "services \<Rightarrow> nat \<Rightarrow> participant list \<Rightarrow> string \<Rightarrow> unit app_step" where
  "match_failed v r players cause a =
     bind_sum (failMatch v players cause a) (\<lambda>(_, a). Inr ((), cancel_room r a))"

definition create_match :: "services \<Rightarrow> answers \<Rightarrow> participant list \<Rightarrow> u32 \<Rightarrow> unit app_step" where
  "create_match v w players sequence a =
     (case newActiveRoom w a of
        (Inl e, a) \<Rightarrow> failMatch v players (sv_text v e) a
      | (Inr (roomID, r), a) \<Rightarrow> Inr ((), spawn (Match_join r roomID players players sequence) a))"

definition subscribe_player :: "nat \<Rightarrow> participant \<Rightarrow> (entity_id \<times> nat) list \<Rightarrow> gameApplication \<Rightarrow> (entity_id \<times> nat) list \<times> gameApplication" where
  "subscribe_player r p pending a =
     (case defer_events p pending a of (k, pending, a) \<Rightarrow>
       (pending, on_active r (\<lambda>active. active\<lparr>
          ar_snapshots := SnapshotDispatcher_Subscribe (player_of a p) (Some (pt_conn p)) (ar_snapshots active),
          ar_events := EventDispatcher_Subscribe (player_of a p) (Some (DeferredSink k)) (ar_events active),
          ar_close := CloseWatcher_Subscribe (player_of a p) (Some (DeferredSink k)) (ar_close active)\<rparr>) a))"

definition match_joined :: "services \<Rightarrow> nat \<Rightarrow> u64 \<Rightarrow> participant list \<Rightarrow> u32 \<Rightarrow> unit app_step" where
  "match_joined v r roomID players sequence a =
     (case fold (\<lambda>p (pending, a). subscribe_player r p pending a) players ([], a) of (pending, a) \<Rightarrow>
        (case NewFirstStagePlan (rc_World (ap_roomConfig a)) (firstStageSeed a roomID) of
           Inl e \<Rightarrow> match_failed v r players (sv_text v (ErrEncounter e)) (detachPendingMatch r players a)
         | Inr plan \<Rightarrow> Inr ((), spawn (Match_start r roomID players pending sequence plan 0) a)))"

definition match_join :: "services \<Rightarrow> nat \<Rightarrow> u64 \<Rightarrow> participant list \<Rightarrow> participant list \<Rightarrow> u32 \<Rightarrow> unit app_step" where
  "match_join v r roomID players rest sequence a =
     (case rest of [] \<Rightarrow> match_joined v r roomID players sequence a
      | p # _ \<Rightarrow>
        if se_state (session_at a (pt_session p)) \<noteq> StateMatching
        then match_failed v r players ''participant disconnected before room join'' a
        else bind_sum (on_room r (\<lambda>rm. Join_submit (session_at a (pt_session p)) rm) a) (\<lambda>(x, a).
          case x of
            Some (Inr n) \<Rightarrow> Inr ((), spawn (Match_joining r roomID players rest sequence n) a)
          | Some (Inl e) \<Rightarrow> match_failed v r players (sv_text v (ErrRoom e)) a
          | None \<Rightarrow> Inr ((), a)))"

definition match_joining :: "services \<Rightarrow> nat \<Rightarrow> u64 \<Rightarrow> participant list \<Rightarrow> participant list \<Rightarrow> u32 \<Rightarrow> nat \<Rightarrow> unit app_step" where
  "match_joining v r roomID players rest sequence n a =
     (case await_receipt r n a of
        None \<Rightarrow> Inr ((), spawn (Match_joining r roomID players rest sequence n) a)
      | Some result \<Rightarrow>
        (case rest of [] \<Rightarrow> Inr ((), a)
         | p # ps \<Rightarrow>
           (case on_session (pt_session p) (Join_receive roomID result) a of
              (Some e, a) \<Rightarrow> match_failed v r players (sv_text v (ErrRoom e)) a
            | (None, a) \<Rightarrow>
              if conn_closed a (pt_conn p) then match_failed v r players ''participant disconnected during room join'' a
              else Inr ((), spawn (Match_join r roomID players ps sequence) a))))"

definition opening_failed :: "services \<Rightarrow> nat \<Rightarrow> participant list \<Rightarrow> room_error \<Rightarrow> unit app_step" where
  "opening_failed v r players e a = match_failed v r players (sv_text v (ErrRoom e)) (detachPendingMatch r players a)"

definition match_start :: "services \<Rightarrow> answers \<Rightarrow> nat \<Rightarrow> u64 \<Rightarrow> participant list \<Rightarrow> (entity_id \<times> nat) list \<Rightarrow> u32 \<Rightarrow> Plan \<Rightarrow> nat \<Rightarrow> unit app_step" where
  "match_start v w r roomID players pending sequence plan k a =
     bind_sum (opening_attempt w r plan k a) (\<lambda>(x, a).
       case x of
         Attempt_failed e \<Rightarrow> opening_failed v r players e a
       | Attempt_again \<Rightarrow> Inr ((), spawn (Match_start r roomID players pending sequence plan (Suc k)) a)
       | Attempt_receipt n \<Rightarrow> Inr ((), spawn (Match_starting r roomID players pending sequence n) a))"

definition match_starting :: "services \<Rightarrow> answers \<Rightarrow> nat \<Rightarrow> u64 \<Rightarrow> participant list \<Rightarrow> (entity_id \<times> nat) list \<Rightarrow> u32 \<Rightarrow> nat \<Rightarrow> unit app_step" where
  "match_starting v w r roomID players pending sequence n a =
     (case await_result w r n a of
        None \<Rightarrow> Inr ((), spawn (Match_starting r roomID players pending sequence n) a)
      | Some (Some e) \<Rightarrow> opening_failed v r players e a
      | Some None \<Rightarrow> announce_match v roomID sequence players pending a)"

section \<open>A rematch\<close>

text \<open>Every failure cancels the new room, waits for its end and lets the old room be rematched again.\<close>

definition rematch_failed :: "nat \<Rightarrow> nat \<Rightarrow> unit app_step" where
  "rematch_failed old new a = Inr ((), spawn (Rematch_closing old new) (cancel_room new a))"

definition rematch_allowed :: "nat \<Rightarrow> gameApplication \<Rightarrow> gameApplication" where
  "rematch_allowed old a = on_active old (\<lambda>active. active\<lparr>ar_rematching := False\<rparr>) a"

definition rematch_closing :: "nat \<Rightarrow> nat \<Rightarrow> unit app_step" where
  "rematch_closing old new a =
     Inr ((), if room_done a new then rematch_allowed old a else spawn (Rematch_closing old new) a)"

definition create_rematch :: "services \<Rightarrow> answers \<Rightarrow> u64 \<Rightarrow> nat \<Rightarrow> participant list \<Rightarrow> u32 \<Rightarrow> unit app_step" where
  "create_rematch v w oldID old players sequence a =
     (case newActiveRoom w a of
        (Inl _, a) \<Rightarrow> Inr ((), rematch_allowed old a)
      | (Inr (newID, new), a) \<Rightarrow>
        (case NewFirstStagePlan (rc_World (ap_roomConfig a)) (firstStageSeed a newID) of
           Inl _ \<Rightarrow> rematch_failed old new a
         | Inr plan \<Rightarrow> Inr ((), spawn (Rematch_join oldID old newID new plan players players sequence) a)))"

definition subscribe_events :: "nat \<Rightarrow> participant \<Rightarrow> (entity_id \<times> nat) list \<Rightarrow> gameApplication \<Rightarrow> (entity_id \<times> nat) list \<times> gameApplication" where
  "subscribe_events r p pending a =
     (case defer_events p pending a of (k, pending, a) \<Rightarrow>
       (pending, on_active r (\<lambda>active. active\<lparr>
          ar_events := EventDispatcher_Subscribe (player_of a p) (Some (DeferredSink k)) (ar_events active)\<rparr>) a))"

definition rematch_join :: "u64 \<Rightarrow> nat \<Rightarrow> u64 \<Rightarrow> nat \<Rightarrow> Plan \<Rightarrow> participant list \<Rightarrow> participant list \<Rightarrow> u32 \<Rightarrow> unit app_step" where
  "rematch_join oldID old newID new plan players rest sequence a =
     (case rest of
        [] \<Rightarrow> (case fold (\<lambda>p (pending, a). subscribe_events new p pending a) players ([], a) of (pending, a) \<Rightarrow>
          Inr ((), spawn (Rematch_start oldID old newID new plan players pending sequence 0) a))
      | p # _ \<Rightarrow>
        bind_sum (on_room new (\<lambda>rm. Join_submit (session_at a (pt_session p)) rm) a) (\<lambda>(x, a).
          case x of
            Some (Inr n) \<Rightarrow> Inr ((), spawn (Rematch_joining oldID old newID new plan players rest sequence n) a)
          | _ \<Rightarrow> rematch_failed old new a))"

definition rematch_joining :: "u64 \<Rightarrow> nat \<Rightarrow> u64 \<Rightarrow> nat \<Rightarrow> Plan \<Rightarrow> participant list \<Rightarrow> participant list \<Rightarrow> u32 \<Rightarrow> nat \<Rightarrow> unit app_step" where
  "rematch_joining oldID old newID new plan players rest sequence n a =
     (case await_receipt new n a of
        None \<Rightarrow> Inr ((), spawn (Rematch_joining oldID old newID new plan players rest sequence n) a)
      | Some (Some _) \<Rightarrow> rematch_failed old new a
      | Some None \<Rightarrow> Inr ((), spawn (Rematch_join oldID old newID new plan players (tl rest) sequence) a))"

text \<open>The move to the new room, under the lock of the application: all the players or none.\<close>

definition still_there :: "u64 \<Rightarrow> gameApplication \<Rightarrow> participant \<Rightarrow> bool" where
  "still_there oldID a p \<longleftrightarrow> \<not> (map_of (ap_connections a) (pt_conn p) \<noteq> Some (pt_session p) \<or> conn_closed a (pt_conn p) \<or>
     se_state (session_at a (pt_session p)) \<noteq> StateInRoom \<or> se_roomID (session_at a (pt_session p)) \<noteq> oldID)"

definition move_member :: "nat \<Rightarrow> u64 \<Rightarrow> nat \<Rightarrow> participant \<Rightarrow> gameApplication \<Rightarrow> gameApplication" where
  "move_member old newID new p a =
     (let playerID = player_of a p; a = on_active old (unsubscribe_all playerID) a;
          a = snd (on_session (pt_session p) (\<lambda>v. ((), BindRoom v newID)) a)
      in on_active new (\<lambda>active. active\<lparr>
           ar_snapshots := SnapshotDispatcher_Subscribe playerID (Some (pt_conn p)) (ar_snapshots active),
           ar_close := CloseWatcher_Subscribe playerID (Some (ClosingSink (pt_conn p))) (ar_close active)\<rparr>) a)"

definition commit_rematch :: "u64 \<Rightarrow> nat \<Rightarrow> u64 \<Rightarrow> nat \<Rightarrow> participant list \<Rightarrow> gameApplication \<Rightarrow> gameApplication option" where
  "commit_rematch oldID old newID new players a =
     (if lookup_room a oldID \<noteq> Some old \<or> lookup_room a newID \<noteq> Some new then None
      else if \<not> list_all (still_there oldID a) players then None
      else Some (fold (move_member old newID new) players a))"

definition rematch_started :: "services \<Rightarrow> u64 \<Rightarrow> nat \<Rightarrow> u64 \<Rightarrow> nat \<Rightarrow> participant list \<Rightarrow> (entity_id \<times> nat) list \<Rightarrow> u32 \<Rightarrow> unit app_step" where
  "rematch_started v oldID old newID new players pending sequence a =
     (case commit_rematch oldID old newID new players a of
        None \<Rightarrow> rematch_failed old new a
      | Some a \<Rightarrow>
        bind_sum (announce_match v newID sequence players pending a) (\<lambda>(_, a).
          Inr ((), fold (\<lambda>p a. spawn (Leave_former_room old (fst (Identity (session_at a (pt_session p))))) a) players a)))"

definition rematch_start :: "services \<Rightarrow> answers \<Rightarrow> u64 \<Rightarrow> nat \<Rightarrow> u64 \<Rightarrow> nat \<Rightarrow> Plan \<Rightarrow> participant list \<Rightarrow> (entity_id \<times> nat) list \<Rightarrow> u32 \<Rightarrow> nat \<Rightarrow> unit app_step" where
  "rematch_start v w oldID old newID new plan players pending sequence k a =
     bind_sum (opening_attempt w new plan k a) (\<lambda>(x, a).
       case x of
         Attempt_failed _ \<Rightarrow> rematch_failed old new a
       | Attempt_again \<Rightarrow> Inr ((), spawn (Rematch_start oldID old newID new plan players pending sequence (Suc k)) a)
       | Attempt_receipt n \<Rightarrow> Inr ((), spawn (Rematch_starting oldID old newID new players pending sequence n) a))"

definition rematch_starting :: "services \<Rightarrow> answers \<Rightarrow> u64 \<Rightarrow> nat \<Rightarrow> u64 \<Rightarrow> nat \<Rightarrow> participant list \<Rightarrow> (entity_id \<times> nat) list \<Rightarrow> u32 \<Rightarrow> nat \<Rightarrow> unit app_step" where
  "rematch_starting v w oldID old newID new players pending sequence n a =
     (case await_result w new n a of
        None \<Rightarrow> Inr ((), spawn (Rematch_starting oldID old newID new players pending sequence n) a)
      | Some (Some _) \<Rightarrow> rematch_failed old new a
      | Some None \<Rightarrow> rematch_started v oldID old newID new players pending sequence a)"

section \<open>Leaving\<close>

text \<open>The rest of a turn of \<open>leaveRoom\<close> and of \<open>leaveFormerRoom\<close> after an error: a full queue is tried again unless the room is done.\<close>

definition leave_again :: "answers \<Rightarrow> nat \<Rightarrow> task \<Rightarrow> room_error \<Rightarrow> gameApplication \<Rightarrow> gameApplication" where
  "leave_again w r t e a = (if e = ErrQueueFull \<and> \<not> (room_done a r \<and> \<not> an_timer w) then spawn t a else a)"

definition leave_room :: "answers \<Rightarrow> nat \<Rightarrow> nat \<Rightarrow> unit app_step" where
  "leave_room w s r a =
     (case ap_objects a r of None \<Rightarrow> Inr ((), a)
      | Some active \<Rightarrow>
        (case Leave_submit (session_at a s) (ar_room active) of
           Inl e \<Rightarrow> Inl (InRoom e)
         | Inr (x, sess, rm) \<Rightarrow>
           let a = a\<lparr>ap_sessions := (ap_sessions a)(s := sess), ap_objects := (ap_objects a)(r \<mapsto> active\<lparr>ar_room := rm\<rparr>)\<rparr>
           in Inr ((), case x of Inr n \<Rightarrow> spawn (Leaving_room s r n) a | Inl e \<Rightarrow> leave_again w r (Leave_room s r) e a)))"

definition leaving_room :: "answers \<Rightarrow> nat \<Rightarrow> nat \<Rightarrow> nat \<Rightarrow> unit app_step" where
  "leaving_room w s r n a =
     (case await_receipt r n a of
        None \<Rightarrow> Inr ((), spawn (Leaving_room s r n) a)
      | Some result \<Rightarrow>
        Inr ((), case fst (Leave_receive result (session_at a s)) of None \<Rightarrow> a | Some e \<Rightarrow> leave_again w r (Leave_room s r) e a))"

definition leave_former_room :: "answers \<Rightarrow> nat \<Rightarrow> u64 \<Rightarrow> unit app_step" where
  "leave_former_room w r sessionID a =
     bind_sum (on_room r (\<lambda>rm. Room.Leave rm sessionID) a) (\<lambda>(x, a).
       Inr ((), case x of
           Some (Inr n) \<Rightarrow> spawn (Leaving_former_room r sessionID n) a
         | Some (Inl e) \<Rightarrow> leave_again w r (Leave_former_room r sessionID) e a
         | None \<Rightarrow> a))"

definition leaving_former_room :: "answers \<Rightarrow> nat \<Rightarrow> u64 \<Rightarrow> nat \<Rightarrow> unit app_step" where
  "leaving_former_room w r sessionID n a =
     (case await_receipt r n a of
        None \<Rightarrow> Inr ((), spawn (Leaving_former_room r sessionID n) a)
      | Some None \<Rightarrow> Inr ((), a)
      | Some (Some e) \<Rightarrow> Inr ((), leave_again w r (Leave_former_room r sessionID) e a))"

end
