(* ===== verification/Stages.thy ===== *)
theory Stages
  imports Matches
begin

text \<open>
  The life of a room after its start: rewards, the next stage, the terminal result, and the consumers of
  what the room publishes (\<open>application.go\<close>, \<open>results.go\<close>).  As before, one step is the stretch between two
  waits; a batch of updates is consumed in one step.
\<close>

section \<open>Asking a room\<close>

text \<open>One attempt of the loops that repeat a call while the queue of the room is full.\<close>

definition bounded_attempt :: "nat \<Rightarrow> nat \<Rightarrow> nat \<Rightarrow> (Room \<Rightarrow> call) \<Rightarrow> attempt_result app_step" where
  "bounded_attempt limit k r f a =
     (if k \<ge> limit then Inr (Attempt_failed ErrQueueFull, a)
      else bind_sum (on_room r f a) (\<lambda>(x, a).
        Inr (case x of
            Some (Inr n) \<Rightarrow> Attempt_receipt n
          | Some (Inl e) \<Rightarrow> if e = ErrQueueFull then Attempt_again else Attempt_failed e
          | None \<Rightarrow> Attempt_failed RoomClosed, a)))"

definition waitCompletedStage :: "nat \<Rightarrow> nat \<Rightarrow> attempt_result app_step" where
  "waitCompletedStage k r a = bounded_attempt 10 k r Room_CompletedStage a"

definition submitStartReward :: "nat \<Rightarrow> nat \<Rightarrow> i64 \<Rightarrow> attempt_result app_step" where
  "submitStartReward k r seed a = bounded_attempt 10 k r
     (\<lambda>rm. Room_StartReward rm (gp_catalog (ap_gameplay a)) seed (gp_rewardDurationTicks (ap_gameplay a))) a"

definition completed_receipt :: "nat \<Rightarrow> nat \<Rightarrow> gameApplication \<Rightarrow> (room_error + (Plan \<times> PerformanceMetrics)) option" where
  "completed_receipt r n a = (case receipt_at a r n of Some (StageResultReceipt x) \<Rightarrow> Some x | _ \<Rightarrow> None)"

section \<open>Rewards\<close>

definition transitionRoomSessions :: "u64 \<Rightarrow> session_state \<Rightarrow> session_state \<Rightarrow> gameApplication \<Rightarrow> gameApplication" where
  "transitionRoomSessions roomID from_state to_state a =
     fold (\<lambda>(c, s) a. snd (transition s to_state a))
       (filter (\<lambda>(c, s). \<not> conn_closed a c \<and> se_roomID (session_at a s) = roomID \<and> se_state (session_at a s) = from_state)
         (ap_connections a)) a"

definition await_choice :: "services \<Rightarrow> nat \<Rightarrow> u64 \<Rightarrow> entity_id \<Rightarrow> nat \<Rightarrow> u32 \<Rightarrow> u32 \<Rightarrow> nat \<Rightarrow> unit app_step" where
  "await_choice v r roomID playerID c sequence equipmentID n a =
     (case await_receipt r n a of
        None \<Rightarrow> Inr ((), spawn (Await_choice r roomID playerID c sequence equipmentID n) a)
      | Some None \<Rightarrow> Inr ((), a)
      | Some (Some e) \<Rightarrow>
        if e = RoomWorld (ErrRound ErrChoiceAlreadyMade) \<or> e = RoomWorld ErrRewardState
        then Inr ((), spawn (Await_delivery roomID playerID c sequence equipmentID e) a)
        else rejectRewardChoice (sv_codec v) c sequence equipmentID e a)"

text \<open>A turn of \<open>waitRewardAppliedDelivery\<close>; \<open>an_timer\<close> is its deadline.\<close>

definition await_delivery :: "services \<Rightarrow> answers \<Rightarrow> u64 \<Rightarrow> entity_id \<Rightarrow> nat \<Rightarrow> u32 \<Rightarrow> u32 \<Rightarrow> room_error \<Rightarrow> unit app_step" where
  "await_delivery v w roomID playerID c sequence equipmentID e a =
     (let delivered = (case Option.bind (lookup_room a roomID) (ap_objects a) of None \<Rightarrow> True
            | Some active \<Rightarrow> flag (ar_delivered active) playerID)
      in if delivered \<or> conn_closed a c \<or> an_timer w then rejectRewardChoice (sv_codec v) c sequence equipmentID e a
         else Inr ((), spawn (Await_delivery roomID playerID c sequence equipmentID e) a))"

definition rewardStartFailed :: "u64 \<Rightarrow> u32 \<Rightarrow> gameApplication \<Rightarrow> gameApplication" where
  "rewardStartFailed roomID stageIndex a =
     (case lookup_room a roomID of None \<Rightarrow> a
      | Some r \<Rightarrow> on_active r (\<lambda>active. if ar_rewardStage active = stageIndex then active\<lparr>ar_rewardStage := 0\<rparr> else active) a)"

definition begin_reward :: "u64 \<Rightarrow> u32 \<Rightarrow> unit app_step" where
  "begin_reward roomID stageIndex a =
     Inr ((), if \<not> gp_valid (ap_gameplay a) then a
       else case lookup_room a roomID of None \<Rightarrow> a
       | Some r \<Rightarrow>
         (case ap_objects a r of None \<Rightarrow> a
          | Some active \<Rightarrow>
            if ar_completed active \<or> stageIndex \<le> ar_rewardStage active then a
            else if gp_stageLimit (ap_gameplay a) \<le> stageIndex
            then spawn (Submit_result roomID GameVictory None) (on_active r (\<lambda>active. active\<lparr>ar_completed := True\<rparr>) a)
            else spawn (Reward_completed r roomID stageIndex 0)
              (on_active r (\<lambda>active. active\<lparr>ar_rewardStage := stageIndex, ar_rewarded := [], ar_delivered := [], ar_ready := []\<rparr>) a)))"

definition reward_completed :: "nat \<Rightarrow> u64 \<Rightarrow> u32 \<Rightarrow> nat \<Rightarrow> unit app_step" where
  "reward_completed r roomID stageIndex k a =
     bind_sum (waitCompletedStage k r a) (\<lambda>(x, a).
       Inr ((), case x of
           Attempt_failed _ \<Rightarrow> rewardStartFailed roomID stageIndex a
         | Attempt_again \<Rightarrow> spawn (Reward_completed r roomID stageIndex (Suc k)) a
         | Attempt_receipt n \<Rightarrow> spawn (Reward_completing r roomID stageIndex n) a))"

definition reward_completing :: "nat \<Rightarrow> u64 \<Rightarrow> u32 \<Rightarrow> nat \<Rightarrow> unit app_step" where
  "reward_completing r roomID stageIndex n a =
     Inr ((), case completed_receipt r n a of
         None \<Rightarrow> spawn (Reward_completing r roomID stageIndex n) a
       | Some (Inl _) \<Rightarrow> rewardStartFailed roomID stageIndex a
       | Some (Inr (plan, _)) \<Rightarrow> spawn (Reward_submit r roomID stageIndex (pl_Seed plan) 0) a)"

definition reward_submit :: "nat \<Rightarrow> u64 \<Rightarrow> u32 \<Rightarrow> i64 \<Rightarrow> nat \<Rightarrow> unit app_step" where
  "reward_submit r roomID stageIndex seed k a =
     bind_sum (submitStartReward k r seed a) (\<lambda>(x, a).
       Inr ((), case x of
           Attempt_failed _ \<Rightarrow> rewardStartFailed roomID stageIndex a
         | Attempt_again \<Rightarrow> spawn (Reward_submit r roomID stageIndex seed (Suc k)) a
         | Attempt_receipt n \<Rightarrow> spawn (Reward_submitting r roomID stageIndex n) a))"

definition reward_submitting :: "nat \<Rightarrow> u64 \<Rightarrow> u32 \<Rightarrow> nat \<Rightarrow> unit app_step" where
  "reward_submitting r roomID stageIndex n a =
     Inr ((), case await_receipt r n a of
         None \<Rightarrow> spawn (Reward_submitting r roomID stageIndex n) a
       | Some (Some _) \<Rightarrow> rewardStartFailed roomID stageIndex a
       | Some None \<Rightarrow> transitionRoomSessions roomID StateInRoom StateReward a)"

section \<open>The next stage\<close>

definition advanceStageFailed :: "u64 \<Rightarrow> nat \<Rightarrow> gameApplication \<Rightarrow> gameApplication" where
  "advanceStageFailed roomID r a =
     (if lookup_room a roomID = Some r then on_active r (\<lambda>active. active\<lparr>ar_advancing := False\<rparr>) a else a)"

definition recentDecisions :: nat where
  "recentDecisions = 32"

definition recordDirectorDecision :: "answers \<Rightarrow> u64 \<Rightarrow> u32 \<Rightarrow> PerformanceMetrics \<Rightarrow> Decision \<Rightarrow> gameApplication \<Rightarrow> bool \<times> gameApplication" where
  "recordDirectorDecision w roomID stageIndex input output a =
     (let sample = \<lparr>dsm_Duration = an_duration w, dsm_ClearTimeSeconds = pm_ClearTimeSeconds input,
            dsm_TeamHPPercent = pm_TeamHPPercent input, dsm_AverageDPS = pm_AverageDPS input, dsm_DeathCount = pm_DeathCount input,
            dsm_DamageTaken = pm_DamageTaken input, dsm_EquipmentPower = pm_EquipmentPower input,
            dsm_PreviousDifficulty = dc_PreviousDifficulty output, dsm_NewDifficulty = dc_NewDifficulty output,
            dsm_Adjustment = dc_Adjustment output, dsm_MonsterCount = dc_MonsterCount output\<rparr>;
          entry = \<lparr>dd_ObservedAt = an_now w, dd_RoomID = roomID, dd_StageIndex = stageIndex, dd_Seed = dc_Seed output,
            dd_ClearTimeSeconds = pm_ClearTimeSeconds input, dd_TeamHPPercent = pm_TeamHPPercent input,
            dd_AverageDPS = pm_AverageDPS input, dd_DeathCount = pm_DeathCount input, dd_DamageTaken = pm_DamageTaken input,
            dd_EquipmentPower = pm_EquipmentPower input, dd_PreviousDifficulty = dc_PreviousDifficulty output,
            dd_NewDifficulty = dc_NewDifficulty output, dd_Adjustment = dc_Adjustment output,
            dd_MonsterCount = dc_MonsterCount output, dd_DurationMicros = an_duration w div 1000, dd_Reasons = dc_Reasons output\<rparr>;
          recent = ap_recentDirector a @ [entry]
      in if \<not> validDirectorSample sample then (False, a)
         else (True, a\<lparr>ap_recentDirector :=
           (if recentDecisions < length recent then drop (length recent - recentDecisions) recent else recent)\<rparr>))"

definition advance_completed :: "u64 \<Rightarrow> nat \<Rightarrow> nat \<Rightarrow> unit app_step" where
  "advance_completed roomID r k a =
     bind_sum (waitCompletedStage k r a) (\<lambda>(x, a).
       Inr ((), case x of
           Attempt_failed _ \<Rightarrow> advanceStageFailed roomID r a
         | Attempt_again \<Rightarrow> spawn (Advance_completed roomID r (Suc k)) a
         | Attempt_receipt n \<Rightarrow> spawn (Advance_completing roomID r n) a))"

definition advance_completing :: "services \<Rightarrow> u64 \<Rightarrow> nat \<Rightarrow> nat \<Rightarrow> unit app_step" where
  "advance_completing v roomID r n a =
     Inr ((), case completed_receipt r n a of
         None \<Rightarrow> spawn (Advance_completing roomID r n) a
       | Some (Inl _) \<Rightarrow> advanceStageFailed roomID r a
       | Some (Inr (previous, performance)) \<Rightarrow>
         (case Decide (sv_pow v) (gp_planner (ap_gameplay a)) previous performance of
            Inl _ \<Rightarrow> advanceStageFailed roomID r a
          | Inr (plan, decision) \<Rightarrow> spawn (Advance_submit roomID r plan performance decision 0) a))"

text \<open>A turn of the loop that submits the plan, at most 30 times, and never asks the director again.\<close>

definition advance_submit :: "u64 \<Rightarrow> nat \<Rightarrow> Plan \<Rightarrow> PerformanceMetrics \<Rightarrow> Decision \<Rightarrow> nat \<Rightarrow> unit app_step" where
  "advance_submit roomID r plan performance decision k a =
     (if k \<ge> 30 then Inr ((), advanceStageFailed roomID r a)
      else bind_sum (on_room r (\<lambda>rm. Room_StartStage rm plan) a) (\<lambda>(x, a).
        Inr ((), case x of
            Some (Inr n) \<Rightarrow> spawn (Advance_submitting roomID r plan performance decision k n) a
          | Some (Inl e) \<Rightarrow> if e = ErrQueueFull \<or> e = RoomWorld ErrStageState
              then spawn (Advance_submit roomID r plan performance decision (Suc k)) a else advanceStageFailed roomID r a
          | None \<Rightarrow> a)))"

definition stage_advanced :: "answers \<Rightarrow> u64 \<Rightarrow> nat \<Rightarrow> Plan \<Rightarrow> PerformanceMetrics \<Rightarrow> Decision \<Rightarrow> gameApplication \<Rightarrow> gameApplication" where
  "stage_advanced w roomID r plan performance decision a =
     (let a = transitionRoomSessions roomID StateReward StateInRoom a;
          a = (if lookup_room a roomID = Some r
            then on_active r (\<lambda>active. active\<lparr>ar_advancing := False, ar_rewarded := [], ar_delivered := [], ar_ready := []\<rparr>) a else a)
      in snd (recordDirectorDecision w roomID (pl_Index plan) performance decision a))"

definition advance_submitting :: "answers \<Rightarrow> u64 \<Rightarrow> nat \<Rightarrow> Plan \<Rightarrow> PerformanceMetrics \<Rightarrow> Decision \<Rightarrow> nat \<Rightarrow> nat \<Rightarrow> unit app_step" where
  "advance_submitting w roomID r plan performance decision k n a =
     Inr ((), case await_receipt r n a of
         None \<Rightarrow> spawn (Advance_submitting roomID r plan performance decision k n) a
       | Some (Some e) \<Rightarrow> if e = RoomWorld ErrStageState
           then spawn (Advance_submit roomID r plan performance decision (Suc k)) a else advanceStageFailed roomID r a
       | Some None \<Rightarrow> stage_advanced w roomID r plan performance decision a)"

section \<open>The terminal result\<close>

definition after_capture :: "(nat \<times> nat) option \<Rightarrow> gameApplication \<Rightarrow> gameApplication" where
  "after_capture after a = (case after of None \<Rightarrow> a | Some (s, r) \<Rightarrow> spawn (Leave_room s r) a)"

definition submit_result :: "u64 \<Rightarrow> GameOutcome \<Rightarrow> (nat \<times> nat) option \<Rightarrow> unit app_step" where
  "submit_result roomID outcome after a =
     Inr ((), case lookup_room a roomID of None \<Rightarrow> after_capture after a
       | Some r \<Rightarrow>
         (case ap_objects a r of None \<Rightarrow> after_capture after a
          | Some active \<Rightarrow>
            if ap_resultWriter a = None \<or> ar_resultSubmitting active \<or> ar_resultQueued active then after_capture after a
            else spawn (Result_ask r roomID outcome after) (on_active r (\<lambda>active. active\<lparr>ar_resultSubmitting := True\<rparr>) a)))"

text \<open>\<open>waitResultRetry\<close>; \<open>stopped\<close> is the end of the room where the code waits for it too.\<close>

definition waitResultRetry :: "answers \<Rightarrow> bool \<Rightarrow> gameApplication \<Rightarrow> bool" where
  "waitResultRetry w stopped a = (if ap_ctxDone a \<or> stopped then an_timer w else True)"

definition result_ask :: "answers \<Rightarrow> nat \<Rightarrow> u64 \<Rightarrow> GameOutcome \<Rightarrow> (nat \<times> nat) option \<Rightarrow> unit app_step" where
  "result_ask w r roomID outcome after a =
     bind_sum (on_room r (\<lambda>rm. Room_GameResult rm outcome) a) (\<lambda>(x, a).
       Inr ((), case x of
           Some (Inr n) \<Rightarrow> spawn (Result_asking r roomID after n) a
         | Some (Inl e) \<Rightarrow> if e = ErrQueueFull \<and> waitResultRetry w (room_done a r) a
             then spawn (Result_ask r roomID outcome after) a else spawn (Result_finish r False after) a
         | None \<Rightarrow> spawn (Result_finish r False after) a))"

text \<open>A last player may leave before the event of the last stage has been consumed; the history of the world decides.\<close>

definition terminalResultOnDeparture :: "GameResult \<Rightarrow> u32 \<Rightarrow> GameResult" where
  "terminalResultOnDeparture result stageLimit =
     (if gr_Outcome result = GameAbandoned \<and> 0 < stageLimit \<and> gr_FinalStageIndex result = stageLimit \<and>
        0 < length (gr_ClearedStages result) \<and> ss_Index (last (gr_ClearedStages result)) = stageLimit
      then result\<lparr>gr_Outcome := GameVictory, gr_EndedAtTick := ss_ClearTick (last (gr_ClearedStages result))\<rparr> else result)"

definition result_captured :: "nat \<Rightarrow> u64 \<Rightarrow> (nat \<times> nat) option \<Rightarrow> GameResult \<Rightarrow> gameApplication \<Rightarrow> gameApplication" where
  "result_captured r roomID after result a =
     (case ap_objects a r of None \<Rightarrow> a
      | Some active \<Rightarrow>
        spawn (Result_send r \<lparr>e_MatchID = ar_matchID active, e_RoomID = roomID, e_CreatedAt = ar_createdAt active,
            e_Result = terminalResultOnDeparture result (gp_stageLimit (ap_gameplay a))\<rparr>) (after_capture after a))"

definition result_asking :: "answers \<Rightarrow> nat \<Rightarrow> u64 \<Rightarrow> (nat \<times> nat) option \<Rightarrow> nat \<Rightarrow> unit app_step" where
  "result_asking w r roomID after n a =
     Inr ((), case receipt_at a r n of
         Some (GameResultReceipt x) \<Rightarrow>
           if (room_done a r \<or> ap_ctxDone a) \<and> \<not> an_timer w then spawn (Result_finish r False after) a
           else (case x of Inl _ \<Rightarrow> spawn (Result_finish r False after) a
             | Inr result \<Rightarrow> result_captured r roomID after result a)
       | _ \<Rightarrow> if room_done a r \<or> ap_ctxDone a then spawn (Result_finish r False after) a
           else spawn (Result_asking r roomID after n) a)"

definition result_send :: "answers \<Rightarrow> nat \<Rightarrow> ResultEnvelope \<Rightarrow> unit app_step" where
  "result_send w r e a =
     (case ap_resultWriter a of None \<Rightarrow> Inr ((), spawn (Result_finish r False None) a)
      | Some writer \<Rightarrow>
        (case Submit e writer of Inl p \<Rightarrow> Inl (InChannel p)
         | Inr (err, writer) \<Rightarrow>
           let a = a\<lparr>ap_resultWriter := Some writer\<rparr>
           in Inr ((), case err of None \<Rightarrow> spawn (Result_finish r True None) a
               | Some err \<Rightarrow> if Is err ErrResultQueueFull \<and> waitResultRetry w False a then spawn (Result_send r e) a
                   else spawn (Result_finish r False None) a)))"

definition result_finish :: "nat \<Rightarrow> bool \<Rightarrow> (nat \<times> nat) option \<Rightarrow> unit app_step" where
  "result_finish r accepted after a =
     Inr ((), after_capture after (on_active r (\<lambda>active. active\<lparr>ar_resultSubmitting := False,
       ar_resultQueued := (ar_resultQueued active \<or> accepted)\<rparr>) a))"

end
