(* ===== verification/Observers.thy ===== *)
theory Observers
  imports Stages
begin

text \<open>
  The consumers of what a room publishes (\<open>observeEvents\<close>, \<open>observeRewards\<close>, \<open>observeSnapshots\<close>, \<open>observeTicks\<close> and
  the close watcher of \<open>newActiveRoom\<close>), the status for the operators, and the step of every task.
\<close>

section \<open>Events\<close>

definition track_projectile :: "Event \<Rightarrow> entity_id list \<Rightarrow> entity_id list" where
  "track_projectile e ids =
     (case ev_Kind e of ProjectileSpawned \<Rightarrow> List.insert (ev_EntityID e) ids
      | ProjectileDestroyed \<Rightarrow> removeAll (ev_EntityID e) ids | _ \<Rightarrow> ids)"

definition recordEventMetrics :: "u64 \<Rightarrow> Event list \<Rightarrow> gameApplication \<Rightarrow> gameApplication" where
  "recordEventMetrics roomID events a =
     (case lookup_room a roomID of None \<Rightarrow> a
      | Some r \<Rightarrow> on_active r (\<lambda>active. active\<lparr>ar_projectiles := fold track_projectile events (ar_projectiles active)\<rparr>) a)"

definition follow_event :: "u64 \<Rightarrow> Event \<Rightarrow> gameApplication \<Rightarrow> gameApplication" where
  "follow_event roomID e a =
     (case ev_Kind e of StageCleared \<Rightarrow> spawn (Begin_reward roomID (ev_StageIndex e)) a
      | TeamDefeated \<Rightarrow> spawn (Submit_result roomID GameDefeat None) a | _ \<Rightarrow> a)"

definition take_output :: "nat \<Rightarrow> (Room \<Rightarrow> 'a chan) \<Rightarrow> ('a chan \<Rightarrow> Room \<Rightarrow> Room) \<Rightarrow> gameApplication \<Rightarrow> ('a \<times> activeRoom) option \<times> gameApplication" where
  "take_output r get put a =
     (case ap_objects a r of None \<Rightarrow> (None, a)
      | Some active \<Rightarrow>
        (case try_recv (get (ar_room active)) of
           (Value x, q) \<Rightarrow> let active = active\<lparr>ar_room := put q (ar_room active)\<rparr>
             in (Some (x, active), a\<lparr>ap_objects := (ap_objects a)(r \<mapsto> active)\<rparr>)
         | _ \<Rightarrow> (None, a)))"

definition observe_events :: "services \<Rightarrow> nat \<Rightarrow> unit app_step" where
  "observe_events v r a =
     (case take_output r rm_events (\<lambda>q rm. rm\<lparr>rm_events := q\<rparr>) a of
        (None, a) \<Rightarrow> Inr ((), a)
      | (Some ((events, _), active), a) \<Rightarrow>
        let roomID = rm_id (ar_room active); a = recordEventMetrics roomID events a
        in case EventDispatcher_Dispatch (sv_codec v) sink_Send events (ar_events active) (ap_hub a) of
             Inl p \<Rightarrow> Inl (InChannel p)
           | Inr (d, h) \<Rightarrow> Inr ((), fold (follow_event roomID) events
               (on_active r (\<lambda>active. active\<lparr>ar_events := d\<rparr>) (a\<lparr>ap_hub := h\<rparr>))))"

section \<open>Rewards\<close>

definition rewardRecipient :: "u64 \<Rightarrow> entity_id \<Rightarrow> gameApplication \<Rightarrow> (nat \<times> nat) option" where
  "rewardRecipient roomID playerID a =
     find (\<lambda>(c, s). \<not> conn_closed a c \<and> se_roomID (session_at a s) = roomID \<and> snd (Identity (session_at a s)) = playerID) (ap_connections a)"

definition on_listed :: "u64 \<Rightarrow> (activeRoom \<Rightarrow> activeRoom) \<Rightarrow> gameApplication \<Rightarrow> gameApplication" where
  "on_listed roomID f a = (case lookup_room a roomID of None \<Rightarrow> a | Some r \<Rightarrow> on_active r f a)"

definition reward_update :: "services \<Rightarrow> u64 \<Rightarrow> RewardUpdate \<Rightarrow> unit app_step" where
  "reward_update v roomID u a =
     (let recipient = rewardRecipient roomID (ru_PlayerID u) a; applied = (ru_Kind u = RewardSelectionApplied);
          a = (if applied then on_listed roomID (\<lambda>active. active\<lparr>ar_rewarded := set_flag (ru_PlayerID u) (ar_rewarded active)\<rparr>) a else a)
      in case recipient of None \<Rightarrow> Inr ((), a)
      | Some (c, s) \<Rightarrow>
        let a = (if se_state (session_at a s) = StateInRoom then snd (transition s StateReward a) else a)
        in bind_sum (case ru_Kind u of
               RewardOptionsAvailable \<Rightarrow> sendMessage (sv_codec v) c 0 MSG_REWARD_OPTIONS
                 (RewardOptions (ru_StageIndex u) (ru_EquipmentIDs u) (ru_DeadlineTick u)) a
             | RewardSelectionApplied \<Rightarrow> sendMessage (sv_codec v) c 0 MSG_REWARD_APPLIED (RewardApplied REASON_OK (ru_EquipmentID u)) a)
             (\<lambda>(err, a). Inr ((), if err \<noteq> None then close_connection c a
               else if applied then on_listed roomID (\<lambda>active. active\<lparr>ar_delivered := set_flag (ru_PlayerID u) (ar_delivered active)\<rparr>) a
               else a)))"

fun reward_updates :: "services \<Rightarrow> u64 \<Rightarrow> RewardUpdate list \<Rightarrow> unit app_step" where
  "reward_updates v roomID [] a = Inr ((), a)"
| "reward_updates v roomID (u # us) a = bind_sum (reward_update v roomID u a) (\<lambda>(_, a). reward_updates v roomID us a)"

definition observe_rewards :: "services \<Rightarrow> nat \<Rightarrow> unit app_step" where
  "observe_rewards v r a =
     (case take_output r rm_rewards (\<lambda>q rm. rm\<lparr>rm_rewards := q\<rparr>) a of
        (None, a) \<Rightarrow> Inr ((), a)
      | (Some ((updates, _), active), a) \<Rightarrow> reward_updates v (rm_id (ar_room active)) updates a)"

section \<open>Snapshots, ticks and the end of a room\<close>

definition recordSnapshotMetrics :: "u64 \<Rightarrow> RoomSnapshot \<Rightarrow> gameApplication \<Rightarrow> gameApplication" where
  "recordSnapshotMetrics roomID snap a =
     on_listed roomID (\<lambda>active. active\<lparr>ar_monsters := int (length (sn_Monsters (rsn_Snapshot snap)))\<rparr>) a"

definition observe_snapshots :: "services \<Rightarrow> nat \<Rightarrow> unit app_step" where
  "observe_snapshots v r a =
     (case take_output r rm_updates (\<lambda>q rm. rm\<lparr>rm_updates := q\<rparr>) a of
        (None, a) \<Rightarrow> Inr ((), a)
      | (Some (snap, active), a) \<Rightarrow>
        let a = recordSnapshotMetrics (rm_id (ar_room active)) snap a
        in Inr ((), a\<lparr>ap_hub := SnapshotDispatcher_Dispatch (sv_codec v) hub_SendSnapshot (ar_snapshots active) snap (ap_hub a)\<rparr>))"

definition recordRoomStats :: "u64 \<Rightarrow> RoomStats \<Rightarrow> gameApplication \<Rightarrow> gameApplication" where
  "recordRoomStats roomID current a = on_listed roomID (\<lambda>active. active\<lparr>ar_stats := current\<rparr>) a"

text \<open>The steps of the counters that \<open>recordRoomStats\<close> hands to the metrics.\<close>

definition stats_delta :: "RoomStats \<Rightarrow> RoomStats \<Rightarrow> u64 list" where
  "stats_delta current previous = map2 counterDelta
     [st_QueueRejections current, st_RejectedInputs current, st_DroppedSnapshots current, st_DroppedTickSamples current]
     [st_QueueRejections previous, st_RejectedInputs previous, st_DroppedSnapshots previous, st_DroppedTickSamples previous]"

definition observe_ticks :: "nat \<Rightarrow> unit app_step" where
  "observe_ticks r a =
     Inr ((), case take_output r rm_samples (\<lambda>q rm. rm\<lparr>rm_samples := q\<rparr>) a of
        (None, a) \<Rightarrow> a
      | (Some (_, active), a) \<Rightarrow> recordRoomStats (rm_id (ar_room active)) (Stats_of (ar_room active)) a)"

text \<open>The callback of the watcher takes the room off the list.\<close>

definition room_closed :: "u64 \<Rightarrow> RoomStats \<Rightarrow> gameApplication \<Rightarrow> gameApplication" where
  "room_closed roomID stats a = (let a = recordRoomStats roomID stats a in a\<lparr>ap_rooms := AList.delete roomID (ap_rooms a)\<rparr>)"

definition watch_close :: "services \<Rightarrow> nat \<Rightarrow> unit app_step" where
  "watch_close v r a =
     (case ap_objects a r of None \<Rightarrow> Inr ((), a)
      | Some active \<Rightarrow>
        if ar_watched active \<or> \<not> rm_done (ar_room active) then Inr ((), a)
        else (case CloseWatcher_Run (sv_codec v) sink_Send (ar_room active) (ar_close active) (ap_hub a) of
            Inl p \<Rightarrow> Inl (InChannel p)
          | Inr (c, h) \<Rightarrow> Inr ((), room_closed (rm_id (ar_room active)) (Stats_of (ar_room active))
              (on_active r (\<lambda>active. active\<lparr>ar_close := c, ar_watched := True\<rparr>) (a\<lparr>ap_hub := h\<rparr>)))))"

section \<open>The status for the operators\<close>

definition active_status :: "gameApplication \<Rightarrow> u64 \<times> nat \<Rightarrow> RoomStatus list" where
  "active_status a = (\<lambda>(roomID, r). case ap_objects a r of None \<Rightarrow> []
     | Some active \<Rightarrow> [room_status roomID (LatestSnapshot (ar_room active)) (Stats_of (ar_room active)) (int (length (ar_projectiles active)))])"

definition adminSnapshot :: "time \<Rightarrow> f64 \<Rightarrow> gameApplication \<Rightarrow> AdminSnapshot" where
  "adminSnapshot now uptime a =
     (let statuses = concat (map (active_status a) (ap_rooms a))
      in \<lparr>as_GeneratedAt = now, as_Environment = ap_environment a, as_UptimeSeconds = uptime,
          as_OnlinePlayers = int (length (ap_connections a)), as_ActiveRooms = int (length (ap_rooms a)),
          as_MatchQueuePlayers = Waiting_count (ap_matcher a), as_ActiveMonsters = sum_list (map rt_Monsters statuses),
          as_ActiveProjectiles = sum_list (map rt_Projectiles statuses), as_RoomQueues = fold add_queues statuses no_queues,
          as_Rooms = sort_key rt_RoomID statuses, as_RecentDirectorDecisions = ap_recentDirector a\<rparr>)"

section \<open>Every task\<close>

definition task_step :: "services \<Rightarrow> answers \<Rightarrow> task \<Rightarrow> unit app_step" where
  "task_step v w t =
     (case t of
        Create_match players sequence \<Rightarrow> create_match v w players sequence
      | Match_join r roomID players rest sequence \<Rightarrow> match_join v r roomID players rest sequence
      | Match_joining r roomID players rest sequence n \<Rightarrow> match_joining v r roomID players rest sequence n
      | Match_start r roomID players pending sequence plan k \<Rightarrow> match_start v w r roomID players pending sequence plan k
      | Match_starting r roomID players pending sequence n \<Rightarrow> match_starting v w r roomID players pending sequence n
      | Create_rematch oldID old players sequence \<Rightarrow> create_rematch v w oldID old players sequence
      | Rematch_join oldID old newID new plan players rest sequence \<Rightarrow> rematch_join oldID old newID new plan players rest sequence
      | Rematch_joining oldID old newID new plan players rest sequence n \<Rightarrow>
          rematch_joining oldID old newID new plan players rest sequence n
      | Rematch_start oldID old newID new plan players pending sequence k \<Rightarrow>
          rematch_start v w oldID old newID new plan players pending sequence k
      | Rematch_starting oldID old newID new players pending sequence n \<Rightarrow>
          rematch_starting v w oldID old newID new players pending sequence n
      | Rematch_closing old new \<Rightarrow> rematch_closing old new
      | Leave_room s r \<Rightarrow> leave_room w s r
      | Leaving_room s r n \<Rightarrow> leaving_room w s r n
      | Leave_former_room r sessionID \<Rightarrow> leave_former_room w r sessionID
      | Leaving_former_room r sessionID n \<Rightarrow> leaving_former_room w r sessionID n
      | Await_choice r roomID playerID c sequence equipmentID n \<Rightarrow> await_choice v r roomID playerID c sequence equipmentID n
      | Await_delivery roomID playerID c sequence equipmentID e \<Rightarrow> await_delivery v w roomID playerID c sequence equipmentID e
      | Begin_reward roomID stageIndex \<Rightarrow> begin_reward roomID stageIndex
      | Reward_completed r roomID stageIndex k \<Rightarrow> reward_completed r roomID stageIndex k
      | Reward_completing r roomID stageIndex n \<Rightarrow> reward_completing r roomID stageIndex n
      | Reward_submit r roomID stageIndex seed k \<Rightarrow> reward_submit r roomID stageIndex seed k
      | Reward_submitting r roomID stageIndex n \<Rightarrow> reward_submitting r roomID stageIndex n
      | Advance_completed roomID r k \<Rightarrow> advance_completed roomID r k
      | Advance_completing roomID r n \<Rightarrow> advance_completing v roomID r n
      | Advance_submit roomID r plan performance decision k \<Rightarrow> advance_submit roomID r plan performance decision k
      | Advance_submitting roomID r plan performance decision k n \<Rightarrow> advance_submitting w roomID r plan performance decision k n
      | Submit_result roomID outcome after \<Rightarrow> submit_result roomID outcome after
      | Result_ask r roomID outcome after \<Rightarrow> result_ask w r roomID outcome after
      | Result_asking r roomID after n \<Rightarrow> result_asking w r roomID after n
      | Result_send r e \<Rightarrow> result_send w r e
      | Result_finish r accepted after \<Rightarrow> result_finish r accepted after)"

end
