(* ===== verification/AppRuns.thy ===== *)
theory AppRuns
  imports Observers RoomContract
begin

text \<open>
  The whole application as a step relation: readers, tasks, rooms, consumers, connections and the result
  writer in any order.  \<open>app_ok\<close> is what every step keeps, \<open>calm\<close> the effect of the steps that neither ask
  the director nor handle a terminal result, and \<open>fine\<close> says that a computation does not panic and is
  calm.
\<close>

section \<open>Steps\<close>

text \<open>The connections a sink has asked to close wait in \<open>hub_closing\<close> for their goroutines.\<close>

definition close_waiting :: "nat \<Rightarrow> gameApplication \<Rightarrow> gameApplication" where
  "close_waiting c a = close_connection c (a\<lparr>ap_hub := (ap_hub a)\<lparr>hub_closing := remove1 c (hub_closing (ap_hub a))\<rparr>\<rparr>)"

definition accept_connection :: "gameApplication \<Rightarrow> gameApplication" where
  "accept_connection a = a\<lparr>ap_hub := (ap_hub a)\<lparr>hub_server := accept_conn (hub_server (ap_hub a))\<rparr>\<rparr>"

text \<open>The context of the application is the parent of the context of every room.\<close>

definition cancel_all :: "gameApplication \<Rightarrow> gameApplication" where
  "cancel_all a = a\<lparr>ap_ctxDone := True,
     ap_objects := (\<lambda>r. map_option (\<lambda>active. active\<lparr>ar_room := (ar_room active)\<lparr>rm_ctxDone := True\<rparr>\<rparr>) (ap_objects a r))\<rparr>"

text \<open>A step of the goroutine of a room.\<close>

definition run_room :: "wake \<Rightarrow> time \<Rightarrow> time \<Rightarrow> nat \<Rightarrow> unit option app_step" where
  "run_room k now ended r a = on_room r (\<lambda>rm. map_sum id (Pair ()) (goroutine k now ended rm)) a"

text \<open>What the goroutines of a connection do to it besides what the application calls, and a socket that breaks.  A
  \<open>SendSnapshot\<close> that never returned would be the fault \<open>Spinning\<close>.\<close>

datatype link_act = Link_send "byte list" | Link_publish "byte list" | Link_flush | Link_write branch | Link_break

definition link_step :: "link_act \<Rightarrow> Connection \<Rightarrow> app_fault + Connection" where
  "link_step act c =
     (case act of
        Link_send f \<Rightarrow> map_sum InChannel snd (Send f c)
      | Link_publish f \<Rightarrow> (case SendSnapshot f c of None \<Rightarrow> Inl Spinning | Some r \<Rightarrow> map_sum InChannel snd r)
      | Link_flush \<Rightarrow> map_sum InChannel id (CloseAfterFlush c)
      | Link_write b \<Rightarrow> Inr (writer_step b c)
      | Link_break \<Rightarrow> Inr (c\<lparr>cn_alive := False\<rparr>))"

definition on_connection :: "link_act \<Rightarrow> nat \<Rightarrow> gameApplication \<Rightarrow> app_fault + gameApplication" where
  "on_connection act c a =
     (case hub_conn (ap_hub a) c of None \<Rightarrow> Inr a
      | Some conn \<Rightarrow> map_sum id (\<lambda>conn. a\<lparr>ap_hub := set_conn c conn (ap_hub a)\<rparr>)
          (link_step act (conn\<lparr>cn_counters := sv_counters (hub_server (ap_hub a))\<rparr>)))"

text \<open>What the result writer does besides taking envelopes: its worker, and the two parts of \<open>Shutdown\<close> that change it.\<close>

datatype result_act = Result_work worker_answers | Result_close | Result_cancel

definition result_step :: "result_act \<Rightarrow> ResultWriter \<Rightarrow> app_fault + ResultWriter" where
  "result_step act w =
     (case act of
        Result_work an \<Rightarrow> (let w = worker_step an w in if wr_pc w = Nil_context then Inl NilContext else Inr w)
      | Result_close \<Rightarrow> map_sum InChannel id (shutdown_close w)
      | Result_cancel \<Rightarrow> Inr (shutdown_cancel w))"

definition on_writer :: "result_act \<Rightarrow> gameApplication \<Rightarrow> app_fault + gameApplication" where
  "on_writer act a =
     (case ap_resultWriter a of None \<Rightarrow> Inr a
      | Some w \<Rightarrow> map_sum id (\<lambda>w. a\<lparr>ap_resultWriter := Some w\<rparr>) (result_step act w))"

text \<open>A move of the application is a computation, which may panic.\<close>

inductive app_move :: "services \<Rightarrow> gameApplication \<Rightarrow> app_fault + gameApplication \<Rightarrow> bool" for v where
  read: "hub_conn (ap_hub a) c \<noteq> None \<Longrightarrow> app_move v a (map_sum id snd (read_message (sv_codec v) now c h payload a))"
| reader: "app_move v a (map_sum id snd (reader_continues c a))"
| task: "ap_tasks a = ts @ t # us \<Longrightarrow> app_move v a (map_sum id snd (task_step v w t (a\<lparr>ap_tasks := ts @ us\<rparr>)))"
| room: "ap_objects a r = Some active \<Longrightarrow> (rm_pc (ar_room active) = Selecting \<longrightarrow> wake_ready k (ar_room active)) \<Longrightarrow>
    app_move v a (map_sum id snd (run_room k now ended r a))"
| events: "app_move v a (map_sum id snd (observe_events v r a))"
| rewards: "app_move v a (map_sum id snd (observe_rewards v r a))"
| snapshots: "app_move v a (map_sum id snd (observe_snapshots v r a))"
| ticks: "app_move v a (map_sum id snd (observe_ticks r a))"
| watch: "app_move v a (map_sum id snd (watch_close v r a))"
| accept: "app_move v a (Inr (accept_connection a))"
| connection: "app_move v a (on_connection act c a)"
| close: "app_move v a (Inr (close_connection c a))"
| closing: "app_move v a (Inr (close_waiting c a))"
| cancel: "app_move v a (Inr (cancel_all a))"
| writer: "app_move v a (on_writer job a)"

inductive_cases app_moveE: "app_move v a x"

text \<open>What the start of the server may rely on: \<open>LoadGameplay\<close> builds the catalog with \<open>NewCatalog\<close>, and a
  decoded input carries 32-bit floats.\<close>

definition codec_ok :: "codec \<Rightarrow> bool" where
  "codec_ok pb \<longleftrightarrow> (\<forall>body m p. unmarshal_PlayerInput pb body = Some m \<and> (in_Move m = Some p \<or> in_Aim m = Some p) \<longrightarrow> f32_vec p)"

definition setEnvironment :: "string \<Rightarrow> gameApplication \<Rightarrow> gameApplication" where
  "setEnvironment environment a = a\<lparr>ap_environment := environment\<rparr>"

definition setResultWriter :: "ResultWriter option \<Rightarrow> gameApplication \<Rightarrow> gameApplication" where
  "setResultWriter writer a = a\<lparr>ap_resultWriter := writer\<rparr>"

inductive app_start :: "gameApplication \<Rightarrow> bool" where
  "catalog_ok (gp_catalog gameplay) \<Longrightarrow> buildGameApplication now gameplay = Inr a \<Longrightarrow>
     writer = None \<or> (\<exists>w options. writer = Some w \<and> NewResultWriter True options = Inr w) \<Longrightarrow>
     app_start (setResultWriter writer (setEnvironment environment a))"

inductive app_reachable :: "services \<Rightarrow> gameApplication \<Rightarrow> bool" for v where
  start: "app_start a \<Longrightarrow> app_reachable v a"
| step: "app_reachable v a \<Longrightarrow> app_move v a (Inr a') \<Longrightarrow> app_reachable v a'"

section \<open>The hub\<close>

text \<open>What every use of the connections keeps.\<close>

definition hub_le :: "hub \<Rightarrow> hub \<Rightarrow> bool" where
  "hub_le h h' \<longleftrightarrow> hub_ok h' \<and> (\<forall>c. map_option Context (hub_conn h' c) = map_option Context (hub_conn h c))"

lemma hub_le_refl: "hub_ok h \<Longrightarrow> hub_le h h"
  by (simp add: hub_le_def)

lemma hub_le_trans: "hub_le h h' \<Longrightarrow> hub_le h' h'' \<Longrightarrow> hub_le h h''"
  by (simp add: hub_le_def)

lemma hub_leD: "hub_le h h' \<Longrightarrow> hub_ok h'"
  by (simp add: hub_le_def)

lemma hub_conn_set_conn: "hub_conn (set_conn i c h) j = (if j = i then Some c else hub_conn h j)"
  by (simp add: hub_conn_def set_conn_def update_conv')

lemma hub_conn_other [simp]:
  "hub_conn (set_deferred k s h) j = hub_conn h j" "hub_conn (spawn_close i h) j = hub_conn h j"
  by (simp_all add: hub_conn_def)

lemma set_conn_le:
  assumes "hub_ok h" and "hub_conn h i = Some c" and "conn_move (c\<lparr>cn_counters := k\<rparr>) c'" and "Context c' = Context c"
  shows "hub_le h (set_conn i c' h)"
proof -
  have ok: "conn_ok c' \<and> cn_closeOnce c' = cn_closeOnce c"
    using conn_move_ok[OF assms(3)] hub_ok_conn[OF assms(1,2)] by simp
  then have "hub_ok (set_conn i c' h)" using set_conn_ok[OF assms(1,2), of c'] by simp
  then show ?thesis using assms(2,4) by (auto simp: hub_le_def hub_conn_set_conn)
qed

lemma hub_Send_le:
  assumes "hub_ok h"
  shows "\<exists>b h'. hub_Send i f h = Inr (b, h') \<and> hub_le h h'"
proof (cases "hub_conn h i")
  case None
  then show ?thesis using hub_le_refl[OF assms] by (intro exI[of _ False] exI[of _ h]) (simp add: hub_Send_def)
next
  case (Some c)
  let ?c = "c\<lparr>cn_counters := sv_counters (hub_server h)\<rparr>"
  obtain b c' where s: "Send f ?c = Inr (b, c')" using Send_ok[of ?c f] hub_ok_conn[OF assms Some] by auto
  have "Context c' = Context c" using s
    by (auto simp: Send_def recordReliableRejection_def Context_def bind_sum_Inr split: if_splits)
  then show ?thesis using Some s set_conn_le[OF assms Some conn_move.send[OF s]] by (simp add: hub_Send_def)
qed

lemma Context_link_step:
  assumes "conn_ok c"
  shows "\<exists>c'. link_step act c = Inr c' \<and> conn_move c c' \<and> Context c' = Context c"
proof (cases act)
  case (Link_send f)
  obtain b c' where s: "Send f c = Inr (b, c')" using Send_ok[OF assms, of f] by blast
  then have "Context c' = Context c" by (auto simp: Send_def recordReliableRejection_def Context_def bind_sum_Inr split: if_splits)
  then show ?thesis using Link_send s conn_move.send[OF s] by (simp add: link_step_def)
next
  case (Link_publish f)
  obtain b c' where s: "SendSnapshot f c = Some (Inr (b, c'))" using SendSnapshot_ok[OF assms] by blast
  then have "Context c' = Context c" using publish_latest_ok[OF assms, of f]
    by (auto simp: SendSnapshot_def Context_def split: if_splits)
  then show ?thesis using Link_publish s conn_move.snapshot[OF s] by (simp add: link_step_def)
next
  case Link_flush
  obtain c' where s: "CloseAfterFlush c = Inr c'" using closeQueue_ok[OF assms] by (auto simp: CloseAfterFlush_def)
  then have "Context c' = Context c"
    by (auto simp: CloseAfterFlush_def closeQueue_def Let_def Context_def bind_sum_Inr split: if_splits)
  then show ?thesis using Link_flush s conn_move.flush[OF s] by (simp add: link_step_def)
next
  case (Link_write b)
  have "Context (write_then pc f d) = Context d" for pc f d by (simp add: Context_def write_then_def writeFrame_def)
  then have "Context (writer_step b c) = Context c"
    by (simp add: writer_step_def Context_def split: writer_pc.split branch.split prod.split received.split)
  then show ?thesis using Link_write conn_move.writer by (simp add: link_step_def)
next
  case Link_break
  then show ?thesis using conn_move.broken[of c] by (simp add: link_step_def Context_def)
qed

lemma result_step_fine:
  assumes "writer_reachable w"
  shows "\<exists>w'. result_step job w = Inr w' \<and> writer_reachable w' \<and> wr_accepted w' = wr_accepted w"
proof (cases job)
  case (Result_work an)
  have r: "writer_reachable (worker_step an w)" by (rule writer_reachable.step[OF assms writer_move.work])
  then have "wr_pc (worker_step an w) \<noteq> Nil_context" using writer_reachable_ok by (fastforce simp: writer_inv_def)
  then show ?thesis using Result_work r by (simp add: result_step_def Let_def worker_step_accepted)
next
  case Result_close
  have "ch_closed (wr_queue w) = wr_closed w" using writer_reachable_ok[OF assms] by (simp add: writer_inv_def)
  then obtain w' where s: "shutdown_close w = Inr w'" "wr_accepted w' = wr_accepted w"
    by (cases "wr_closed w") (auto simp: shutdown_close_def close_chan_def)
  then show ?thesis using Result_close writer_reachable.step[OF assms writer_move.close[OF s(1)]] by (simp add: result_step_def)
next
  case Result_cancel
  then show ?thesis using writer_reachable.step[OF assms writer_move.cancel] by (simp add: result_step_def shutdown_cancel_def)
qed

lemma hub_CloseAfterFlush_le:
  assumes "hub_ok h"
  shows "\<exists>h'. hub_CloseAfterFlush i h = Inr h' \<and> hub_le h h'"
proof (cases "hub_conn h i")
  case None
  then show ?thesis using hub_le_refl[OF assms] by (simp add: hub_CloseAfterFlush_def)
next
  case (Some c)
  let ?c = "c\<lparr>cn_counters := sv_counters (hub_server h)\<rparr>"
  obtain c' where s: "CloseAfterFlush ?c = Inr c'"
    using closeQueue_ok[of ?c] hub_ok_conn[OF assms Some] by (auto simp: CloseAfterFlush_def)
  have "Context c' = Context c" using s
    by (auto simp: CloseAfterFlush_def closeQueue_def Let_def Context_def bind_sum_Inr split: if_splits)
  then show ?thesis using Some s set_conn_le[OF assms Some conn_move.flush[OF s]] by (simp add: hub_CloseAfterFlush_def)
qed

lemma hub_SendSnapshot_le:
  assumes "hub_ok h"
  shows "hub_le h (hub_SendSnapshot i f h)"
proof (cases "hub_conn h i")
  case None
  then show ?thesis using hub_le_refl[OF assms] by (simp add: hub_SendSnapshot_def)
next
  case (Some c)
  let ?c = "c\<lparr>cn_counters := sv_counters (hub_server h)\<rparr>"
  have c: "conn_ok ?c" using hub_ok_conn[OF assms Some] by simp
  obtain b c' where s: "SendSnapshot f ?c = Some (Inr (b, c'))" using SendSnapshot_ok[OF c] by blast
  have "Context c' = Context c" using s publish_latest_ok[OF c, of f]
    by (auto simp: SendSnapshot_def Context_def split: if_splits)
  then show ?thesis using Some s set_conn_le[OF assms Some conn_move.snapshot[OF s]] by (simp add: hub_SendSnapshot_def)
qed

lemma spawn_close_le: "hub_ok h \<Longrightarrow> hub_le h (spawn_close i h)"
  by (simp add: hub_le_def)

lemma closingSink_Send_le:
  assumes "hub_ok h"
  shows "\<exists>b h'. closingSink_Send i f h = Inr (b, h') \<and> hub_le h h'"
  using hub_Send_le[OF assms, of i f] spawn_close_le by (force simp: closingSink_Send_def hub_le_def)

lemma sink_Send_le:
  assumes "hub_ok h"
  shows "\<exists>b h'. sink_Send s f h = Inr (b, h') \<and> hub_le h h'"
proof (cases s)
  case (ClosingSink i)
  then show ?thesis using closingSink_Send_le[OF assms] by (simp add: sink_Send_def)
next
  case (DeferredSink k)
  obtain b h' where s: "sink_Send s f h = Inr (b, h')" "hub_ok h'" using sinks.send_law[OF assms] by blast
  show ?thesis
  proof (cases "map_of (hub_deferred h) k")
    case (Some d)
    then show ?thesis using s DeferredSink closingSink_Send_le[OF assms, of "ds_downstream d" f]
      by (auto simp: sink_Send_def deferredEventSink_Send_def hub_le_def split: if_splits)
  next
    case None
    then show ?thesis using DeferredSink hub_le_refl[OF assms]
      by (intro exI[of _ False] exI[of _ h]) (simp add: sink_Send_def deferredEventSink_Send_def)
  qed
qed

lemma send_all_le:
  "hub_ok h \<Longrightarrow> \<exists>x h'. send_all sink_Send f m h = Inr (x, h') \<and> hub_le h h'"
proof (induction m arbitrary: h)
  case Nil
  then show ?case by (simp add: hub_le_refl)
next
  case (Cons p m)
  obtain i s where p: "p = (i, s)" by fastforce
  obtain b h1 where 1: "sink_Send s f h = Inr (b, h1)" "hub_le h h1" using sink_Send_le[OF Cons.prems] by blast
  obtain x h2 where "send_all sink_Send f m h1 = Inr (x, h2)" "hub_le h1 h2" using Cons.IH[OF hub_leD[OF 1(2)]] by blast
  then show ?case using 1 p hub_le_trans by auto
qed

lemma dispatch_event_le:
  assumes "hub_ok h"
  shows "\<exists>d' h'. dispatch_event pb sink_Send e d h = Inr (d', h') \<and> hub_le h h'"
proof (cases "event_frame pb e")
  case (Inl err)
  then show ?thesis using hub_le_refl[OF assms] by (simp add: dispatch_event_def)
next
  case (Inr f)
  obtain x h' where "send_all sink_Send f (ed_sinks d) h = Inr (x, h')" "hub_le h h'" using send_all_le[OF assms] by blast
  then show ?thesis using Inr by (simp add: dispatch_event_def EventDispatcher_broadcast_def)
qed

lemma Dispatch_le:
  "hub_ok h \<Longrightarrow> \<exists>d' h'. EventDispatcher_Dispatch pb sink_Send es d h = Inr (d', h') \<and> hub_le h h'"
proof (induction es arbitrary: d h)
  case Nil
  then show ?case by (simp add: hub_le_refl)
next
  case (Cons e es)
  obtain d1 h1 where 1: "dispatch_event pb sink_Send e d h = Inr (d1, h1)" "hub_le h h1"
    using dispatch_event_le[OF Cons.prems] by blast
  obtain d2 h2 where "EventDispatcher_Dispatch pb sink_Send es d1 h1 = Inr (d2, h2)" "hub_le h1 h2"
    using Cons.IH[OF hub_leD[OF 1(2)]] by blast
  then show ?case using 1 hub_le_trans by auto
qed

lemma CloseWatcher_Run_le:
  assumes "hub_ok h" and "cw_onClose c = None"
  shows "\<exists>c' h'. CloseWatcher_Run pb sink_Send rm c h = Inr (c', h') \<and> cw_onClose c' = None \<and> hub_le h h'"
proof (cases "rm_done rm")
  case True
  let ?c = "c\<lparr>cw_roomID := st_RoomID (Stats_of rm)\<rparr>" and ?s = "Stats_of rm"
  show ?thesis
  proof (cases "DisconnectFrame pb (CloseReasonCode (st_CloseReason ?s)) (st_CloseReason ?s)")
    case (Inr f)
    obtain x h' where "send_all sink_Send f (cw_sinks ?c) h = Inr (x, h')" "hub_le h h'" using send_all_le[OF assms(1)] by blast
    then show ?thesis using True Inr assms(2) by (simp add: CloseWatcher_Run_def CloseWatcher_broadcast_def fireCallback_def Let_def)
  qed (use True assms hub_le_refl in \<open>simp add: CloseWatcher_Run_def fireCallback_def Let_def\<close>)
qed (use assms hub_le_refl in \<open>simp add: CloseWatcher_Run_def\<close>)

lemma release_all_le:
  "hub_ok h \<Longrightarrow> \<exists>h'. release_all i fs h = Inr h' \<and> hub_le h h'"
proof (induction fs arbitrary: h)
  case Nil
  then show ?case by (simp add: hub_le_refl)
next
  case (Cons f fs)
  obtain b h1 where 1: "closingSink_Send i f h = Inr (b, h1)" "hub_le h h1" using closingSink_Send_le[OF Cons.prems] by blast
  obtain h2 where "release_all i fs h1 = Inr h2" "hub_le h1 h2" using Cons.IH[OF hub_leD[OF 1(2)]] by blast
  then show ?case using 1 hub_le_trans by auto
qed

lemma Release_le:
  assumes "hub_ok h"
  shows "\<exists>h'. Release k h = Inr h' \<and> hub_le h h'"
proof (cases "map_of (hub_deferred h) k")
  case None
  then show ?thesis using hub_le_refl[OF assms] by (simp add: Release_def)
next
  case (Some d)
  obtain h1 where r: "release_all (ds_downstream d) (ds_pending d) h = Inr h1" "hub_le h h1" using release_all_le[OF assms] by blast
  then show ?thesis using Some Release_ok[OF assms Some] by (auto simp: Release_def hub_le_def)
qed

lemma newDeferredEventSink_le:
  assumes "hub_ok h" and "hub_conn h i \<noteq> None" and "newDeferredEventSink i h = (k, h')"
  shows "hub_le h h'"
proof -
  obtain c where c: "hub_conn h i = Some c" using assms(2) by blast
  show ?thesis using newDeferredEventSink_ok[OF assms(1) c assms(3)] by (simp add: hub_le_def hub_conn_def)
qed

lemma SnapshotDispatch_le:
  assumes "hub_ok h"
  shows "hub_le h (SnapshotDispatcher_Dispatch pb hub_SendSnapshot d snap h)"
proof -
  have one: "hub_le h (deliver pb hub_SendSnapshot s snap i h)" if "hub_ok h" for s snap i h
    using that by (simp add: deliver_def hub_SendSnapshot_le hub_le_refl split: sum.split)
  have "hub_le h (fold (\<lambda>p w. case map_of (sd_sinks d) (p_ID p) of None \<Rightarrow> w
                 | Some sink \<Rightarrow> deliver pb hub_SendSnapshot sink (rsn_Snapshot snap) (p_ID p) w) ps h)" if "hub_ok h" for ps h
    using that
  proof (induction ps arbitrary: h)
    case (Cons p ps)
    show ?case
    proof (cases "map_of (sd_sinks d) (p_ID p)")
      case (Some s)
      note l = one[OF Cons.prems, of s "rsn_Snapshot snap" "p_ID p"]
      show ?thesis using hub_le_trans[OF l Cons.IH[OF hub_leD[OF l]]] Some by simp
    qed (use Cons in simp)
  qed (simp add: hub_le_refl)
  then show ?thesis using assms by (simp add: SnapshotDispatcher_Dispatch_def)
qed

lemma Close_server_conn_le:
  assumes "hub_ok h"
  shows "hub_le h (h\<lparr>hub_server := Close_server_conn c (hub_server h)\<rparr>)"
proof -
  have inv: "server_inv (hub_server h)" using assms by (simp add: hub_ok_def)
  let ?s = "Close_server_conn c (hub_server h)"
  have l: "length (sv_all ?s) = length (sv_all (hub_server h)) \<and>
      (\<forall>i. map_option Context (map_of (sv_all ?s) i) = map_option Context (map_of (sv_all (hub_server h)) i))"
  proof -
    have k: "length (AList.update c x (sv_all (hub_server h))) = length (sv_all (hub_server h))"
      if "map_of (sv_all (hub_server h)) c = Some y" for x y :: Connection
    proof -
      have "keys (AList.update c x (sv_all (hub_server h))) = keys (sv_all (hub_server h))" using that by (auto simp: keys_update set_keys)
      then show ?thesis by (metis length_keys)
    qed
    show ?thesis using Close_server_conn_cases[OF inv, of c] k by (auto simp: update_conv' Context_def)
  qed
  then show ?thesis using assms Close_server_conn_inv[OF inv, of c] by (simp add: hub_le_def hub_ok_def hub_conn_def)
qed

end
