(* ===== verification/AppCalm.thy ===== *)
theory AppCalm
  imports AppRuns
begin

text \<open>
  What every step of the application keeps (\<open>app_ok\<close>) and the rules for the effects of its operations:
  \<open>calm a a'\<close> says that \<open>a'\<close> is consistent, that sessions, connections and rooms that were there still are, that no
  room changed its place in the handling of the director or of its result, and that the tasks
  started since are consistent and ordinary ones.
\<close>

section \<open>The invariant\<close>

definition sess_ok :: "gameApplication \<Rightarrow> nat \<Rightarrow> bool" where
  "sess_ok a s \<longleftrightarrow> s < ap_nsessions a \<and> se_state (session_at a s) \<noteq> StateConnected"

definition part_ok :: "gameApplication \<Rightarrow> participant \<Rightarrow> bool" where
  "part_ok a p \<longleftrightarrow> sess_ok a (pt_session p) \<and> hub_conn (ap_hub a) (pt_conn p) \<noteq> None"

definition active_ok :: "activeRoom \<Rightarrow> bool" where
  "active_ok x \<longleftrightarrow> room_reachable (ar_room x) \<and> cw_onClose (ar_close x) = None"

definition app_ok :: "gameApplication \<Rightarrow> bool" where
  "app_ok a \<longleftrightarrow> hub_ok (ap_hub a) \<and> matchmaker_ok (ap_matcher a) \<and> config_ok (rc_World (ap_roomConfig a)) \<and>
     catalog_ok (gp_catalog (ap_gameplay a)) \<and>
     (\<forall>r. case ap_objects a r of None \<Rightarrow> ap_nobjects a \<le> r | Some x \<Rightarrow> r < ap_nobjects a \<and> active_ok x) \<and>
     (\<forall>c s. map_option Context (hub_conn (ap_hub a) c) = Some (Some s) \<longrightarrow> s < ap_nsessions a) \<and>
     (\<forall>c s. (c, s) \<in> set (ap_connections a) \<longrightarrow> sess_ok a s \<and> hub_conn (ap_hub a) c \<noteq> None) \<and>
     (\<forall>i p. (i, p) \<in> set (ap_waiting a) \<longrightarrow> part_ok a p) \<and>
     (\<forall>c p key sequence. ap_readers a c = Queueing p key sequence \<longrightarrow> part_ok a p)"

text \<open>The players of a task, with a deferred sink for each of them.\<close>

definition pending_ok :: "gameApplication \<Rightarrow> participant list \<Rightarrow> (entity_id \<times> nat) list \<Rightarrow> bool" where
  "pending_ok a players held \<longleftrightarrow> (\<forall>p \<in> set players. part_ok a p \<and> map_of held (player_of a p) \<noteq> None)"

definition task_ok :: "gameApplication \<Rightarrow> task \<Rightarrow> bool" where
  "task_ok a t =
     (case t of
        Create_match players _ \<Rightarrow> list_all (part_ok a) players
      | Match_join _ _ players _ _ \<Rightarrow> list_all (part_ok a) players
      | Match_joining _ _ players _ _ _ \<Rightarrow> list_all (part_ok a) players
      | Match_start _ _ players held _ plan _ \<Rightarrow> pending_ok a players held \<and> plan_f64 plan
      | Match_starting _ _ players held _ _ \<Rightarrow> pending_ok a players held
      | Create_rematch _ _ players _ \<Rightarrow> list_all (part_ok a) players
      | Rematch_join _ _ _ _ plan players _ _ \<Rightarrow> list_all (part_ok a) players \<and> plan_f64 plan
      | Rematch_joining _ _ _ _ plan players _ _ _ \<Rightarrow> list_all (part_ok a) players \<and> plan_f64 plan
      | Rematch_start _ _ _ _ plan players held _ _ \<Rightarrow> pending_ok a players held \<and> plan_f64 plan
      | Rematch_starting _ _ _ _ players held _ _ \<Rightarrow> pending_ok a players held
      | Advance_submit _ _ plan _ _ _ \<Rightarrow> plan_f64 plan
      | Advance_submitting _ _ plan _ _ _ _ \<Rightarrow> plan_f64 plan
      | Result_send r e \<Rightarrow> (\<exists>x. ap_objects a r = Some x \<and> ar_matchID x = e_MatchID e)
      | _ \<Rightarrow> True)"

text \<open>The tasks that ask the director for room \<open>r\<close>, and those that handle the result of room \<open>r\<close>.\<close>

definition advances :: "nat \<Rightarrow> task \<Rightarrow> bool" where
  "advances r t =
     (case t of Advance_completed _ s _ \<Rightarrow> s = r | Advance_completing _ s _ \<Rightarrow> s = r | Advance_submit _ s _ _ _ _ \<Rightarrow> s = r
      | Advance_submitting _ s _ _ _ _ _ \<Rightarrow> s = r | _ \<Rightarrow> False)"

definition reports :: "nat \<Rightarrow> task \<Rightarrow> bool" where
  "reports r t =
     (case t of Result_ask s _ _ _ \<Rightarrow> s = r | Result_asking s _ _ _ \<Rightarrow> s = r | Result_send s _ \<Rightarrow> s = r | Result_finish s _ _ \<Rightarrow> s = r
      | _ \<Rightarrow> False)"

definition plain :: "task \<Rightarrow> bool" where
  "plain t \<longleftrightarrow> (\<forall>r. \<not> advances r t \<and> \<not> reports r t)"

definition marks :: "activeRoom \<Rightarrow> string \<times> bool \<times> bool \<times> bool" where
  "marks x = (ar_matchID x, ar_advancing x, ar_resultSubmitting x, ar_resultQueued x)"

definition app_le :: "gameApplication \<Rightarrow> gameApplication \<Rightarrow> bool" where
  "app_le a b \<longleftrightarrow> ap_nsessions a \<le> ap_nsessions b \<and> ap_nobjects a \<le> ap_nobjects b \<and>
     (\<forall>s. sess_ok a s \<longrightarrow> sess_ok b s \<and> Identity (session_at b s) = Identity (session_at a s)) \<and>
     (\<forall>c. hub_conn (ap_hub a) c \<noteq> None \<longrightarrow> hub_conn (ap_hub b) c \<noteq> None) \<and>
     (\<forall>r x. ap_objects a r = Some x \<longrightarrow> (\<exists>y. ap_objects b r = Some y \<and> ar_matchID y = ar_matchID x))"

definition same_marks :: "gameApplication \<Rightarrow> gameApplication \<Rightarrow> bool" where
  "same_marks a b \<longleftrightarrow> (\<forall>r. case ap_objects a r of
       Some x \<Rightarrow> (\<exists>y. ap_objects b r = Some y \<and> marks y = marks x)
     | None \<Rightarrow> (\<forall>y. ap_objects b r = Some y \<longrightarrow> marks y = (ar_matchID y, False, False, False)))"

definition calm :: "gameApplication \<Rightarrow> gameApplication \<Rightarrow> bool" where
  "calm a b \<longleftrightarrow> app_ok b \<and> app_le a b \<and> same_marks a b \<and> ap_resultWriter b = ap_resultWriter a \<and>
     (\<exists>ts. ap_tasks b = ap_tasks a @ ts \<and> list_all (task_ok b) ts \<and> list_all plain ts)"

definition fine :: "gameApplication \<Rightarrow> app_fault + ('a \<times> gameApplication) \<Rightarrow> bool" where
  "fine a y \<longleftrightarrow> (\<exists>x b. y = Inr (x, b) \<and> calm a b)"

section \<open>Order\<close>

lemma sess_ok_le: "app_le a b \<Longrightarrow> sess_ok a s \<Longrightarrow> sess_ok b s"
  by (simp add: app_le_def)

lemma part_ok_le: "app_le a b \<Longrightarrow> part_ok a p \<Longrightarrow> part_ok b p"
  by (auto simp: app_le_def part_ok_def)

lemma parts_ok_le: "app_le a b \<Longrightarrow> list_all (part_ok a) ps \<Longrightarrow> list_all (part_ok b) ps"
  by (auto simp: list_all_iff dest: part_ok_le)

lemma player_of_le: "app_le a b \<Longrightarrow> part_ok a p \<Longrightarrow> player_of b p = player_of a p"
  by (simp add: app_le_def part_ok_def player_of_def)

lemma pending_ok_le: "app_le a b \<Longrightarrow> pending_ok a ps held \<Longrightarrow> pending_ok b ps held"
  using part_ok_le player_of_le by (fastforce simp: pending_ok_def)

lemma objects_le: "app_le a b \<Longrightarrow> ap_objects a r = Some x \<Longrightarrow> \<exists>y. ap_objects b r = Some y \<and> ar_matchID y = ar_matchID x"
  by (simp add: app_le_def)

lemma task_ok_le: "app_le a b \<Longrightarrow> task_ok a t \<Longrightarrow> task_ok b t"
  by (cases t) (simp_all add: task_ok_def parts_ok_le pending_ok_le, metis objects_le)

lemma app_le_refl [simp]: "app_le a a"
  by (simp add: app_le_def)

lemma app_le_trans: "app_le a b \<Longrightarrow> app_le b c \<Longrightarrow> app_le a c"
proof -
  assume ab: "app_le a b" and bc: "app_le b c"
  have "sess_ok c s \<and> Identity (session_at c s) = Identity (session_at a s)" if "sess_ok a s" for s
    using that ab bc by (simp add: app_le_def)
  moreover have "\<exists>z. ap_objects c r = Some z \<and> ar_matchID z = ar_matchID x" if "ap_objects a r = Some x" for r x
    using objects_le[OF ab that] objects_le[OF bc] by fastforce
  moreover have "hub_conn (ap_hub c) d \<noteq> None" if "hub_conn (ap_hub a) d \<noteq> None" for d
    using that ab bc by (auto simp: app_le_def)
  ultimately show ?thesis using ab bc by (simp add: app_le_def)
qed

lemma same_marksD:
  "same_marks a b \<Longrightarrow> ap_objects a r = Some x \<Longrightarrow> \<exists>y. ap_objects b r = Some y \<and> marks y = marks x"
  "same_marks a b \<Longrightarrow> ap_objects a r = None \<Longrightarrow> ap_objects b r = Some y \<Longrightarrow> marks y = (ar_matchID y, False, False, False)"
  by (auto simp: same_marks_def split: option.splits dest: spec[of _ r])

lemma same_marks_trans:
  assumes "same_marks a b" and "same_marks b c"
  shows "same_marks a c"
  unfolding same_marks_def
proof
  fix r
  show "case ap_objects a r of
       Some x \<Rightarrow> (\<exists>y. ap_objects c r = Some y \<and> marks y = marks x)
     | None \<Rightarrow> (\<forall>y. ap_objects c r = Some y \<longrightarrow> marks y = (ar_matchID y, False, False, False))"
  proof (cases "ap_objects a r")
    case (Some x)
    then show ?thesis using same_marksD(1)[OF assms(1) Some] same_marksD(1)[OF assms(2)] by fastforce
  next
    case None
    show ?thesis
    proof (cases "ap_objects b r")
      case (Some y)
      show ?thesis using None same_marksD(2)[OF assms(1) None Some] same_marksD(1)[OF assms(2) Some] by (auto simp: marks_def)
    qed (use None same_marksD(2)[OF assms(2)] in auto)
  qed
qed

lemma same_marks_refl [simp]: "same_marks a a"
  by (simp add: same_marks_def split: option.split)

lemma calm_refl: "app_ok a \<Longrightarrow> calm a a"
  by (simp add: calm_def)

lemma calmD: "calm a b \<Longrightarrow> app_ok b" "calm a b \<Longrightarrow> app_le a b"
  by (simp_all add: calm_def)

lemma calm_trans:
  assumes "calm a b" and "calm b c"
  shows "calm a c"
proof -
  obtain ts us where t: "ap_tasks b = ap_tasks a @ ts" "list_all (task_ok b) ts" "list_all plain ts"
    "ap_tasks c = ap_tasks b @ us" "list_all (task_ok c) us" "list_all plain us" using assms by (auto simp: calm_def)
  have le: "app_le b c" using assms(2) by (simp add: calm_def)
  have "list_all (task_ok c) ts" using t(2) task_ok_le[OF le] by (auto simp: list_all_iff)
  then have "ap_tasks c = ap_tasks a @ (ts @ us) \<and> list_all (task_ok c) (ts @ us) \<and> list_all plain (ts @ us)" using t by simp
  then show ?thesis using assms app_le_trans same_marks_trans unfolding calm_def by metis
qed

lemma fine_Inr [simp]: "fine a (Inr (x, b)) = calm a b"
  by (simp add: fine_def)

lemma fine_bind:
  assumes "fine a y" and "\<And>x b. y = Inr (x, b) \<Longrightarrow> calm a b \<Longrightarrow> fine b (g (x, b))"
  shows "fine a (bind_sum y g)"
proof -
  obtain x b where y: "y = Inr (x, b)" "calm a b" using assms(1) by (auto simp: fine_def)
  then obtain z c where "g (x, b) = Inr (z, c)" "calm b c" using assms(2) by (auto simp: fine_def)
  then show ?thesis using y calm_trans by (auto simp: fine_def)
qed

lemma fine_calm: "calm a b \<Longrightarrow> fine b y \<Longrightarrow> fine a y"
  using calm_trans by (auto simp: fine_def)

section \<open>Small effects\<close>

lemma app_okD:
  assumes "app_ok a"
  shows "hub_ok (ap_hub a)" "matchmaker_ok (ap_matcher a)" "config_ok (rc_World (ap_roomConfig a))"
    "catalog_ok (gp_catalog (ap_gameplay a))"
    "ap_objects a r = Some x \<Longrightarrow> active_ok x \<and> r < ap_nobjects a"
    "ap_objects a r = None \<longleftrightarrow> ap_nobjects a \<le> r"
    "map_option Context (hub_conn (ap_hub a) c) = Some (Some s) \<Longrightarrow> s < ap_nsessions a"
    "(c, s) \<in> set (ap_connections a) \<Longrightarrow> sess_ok a s \<and> hub_conn (ap_hub a) c \<noteq> None"
    "(i, p) \<in> set (ap_waiting a) \<Longrightarrow> part_ok a p"
    "ap_readers a d = Queueing p key sequence \<Longrightarrow> part_ok a p"
proof -
  have o: "case ap_objects a r of None \<Rightarrow> ap_nobjects a \<le> r | Some x \<Rightarrow> r < ap_nobjects a \<and> active_ok x" for r
    using assms by (simp add: app_ok_def)
  show "ap_objects a r = Some x \<Longrightarrow> active_ok x \<and> r < ap_nobjects a" using o[of r] by simp
  show "ap_objects a r = None \<longleftrightarrow> ap_nobjects a \<le> r" using o[of r] by (auto split: option.splits)
  show "hub_ok (ap_hub a)" "matchmaker_ok (ap_matcher a)" "config_ok (rc_World (ap_roomConfig a))"
    "catalog_ok (gp_catalog (ap_gameplay a))" using assms by (simp_all add: app_ok_def)
  show "map_option Context (hub_conn (ap_hub a) c) = Some (Some s) \<Longrightarrow> s < ap_nsessions a"
    using assms unfolding app_ok_def by blast
  show "(c, s) \<in> set (ap_connections a) \<Longrightarrow> sess_ok a s \<and> hub_conn (ap_hub a) c \<noteq> None" using assms unfolding app_ok_def by blast
  show "(i, p) \<in> set (ap_waiting a) \<Longrightarrow> part_ok a p" using assms unfolding app_ok_def by blast
  show "ap_readers a d = Queueing p key sequence \<Longrightarrow> part_ok a p" using assms unfolding app_ok_def by blast
qed

lemma session_at_frame [simp]:
  "session_at (a\<lparr>ap_tasks := v1\<rparr>) = session_at a" "session_at (a\<lparr>ap_hub := v2\<rparr>) = session_at a"
  "session_at (a\<lparr>ap_objects := v3\<rparr>) = session_at a" "session_at (a\<lparr>ap_connections := v4\<rparr>) = session_at a"
  "session_at (a\<lparr>ap_waiting := v5\<rparr>) = session_at a" "session_at (a\<lparr>ap_rooms := v6\<rparr>) = session_at a"
  "session_at (a\<lparr>ap_matcher := v7\<rparr>) = session_at a" "session_at (a\<lparr>ap_readers := v8\<rparr>) = session_at a"
  "session_at (a\<lparr>ap_ctxDone := v9\<rparr>) = session_at a" "session_at (a\<lparr>ap_recentDirector := v10\<rparr>) = session_at a"
  "session_at (a\<lparr>ap_nobjects := v11\<rparr>) = session_at a" "session_at (a\<lparr>ap_nextRoomID := v12\<rparr>) = session_at a"
  "session_at (a\<lparr>ap_sessionIDs := v13\<rparr>) = session_at a" "session_at (a\<lparr>ap_playerIDs := v14\<rparr>) = session_at a"
  "session_at (a\<lparr>ap_resultWriter := v15\<rparr>) = session_at a" "session_at (a\<lparr>ap_nsessions := v16\<rparr>) = session_at a"
  by (simp_all add: session_at_def fun_eq_iff)

lemma sess_ok_frame [simp]:
  "sess_ok (a\<lparr>ap_tasks := v1\<rparr>) = sess_ok a" "sess_ok (a\<lparr>ap_hub := v2\<rparr>) = sess_ok a"
  "sess_ok (a\<lparr>ap_objects := v3\<rparr>) = sess_ok a" "sess_ok (a\<lparr>ap_connections := v4\<rparr>) = sess_ok a"
  "sess_ok (a\<lparr>ap_waiting := v5\<rparr>) = sess_ok a" "sess_ok (a\<lparr>ap_rooms := v6\<rparr>) = sess_ok a"
  "sess_ok (a\<lparr>ap_matcher := v7\<rparr>) = sess_ok a" "sess_ok (a\<lparr>ap_readers := v8\<rparr>) = sess_ok a"
  "sess_ok (a\<lparr>ap_ctxDone := v9\<rparr>) = sess_ok a" "sess_ok (a\<lparr>ap_recentDirector := v10\<rparr>) = sess_ok a"
  "sess_ok (a\<lparr>ap_nobjects := v11\<rparr>) = sess_ok a" "sess_ok (a\<lparr>ap_nextRoomID := v12\<rparr>) = sess_ok a"
  "sess_ok (a\<lparr>ap_sessionIDs := v13\<rparr>) = sess_ok a" "sess_ok (a\<lparr>ap_playerIDs := v14\<rparr>) = sess_ok a"
  "sess_ok (a\<lparr>ap_resultWriter := v15\<rparr>) = sess_ok a"
  by (simp_all add: sess_ok_def fun_eq_iff)

lemma part_ok_frame [simp]:
  "part_ok (a\<lparr>ap_tasks := v1\<rparr>) = part_ok a"
  "part_ok (a\<lparr>ap_objects := v3\<rparr>) = part_ok a" "part_ok (a\<lparr>ap_connections := v4\<rparr>) = part_ok a"
  "part_ok (a\<lparr>ap_waiting := v5\<rparr>) = part_ok a" "part_ok (a\<lparr>ap_rooms := v6\<rparr>) = part_ok a"
  "part_ok (a\<lparr>ap_matcher := v7\<rparr>) = part_ok a" "part_ok (a\<lparr>ap_readers := v8\<rparr>) = part_ok a"
  "part_ok (a\<lparr>ap_ctxDone := v9\<rparr>) = part_ok a" "part_ok (a\<lparr>ap_recentDirector := v10\<rparr>) = part_ok a"
  "part_ok (a\<lparr>ap_nobjects := v11\<rparr>) = part_ok a" "part_ok (a\<lparr>ap_nextRoomID := v12\<rparr>) = part_ok a"
  "part_ok (a\<lparr>ap_sessionIDs := v13\<rparr>) = part_ok a" "part_ok (a\<lparr>ap_playerIDs := v14\<rparr>) = part_ok a"
  "part_ok (a\<lparr>ap_resultWriter := v15\<rparr>) = part_ok a"
  by (simp_all add: part_ok_def fun_eq_iff)

lemma task_ok_frame [simp]:
  "task_ok (a\<lparr>ap_tasks := v1\<rparr>) = task_ok a"
proof
  fix t show "task_ok (a\<lparr>ap_tasks := v1\<rparr>) t = task_ok a t"
    by (cases t) (simp_all add: task_ok_def pending_ok_def player_of_def)
qed

lemma app_ok_tasks [simp]: "app_ok (a\<lparr>ap_tasks := ts\<rparr>) = app_ok a"
  by (simp add: app_ok_def cong: option.case_cong)

text \<open>Sessions and rooms are untouched by the bookkeeping of the application.\<close>

lemma calmI:
  assumes "app_ok b" and "ap_nsessions b = ap_nsessions a" and "ap_sessions b = ap_sessions a" and "ap_nobjects b = ap_nobjects a"
    and "ap_objects b = ap_objects a" and "\<And>c. hub_conn (ap_hub a) c \<noteq> None \<Longrightarrow> hub_conn (ap_hub b) c \<noteq> None"
    and "ap_resultWriter b = ap_resultWriter a" and "ap_tasks b = ap_tasks a"
  shows "calm a b"
  using assms by (auto simp: calm_def app_le_def same_marks_def sess_ok_def session_at_def split: option.split)

lemma calm_spawn: "app_ok a \<Longrightarrow> task_ok a t \<Longrightarrow> plain t \<Longrightarrow> calm a (spawn t a)"
  by (auto simp: calm_def spawn_def app_le_def same_marks_def split: option.split)

lemma hub_le_conn: "hub_le h h' \<Longrightarrow> hub_conn h' c = None \<longleftrightarrow> hub_conn h c = None"
  by (auto simp: hub_le_def dest: spec[of _ c])

lemma calm_hub:
  assumes "app_ok a" and "hub_le (ap_hub a) h"
  shows "calm a (a\<lparr>ap_hub := h\<rparr>)"
proof (rule calmI)
  have p: "part_ok (a\<lparr>ap_hub := h\<rparr>) p = part_ok a p" for p using hub_le_conn[OF assms(2)] by (simp add: part_ok_def)
  have "map_option Context (hub_conn h c) = map_option Context (hub_conn (ap_hub a) c)" for c using assms(2) by (simp add: hub_le_def)
  then show "app_ok (a\<lparr>ap_hub := h\<rparr>)" using assms hub_le_conn[OF assms(2)] hub_leD[OF assms(2)]
    by (simp add: app_ok_def p del: map_option_eq_Some not_None_eq cong: option.case_cong)
  show "hub_conn (ap_hub (a\<lparr>ap_hub := h\<rparr>)) c \<noteq> None" if "hub_conn (ap_hub a) c \<noteq> None" for c
    using that hub_le_conn[OF assms(2), of c] by simp
qed simp_all

lemma set_delete: "set (AList.delete k m) \<subseteq> set m"
  by (simp add: AList.delete_eq)

lemma calm_connections:
  assumes "app_ok a" and "\<And>c s. (c, s) \<in> set m \<Longrightarrow> sess_ok a s \<and> hub_conn (ap_hub a) c \<noteq> None"
  shows "calm a (a\<lparr>ap_connections := m\<rparr>)"
  by (rule calmI) (use assms in \<open>simp_all add: app_ok_def cong: option.case_cong\<close>)

lemma calm_connections_delete: "app_ok a \<Longrightarrow> calm a (a\<lparr>ap_connections := AList.delete c (ap_connections a)\<rparr>)"
  using calm_connections set_delete[of c "ap_connections a"] app_okD(8) by (meson subsetD)

lemma calm_queue:
  assumes "app_ok a" and "matchmaker_ok m" and "\<And>i p. (i, p) \<in> set w \<Longrightarrow> part_ok a p"
  shows "calm a (a\<lparr>ap_matcher := m, ap_waiting := w\<rparr>)"
  by (rule calmI) (use assms in \<open>simp_all add: app_ok_def cong: option.case_cong\<close>)

lemma calm_waiting:
  assumes "app_ok a" and "\<And>i p. (i, p) \<in> set w \<Longrightarrow> part_ok a p"
  shows "calm a (a\<lparr>ap_waiting := w\<rparr>)"
  by (rule calmI) (use assms in \<open>simp_all add: app_ok_def cong: option.case_cong\<close>)

lemma calm_reader:
  assumes "app_ok a" and "\<And>p key sequence. pc = Queueing p key sequence \<Longrightarrow> part_ok a p"
  shows "calm a (a\<lparr>ap_readers := (ap_readers a)(c := pc)\<rparr>)"
proof (rule calmI)
  have "part_ok a p" if "((ap_readers a)(c := pc)) d = Queueing p key sequence" for d p key sequence
    using that assms app_okD(10)[OF assms(1)] by (auto split: if_splits)
  then show "app_ok (a\<lparr>ap_readers := (ap_readers a)(c := pc)\<rparr>)" using assms(1)
    by (simp add: app_ok_def cong: option.case_cong)
qed simp_all

lemma calm_rooms [simp]: "app_ok a \<Longrightarrow> calm a (a\<lparr>ap_rooms := m\<rparr>)"
  by (rule calmI) (simp_all add: app_ok_def cong: option.case_cong)

lemma calm_recent [simp]: "app_ok a \<Longrightarrow> calm a (a\<lparr>ap_recentDirector := m\<rparr>)"
  by (rule calmI) (simp_all add: app_ok_def cong: option.case_cong)

lemma calm_ids [simp]: "app_ok a \<Longrightarrow> calm a (a\<lparr>ap_sessionIDs := i, ap_playerIDs := j\<rparr>)"
  by (rule calmI) (simp_all add: app_ok_def cong: option.case_cong)

lemma calm_objects:
  assumes "app_ok a" and "\<And>r. ap_objects a r = None \<Longrightarrow> f r = None"
    and "\<And>r x. ap_objects a r = Some x \<Longrightarrow> \<exists>y. f r = Some y \<and> marks y = marks x \<and> (active_ok x \<longrightarrow> active_ok y)"
  shows "calm a (a\<lparr>ap_objects := f\<rparr>)"
proof -
  have "case f r of None \<Rightarrow> ap_nobjects a \<le> r | Some x \<Rightarrow> r < ap_nobjects a \<and> active_ok x" for r
  proof (cases "ap_objects a r")
    case None
    then show ?thesis using assms(2) app_okD(6)[OF assms(1)] by simp
  next
    case (Some x)
    then show ?thesis using assms(3)[OF Some] app_okD(5)[OF assms(1) Some] by auto
  qed
  then have ok: "app_ok (a\<lparr>ap_objects := f\<rparr>)" using assms(1) by (simp add: app_ok_def cong: option.case_cong)
  have le: "\<exists>y. f r = Some y \<and> ar_matchID y = ar_matchID x" if "ap_objects a r = Some x" for r x
    using assms(3)[OF that] by (auto simp: marks_def)
  have "same_marks a (a\<lparr>ap_objects := f\<rparr>)" unfolding same_marks_def
  proof
    fix r show "case ap_objects a r of
       Some x \<Rightarrow> (\<exists>y. ap_objects (a\<lparr>ap_objects := f\<rparr>) r = Some y \<and> marks y = marks x)
     | None \<Rightarrow> (\<forall>y. ap_objects (a\<lparr>ap_objects := f\<rparr>) r = Some y \<longrightarrow> marks y = (ar_matchID y, False, False, False))"
      using assms(2)[of r] assms(3)[of r] by (cases "ap_objects a r") auto
  qed
  then show ?thesis using ok le by (simp add: calm_def app_le_def)
qed

lemma calm_on_active:
  assumes "app_ok a" and "\<And>x. marks (f x) = marks x" and "\<And>x. active_ok x \<Longrightarrow> active_ok (f x)"
  shows "calm a (on_active r f a)"
  unfolding on_active_def
proof (rule calm_objects[OF assms(1)])
  show "\<exists>y. ((ap_objects a)(r := map_option f (ap_objects a r))) q = Some y \<and> marks y = marks x \<and> (active_ok x \<longrightarrow> active_ok y)"
    if "ap_objects a q = Some x" for q x using that assms(2,3) by (cases "q = r") auto
qed auto

text \<open>The bookkeeping of one room.\<close>

lemma active_ok_frame [simp]:
  "active_ok (x\<lparr>ar_snapshots := v1\<rparr>) = active_ok x" "active_ok (x\<lparr>ar_events := v2\<rparr>) = active_ok x"
  "active_ok (x\<lparr>ar_rematching := v3\<rparr>) = active_ok x" "active_ok (x\<lparr>ar_rewardStage := v4\<rparr>) = active_ok x"
  "active_ok (x\<lparr>ar_rewarded := v5\<rparr>) = active_ok x" "active_ok (x\<lparr>ar_delivered := v6\<rparr>) = active_ok x"
  "active_ok (x\<lparr>ar_ready := v7\<rparr>) = active_ok x" "active_ok (x\<lparr>ar_advancing := v8\<rparr>) = active_ok x"
  "active_ok (x\<lparr>ar_completed := v9\<rparr>) = active_ok x" "active_ok (x\<lparr>ar_resultSubmitting := v10\<rparr>) = active_ok x"
  "active_ok (x\<lparr>ar_resultQueued := v11\<rparr>) = active_ok x" "active_ok (x\<lparr>ar_monsters := v12\<rparr>) = active_ok x"
  "active_ok (x\<lparr>ar_projectiles := v13\<rparr>) = active_ok x" "active_ok (x\<lparr>ar_stats := v14\<rparr>) = active_ok x"
  "active_ok (x\<lparr>ar_watched := v15\<rparr>) = active_ok x"
  by (simp_all add: active_ok_def)

lemma active_ok_close [simp]:
  "cw_onClose c = cw_onClose (ar_close x) \<Longrightarrow> active_ok (x\<lparr>ar_close := c\<rparr>) = active_ok x"
  "cw_onClose (CloseWatcher_Subscribe i s w) = cw_onClose w" "cw_onClose (CloseWatcher_Unsubscribe i w) = cw_onClose w"
  by (simp_all add: active_ok_def CloseWatcher_Subscribe_def CloseWatcher_Unsubscribe_def)

lemma calm_unsubscribe: "app_ok a \<Longrightarrow> calm a (on_active r (unsubscribe_all i) a)"
  by (rule calm_on_active) (simp_all add: unsubscribe_all_def marks_def)

lemma calm_cancel_room: "app_ok a \<Longrightarrow> calm a (cancel_room r a)"
  unfolding cancel_room_def
  by (rule calm_on_active) (auto simp: marks_def active_ok_def intro: room_reachable.step room_step.cancel)

lemma calm_session:
  assumes "app_ok a" and "se_state (ap_sessions a s) \<noteq> StateConnected \<Longrightarrow>
      se_state (snd (f (ap_sessions a s))) \<noteq> StateConnected \<and> Identity (snd (f (ap_sessions a s))) = Identity (ap_sessions a s)"
  shows "calm a (snd (on_session s f a))"
proof -
  let ?b = "snd (on_session s f a)"
  have b: "?b = a\<lparr>ap_sessions := (ap_sessions a)(s := snd (f (ap_sessions a s)))\<rparr>" by (simp add: on_session_def split: prod.split)
  have o: "sess_ok ?b t \<and> Identity (session_at ?b t) = Identity (session_at a t)" if "sess_ok a t" for t
    using that assms(2) by (auto simp: b sess_ok_def session_at_def)
  then have p: "part_ok ?b p" if "part_ok a p" for p using that by (simp add: part_ok_def b)
  have "app_ok ?b" using assms(1) o p unfolding app_ok_def by (simp add: b cong: option.case_cong)
  then show ?thesis using o by (auto simp: calm_def app_le_def same_marks_def b split: option.split)
qed

lemma calm_transition: "app_ok a \<Longrightarrow> t \<noteq> StateConnected \<Longrightarrow> calm a (snd (transition s t a))"
  unfolding transition_def
  by (rule calm_session) (auto simp: Transition_state Identity_def)

lemma on_session_result: "on_session s f a = (fst (f (ap_sessions a s)), snd (on_session s f a))"
  by (simp add: on_session_def split: prod.split)

text \<open>A call of a room.\<close>

lemma fine_on_room:
  assumes "app_ok a" and "\<And>rm. room_reachable rm \<Longrightarrow> \<exists>x rm'. f rm = Inr (x, rm') \<and> room_reachable rm'"
  shows "fine a (on_room r f a)"
proof (cases "ap_objects a r")
  case None
  then show ?thesis using calm_refl[OF assms(1)] by (simp add: on_room_def)
next
  case (Some x)
  have "room_reachable (ar_room x)" "cw_onClose (ar_close x) = None" using app_okD(5)[OF assms(1) Some] by (simp_all add: active_ok_def)
  then obtain y rm where c: "f (ar_room x) = Inr (y, rm)" "room_reachable rm" using assms(2) by blast
  have "calm a (a\<lparr>ap_objects := (ap_objects a)(r \<mapsto> x\<lparr>ar_room := rm\<rparr>)\<rparr>)"
    by (rule calm_objects[OF assms(1)]) (use Some c(2) in \<open>auto simp: marks_def active_ok_def\<close>)
  then show ?thesis using Some c(1) by (simp add: on_room_def)
qed

lemma room_call_ok:
  assumes "room_reachable rm" and "f rm = y" and "\<And>x rm'. y = Inr (x, rm') \<Longrightarrow> room_call rm x rm'"
    and "\<exists>z. y = Inr z"
  shows "\<exists>x rm'. f rm = Inr (x, rm') \<and> room_reachable rm'"
  using assms room_reachable.step room_step.call by (metis surj_pair)

end
