(* ===== verification/AppSteps.thy ===== *)
theory AppSteps
  imports AppCalm
begin

text \<open>
  Every operation of the application on a consistent state returns, and is calm or, for the two gates
  (the director and the terminal result), changes exactly the marks of one room.  The lemmas follow the
  definitions one by one.
\<close>

section \<open>Calls of a room\<close>

lemma enqueue_total:
  assumes "room_reachable rm" and "\<And>n. receipt_of (c n) = Some n \<and> control_typed (c n)"
  shows "\<exists>x rm'. enqueue_control rm c = Inr (x, rm')"
  using enqueue_control_inv[OF room_reachable_inv[OF assms(1)], of c] assms(2) by blast

lemmas control_simps = zero_control_def receipt_of_def control_typed_def

lemma Join_fine: "room_reachable rm \<Longrightarrow> \<exists>x rm'. Room.Join rm s p = Inr (x, rm') \<and> room_reachable rm'"
proof -
  assume r: "room_reachable rm"
  have "\<exists>x rm'. Room.Join rm s p = Inr (x, rm')"
    using enqueue_total[OF r] by (simp add: Join_def submit_def control_simps)
  then show ?thesis using room_reachable.step[OF r] room_step.call room_call.join by metis
qed

lemma Leave_fine: "room_reachable rm \<Longrightarrow> \<exists>x rm'. Room.Leave rm s = Inr (x, rm') \<and> room_reachable rm'"
proof -
  assume r: "room_reachable rm"
  have "\<exists>x rm'. Room.Leave rm s = Inr (x, rm')"
    using enqueue_total[OF r] by (simp add: Leave_def submit_def control_simps)
  then show ?thesis using room_reachable.step[OF r] room_step.call room_call.leave by metis
qed

lemma StartStage_fine:
  assumes r: "room_reachable rm" and p: "plan_f64 plan"
  shows "\<exists>x rm'. Room_StartStage rm plan = Inr (x, rm') \<and> room_reachable rm'"
proof -
  have "\<exists>x rm'. Room_StartStage rm plan = Inr (x, rm')"
    using enqueue_total[OF r] p by (simp add: Room_StartStage_def submit_def control_simps split: sum.split)
  then show ?thesis using room_reachable.step[OF r] room_step.call room_call.start[OF p] by metis
qed

lemma StartReward_fine:
  assumes r: "room_reachable rm" and k: "catalog_ok k"
  shows "\<exists>x rm'. Room_StartReward rm k seed d = Inr (x, rm') \<and> room_reachable rm'"
proof -
  have "\<exists>x rm'. Room_StartReward rm k seed d = Inr (x, rm')"
    using enqueue_total[OF r] k by (simp add: Room_StartReward_def submit_def control_simps)
  then show ?thesis using room_reachable.step[OF r] room_step.call room_call.reward[OF k] by metis
qed

lemma ChooseReward_fine: "room_reachable rm \<Longrightarrow> \<exists>x rm'. Room_ChooseReward rm s e = Inr (x, rm') \<and> room_reachable rm'"
proof -
  assume r: "room_reachable rm"
  have "\<exists>x rm'. Room_ChooseReward rm s e = Inr (x, rm')"
    using enqueue_total[OF r] by (simp add: Room_ChooseReward_def submit_def control_simps)
  then show ?thesis using room_reachable.step[OF r] room_step.call room_call.choose by metis
qed

lemma CompletedStage_fine: "room_reachable rm \<Longrightarrow> \<exists>x rm'. Room_CompletedStage rm = Inr (x, rm') \<and> room_reachable rm'"
proof -
  assume r: "room_reachable rm"
  have "\<exists>x rm'. Room_CompletedStage rm = Inr (x, rm')"
    using enqueue_total[OF r] by (simp add: Room_CompletedStage_def control_simps)
  then show ?thesis using room_reachable.step[OF r] room_step.call room_call.completed by metis
qed

lemma GameResult_fine: "room_reachable rm \<Longrightarrow> \<exists>x rm'. Room_GameResult rm out = Inr (x, rm') \<and> room_reachable rm'"
proof -
  assume r: "room_reachable rm"
  have "\<exists>x rm'. Room_GameResult rm out = Inr (x, rm')"
    using enqueue_total[OF r] by (simp add: Room_GameResult_def control_simps)
  then show ?thesis using room_reachable.step[OF r] room_step.call room_call.result by metis
qed

lemma Input_fine:
  assumes r: "room_reachable rm" and f: "is_f64 (X (i_Direction input))" "is_f64 (Y (i_Direction input))"
  shows "\<exists>x rm'. Room_Input rm s input now = Inr (x, rm') \<and> room_reachable rm'"
proof (cases "Vec2_Finite (i_Direction input)")
  case True
  then have v: "vec_ok (i_Direction input)" using f by (simp add: vec_ok_def)
  then obtain x rm' where "Room_Input rm s input now = Inr (x, rm')" using Room_Input_inv[OF room_reachable_inv[OF r] v] by blast
  then show ?thesis using room_reachable.step[OF r room_step.input[OF v]] by blast
next
  case False
  then show ?thesis using r by (auto simp: Room_Input_def Input_Validate_def)
qed

lemma goroutine_fine:
  assumes "room_reachable rm" and "rm_pc rm = Selecting \<longrightarrow> wake_ready k rm"
  shows "\<exists>rm'. goroutine k now ended rm = Inr rm' \<and> room_reachable rm'"
  using goroutine_ok[OF room_reachable_inv[OF assms(1)], of k now ended] room_reachable.step[OF assms(1) room_step.run[OF assms(2)]] by blast

section \<open>Messages and connections\<close>

lemma fine_sendMessage: "app_ok a \<Longrightarrow> fine a (sendMessage pb c sequence mt m a)"
proof -
  assume ok: "app_ok a"
  show ?thesis
  proof (cases "encode_message pb mt sequence m")
    case (Inr f)
    obtain b h where h: "hub_Send c f (ap_hub a) = Inr (b, h)" "hub_le (ap_hub a) h" using hub_Send_le[OF app_okD(1)[OF ok]] by blast
    then show ?thesis using Inr calm_hub[OF ok h(2)] by (simp add: sendMessage_def)
  qed (simp add: sendMessage_def calm_refl[OF ok])
qed

lemma fine_sendDisconnect: "app_ok a \<Longrightarrow> fine a (sendDisconnect pb c sequence reason msg a)"
  unfolding sendDisconnect_def
proof (rule fine_bind[OF fine_sendMessage])
  fix x b assume "calm a b"
  then have ok: "app_ok b" by (rule calmD)
  obtain h where "hub_CloseAfterFlush c (ap_hub b) = Inr h" "hub_le (ap_hub b) h"
    using hub_CloseAfterFlush_le[OF app_okD(1)[OF ok]] by blast
  then show "fine b (case (x, b) of (err, a) \<Rightarrow> case err of Some e \<Rightarrow> Inr (Some e, a)
       | None \<Rightarrow> (case hub_CloseAfterFlush c (ap_hub a) of Inl p \<Rightarrow> Inl (InChannel p)
          | Inr h \<Rightarrow> Inr (Some ErrClosing, a\<lparr>ap_hub := h\<rparr>)))"
    using calm_hub[OF ok] calm_refl[OF ok] by (simp split: option.split)
qed

lemma calm_leave_queue:
  assumes "app_ok a"
  shows "calm a (a\<lparr>ap_matcher := snd (Cancel (ap_matcher a) k), ap_waiting := AList.delete k (ap_waiting a)\<rparr>)"
proof (rule calm_queue[OF assms])
  show "matchmaker_ok (snd (Cancel (ap_matcher a) k))" using Cancel_spec[OF app_okD(2)[OF assms]] by blast
  show "part_ok a p" if "(i, p) \<in> set (AList.delete k (ap_waiting a))" for i p
    using that set_delete[of k "ap_waiting a"] app_okD(9)[OF assms] by blast
qed

lemma ordinary [simp]:
  "plain (Submit_result i e x)" "task_ok a (Submit_result i e x)" "plain (Leave_room s r)" "task_ok a (Leave_room s r)"
  by (simp_all add: plain_def advances_def reports_def task_ok_def)

lemma calm_disconnected:
  assumes "app_ok a"
  shows "calm a (disconnected c a)"
proof (cases "map_of (ap_connections a) c")
  case None
  then show ?thesis using calm_connections_delete[OF assms] by (simp add: disconnected_def)
next
  case (Some s)
  define a1 where "a1 = a\<lparr>ap_connections := AList.delete c (ap_connections a)\<rparr>"
  define key where "key = player_key (snd (Identity (session_at a1 s)))"
  define a2 where "a2 = a1\<lparr>ap_matcher := snd (Cancel (ap_matcher a1) key), ap_waiting := AList.delete key (ap_waiting a1)\<rparr>"
  have 1: "calm a a1" using calm_connections_delete[OF assms] by (simp add: a1_def)
  have 2: "calm a1 a2" using calm_leave_queue[OF calmD(1)[OF 1]] by (simp add: a2_def)
  note 12 = calm_trans[OF 1 2]
  have t: "calm b (snd (transition s StateDisconnected b))" if "app_ok b" for b by (rule calm_transition[OF that]) simp
  have sp: "calm b (spawn t b)" if "app_ok b" "task_ok b t" "plain t" for b t by (rule calm_spawn[OF that])
  show ?thesis
  proof (cases "lookup_room a2 (se_roomID (session_at a1 s))")
    case None
    have "disconnected c a = snd (transition s StateDisconnected a2)"
      using Some None by (simp add: disconnected_def Let_def a1_def key_def a2_def)
    then show ?thesis using calm_trans[OF 12 t[OF calmD(1)[OF 2]]] by simp
  next
    case r: (Some r)
    define a3 where "a3 = snd (transition s StateDisconnected (on_active r (unsubscribe_all (snd (Identity (session_at a1 s)))) a2))"
    note u = calm_unsubscribe[OF calmD(1)[OF 2], of r "snd (Identity (session_at a1 s))"]
    have 3: "calm a a3" unfolding a3_def by (rule calm_trans[OF calm_trans[OF 12 u] t[OF calmD(1)[OF u]]])
    have "\<exists>t. disconnected c a = spawn t a3 \<and> task_ok a3 t \<and> plain t"
      using Some r by (auto simp: disconnected_def Let_def a1_def key_def a2_def a3_def)
    then show ?thesis using sp calm_trans[OF 3] calmD(1)[OF 3] by metis
  qed
qed

lemma calm_close_connection:
  assumes "app_ok a"
  shows "calm a (close_connection c a)"
proof -
  note 1 = calm_hub[OF assms Close_server_conn_le[OF app_okD(1)[OF assms], of c]]
  note 2 = calm_trans[OF 1 calm_disconnected[OF calmD(1)[OF 1], of c]]
  show ?thesis using 2 calm_refl[OF assms] by (auto simp: close_connection_def split: option.split)
qed

lemma fine_handlePing: "app_ok a \<Longrightarrow> fine a (handlePing pb c h body a)"
  by (auto simp: handlePing_def fine_sendMessage calm_refl split: option.split)

section \<open>Login\<close>

lemma login_state: "fst (Accept v MSG_LOGIN_REQUEST) \<Longrightarrow> se_state v = StateConnected"
  by (auto simp: Accept_def legal_def legalityMatrix_def message_defs split: if_splits option.splits)

lemma connection_session_ok:
  assumes "app_ok a" and "hub_conn (ap_hub a) c \<noteq> None" and "connection_session c a = (s, b)"
  shows "calm a b \<and> s < ap_nsessions b"
proof -
  obtain conn where c: "hub_conn (ap_hub a) c = Some conn" using assms(2) by blast
  show ?thesis
  proof (cases "Context conn")
    case (Some t)
    then show ?thesis using assms(3) c calm_refl[OF assms(1)] app_okD(7)[OF assms(1), of c t] by (simp add: connection_session_def)
  next
    case None
    let ?n = "ap_nsessions a" and ?c = "SetContext (Some (ap_nsessions a)) (conn\<lparr>cn_counters := sv_counters (hub_server (ap_hub a))\<rparr>)"
    let ?h = "set_conn c ?c (ap_hub a)"
    have b: "s = ?n" "b = a\<lparr>ap_nsessions := Suc ?n, ap_sessions := (ap_sessions a)(?n := New_session), ap_hub := ?h\<rparr>"
      using assms(3) c None by (auto simp: connection_session_def Let_def)
    have o: "sess_ok b t \<and> session_at b t = session_at a t" if "sess_ok a t" for t
      using that by (simp add: b sess_ok_def session_at_def)
    have conns: "hub_conn ?h d = (if d = c then Some ?c else hub_conn (ap_hub a) d)" for d by (rule hub_conn_set_conn)
    have p: "part_ok b q" if "part_ok a q" for q using that o by (auto simp: part_ok_def b conns)
    have "conn_ok ?c \<and> cn_closeOnce ?c = cn_closeOnce (conn\<lparr>cn_counters := sv_counters (hub_server (ap_hub a))\<rparr>)"
      using conn_move_ok[OF conn_move.remember] hub_ok_conn[OF app_okD(1)[OF assms(1)] c] by simp
    then have hub: "hub_ok ?h" using set_conn_ok[OF app_okD(1)[OF assms(1)] c] by simp
    have ctx: "t < Suc ?n" if "map_option Context (hub_conn ?h d) = Some (Some t)" for d t
      using that app_okD(7)[OF assms(1), of d t] by (auto simp: hub_conn_set_conn SetContext_def Context_def split: if_splits)
    have "app_ok b" unfolding app_ok_def
    proof (intro conjI allI impI)
      show "hub_ok (ap_hub b)" using hub by (simp add: b)
      show "matchmaker_ok (ap_matcher b)" "config_ok (rc_World (ap_roomConfig b))" "catalog_ok (gp_catalog (ap_gameplay b))"
        using app_okD(2-4)[OF assms(1)] by (simp_all add: b)
      show "case ap_objects b r of None \<Rightarrow> ap_nobjects b \<le> r | Some x \<Rightarrow> r < ap_nobjects b \<and> active_ok x" for r
        using app_okD(5,6)[OF assms(1), of r] by (auto simp: b split: option.split)
      show "t < ap_nsessions b" if "map_option Context (hub_conn (ap_hub b) d) = Some (Some t)" for d t
        using ctx[of d t] that by (simp add: b)
      show "part_ok b q" if "(i, q) \<in> set (ap_waiting b)" for i q
        using that p app_okD(9)[OF assms(1), of i q] by (simp add: b)
      show "part_ok b q" if "ap_readers b d = Queueing q k m" for d q k m
        using that p app_okD(10)[OF assms(1), of d q k m] by (simp add: b)
      fix d t assume m: "(d, t) \<in> set (ap_connections b)"
      then show "sess_ok b t" using o app_okD(8)[OF assms(1), of d t] by (simp add: b)
      show "hub_conn (ap_hub b) d \<noteq> None" using m app_okD(8)[OF assms(1), of d t] by (auto simp: b conns)
    qed
    moreover have "app_le a b" using o by (auto simp: app_le_def b conns)
    moreover have "same_marks a b" by (simp add: same_marks_def b split: option.split)
    ultimately show ?thesis by (simp add: calm_def b)
  qed
qed

lemma fine_handleLogin:
  assumes "app_ok a" and "se_state (session_at a s) = StateConnected"
  shows "fine a (handleLogin pb c h body s a)"
proof -
  have login: "fine a (case next_ids a of ((sessionID, playerID), a) \<Rightarrow>
          let a = snd (on_session s (\<lambda>v. ((), AssignIdentity v sessionID playerID)) a); a = snd (transition s StateLobby a)
          in sendMessage pb c (h_Sequence h) MSG_LOGIN_RESPONSE
               (LoginResponse gameplayProtocolVersion REASON_OK ''ok'' sessionID playerID) a)"
  proof -
    define a1 where "a1 = a\<lparr>ap_sessionIDs := ap_sessionIDs a + 1, ap_playerIDs := ap_playerIDs a + 1\<rparr>"
    let ?f = "\<lambda>v. ((), AssignIdentity v (ap_sessionIDs a + 1) (ap_playerIDs a + 1))"
    have 1: "calm a a1" using assms(1) by (simp add: a1_def)
    have 2: "calm a1 (snd (on_session s ?f a1))"
      by (rule calm_session[OF calmD(1)[OF 1]]) (use assms(2) in \<open>simp add: a1_def session_at_def\<close>)
    have 3: "calm a1 (snd (transition s StateLobby (snd (on_session s ?f a1))))"
      by (rule calm_trans[OF 2 calm_transition[OF calmD(1)[OF 2]]]) simp
    show ?thesis using fine_calm[OF calm_trans[OF 1 3] fine_sendMessage[OF calmD(1)[OF 3]]]
      by (simp add: next_ids_def a1_def Let_def)
  qed
  then show ?thesis using fine_sendMessage[OF assms(1)] calm_refl[OF assms(1)]
    unfolding handleLogin_def by (cases "unmarshal_LoginRequest pb body") auto
qed

lemma fine_routeMessage:
  assumes "app_ok a" and "hub_conn (ap_hub a) c \<noteq> None"
  shows "fine a (routeMessage pb c h body a)"
proof -
  obtain s b where s: "connection_session c a = (s, b)" by fastforce
  have b: "calm a b" using connection_session_ok[OF assms s] by blast
  note ok = calmD(1)[OF b]
  have "fine b (case Accept (session_at b s) (h_MessageType h) of
         (False, reason) \<Rightarrow> sendDisconnect pb c (h_Sequence h) reason ''invalid message for session state'' b
       | (True, _) \<Rightarrow>
         if h_MessageType h = MSG_PING then handlePing pb c h body b
         else if h_MessageType h = MSG_LOGIN_REQUEST then handleLogin pb c h body s b
         else Inr (None, b))"
  proof (cases "Accept (session_at b s) (h_MessageType h)")
    case (Pair x reason)
    then show ?thesis using fine_sendDisconnect[OF ok] fine_handlePing[OF ok] calm_refl[OF ok]
        fine_handleLogin[OF ok, of s] login_state[of "session_at b s"] by (auto split: bool.split)
  qed
  then show ?thesis unfolding routeMessage_def s prod.case by (rule fine_calm[OF b])
qed

section \<open>Matching\<close>

lemma ordinary_tasks [simp]:
  "plain (Create_match ps n)" "plain (Create_rematch i r ps n)" "plain (Await_choice r i p c n e k)" "task_ok a (Await_choice r i p c n e k)"
  "plain (Begin_reward i j)" "task_ok a (Begin_reward i j)" "plain (Await_delivery i p c n e x)" "task_ok a (Await_delivery i p c n e x)"
  "task_ok a (Create_match ps n) = list_all (part_ok a) ps" "task_ok a (Create_rematch i r ps n) = list_all (part_ok a) ps"
  by (simp_all add: plain_def advances_def reports_def task_ok_def)

lemma calm_mark_rematching: "app_ok a \<Longrightarrow> calm a (on_active r (\<lambda>x. x\<lparr>ar_rematching := b\<rparr>) a)"
  by (rule calm_on_active) (simp_all add: marks_def)

lemma calm_handleRematchRequest:
  assumes "app_ok a"
  shows "calm a (snd (handleRematchRequest s n a))"
proof -
  have p: "list_all (part_ok a) (room_members i a)" for i
    using app_okD(8)[OF assms] by (auto simp: room_members_def list_all_iff part_ok_def)
  have "calm a (spawn (Create_rematch i r (room_members i a) n) (on_active r (\<lambda>x. x\<lparr>ar_rematching := True\<rparr>) a))" for i r
  proof (rule calm_trans[OF calm_mark_rematching[OF assms]])
    let ?b = "on_active r (\<lambda>x. x\<lparr>ar_rematching := True\<rparr>) a"
    have c: "calm a ?b" by (rule calm_mark_rematching[OF assms])
    show "calm ?b (spawn (Create_rematch i r (room_members i a) n) ?b)"
      by (rule calm_spawn[OF calmD(1)[OF c]]) (use parts_ok_le[OF calmD(2)[OF c] p] in simp_all)
  qed
  then show ?thesis using calm_refl[OF assms] by (simp add: handleRematchRequest_def Let_def split: option.split)
qed

lemma calm_handleMatchRequest:
  assumes "app_ok a" and "hub_conn (ap_hub a) c \<noteq> None" and "s < ap_nsessions a"
  shows "calm a (snd (handleMatchRequest pb now c h body s a))"
proof -
  have "calm a (snd (case transition s StateMatching a of
            (False, a) \<Rightarrow> (Some MatchTransitionFailed, a)
          | (True, a) \<Rightarrow>
            (None, a\<lparr>ap_readers := (ap_readers a)(c := Queueing \<lparr>pt_conn = c, pt_session = s, pt_queuedAt = now\<rparr>
              (player_key (snd (Identity (session_at a s)))) (h_Sequence h))\<rparr>)))"
  proof (cases "transition s StateMatching a")
    case (Pair x b)
    have b: "calm a b" using calm_transition[OF assms(1), of StateMatching s] Pair by simp
    note ok = calmD(1)[OF b]
    show ?thesis
    proof (cases x)
      case True
      have "se_state (session_at b s) = StateMatching" "ap_nsessions b = ap_nsessions a" "ap_hub b = ap_hub a"
        using Pair True by (auto simp: transition_def on_session_def Transition_def session_at_def split: if_splits)
      then have p: "part_ok b \<lparr>pt_conn = c, pt_session = s, pt_queuedAt = now\<rparr>" using assms(2,3) by (simp add: part_ok_def sess_ok_def)
      have "calm b (b\<lparr>ap_readers := (ap_readers b)(c := Queueing \<lparr>pt_conn = c, pt_session = s, pt_queuedAt = now\<rparr>
              (player_key (snd (Identity (session_at b s)))) (h_Sequence h))\<rparr>)"
        by (rule calm_reader[OF ok]) (use p in auto)
      then show ?thesis using Pair True calm_trans[OF b] by simp
    qed (use Pair b in simp)
  qed
  then show ?thesis using calm_handleRematchRequest[OF assms(1)] calm_refl[OF assms(1)]
    by (simp add: handleMatchRequest_def split: option.split)
qed

lemma take_participants_ok:
  "\<forall>i p. (i, p) \<in> set m \<longrightarrow> P p \<Longrightarrow> take_participants is m = (x, m') \<Longrightarrow>
     (\<forall>i p. (i, p) \<in> set m' \<longrightarrow> P p) \<and> (\<forall>ps. x = Inr ps \<longrightarrow> list_all P ps)"
proof (induction "is" arbitrary: m x m')
  case (Cons i "is")
  have d: "\<forall>j p. (j, p) \<in> set (AList.delete i m) \<longrightarrow> P p" using Cons.prems(1) set_delete by fast
  show ?case
  proof (cases "map_of m i")
    case (Some p)
    obtain y w where y: "take_participants is (AList.delete i m) = (y, w)" by fastforce
    have "P p" using Some Cons.prems(1) map_of_SomeD by fast
    then show ?thesis using Cons.IH[OF d y] Cons.prems(2) Some y by (cases y) auto
  qed (use Cons.prems(2) d in auto)
qed auto

lemma set_update: "set (AList.update k v m) \<subseteq> insert (k, v) (set m)"
  by (induction m) auto

lemma fine_queue_member:
  assumes "app_ok a" and "part_ok a p"
  shows "fine a (queue_member p key n a)"
proof -
  define a1 where "a1 = a\<lparr>ap_waiting := AList.update key p (ap_waiting a)\<rparr>"
  have w: "part_ok a q" if "(i, q) \<in> set (AList.update key p (ap_waiting a))" for i q
    using that set_update[of key p "ap_waiting a"] app_okD(9)[OF assms(1), of i q] assms(2) by auto
  have 1: "calm a a1" using calm_waiting[OF assms(1) w] by (simp add: a1_def)
  note ok = calmD(1)[OF 1] and m = app_okD(2)[OF calmD(1)[OF 1]]
  show ?thesis
  proof (cases "spec_enqueue (nat (mm_playersPerMatch (ap_matcher a1))) (queue (ap_matcher a1)) key")
    case (Inl e)
    then have e: "Enqueue (ap_matcher a1) key = Some (Inl e)" using Enqueue_spec[OF m, of key] by simp
    have 2: "calm a1 (a1\<lparr>ap_waiting := AList.delete key (ap_waiting a1)\<rparr>)"
      by (rule calm_waiting[OF ok]) (rule app_okD(9)[OF ok], rule subsetD[OF set_delete])
    have "calm a (snd (transition (pt_session p) StateLobby (a1\<lparr>ap_waiting := AList.delete key (ap_waiting a1)\<rparr>)))"
      by (rule calm_trans[OF calm_trans[OF 1 2] calm_transition[OF calmD(1)[OF 2]]]) simp
    then show ?thesis unfolding queue_member_def a1_def[symmetric] Let_def e option.case sum.case by simp
  next
    case (Inr r)
    then obtain ps q mm where e: "Enqueue (ap_matcher a1) key = Some (Inr (ps, mm))" "matchmaker_ok mm"
      using Enqueue_spec[OF m, of key] by (cases r) auto
    let ?a = "a1\<lparr>ap_matcher := mm\<rparr>"
    have "calm a1 (a1\<lparr>ap_matcher := mm, ap_waiting := ap_waiting a1\<rparr>)" by (rule calm_queue[OF ok e(2)]) (rule app_okD(9)[OF ok])
    then have 2: "calm a1 ?a" by simp
    obtain x w where t: "take_participants ps (ap_waiting ?a) = (x, w)" by fastforce
    have tp: "(\<forall>i p. (i, p) \<in> set w \<longrightarrow> part_ok ?a p) \<and> (\<forall>ps. x = Inr ps \<longrightarrow> list_all (part_ok ?a) ps)"
      by (rule take_participants_ok[OF _ t]) (intro allI impI, rule app_okD(9)[OF calmD(1)[OF 2]])
    have 3: "calm ?a (?a\<lparr>ap_waiting := w\<rparr>)" by (rule calm_waiting[OF calmD(1)[OF 2]]) (rule tp[THEN conjunct1, rule_format])
    have 4: "calm a (spawn (Create_match qs n) (?a\<lparr>ap_waiting := w\<rparr>))" if "x = Inr qs" for qs
      by (rule calm_trans[OF calm_trans[OF 1 calm_trans[OF 2 3]] calm_spawn[OF calmD(1)[OF 3]]]) (use that tp in simp_all)
    have "queue_member p key n a = (if ps = [] then Inr (None, ?a) else case (x, w) of
                  (Inl i, w) \<Rightarrow> Inr (Some (ParticipantDisappeared i), ?a\<lparr>ap_waiting := w\<rparr>)
                | (Inr ps, w) \<Rightarrow> Inr (None, spawn (Create_match ps n) (?a\<lparr>ap_waiting := w\<rparr>)))"
      unfolding queue_member_def a1_def[symmetric] Let_def e(1) option.case sum.case prod.case t by (rule refl)
    then show ?thesis using calm_trans[OF 1 2] calm_trans[OF 1 calm_trans[OF 2 3]] 4 by (cases x) simp_all
  qed
qed

lemma calm_handleMatchCancel: "app_ok a \<Longrightarrow> calm a (snd (handleMatchCancel pb body s a))"
proof -
  assume ok: "app_ok a"
  let ?b = "\<lambda>k. a\<lparr>ap_matcher := snd (Cancel (ap_matcher a) k), ap_waiting := AList.delete k (ap_waiting a)\<rparr>"
  have "calm a (snd (transition s StateLobby (?b k)))" for k
    by (rule calm_trans[OF calm_leave_queue[OF ok] calm_transition[OF calmD(1)[OF calm_leave_queue[OF ok]]]]) simp
  then show ?thesis using calm_refl[OF ok] by (simp add: handleMatchCancel_def Let_def split: option.split)
qed

section \<open>In the room\<close>

lemma f32_vec_f64: "f32_vec p \<Longrightarrow> is_f64 (X (widen_vec p)) \<and> is_f64 (Y (widen_vec p))"
  by (simp add: f32_vec_def widen_vec_def f32_is_f64)

lemma Input_of_f64:
  assumes "codec_ok pb" and "unmarshal_PlayerInput pb body = Some m" and "Input_of (Some m) = Inr input"
  shows "is_f64 (X (i_Direction input))" "is_f64 (Y (i_Direction input))"
proof -
  have p: "f32_vec p" if "in_Move m = Some p" for p using assms(1,2) that unfolding codec_ok_def by blast
  show "is_f64 (X (i_Direction input))" "is_f64 (Y (i_Direction input))"
    using assms(3) f32_vec_f64[OF p] by (auto simp: Input_of_def zero_vec_def split: option.split)
qed

lemma fine_map:
  "fine a y \<Longrightarrow> fine a (bind_sum y (\<lambda>(x, a). Inr (f x, a)))"
  by (auto simp: fine_def)

lemma fine_handlePlayerInput:
  assumes "app_ok a" and "codec_ok pb"
  shows "fine a (handlePlayerInput pb now body s a)"
proof (cases "unmarshal_PlayerInput pb body")
  case (Some m)
  have "fine a (bind_sum (on_room r (\<lambda>rm. Room_Input rm i input now) a) (\<lambda>(err, a).
               Inr (case err of Some (Some e) \<Rightarrow> Some (ErrRoom e) | _ \<Rightarrow> None, a)))" if "Input_of (Some m) = Inr input" for r i input
    by (rule fine_map[OF fine_on_room[OF assms(1)]]) (rule Input_fine[OF _ Input_of_f64[OF assms(2) Some that]])
  then show ?thesis using Some calm_refl[OF assms(1)] by (simp add: handlePlayerInput_def split: sum.split option.split)
qed (use calm_refl[OF assms(1)] in \<open>simp add: handlePlayerInput_def\<close>)

lemma fine_rejectRewardChoice:
  assumes "app_ok a"
  shows "fine a (rejectRewardChoice pb c n e cause a)"
  unfolding rejectRewardChoice_def Let_def
  by (rule fine_bind[OF fine_sendMessage[OF assms]]) (use calm_refl calm_close_connection calmD(1) in auto)

lemma fine_handleRewardChoice:
  assumes "app_ok a"
  shows "fine a (handleRewardChoice pb c h body s a)"
proof -
  let ?g = "\<lambda>roomID r playerID e. (\<lambda>(x, a).
                 case x of
                   Some (Inr n) \<Rightarrow> Inr (None :: app_error option, spawn (Await_choice r roomID playerID c (h_Sequence h) e n) a)
                 | Some (Inl err) \<Rightarrow> bind_sum (rejectRewardChoice pb c (h_Sequence h) e err a) (\<lambda>(_, a). Inr (None, a))
                 | None \<Rightarrow> Inr (None, a))"
  have "fine a (bind_sum (on_room r (\<lambda>rm. Room_ChooseReward rm i e) a) (?g roomID r playerID e))" for r i e roomID playerID
  proof (rule fine_bind[OF fine_on_room[OF assms ChooseReward_fine]])
    fix x b assume "calm a b"
    then have ok: "app_ok b" by (rule calmD)
    show "fine b (?g roomID r playerID e (x, b))"
      using calm_refl[OF ok] fine_map[OF fine_rejectRewardChoice[OF ok], of pb c _ e _ "\<lambda>_. None :: app_error option"] calm_spawn[OF ok]
      by (simp split: option.split sum.split)
  qed
  then show ?thesis using calm_refl[OF assms] by (simp add: handleRewardChoice_def Let_def split: option.split prod.split)
qed

section \<open>The gate of the director\<close>

text \<open>The gate marks one room and starts one task for it; everything else a message does is calm.\<close>

definition opens_gate :: "gameApplication \<Rightarrow> gameApplication \<Rightarrow> bool" where
  "opens_gate a b \<longleftrightarrow> (\<exists>r i x. ap_objects a r = Some x \<and> \<not> ar_advancing x \<and>
     b = spawn (Advance_completed i r 0) (on_active r (\<lambda>x. x\<lparr>ar_advancing := True\<rparr>) a))"

definition steady :: "gameApplication \<Rightarrow> gameApplication \<Rightarrow> bool" where
  "steady a b \<longleftrightarrow> calm a b \<or> (\<exists>c. calm a c \<and> opens_gate c b)"

lemma steady_calm [simp]: "calm a b \<Longrightarrow> steady a b"
  by (simp add: steady_def)

lemma calm_steady: "calm a b \<Longrightarrow> steady b c \<Longrightarrow> steady a c"
  using calm_trans by (auto simp: steady_def)

lemma steady_tryAdvanceStage:
  assumes "app_ok a"
  shows "steady a (tryAdvanceStage i a)"
proof -
  have "opens_gate a (tryAdvanceStage i a) \<or> tryAdvanceStage i a = a"
    by (auto simp: tryAdvanceStage_def opens_gate_def split: option.split)
  then show ?thesis using calm_refl[OF assms] by (auto simp: steady_def)
qed

lemma calm_mark_player: 
  "app_ok a \<Longrightarrow> calm a (on_active r (\<lambda>x. x\<lparr>ar_ready := set_flag i (ar_ready x)\<rparr>) a)"
  "app_ok a \<Longrightarrow> calm a (on_active r (\<lambda>x. x\<lparr>ar_rewarded := set_flag i (ar_rewarded x)\<rparr>) a)"
  "app_ok a \<Longrightarrow> calm a (on_active r (\<lambda>x. x\<lparr>ar_delivered := set_flag i (ar_delivered x)\<rparr>) a)"
  by (rule calm_on_active; simp add: marks_def)+

lemma steady_handleNextStageRequest:
  assumes "app_ok a"
  shows "steady a (snd (handleNextStageRequest pb body s a)) \<and>
    (fst (handleNextStageRequest pb body s a) \<noteq> None \<longrightarrow> calm a (snd (handleNextStageRequest pb body s a)))"
proof -
  have "steady a (tryAdvanceStage i (on_active r (\<lambda>x. x\<lparr>ar_ready := set_flag p (ar_ready x)\<rparr>) a))" for i r p
    by (rule calm_steady[OF calm_mark_player(1)[OF assms] steady_tryAdvanceStage[OF calmD(1)[OF calm_mark_player(1)[OF assms]]]])
  then show ?thesis using calm_refl[OF assms] by (simp add: handleNextStageRequest_def Let_def split: option.split)
qed

section \<open>Every message\<close>

text \<open>Handling a message returns; if it reports an error it was calm.\<close>

definition handled :: "gameApplication \<Rightarrow> app_fault + (app_error option \<times> gameApplication) \<Rightarrow> bool" where
  "handled a y \<longleftrightarrow> (\<exists>x b. y = Inr (x, b) \<and> steady a b \<and> (x \<noteq> None \<longrightarrow> calm a b))"

lemma handled_fine: "fine a y \<Longrightarrow> handled a y"
  by (auto simp: fine_def handled_def)

lemma handled_handle_message:
  assumes "app_ok a" and "codec_ok pb" and "hub_conn (ap_hub a) c \<noteq> None"
  shows "handled a (handle_message pb now c h body a)"
proof (cases "h_MessageType h = MSG_PING \<or> h_MessageType h = MSG_LOGIN_REQUEST")
  case True
  have "fine a (bind_sum (routeMessage pb c h body a) (\<lambda>(err, a).
             Inr (err, if err = None \<and> h_MessageType h = MSG_LOGIN_REQUEST
               then case hub_conn (ap_hub a) c of None \<Rightarrow> a
                 | Some conn \<Rightarrow> (case Context conn of None \<Rightarrow> a
                     | Some s \<Rightarrow> if se_state (session_at a s) = StateLobby
                       then a\<lparr>ap_connections := AList.update c s (ap_connections a)\<rparr> else a)
               else a)))" (is "fine a (bind_sum _ ?g)")
  proof (rule fine_bind[OF fine_routeMessage[OF assms(1,3)]])
    fix x b assume "calm a b"
    then have ok: "app_ok b" by (rule calmD)
    have "calm b (b\<lparr>ap_connections := AList.update c s (ap_connections b)\<rparr>)"
      if "hub_conn (ap_hub b) c = Some conn" "Context conn = Some s" "se_state (session_at b s) = StateLobby" for conn s
    proof (rule calm_connections[OF ok])
      fix d t assume "(d, t) \<in> set (AList.update c s (ap_connections b))"
      then have "(d, t) = (c, s) \<or> (d, t) \<in> set (ap_connections b)" using set_update by fast
      then show "sess_ok b t \<and> hub_conn (ap_hub b) d \<noteq> None"
      proof
        assume "(d, t) = (c, s)"
        then show ?thesis using that app_okD(7)[OF ok, of c s] by (simp add: sess_ok_def)
      qed (rule app_okD(8)[OF ok])
    qed
    then show "fine b (?g (x, b))" using calm_refl[OF ok] by (simp split: option.split)
  qed
  then show ?thesis using True unfolding handle_message_def Let_def by (simp add: handled_fine)
next
  case False
  let ?s = "Option.bind (hub_conn (ap_hub a) c) Context"
  have inr: "handled a (Inr p)" if "calm a (snd p)" for p using that by (cases p) (simp add: handled_def)
  show ?thesis
  proof (cases ?s)
    case None
    then show ?thesis using False handled_fine[OF fine_sendDisconnect[OF assms(1)]] by (simp add: handle_message_def Let_def)
  next
    case (Some s)
    then have n: "s < ap_nsessions a" using app_okD(7)[OF assms(1), of c s] by (auto simp: Option.bind_eq_Some_conv)
    show ?thesis
    proof (cases "Accept (session_at a s) (h_MessageType h)")
      case (Pair x reason)
      have nx: "handled a (Inr (handleNextStageRequest pb body s a))"
        using steady_handleNextStageRequest[OF assms(1), of pb body s] by (cases "handleNextStageRequest pb body s a") (simp add: handled_def)
      show ?thesis using False Some Pair nx handled_fine[OF fine_sendDisconnect[OF assms(1)]]
          inr[OF calm_handleMatchRequest[OF assms(1,3) n]] inr[OF calm_handleMatchCancel[OF assms(1)]]
          handled_fine[OF fine_handlePlayerInput[OF assms(1,2)]] handled_fine[OF fine_handleRewardChoice[OF assms(1)]]
          inr[of "(None, a)"] calm_refl[OF assms(1)]
        unfolding handle_message_def Let_def by (simp split: bool.split)
    qed
  qed
qed

lemma handled_reader:
  assumes "handled a y"
  shows "\<exists>b. bind_sum y (\<lambda>x. Inr ((), after_handling c x)) = Inr ((), b) \<and> steady a b"
proof -
  obtain x b where y: "y = Inr (x, b)" "steady a b" "x \<noteq> None \<longrightarrow> calm a b" using assms by (auto simp: handled_def)
  show ?thesis
  proof (cases x)
    case (Some e)
    then have b: "calm a b" using y(3) by simp
    have "calm b (b\<lparr>ap_readers := (ap_readers b)(c := Reader_exited)\<rparr>)" by (rule calm_reader[OF calmD(1)[OF b]]) simp
    then show ?thesis using y(1) Some calm_trans[OF b] by (simp add: after_handling_def)
  qed (use y in \<open>simp add: after_handling_def\<close>)
qed

lemma read_message_steady:
  assumes "app_ok a" and "codec_ok pb" and "hub_conn (ap_hub a) c \<noteq> None"
  shows "\<exists>b. read_message pb now c h body a = Inr ((), b) \<and> steady a b"
  using handled_reader[OF handled_handle_message[OF assms]] calm_refl[OF assms(1)] by (simp add: read_message_def)

lemma reader_continues_steady:
  assumes "app_ok a"
  shows "\<exists>b. reader_continues c a = Inr ((), b) \<and> steady a b"
proof (cases "ap_readers a c")
  case (Queueing p key n)
  let ?a = "a\<lparr>ap_readers := (ap_readers a)(c := Reading)\<rparr>"
  have 1: "calm a ?a" by (rule calm_reader[OF assms]) simp
  have "part_ok ?a p" using app_okD(10)[OF assms Queueing] by simp
  then have "handled ?a (queue_member p key n ?a)" by (intro handled_fine fine_queue_member[OF calmD(1)[OF 1]])
  then show ?thesis using handled_reader calm_steady[OF 1] Queueing by (fastforce simp: reader_continues_def)
qed (use assms calm_refl in \<open>simp_all add: reader_continues_def\<close>)

end
