(* ===== verification/AppTasks.thy ===== *)
theory AppTasks
  imports AppSteps
begin

text \<open>
  The goroutines of the application as tasks: on a consistent state every step of a task returns.  The tasks
  of a match, of leaving and of a reward are calm; the tasks of the director and of a terminal result
  end by releasing the mark of their room.
\<close>

section \<open>A new room\<close>

lemma first_plan_f64: "NewFirstStagePlan c seed = Inr plan \<Longrightarrow> plan_f64 plan"
  by (auto simp: NewFirstStagePlan_def Let_def first_plan_def plan_f64_def split: if_splits sum.splits)

lemma scale_spawn_f64:
  "is_f64 (cs_Attack (sp_Stats (scale_spawn pow s m p))) \<and> is_f64 (cs_Defense (sp_Stats (scale_spawn pow s m p))) \<and>
   is_f64 (cs_MaxHealth (sp_Stats (scale_spawn pow s m p))) \<and> is_f64 (cs_MoveSpeed (sp_Stats (scale_spawn pow s m p)))"
  by (simp add: scale_spawn_def Let_def)

lemma Decide_f64: "Decide pow c previous m = Inr (plan, d) \<Longrightarrow> plan_f64 plan"
  using scale_spawn_f64
  by (auto simp: Decide_def make_plan_def plan_f64_def Let_def split: if_splits sum.splits)

lemma calm_newActiveRoom:
  assumes "app_ok a" and "newActiveRoom w a = (x, b)"
  shows "calm a b"
proof (cases "newMatchID (an_random w)")
  case None
  then show ?thesis using assms calm_refl by (simp add: newActiveRoom_def)
next
  case (Some matchID)
  let ?i = "ap_nextRoomID a + 1" let ?a = "a\<lparr>ap_nextRoomID := ?i\<rparr>"
  let ?start = "Start (if ap_ctxDone a then Some Canceled else None) ?i (ap_roomConfig a) [gp_catalog (ap_gameplay a)]"
  have 1: "calm a ?a" by (rule calmI) (use assms(1) in \<open>simp_all add: app_ok_def cong: option.case_cong\<close>)
  show ?thesis
  proof (cases ?start)
    case (Inl e)
    then show ?thesis using assms(2) Some 1 by (simp add: newActiveRoom_def Let_def)
  next
    case (Inr rm)
    let ?r = "ap_nobjects a" and ?x = "new_active matchID (an_now w) rm"
    have b: "b = a\<lparr>ap_nextRoomID := ?i, ap_nobjects := Suc ?r, ap_objects := (ap_objects a)(?r \<mapsto> ?x),
                   ap_rooms := AList.update ?i ?r (ap_rooms a)\<rparr>"
      using assms(2) Some Inr by (auto simp: newActiveRoom_def Let_def)
    have "room_reachable rm" by (rule room_reachable.start[OF _ _ Inr]) (use app_okD(3,4)[OF assms(1)] in simp_all)
    then have x: "active_ok ?x" by (simp add: active_ok_def new_active_def NewCloseWatcher_def)
    have new: "ap_objects a ?r = None" using app_okD(6)[OF assms(1)] by simp
    have "case ap_objects b r of None \<Rightarrow> ap_nobjects b \<le> r | Some x \<Rightarrow> r < ap_nobjects b \<and> active_ok x" for r
      using app_okD(5)[OF assms(1), of r] app_okD(6)[OF assms(1), of r] x by (auto simp: b split: option.split)
    then have "app_ok b" using assms(1) by (simp add: app_ok_def b cong: option.case_cong)
    moreover have "\<exists>y. ap_objects b r = Some y \<and> marks y = marks z" if "ap_objects a r = Some z" for r z
      using that new by (auto simp: b)
    moreover have "marks y = (ar_matchID y, False, False, False)" if "ap_objects a r = None" "ap_objects b r = Some y" for r y
      using that by (auto simp: b marks_def new_active_def split: if_splits)
    ultimately show ?thesis using new by (auto simp: calm_def app_le_def same_marks_def b marks_def split: option.split)
  qed
qed

section \<open>Players of a match\<close>

lemma fine_for_players:
  assumes "app_ok a" and "\<And>p b. calm a b \<Longrightarrow> p \<in> set ps \<Longrightarrow> fine b (f p b)"
  shows "fine a (for_players f ps a)"
  using assms
proof (induction ps arbitrary: a)
  case (Cons p ps)
  have "fine a (f p a)" using Cons.prems(2) calm_refl[OF Cons.prems(1)] by simp
  moreover have "fine b (for_players f ps b)" if b: "calm a b" for b
    by (rule Cons.IH[OF calmD(1)[OF b]]) (use Cons.prems(2) calm_trans[OF b] in auto)
  ultimately show ?case by (auto intro!: fine_bind)
qed (simp add: calm_refl)

lemma fine_failMatch: "app_ok a \<Longrightarrow> fine a (failMatch v ps cause a)"
  unfolding failMatch_def
  by (rule fine_for_players) (auto intro!: fine_map[of _ _ "\<lambda>_. ()", simplified] fine_sendDisconnect dest: calmD)

lemma fine_match_failed: "app_ok a \<Longrightarrow> fine a (match_failed v r ps cause a)"
  unfolding match_failed_def
  by (rule fine_bind[OF fine_failMatch]) (auto intro: calm_cancel_room dest: calmD)

lemma calm_detach: "app_ok a \<Longrightarrow> calm a (detachPendingMatch r ps a)"
  unfolding detachPendingMatch_def
proof (induction ps arbitrary: a)
  case (Cons p ps)
  note u = calm_unsubscribe[OF Cons.prems, of r "player_of a p"]
  show ?case using calm_trans[OF u Cons.IH[OF calmD(1)[OF u]]] by simp
qed (simp add: calm_refl)

lemma fine_opening_failed: "app_ok a \<Longrightarrow> fine a (opening_failed v r ps e a)"
  unfolding opening_failed_def
  using fine_calm[OF calm_detach fine_match_failed[OF calmD(1)[OF calm_detach]]] by blast

lemma defer_events_ok:
  assumes "app_ok a" and "part_ok a p" and "defer_events p held a = (k, held', b)"
  shows "calm a b \<and> map_of held' = (map_of held)(player_of a p \<mapsto> k)"
proof -
  obtain h where h: "newDeferredEventSink (pt_conn p) (ap_hub a) = (k, h)" "held' = AList.update (player_of a p) k held" "b = a\<lparr>ap_hub := h\<rparr>"
    using assms(3) by (auto simp: defer_events_def split: prod.splits)
  have "hub_le (ap_hub a) h" by (rule newDeferredEventSink_le[OF app_okD(1)[OF assms(1)] _ h(1)]) (use assms(2) in \<open>simp add: part_ok_def\<close>)
  then show ?thesis using calm_hub[OF assms(1)] h(2,3) by (simp add: update_conv')
qed

lemma calm_subscribe:
  "app_ok a \<Longrightarrow> calm a (on_active r (\<lambda>x. x\<lparr>ar_events := f (ar_events x)\<rparr>) a)"
  "app_ok a \<Longrightarrow> calm a (on_active r (\<lambda>x. x\<lparr>ar_snapshots := g x, ar_events := f (ar_events x), ar_close := CloseWatcher_Subscribe i s (ar_close x)\<rparr>) a)"
  "app_ok a \<Longrightarrow> calm a (on_active r (\<lambda>x. x\<lparr>ar_snapshots := g x, ar_close := CloseWatcher_Subscribe i s (ar_close x)\<rparr>) a)"
  by (rule calm_on_active; simp add: marks_def)+

lemma subscribing_ok:
  assumes "\<And>p held a held' b. app_ok a \<Longrightarrow> part_ok a p \<Longrightarrow> f p held a = (held', b) \<Longrightarrow>
      calm a b \<and> (\<exists>k. map_of held' = (map_of held)(player_of a p \<mapsto> k))"
  shows "app_ok a \<Longrightarrow> list_all (part_ok a) ps \<Longrightarrow> fold (\<lambda>p (held, a). f p held a) ps (held, a) = (held', b) \<Longrightarrow>
    calm a b \<and> dom (map_of held) \<subseteq> dom (map_of held') \<and> (\<forall>p \<in> set ps. map_of held' (player_of a p) \<noteq> None)"
proof (induction ps arbitrary: a held)
  case (Cons p ps)
  obtain held1 a1 where 1: "f p held a = (held1, a1)" by fastforce
  then obtain k where c: "calm a a1" "map_of held1 = (map_of held)(player_of a p \<mapsto> k)" using assms Cons.prems(1,2) by fastforce
  have ps: "list_all (part_ok a) ps" using Cons.prems(2) by simp
  have 2: "calm a1 b \<and> dom (map_of held1) \<subseteq> dom (map_of held') \<and> (\<forall>p \<in> set ps. map_of held' (player_of a1 p) \<noteq> None)"
    using Cons.IH[OF calmD(1)[OF c(1)] parts_ok_le[OF calmD(2)[OF c(1)] ps], of held1] Cons.prems(3) 1 by simp
  have "player_of a1 q = player_of a q" if "q \<in> set ps" for q
    using player_of_le[OF calmD(2)[OF c(1)]] ps that by (simp add: list_all_iff)
  moreover have "player_of a p \<in> dom (map_of held')" using 2 c(2) by auto
  ultimately show ?case using 2 c calm_trans[OF c(1)] by auto
qed (simp add: calm_refl)

lemma subscribe_player_ok:
  assumes "app_ok a" and "part_ok a p" and "subscribe_player r p held a = (held', b)"
  shows "calm a b \<and> (\<exists>k. map_of held' = (map_of held)(player_of a p \<mapsto> k))"
proof -
  obtain k c where d: "defer_events p held a = (k, held', c)" using assms(3) by (auto simp: subscribe_player_def split: prod.splits)
  note c = defer_events_ok[OF assms(1,2) d]
  have "calm c b" using assms(3) d calm_subscribe(2)[OF calmD(1)[OF c[THEN conjunct1]]] by (auto simp: subscribe_player_def)
  then show ?thesis using c calm_trans by blast
qed

lemma subscribe_events_ok:
  assumes "app_ok a" and "part_ok a p" and "subscribe_events r p held a = (held', b)"
  shows "calm a b \<and> (\<exists>k. map_of held' = (map_of held)(player_of a p \<mapsto> k))"
proof -
  obtain k c where d: "defer_events p held a = (k, held', c)" using assms(3) by (auto simp: subscribe_events_def split: prod.splits)
  note c = defer_events_ok[OF assms(1,2) d]
  have "calm c b" using assms(3) d calm_subscribe(1)[OF calmD(1)[OF c[THEN conjunct1]]] by (auto simp: subscribe_events_def)
  then show ?thesis using c calm_trans by blast
qed

lemma pending_okI:
  assumes "calm a b" and "list_all (part_ok a) ps" and "\<forall>p \<in> set ps. map_of held (player_of a p) \<noteq> None"
  shows "pending_ok b ps held"
  using assms part_ok_le[OF calmD(2)[OF assms(1)]] player_of_le[OF calmD(2)[OF assms(1)]]
  by (simp add: pending_ok_def list_all_iff)

lemma fine_announce_match:
  assumes "app_ok a" and "pending_ok a ps held"
  shows "fine a (announce_match v i n ps held a)"
proof -
  have send: "fine b (send_match_found v i n ps p b)" if "app_ok b" for b p
    unfolding send_match_found_def Let_def
    by (rule fine_bind[OF fine_sendMessage[OF that]]) (auto intro: calm_refl calm_close_connection dest: calmD)
  have release: "fine b (release_pending held p b)" if b: "calm a b" and p: "p \<in> set ps" for b p
  proof -
    have "map_of held (player_of b p) \<noteq> None" using pending_ok_le[OF calmD(2)[OF b] assms(2)] p by (simp add: pending_ok_def)
    then obtain k where k: "map_of held (player_of b p) = Some k" by blast
    obtain h where "Release k (ap_hub b) = Inr h" "hub_le (ap_hub b) h" using Release_le[OF app_okD(1)[OF calmD(1)[OF b]]] by blast
    then show ?thesis using k calm_hub[OF calmD(1)[OF b]] by (simp add: release_pending_def)
  qed
  show ?thesis unfolding announce_match_def
  proof (rule fine_bind[OF fine_for_players[OF assms(1)]])
    show "fine b (send_match_found v i n ps p b)" if "calm a b" for p b using send calmD(1)[OF that] by blast
    fix x b assume b: "calm a b"
    have "fine b (for_players (release_pending held) ps b)"
      by (rule fine_for_players[OF calmD(1)[OF b]]) (use release calm_trans[OF b] in blast)
    then show "fine b (case (x, b) of (_, a) \<Rightarrow> for_players (release_pending held) ps a)" by simp
  qed
qed

section \<open>The first match\<close>

lemma match_tasks [simp]:
  "plain (Match_join r i ps qs n)" "task_ok a (Match_join r i ps qs n) = list_all (part_ok a) ps"
  "plain (Match_joining r i ps qs n k)" "task_ok a (Match_joining r i ps qs n k) = list_all (part_ok a) ps"
  "plain (Match_start r i ps held n plan k)" "task_ok a (Match_start r i ps held n plan k) = (pending_ok a ps held \<and> plan_f64 plan)"
  "plain (Match_starting r i ps held n k)" "task_ok a (Match_starting r i ps held n k) = pending_ok a ps held"
  by (simp_all add: plain_def advances_def reports_def task_ok_def)

lemma fine_spawn: "calm a b \<Longrightarrow> task_ok b t \<Longrightarrow> plain t \<Longrightarrow> fine a (Inr ((), spawn t b))"
  using calm_trans[OF _ calm_spawn[OF calmD(1)]] by simp

lemma fine_create_match:
  assumes "app_ok a" and "list_all (part_ok a) ps"
  shows "fine a (create_match v w ps n a)"
proof -
  obtain x b where n: "newActiveRoom w a = (x, b)" by fastforce
  note b = calm_newActiveRoom[OF assms(1) n]
  show ?thesis
  proof (cases x)
    case (Inl e)
    then show ?thesis using n fine_calm[OF b fine_failMatch[OF calmD(1)[OF b]]] by (simp add: create_match_def)
  next
    case (Inr p)
    then show ?thesis using n fine_spawn[OF b, of "Match_join (snd p) (fst p) ps ps n"] parts_ok_le[OF calmD(2)[OF b] assms(2)]
      by (cases p) (simp add: create_match_def)
  qed
qed

lemma fine_match_joined:
  assumes "app_ok a" and "list_all (part_ok a) ps"
  shows "fine a (match_joined v r i ps n a)"
proof -
  obtain held b where s: "fold (\<lambda>p (held, a). subscribe_player r p held a) ps ([], a) = (held, b)" by fastforce
  have b: "calm a b" "\<forall>p \<in> set ps. map_of held (player_of a p) \<noteq> None"
    using subscribing_ok[where f = "subscribe_player r", OF _ assms s] subscribe_player_ok by blast+
  note ok = calmD(1)[OF b(1)]
  have d: "fine b (match_failed v r ps cause (detachPendingMatch r ps b))" for cause
    using fine_opening_failed[OF ok] fine_calm[OF calm_detach[OF ok] fine_match_failed[OF calmD(1)[OF calm_detach[OF ok]]]] by blast
  show ?thesis
  proof (cases "NewFirstStagePlan (rc_World (ap_roomConfig b)) (firstStageSeed b i)")
    case (Inl e)
    then show ?thesis using s fine_calm[OF b(1) d] by (simp add: match_joined_def)
  next
    case (Inr plan)
    then show ?thesis using s fine_spawn[OF b(1), of "Match_start r i ps held n plan 0"]
        pending_okI[OF b(1) assms(2) b(2)] first_plan_f64[OF Inr] by (simp add: match_joined_def)
  qed
qed

lemma fine_match_join:
  assumes "app_ok a" and "list_all (part_ok a) ps"
  shows "fine a (match_join v r i ps rest n a)"
proof (cases rest)
  case (Cons p qs)
  let ?g = "\<lambda>(x, a). case x of
            Some (Inr k) \<Rightarrow> Inr ((), spawn (Match_joining r i ps rest n k) a)
          | Some (Inl e) \<Rightarrow> match_failed v r ps (sv_text v (ErrRoom e)) a
          | None \<Rightarrow> Inr ((), a)"
  have "fine a (bind_sum (on_room r (\<lambda>rm. Join_submit (session_at a (pt_session p)) rm) a) ?g)"
  proof (rule fine_bind[OF fine_on_room[OF assms(1)]])
    show "\<exists>x rm'. Join_submit (session_at a (pt_session p)) rm = Inr (x, rm') \<and> room_reachable rm'" if "room_reachable rm" for rm
      using Join_fine[OF that] by (simp add: Join_submit_def split: prod.split)
    fix x b assume b: "calm a b"
    note ok = calmD(1)[OF b]
    show "fine b (?g (x, b))" using calm_refl[OF ok] fine_match_failed[OF ok] calm_spawn[OF ok] parts_ok_le[OF calmD(2)[OF b] assms(2)]
      by (simp split: option.split sum.split)
  qed
  then show ?thesis using fine_match_failed[OF assms(1)] unfolding match_join_def Cons by simp
qed (use fine_match_joined[OF assms] in \<open>simp add: match_join_def\<close>)

lemma calm_Join_receive: "app_ok a \<Longrightarrow> calm a (snd (on_session s (Join_receive i result) a))"
  by (rule calm_session) (auto simp: Join_receive_def BindRoom_def Identity_def Transition_state split: option.split)

lemma fine_match_joining:
  assumes "app_ok a" and "list_all (part_ok a) ps"
  shows "fine a (match_joining v r i ps rest n k a)"
proof (cases "await_receipt r k a")
  case None
  then show ?thesis using calm_spawn[OF assms(1)] assms(2) by (simp add: match_joining_def)
next
  case (Some result)
  show ?thesis
  proof (cases rest)
    case (Cons p qs)
    obtain x b where j: "on_session (pt_session p) (Join_receive i result) a = (x, b)" by fastforce
    have b: "calm a b" using calm_Join_receive[OF assms(1), of "pt_session p" i result] j by simp
    note ok = calmD(1)[OF b]
    show ?thesis using Some Cons j fine_calm[OF b fine_match_failed[OF ok]] fine_spawn[OF b, of "Match_join r i ps qs n"]
        parts_ok_le[OF calmD(2)[OF b] assms(2)] by (simp add: match_joining_def split: option.split)
  qed (use Some calm_refl[OF assms(1)] in \<open>simp add: match_joining_def\<close>)
qed

lemma fine_opening_attempt:
  assumes "app_ok a" and "plan_f64 plan"
  shows "fine a (opening_attempt w r plan k a)"
proof -
  have "fine a (bind_sum (on_room r (\<lambda>rm. Room_StartStage rm plan) a) (\<lambda>(x, a). Inr (f x a, a)))"
    for f :: "(room_error + nat) option \<Rightarrow> gameApplication \<Rightarrow> attempt_result"
    using fine_on_room[OF assms(1) StartStage_fine[OF _ assms(2)]] calm_refl by (auto intro!: fine_bind dest: calmD)
  then show ?thesis using calm_refl[OF assms(1)] by (simp add: opening_attempt_def)
qed

lemma fine_match_start:
  assumes "app_ok a" and "pending_ok a ps held" and "plan_f64 plan"
  shows "fine a (match_start v w r i ps held n plan k a)"
  unfolding match_start_def
proof (rule fine_bind[OF fine_opening_attempt[OF assms(1,3)]])
  fix x b assume b: "calm a b"
  note ok = calmD(1)[OF b]
  show "fine b (case (x, b) of (x, a) \<Rightarrow> case x of
         Attempt_failed e \<Rightarrow> opening_failed v r ps e a
       | Attempt_again \<Rightarrow> Inr ((), spawn (Match_start r i ps held n plan (Suc k)) a)
       | Attempt_receipt m \<Rightarrow> Inr ((), spawn (Match_starting r i ps held n m) a))"
    using fine_opening_failed[OF ok] calm_spawn[OF ok] pending_ok_le[OF calmD(2)[OF b] assms(2)] assms(3)
    by (simp split: attempt_result.split)
qed

lemma fine_match_starting:
  assumes "app_ok a" and "pending_ok a ps held"
  shows "fine a (match_starting v w r i ps held n k a)"
  using fine_opening_failed[OF assms(1)] fine_announce_match[OF assms] calm_spawn[OF assms(1)] assms(2)
  by (simp add: match_starting_def split: option.split)

section \<open>A rematch\<close>

lemma rematch_tasks [simp]:
  "plain (Rematch_closing r q)" "task_ok a (Rematch_closing r q)"
  "plain (Rematch_join i r j q plan ps qs n)" "task_ok a (Rematch_join i r j q plan ps qs n) = (list_all (part_ok a) ps \<and> plan_f64 plan)"
  "plain (Rematch_joining i r j q plan ps qs n k)" "task_ok a (Rematch_joining i r j q plan ps qs n k) = (list_all (part_ok a) ps \<and> plan_f64 plan)"
  "plain (Rematch_start i r j q plan ps held n k)" "task_ok a (Rematch_start i r j q plan ps held n k) = (pending_ok a ps held \<and> plan_f64 plan)"
  "plain (Rematch_starting i r j q ps held n k)" "task_ok a (Rematch_starting i r j q ps held n k) = pending_ok a ps held"
  "plain (Leave_former_room r i)" "task_ok a (Leave_former_room r i)" "plain (Leaving_former_room r i k)" "task_ok a (Leaving_former_room r i k)"
  "plain (Leaving_room s r k)" "task_ok a (Leaving_room s r k)"
  by (simp_all add: plain_def advances_def reports_def task_ok_def)

lemma fine_rematch_failed: "app_ok a \<Longrightarrow> fine a (rematch_failed old new a)"
  using fine_spawn[OF calm_cancel_room] by (simp add: rematch_failed_def)

lemma calm_rematch_allowed: "app_ok a \<Longrightarrow> calm a (rematch_allowed old a)"
  unfolding rematch_allowed_def by (rule calm_mark_rematching)

lemma fine_rematch_closing: "app_ok a \<Longrightarrow> fine a (rematch_closing old new a)"
  by (simp add: rematch_closing_def calm_rematch_allowed calm_spawn)

lemma fine_create_rematch:
  assumes "app_ok a" and "list_all (part_ok a) ps"
  shows "fine a (create_rematch v w i old ps n a)"
proof -
  obtain x b where n: "newActiveRoom w a = (x, b)" by fastforce
  note b = calm_newActiveRoom[OF assms(1) n]
  note ok = calmD(1)[OF b]
  show ?thesis
  proof (cases x)
    case (Inl err)
    then show ?thesis using n calm_trans[OF b calm_rematch_allowed[OF ok]] by (simp add: create_rematch_def)
  next
    case (Inr p)
    obtain j new where p: "p = (j, new)" by fastforce
    show ?thesis
    proof (cases "NewFirstStagePlan (rc_World (ap_roomConfig b)) (firstStageSeed b j)")
      case (Inl e)
      then show ?thesis using n \<open>x = Inr p\<close> p fine_calm[OF b fine_rematch_failed[OF ok]] by (simp add: create_rematch_def)
    next
      case (Inr plan)
      then show ?thesis using n \<open>x = Inr p\<close> p fine_spawn[OF b, of "Rematch_join i old j new plan ps ps n"] parts_ok_le[OF calmD(2)[OF b] assms(2)]
          first_plan_f64[OF Inr] by (simp add: create_rematch_def)
    qed
  qed
qed

lemma fine_rematch_join:
  assumes "app_ok a" and "list_all (part_ok a) ps" and "plan_f64 plan"
  shows "fine a (rematch_join i old j new plan ps rest n a)"
proof (cases rest)
  case Nil
  obtain held b where s: "fold (\<lambda>p (held, a). subscribe_events new p held a) ps ([], a) = (held, b)" by fastforce
  have b: "calm a b" "\<forall>p \<in> set ps. map_of held (player_of a p) \<noteq> None"
    using subscribing_ok[where f = "subscribe_events new", OF _ assms(1,2) s] subscribe_events_ok by blast+
  show ?thesis using Nil s fine_spawn[OF b(1), of "Rematch_start i old j new plan ps held n 0"] pending_okI[OF b(1) assms(2) b(2)] assms(3)
    by (simp add: rematch_join_def)
next
  case (Cons p qs)
  let ?g = "\<lambda>(x, a). case x of
            Some (Inr k) \<Rightarrow> Inr ((), spawn (Rematch_joining i old j new plan ps rest n k) a)
          | _ \<Rightarrow> rematch_failed old new a"
  have "fine a (bind_sum (on_room new (\<lambda>rm. Join_submit (session_at a (pt_session p)) rm) a) ?g)"
  proof (rule fine_bind[OF fine_on_room[OF assms(1)]])
    show "\<exists>x rm'. Join_submit (session_at a (pt_session p)) rm = Inr (x, rm') \<and> room_reachable rm'" if "room_reachable rm" for rm
      using Join_fine[OF that] by (simp add: Join_submit_def split: prod.split)
    fix x b assume b: "calm a b"
    note ok = calmD(1)[OF b]
    show "fine b (?g (x, b))" using fine_rematch_failed[OF ok] calm_spawn[OF ok] parts_ok_le[OF calmD(2)[OF b] assms(2)] assms(3)
      by (simp split: option.split sum.split)
  qed
  then show ?thesis unfolding rematch_join_def Cons by simp
qed

lemma fine_rematch_joining:
  assumes "app_ok a" and "list_all (part_ok a) ps" and "plan_f64 plan"
  shows "fine a (rematch_joining i old j new plan ps rest n k a)"
  using calm_spawn[OF assms(1)] assms(2,3) fine_rematch_failed[OF assms(1)]
  by (simp add: rematch_joining_def split: option.split)

lemma calm_move_member:
  assumes "app_ok a"
  shows "calm a (move_member old j new p a)"
proof -
  define a1 where "a1 = on_active old (unsubscribe_all (player_of a p)) a"
  define a2 where "a2 = snd (on_session (pt_session p) (\<lambda>v. ((), BindRoom v j)) a1)"
  have 1: "calm a a1" unfolding a1_def by (rule calm_unsubscribe[OF assms])
  have 2: "calm a1 a2" unfolding a2_def by (rule calm_session[OF calmD(1)[OF 1]]) (simp add: BindRoom_def Identity_def)
  show ?thesis unfolding move_member_def Let_def a1_def[symmetric] a2_def[symmetric]
    by (rule calm_trans[OF calm_trans[OF 1 2] calm_subscribe(3)[OF calmD(1)[OF 2]]])
qed

lemma calm_fold:
  assumes "\<And>p a. app_ok a \<Longrightarrow> calm a (f p a)"
  shows "app_ok a \<Longrightarrow> calm a (fold f ps a)"
proof (induction ps arbitrary: a)
  case (Cons p ps)
  note u = assms[OF Cons.prems, of p]
  show ?case using calm_trans[OF u Cons.IH[OF calmD(1)[OF u]]] by simp
qed (simp add: calm_refl)

lemma fine_rematch_started:
  assumes "app_ok a" and "pending_ok a ps held"
  shows "fine a (rematch_started v i old j new ps held n a)"
proof (cases "commit_rematch i old j new ps a")
  case None
  then show ?thesis using fine_rematch_failed[OF assms(1)] by (simp add: rematch_started_def)
next
  case (Some b)
  have b: "calm a b" using Some calm_fold[OF calm_move_member assms(1)] by (auto simp: commit_rematch_def split: if_splits)
  have "fine b (bind_sum (announce_match v j n ps held b) (\<lambda>(_, a).
          Inr ((), fold (\<lambda>p a. spawn (Leave_former_room old (fst (Identity (session_at a (pt_session p))))) a) ps a)))"
    by (rule fine_bind[OF fine_announce_match[OF calmD(1)[OF b] pending_ok_le[OF calmD(2)[OF b] assms(2)]]])
      (auto intro!: calm_fold calm_spawn dest: calmD)
  then show ?thesis using fine_calm[OF b] Some by (simp add: rematch_started_def)
qed

lemma fine_rematch_start:
  assumes "app_ok a" and "pending_ok a ps held" and "plan_f64 plan"
  shows "fine a (rematch_start v w i old j new plan ps held n k a)"
  unfolding rematch_start_def
proof (rule fine_bind[OF fine_opening_attempt[OF assms(1,3)]])
  fix x b assume b: "calm a b"
  note ok = calmD(1)[OF b]
  show "fine b (case (x, b) of (x, a) \<Rightarrow> case x of
         Attempt_failed _ \<Rightarrow> rematch_failed old new a
       | Attempt_again \<Rightarrow> Inr ((), spawn (Rematch_start i old j new plan ps held n (Suc k)) a)
       | Attempt_receipt m \<Rightarrow> Inr ((), spawn (Rematch_starting i old j new ps held n m) a))"
    using fine_rematch_failed[OF ok] calm_spawn[OF ok] pending_ok_le[OF calmD(2)[OF b] assms(2)] assms(3)
    by (simp split: attempt_result.split)
qed

lemma fine_rematch_starting:
  assumes "app_ok a" and "pending_ok a ps held"
  shows "fine a (rematch_starting v w i old j new ps held n k a)"
  using fine_rematch_failed[OF assms(1)] fine_rematch_started[OF assms] calm_spawn[OF assms(1)] assms(2)
  by (simp add: rematch_starting_def split: option.split)

section \<open>Leaving\<close>

lemma calm_leave_again: "app_ok a \<Longrightarrow> task_ok a t \<Longrightarrow> plain t \<Longrightarrow> calm a (leave_again w r t e a)"
  by (simp add: leave_again_def calm_spawn calm_refl)

lemma fine_leave_room:
  assumes "app_ok a"
  shows "fine a (leave_room w s r a)"
proof (cases "ap_objects a r")
  case None
  then show ?thesis using calm_refl[OF assms] by (simp add: leave_room_def)
next
  case (Some x)
  have x: "room_reachable (ar_room x)" "cw_onClose (ar_close x) = None" using app_okD(5)[OF assms Some] by (simp_all add: active_ok_def)
  obtain y rm where l: "Room.Leave (ar_room x) (fst (Identity (session_at a s))) = Inr (y, rm)" "room_reachable rm"
    using Leave_fine[OF x(1)] by blast
  have sub: "Leave_submit (session_at a s) (ar_room x) = Inr (y, BindRoom (session_at a s) 0, rm)"
    using l(1) by (cases "Identity (session_at a s)") (simp add: Leave_submit_def)
  define a1 where "a1 = snd (on_session s (\<lambda>v. ((), BindRoom v 0)) a)"
  define a2 where "a2 = a1\<lparr>ap_objects := (ap_objects a1)(r \<mapsto> x\<lparr>ar_room := rm\<rparr>)\<rparr>"
  have 1: "calm a a1" unfolding a1_def by (rule calm_session[OF assms]) (simp add: BindRoom_def Identity_def)
  have o: "ap_objects a1 = ap_objects a" by (simp add: a1_def on_session_def)
  have 2: "calm a1 a2" unfolding a2_def
    by (rule calm_objects[OF calmD(1)[OF 1]]) (use Some o x(2) l(2) in \<open>auto simp: marks_def active_ok_def\<close>)
  note ok = calmD(1)[OF 2]
  have "leave_room w s r a = Inr ((), case y of Inr n \<Rightarrow> spawn (Leaving_room s r n) a2 | Inl e \<Rightarrow> leave_again w r (Leave_room s r) e a2)"
    using Some sub by (simp add: leave_room_def Let_def a1_def a2_def on_session_def session_at_def split: sum.split)
  then show ?thesis using calm_trans[OF calm_trans[OF 1 2]] calm_spawn[OF ok] calm_leave_again[OF ok] by (simp split: sum.split)
qed

lemma fine_leaving_room: "app_ok a \<Longrightarrow> fine a (leaving_room w s r n a)"
  by (simp add: leaving_room_def calm_spawn calm_leave_again calm_refl split: option.split)

lemma fine_leave_former_room: "app_ok a \<Longrightarrow> fine a (leave_former_room w r i a)"
  unfolding leave_former_room_def
  by (rule fine_bind[OF fine_on_room[OF _ Leave_fine]])
    (auto simp: calm_spawn calm_leave_again calm_refl dest!: calmD(1) split: option.split sum.split)

lemma fine_leaving_former_room: "app_ok a \<Longrightarrow> fine a (leaving_former_room w r i n a)"
  by (simp add: leaving_former_room_def calm_spawn calm_leave_again calm_refl split: option.split)

section \<open>Rewards\<close>

lemma reward_tasks [simp]:
  "plain (Reward_completed r i j k)" "task_ok a (Reward_completed r i j k)" "plain (Reward_completing r i j k)"
  "task_ok a (Reward_completing r i j k)" "plain (Reward_submit r i j d k)" "task_ok a (Reward_submit r i j d k)"
  "plain (Reward_submitting r i j k)" "task_ok a (Reward_submitting r i j k)"
  by (simp_all add: plain_def advances_def reports_def task_ok_def)

lemma fine_await_choice: "app_ok a \<Longrightarrow> fine a (await_choice v r i p c n e k a)"
  by (simp add: await_choice_def calm_spawn calm_refl fine_rejectRewardChoice split: option.split)

lemma fine_await_delivery: "app_ok a \<Longrightarrow> fine a (await_delivery v w i p c n e x a)"
  by (simp add: await_delivery_def Let_def calm_spawn fine_rejectRewardChoice)

lemma calm_rewardStartFailed: "app_ok a \<Longrightarrow> calm a (rewardStartFailed i j a)"
  by (auto simp: rewardStartFailed_def marks_def intro!: calm_on_active calm_refl split: option.split)

lemma calm_transitionRoomSessions: "app_ok a \<Longrightarrow> t \<noteq> StateConnected \<Longrightarrow> calm a (transitionRoomSessions i f t a)"
  unfolding transitionRoomSessions_def by (rule calm_fold) (auto intro: calm_transition)

lemma calm_reset_rewards: "app_ok a \<Longrightarrow> calm a (on_active r (\<lambda>x. x\<lparr>ar_rewardStage := j, ar_rewarded := [], ar_delivered := [], ar_ready := []\<rparr>) a)"
  by (rule calm_on_active) (simp_all add: marks_def)

lemma calm_mark_completed: "app_ok a \<Longrightarrow> calm a (on_active r (\<lambda>x. x\<lparr>ar_completed := True\<rparr>) a)"
  by (rule calm_on_active) (simp_all add: marks_def)

lemma fine_begin_reward:
  assumes "app_ok a"
  shows "fine a (begin_reward i j a)"
  using calm_refl[OF assms] fine_spawn[OF calm_reset_rewards[OF assms]] fine_spawn[OF calm_mark_completed[OF assms]]
  by (simp add: begin_reward_def split: option.split)

lemma fine_bounded_attempt:
  assumes "app_ok a" and "\<And>rm. room_reachable rm \<Longrightarrow> \<exists>x rm'. f rm = Inr (x, rm') \<and> room_reachable rm'"
  shows "fine a (bounded_attempt limit k r f a)"
proof -
  have "fine a (bind_sum (on_room r f a) (\<lambda>(x, a). Inr (g x, a)))" for g :: "(room_error + nat) option \<Rightarrow> attempt_result"
    by (rule fine_map[OF fine_on_room[OF assms]])
  then show ?thesis using calm_refl[OF assms(1)] by (simp add: bounded_attempt_def)
qed

lemma fine_reward_completed: "app_ok a \<Longrightarrow> fine a (reward_completed r i j k a)"
  unfolding reward_completed_def waitCompletedStage_def
  by (rule fine_bind[OF fine_bounded_attempt[OF _ CompletedStage_fine]])
    (auto simp: calm_spawn calm_rewardStartFailed dest!: calmD(1) split: attempt_result.split)

lemma fine_reward_completing: "app_ok a \<Longrightarrow> fine a (reward_completing r i j k a)"
  by (simp add: reward_completing_def calm_spawn calm_rewardStartFailed split: option.split sum.split prod.split)

lemma fine_reward_submit:
  assumes "app_ok a"
  shows "fine a (reward_submit r i j d k a)"
  unfolding reward_submit_def submitStartReward_def
  by (rule fine_bind[OF fine_bounded_attempt[OF assms StartReward_fine[OF _ app_okD(4)[OF assms]]]])
    (auto simp: calm_spawn calm_rewardStartFailed dest!: calmD(1) split: attempt_result.split)

lemma fine_reward_submitting: "app_ok a \<Longrightarrow> fine a (reward_submitting r i j k a)"
  by (simp add: reward_submitting_def calm_spawn calm_rewardStartFailed calm_transitionRoomSessions split: option.split)

section \<open>The director\<close>

text \<open>What a step of the director's task for room \<open>r\<close> may do: go on, release the room, or find it gone.\<close>

definition released :: "nat \<Rightarrow> gameApplication \<Rightarrow> gameApplication \<Rightarrow> bool" where
  "released r a b \<longleftrightarrow> (\<exists>f. b = on_active r f a \<and> (\<forall>x. marks (f x) = (ar_matchID x, False, ar_resultSubmitting x, ar_resultQueued x) \<and>
     active_ok (f x) = active_ok x))"

definition advancing :: "nat \<Rightarrow> gameApplication \<Rightarrow> gameApplication \<Rightarrow> bool" where
  "advancing r a b \<longleftrightarrow> (\<exists>c. calm a c \<and> (b = c \<or> (\<exists>t. advances r t \<and> task_ok c t \<and> b = spawn t c) \<or> (\<exists>d. released r c d \<and> (app_ok d \<longrightarrow> calm d b))))"

lemma advancing_stop: "calm a b \<Longrightarrow> advancing r a b"
  unfolding advancing_def by blast

lemma advancing_go: "calm a c \<Longrightarrow> advances r t \<Longrightarrow> task_ok c t \<Longrightarrow> advancing r a (spawn t c)"
  unfolding advancing_def by blast

lemma advancing_release: "calm a c \<Longrightarrow> released r c d \<Longrightarrow> (app_ok d \<Longrightarrow> calm d b) \<Longrightarrow> advancing r a b"
  unfolding advancing_def by blast

lemma advance_tasks [simp]:
  "advances r (Advance_completed i q k) \<longleftrightarrow> q = r" "task_ok a (Advance_completed i q k)"
  "advances r (Advance_completing i q k) \<longleftrightarrow> q = r" "task_ok a (Advance_completing i q k)"
  "advances r (Advance_submit i q plan m d k) \<longleftrightarrow> q = r" "task_ok a (Advance_submit i q plan m d k) = plan_f64 plan"
  "advances r (Advance_submitting i q plan m d k n) \<longleftrightarrow> q = r" "task_ok a (Advance_submitting i q plan m d k n) = plan_f64 plan"
  by (simp_all add: advances_def task_ok_def)

lemma advancing_failed:
  assumes "calm a c"
  shows "advancing r a (advanceStageFailed i r c)"
proof -
  have "released r c (on_active r (\<lambda>x. x\<lparr>ar_advancing := False\<rparr>) c)"
    by (auto simp: released_def marks_def intro!: exI[of _ "\<lambda>x. x\<lparr>ar_advancing := False\<rparr>"])
  then show ?thesis using advancing_release[OF assms] calm_refl advancing_stop[OF assms] by (simp add: advanceStageFailed_def)
qed

lemma fine_completed_attempt: "app_ok a \<Longrightarrow> fine a (bounded_attempt n k r Room_CompletedStage a)"
  by (rule fine_bounded_attempt[OF _ CompletedStage_fine])

lemma fine_start_attempt: "app_ok a \<Longrightarrow> plan_f64 plan \<Longrightarrow> fine a (on_room r (\<lambda>rm. Room_StartStage rm plan) a)"
  by (rule fine_on_room[OF _ StartStage_fine])

lemma advance_completed_ok:
  assumes "app_ok a"
  shows "\<exists>b. advance_completed i r k a = Inr ((), b) \<and> advancing r a b"
proof -
  obtain x c where c: "waitCompletedStage k r a = Inr (x, c)" "calm a c"
    using fine_completed_attempt[OF assms] by (metis fine_def waitCompletedStage_def)
  then show ?thesis using advancing_failed[OF c(2)] advancing_go[OF c(2)] by (simp add: advance_completed_def split: attempt_result.split)
qed

lemma advance_completing_ok:
  assumes "app_ok a"
  shows "\<exists>b. advance_completing v i r n a = Inr ((), b) \<and> advancing r a b"
  using advancing_failed[OF calm_refl[OF assms]] advancing_go[OF calm_refl[OF assms]] Decide_f64
  by (simp add: advance_completing_def split: option.split sum.split prod.split)

lemma advance_submit_ok:
  assumes "app_ok a" and "plan_f64 plan"
  shows "\<exists>b. advance_submit i r plan m d k a = Inr ((), b) \<and> advancing r a b"
proof -
  obtain x c where c: "on_room r (\<lambda>rm. Room_StartStage rm plan) a = Inr (x, c)" "calm a c"
    using fine_start_attempt[OF assms] by (metis fine_def)
  then show ?thesis using advancing_failed[OF c(2)] advancing_go[OF c(2)] advancing_stop[OF c(2)] advancing_failed[OF calm_refl[OF assms(1)]] assms(2)
    by (simp add: advance_submit_def split: option.split sum.split)
qed

lemma calm_recordDirectorDecision: "app_ok a \<Longrightarrow> calm a (snd (recordDirectorDecision w i j m d a))"
  by (simp add: recordDirectorDecision_def Let_def calm_refl)

lemma advancing_stage_advanced:
  assumes "app_ok a"
  shows "advancing r a (stage_advanced w i r plan m d a)"
proof -
  define c where "c = transitionRoomSessions i StateReward StateInRoom a"
  have c: "calm a c" unfolding c_def by (rule calm_transitionRoomSessions[OF assms]) simp
  let ?f = "\<lambda>x. x\<lparr>ar_advancing := False, ar_rewarded := [], ar_delivered := [], ar_ready := []\<rparr>"
  show ?thesis
  proof (cases "lookup_room c i = Some r")
    case True
    have "released r c (on_active r ?f c)" by (auto simp: released_def marks_def intro!: exI[of _ ?f])
    then show ?thesis unfolding stage_advanced_def Let_def c_def[symmetric] if_P[OF True]
      by (rule advancing_release[OF c]) (rule calm_recordDirectorDecision)
  next
    case False
    show ?thesis unfolding stage_advanced_def Let_def c_def[symmetric] if_not_P[OF False]
      by (rule advancing_stop[OF calm_trans[OF c calm_recordDirectorDecision[OF calmD(1)[OF c]]]])
  qed
qed

lemma advance_submitting_ok:
  assumes "app_ok a" and "plan_f64 plan"
  shows "\<exists>b. advance_submitting w i r plan m d k n a = Inr ((), b) \<and> advancing r a b"
  using advancing_failed[OF calm_refl[OF assms(1)]] advancing_go[OF calm_refl[OF assms(1)]] advancing_stage_advanced[OF assms(1)] assms(2)
  by (simp add: advance_submitting_def split: option.split)

end
