(* ===== verification/AppDuty.thy ===== *)
theory AppDuty
  imports AppTasks
begin

text \<open>
  The duties of the tasks: one task at most asks the director for a room, and only while the room is marked
  \<open>ar_advancing\<close>; one task at most handles the result of a room, and only while it is marked
  \<open>ar_resultSubmitting\<close>; and what the result writer has accepted are the results of the rooms that are
  marked \<open>ar_resultQueued\<close>, or are just about to be.
\<close>

section \<open>Duties\<close>

definition marked :: "(activeRoom \<Rightarrow> bool) \<Rightarrow> gameApplication \<Rightarrow> nat \<Rightarrow> bool" where
  "marked g a r \<longleftrightarrow> (case ap_objects a r of None \<Rightarrow> False | Some x \<Rightarrow> g x)"

definition advance_turns :: "nat \<Rightarrow> task list \<Rightarrow> nat" where
  "advance_turns r ts = length (filter (advances r) ts)"

definition report_turns :: "nat \<Rightarrow> task list \<Rightarrow> nat" where
  "report_turns r ts = length (filter (reports r) ts)"

definition delivered :: "nat \<Rightarrow> task \<Rightarrow> bool" where
  "delivered r t \<longleftrightarrow> (case t of Result_finish s accepted _ \<Rightarrow> s = r \<and> accepted | _ \<Rightarrow> False)"

definition sent :: "gameApplication \<Rightarrow> task list \<Rightarrow> nat \<Rightarrow> bool" where
  "sent a ts r \<longleftrightarrow> marked ar_resultQueued a r \<or> list_ex (delivered r) ts"

definition match_of :: "gameApplication \<Rightarrow> nat \<Rightarrow> string" where
  "match_of a r = (case ap_objects a r of None \<Rightarrow> [] | Some x \<Rightarrow> ar_matchID x)"

definition accounted :: "gameApplication \<Rightarrow> task list \<Rightarrow> bool" where
  "accounted a ts \<longleftrightarrow> (\<forall>w. ap_resultWriter a = Some w \<longrightarrow> writer_reachable w \<and>
     (\<exists>rs. distinct rs \<and> map e_MatchID (wr_accepted w) = map (match_of a) rs \<and> (\<forall>r. r \<in> set rs \<longleftrightarrow> sent a ts r)))"

definition duty :: "gameApplication \<Rightarrow> task list \<Rightarrow> bool" where
  "duty a ts \<longleftrightarrow> (\<forall>r. advance_turns r ts \<le> of_bool (marked ar_advancing a r)) \<and>
     (\<forall>r. report_turns r ts \<le> of_bool (marked ar_resultSubmitting a r)) \<and>
     (\<forall>r. marked ar_resultQueued a r \<longrightarrow> \<not> marked ar_resultSubmitting a r) \<and> accounted a ts"

lemma turns_simps [simp]:
  "advance_turns r [] = 0" "advance_turns r (t # ts) = of_bool (advances r t) + advance_turns r ts"
  "advance_turns r (ts @ us) = advance_turns r ts + advance_turns r us"
  "report_turns r [] = 0" "report_turns r (t # ts) = of_bool (reports r t) + report_turns r ts"
  "report_turns r (ts @ us) = report_turns r ts + report_turns r us"
  by (simp_all add: advance_turns_def report_turns_def)

lemma one_turn: "1 + n \<le> of_bool b \<Longrightarrow> n = 0" "1 + n \<le> of_bool b \<Longrightarrow> b" for n :: nat
  by (cases b; simp)+

lemma delivered_reports: "delivered r t \<Longrightarrow> reports r t"
  by (cases t) (simp_all add: delivered_def reports_def)

lemma sent_simps [simp]:
  "sent a (t # ts) r \<longleftrightarrow> delivered r t \<or> sent a ts r" "sent a (ts @ us) r \<longleftrightarrow> sent a ts r \<or> list_ex (delivered r) us"
  by (auto simp: sent_def)

lemma plain_turns:
  "list_all plain ts \<Longrightarrow> advance_turns r ts = 0 \<and> report_turns r ts = 0 \<and> \<not> list_ex (delivered r) ts"
  using delivered_reports by (induction ts) (auto simp: plain_def)

lemma none_delivered: "report_turns r ts = 0 \<Longrightarrow> \<not> list_ex (delivered r) ts"
  using delivered_reports by (induction ts) (auto split: if_splits)

text \<open>Only the objects and the writer matter, and the order of the tasks does not.\<close>

lemma duty_frame:
  "ap_objects b = ap_objects a \<Longrightarrow> ap_resultWriter b = ap_resultWriter a \<Longrightarrow> duty b ts = duty a ts"
proof -
  assume o: "ap_objects b = ap_objects a" and w: "ap_resultWriter b = ap_resultWriter a"
  have m: "marked g b = marked g a" for g by (simp add: marked_def fun_eq_iff o)
  have "match_of b = match_of a" by (simp add: match_of_def fun_eq_iff o)
  then show ?thesis using w by (simp add: duty_def accounted_def sent_def m)
qed

lemma sent_perm: "mset us = mset ts \<Longrightarrow> sent a us = sent a ts"
  by (auto simp: sent_def list_ex_iff fun_eq_iff dest: mset_eq_setD)

lemma duty_perm:
  assumes "mset us = mset ts"
  shows "duty a us = duty a ts"
proof -
  have "length (filter P us) = length (filter P ts)" for P using assms by (metis mset_filter size_mset)
  then show ?thesis using sent_perm[OF assms, of a] by (simp add: duty_def advance_turns_def report_turns_def accounted_def)
qed

lemma Submit_total:
  assumes "writer_reachable w"
  shows "\<exists>err w'. Submit e w = Inr (err, w') \<and> wr_accepted w' = wr_accepted w @ (if err = None then [e] else [])"
proof -
  have "ch_closed (wr_queue w) = wr_closed w" using writer_reachable_ok[OF assms] by (simp add: writer_inv_def)
  then show ?thesis by (auto simp: Submit_def try_send_def count_rejected_def)
qed

section \<open>Calm steps\<close>

lemma marked_marks:
  assumes "same_marks a b"
  shows "marked ar_advancing b r = marked ar_advancing a r" "marked ar_resultSubmitting b r = marked ar_resultSubmitting a r"
    "marked ar_resultQueued b r = marked ar_resultQueued a r"
proof -
  have "marked ar_advancing b r = marked ar_advancing a r \<and> marked ar_resultSubmitting b r = marked ar_resultSubmitting a r \<and>
    marked ar_resultQueued b r = marked ar_resultQueued a r"
  proof (cases "ap_objects a r")
    case None
    then show ?thesis using same_marksD(2)[OF assms None] by (cases "ap_objects b r") (auto simp: marked_def marks_def)
  next
    case (Some x)
    then show ?thesis using same_marksD(1)[OF assms Some] by (auto simp: marked_def marks_def)
  qed
  then show "marked ar_advancing b r = marked ar_advancing a r" "marked ar_resultSubmitting b r = marked ar_resultSubmitting a r"
    "marked ar_resultQueued b r = marked ar_resultQueued a r" by simp_all
qed

lemma marked_object: "marked g a r \<Longrightarrow> \<exists>x. ap_objects a r = Some x \<and> g x"
  by (auto simp: marked_def split: option.splits)

lemma sent_object:
  assumes "duty a ts" and "sent a ts r"
  shows "\<exists>x. ap_objects a r = Some x"
proof (cases "marked ar_resultQueued a r")
  case True
  then show ?thesis using marked_object by blast
next
  case False
  then have "report_turns r ts \<noteq> 0" using assms(2) none_delivered by (auto simp: sent_def)
  then have "marked ar_resultSubmitting a r" using assms(1) unfolding duty_def by (metis le_zero_eq of_bool_eq(1))
  then show ?thesis using marked_object by blast
qed

lemma duty_calm:
  assumes "duty a ts" and "same_marks a b" and "ap_resultWriter b = ap_resultWriter a"
  shows "duty b ts"
proof -
  note m = marked_marks[OF assms(2)]
  have s: "sent b ts = sent a ts" by (simp add: sent_def fun_eq_iff m)
  have "match_of b r = match_of a r" if s: "sent a ts r" for r
  proof -
    obtain x where x: "ap_objects a r = Some x" using sent_object[OF assms(1) s] by blast
    then obtain y where "ap_objects b r = Some y" "marks y = marks x" using same_marksD(1)[OF assms(2) x] by blast
    then show ?thesis using x by (simp add: match_of_def marks_def)
  qed
  then have "accounted b ts" using assms(1,3) unfolding duty_def accounted_def s by (metis (no_types, lifting) map_eq_conv)
  then show ?thesis using assms(1) by (simp add: duty_def m)
qed

lemma duty_more: "duty a ts \<Longrightarrow> list_all plain us \<Longrightarrow> duty a (ts @ us)"
  using plain_turns[of us] by (simp add: duty_def accounted_def)

lemma duty_drop:
  assumes "duty a (t # ts)" and "\<And>r. \<not> delivered r t"
  shows "duty a ts"
proof -
  have "accounted a ts" using assms by (simp add: duty_def accounted_def)
  moreover have "advance_turns r ts \<le> of_bool (marked ar_advancing a r) \<and> report_turns r ts \<le> of_bool (marked ar_resultSubmitting a r)" for r
  proof -
    have "advance_turns r (t # ts) \<le> of_bool (marked ar_advancing a r) \<and> report_turns r (t # ts) \<le> of_bool (marked ar_resultSubmitting a r)"
      using assms(1) unfolding duty_def by blast
    then show ?thesis by simp
  qed
  ultimately show ?thesis using assms(1) by (simp add: duty_def)
qed

text \<open>A task hands its duty to another.\<close>

lemma duty_exchange:
  assumes "duty a (t # ts)" and "\<And>r. advances r u = advances r t" and "\<And>r. reports r u = reports r t"
    and "\<And>r. \<not> delivered r t \<and> \<not> delivered r u"
  shows "duty a (u # ts)"
  using assms by (simp add: duty_def accounted_def)

section \<open>The invariant of the application\<close>

definition app_inv :: "gameApplication \<Rightarrow> bool" where
  "app_inv a \<longleftrightarrow> app_ok a \<and> list_all (task_ok a) (ap_tasks a) \<and> duty a (ap_tasks a)"

text \<open>While \<open>t\<close> runs it is not among the tasks, but its duty is still its own.\<close>

definition running :: "task \<Rightarrow> gameApplication \<Rightarrow> bool" where
  "running t a \<longleftrightarrow> app_ok a \<and> list_all (task_ok a) (t # ap_tasks a) \<and> duty a (t # ap_tasks a)"

lemma running_start:
  assumes "app_inv a" and "ap_tasks a = ts @ t # us"
  shows "running t (a\<lparr>ap_tasks := ts @ us\<rparr>)"
proof -
  have "mset (ts @ t # us) = mset (t # ts @ us)" by simp
  then have "duty a (t # ts @ us)" using assms duty_perm unfolding app_inv_def by metis
  then show ?thesis using assms by (simp add: app_inv_def running_def duty_frame[of "a\<lparr>ap_tasks := ts @ us\<rparr>" a])
qed

lemma calmE:
  assumes "calm a b"
  obtains ts where "ap_tasks b = ap_tasks a @ ts" "list_all (task_ok b) ts" "list_all plain ts"
  using assms by (auto simp: calm_def)

lemma calm_duty: "calm a b \<Longrightarrow> duty a ts \<Longrightarrow> duty b ts"
  using duty_calm by (simp add: calm_def)

lemma tasks_ok_le: "app_le a b \<Longrightarrow> list_all (task_ok a) ts \<Longrightarrow> list_all (task_ok b) ts"
  by (auto simp: list_all_iff dest: task_ok_le)

lemma app_inv_calm:
  assumes "app_inv a" and "calm a b"
  shows "app_inv b"
proof -
  obtain ts where t: "ap_tasks b = ap_tasks a @ ts" "list_all (task_ok b) ts" "list_all plain ts" using calmE[OF assms(2)] .
  have "duty b (ap_tasks a @ ts)" using duty_more[OF calm_duty[OF assms(2)] t(3)] assms(1) by (simp add: app_inv_def)
  then show ?thesis using assms tasks_ok_le[OF calmD(2)[OF assms(2)]] t calmD(1)[OF assms(2)] by (simp add: app_inv_def)
qed

lemma running_calm:
  assumes "running t a" and "calm a b"
  shows "running t b"
proof -
  obtain ts where t: "ap_tasks b = ap_tasks a @ ts" "list_all (task_ok b) ts" "list_all plain ts" using calmE[OF assms(2)] .
  have "duty a (t # ap_tasks a)" using assms(1) by (simp add: running_def)
  then have "duty b ((t # ap_tasks a) @ ts)" by (rule duty_more[OF calm_duty[OF assms(2)] t(3)])
  then show ?thesis using assms task_ok_le[OF calmD(2)[OF assms(2)]] tasks_ok_le[OF calmD(2)[OF assms(2)]] t calmD(1)[OF assms(2)]
    by (simp add: running_def)
qed

lemma running_end: "running t a \<Longrightarrow> (\<And>r. \<not> delivered r t) \<Longrightarrow> app_inv a"
  using duty_drop by (auto simp: running_def app_inv_def)

lemma duty_spawn: "duty (spawn t a) ts = duty a ts"
  by (rule duty_frame) (simp_all add: spawn_def)

lemma app_inv_spawn:
  assumes "app_ok a" and "list_all (task_ok a) (ap_tasks a)" and "task_ok a u" and "duty a (u # ap_tasks a)"
  shows "app_inv (spawn u a)"
proof -
  have "mset (ap_tasks a @ [u]) = mset (u # ap_tasks a)" by simp
  then have "duty a (ap_tasks a @ [u])" using assms(4) duty_perm by metis
  then show ?thesis using assms(1-3) duty_spawn[of u a] by (simp add: app_inv_def spawn_def)
qed

lemma running_exchange:
  assumes "running t a" and "task_ok a u" and "\<And>r. advances r u = advances r t" and "\<And>r. reports r u = reports r t"
    and "\<And>r. \<not> delivered r t \<and> \<not> delivered r u"
  shows "app_inv (spawn u a)"
  using assms duty_exchange[OF _ assms(3-5)] by (intro app_inv_spawn) (simp_all add: running_def)

end
