(* ===== verification/AppTurns.thy ===== *)
theory AppTurns
  imports AppDuty
begin

text \<open>
  The steps that take, hand over and give back a duty: the gate of the director and the release of a room,
  and the submission of a game result from its start to its acceptance by the writer.
\<close>

section \<open>Changing the marks of a room\<close>

lemma on_active_ok:
  assumes "app_ok a" and "\<And>x. active_ok x \<Longrightarrow> active_ok (f x)" and "\<And>x. ar_matchID (f x) = ar_matchID x"
  shows "app_ok (on_active r f a)" "app_le a (on_active r f a)"
proof -
  let ?b = "on_active r f a"
  have o: "ap_objects ?b q = (if q = r then map_option f (ap_objects a r) else ap_objects a q)" for q by (simp add: on_active_def)
  have "case ap_objects ?b q of None \<Rightarrow> ap_nobjects a \<le> q | Some x \<Rightarrow> q < ap_nobjects a \<and> active_ok x" for q
    using app_okD(5,6)[OF assms(1), of q] assms(2) by (cases "ap_objects a q") (auto simp: o)
  then show "app_ok ?b" using assms(1) by (simp add: app_ok_def on_active_def del: fun_upd_apply cong: option.case_cong)
  show "app_le a ?b" using assms(3) by (auto simp: app_le_def on_active_def)
qed

lemma marked_on_active:
  "marked g (on_active r f a) q = (if q = r then case ap_objects a r of None \<Rightarrow> False | Some x \<Rightarrow> g (f x) else marked g a q)"
  by (auto simp: marked_def on_active_def split: option.split)

lemma duty_bounds:
  assumes "duty a ts"
  shows "advance_turns r ts \<le> of_bool (marked ar_advancing a r)" "report_turns r ts \<le> of_bool (marked ar_resultSubmitting a r)"
    "marked ar_resultQueued a r \<Longrightarrow> \<not> marked ar_resultSubmitting a r"
  using assms unfolding duty_def by blast+

lemma duty_on_active:
  assumes "duty a ts" and "ap_objects a r = Some x" and "\<And>x. ar_matchID (f x) = ar_matchID x"
    and "\<And>q. q \<noteq> r \<Longrightarrow> advance_turns q us = advance_turns q ts \<and> report_turns q us = report_turns q ts"
    and "advance_turns r us \<le> of_bool (ar_advancing (f x))" and "report_turns r us \<le> of_bool (ar_resultSubmitting (f x))"
    and "ar_resultQueued (f x) \<Longrightarrow> \<not> ar_resultSubmitting (f x)" and "\<And>q. sent (on_active r f a) us q = sent a ts q"
  shows "duty (on_active r f a) us"
proof -
  let ?b = "on_active r f a"
  have m: "marked g ?b q = (if q = r then g (f x) else marked g a q)" for g q using assms(2) by (simp add: marked_on_active)
  have "match_of ?b = match_of a" using assms(3) by (auto simp: match_of_def on_active_def fun_eq_iff split: option.split)
  moreover have "ap_resultWriter ?b = ap_resultWriter a" by (simp add: on_active_def)
  ultimately have "accounted ?b us" using assms(1,8) by (simp add: duty_def accounted_def)
  moreover have "advance_turns q us \<le> of_bool (marked ar_advancing ?b q) \<and> report_turns q us \<le> of_bool (marked ar_resultSubmitting ?b q) \<and>
      (marked ar_resultQueued ?b q \<longrightarrow> \<not> marked ar_resultSubmitting ?b q)" for q
  proof (cases "q = r")
    case True
    then show ?thesis using assms(5-7) by (simp add: m)
  next
    case False
    then show ?thesis using duty_bounds[OF assms(1), of q] assms(4)[OF False] by (simp add: m)
  qed
  ultimately show ?thesis unfolding duty_def by blast
qed

section \<open>The director\<close>

lemma advances_unsent: "advances r t \<Longrightarrow> \<not> reports q t \<and> \<not> delivered q t"
  by (cases t) (simp_all add: advances_def reports_def delivered_def)

lemma advances_one: "advances r t \<Longrightarrow> advances q t \<longleftrightarrow> q = r"
  by (cases t) (auto simp: advances_def)

lemma advances_same: "advances r t \<Longrightarrow> advances r u \<Longrightarrow> advances q u = advances q t"
  using advances_one[of r t q] advances_one[of r u q] by simp

lemma sent_on_active: "(\<And>x. ar_resultQueued (f x) = ar_resultQueued x) \<Longrightarrow> sent (on_active r f a) ts = sent a ts"
  by (auto simp: sent_def marked_def on_active_def fun_eq_iff split: option.split)

lemma app_inv_gate:
  assumes "app_inv a" and "opens_gate a b"
  shows "app_inv b"
proof -
  let ?f = "\<lambda>x. x\<lparr>ar_advancing := True\<rparr>"
  obtain r i x where x: "ap_objects a r = Some x" "\<not> ar_advancing x"
    and b: "b = spawn (Advance_completed i r 0) (on_active r ?f a)"
    using assms(2) by (auto simp: opens_gate_def)
  have ok: "app_ok a" "list_all (task_ok a) (ap_tasks a)" "duty a (ap_tasks a)" using assms(1) by (simp_all add: app_inv_def)
  have "advance_turns r (ap_tasks a) = 0" using duty_bounds(1)[OF ok(3), of r] x by (simp add: marked_def)
  moreover have "report_turns r (ap_tasks a) \<le> of_bool (ar_resultSubmitting x)" "ar_resultQueued x \<Longrightarrow> \<not> ar_resultSubmitting x"
    using duty_bounds(2,3)[OF ok(3), of r] x by (simp_all add: marked_def)
  moreover have "advances q (Advance_completed i r 0) = (q = r)" "\<not> reports q (Advance_completed i r 0)" "\<not> delivered q (Advance_completed i r 0)" for q
    by (auto simp: advances_def reports_def delivered_def)
  ultimately have "duty (on_active r ?f a) (Advance_completed i r 0 # ap_tasks a)"
    by (intro duty_on_active[OF ok(3) x(1)]) (simp_all add: sent_on_active)
  then have "duty (on_active r ?f a) (Advance_completed i r 0 # ap_tasks (on_active r ?f a))" by (simp add: on_active_def)
  moreover have "app_ok (on_active r ?f a)" "app_le a (on_active r ?f a)" by (rule on_active_ok[OF ok(1)]; simp)+
  ultimately show ?thesis unfolding b using tasks_ok_le[OF _ ok(2)] by (intro app_inv_spawn) (simp_all add: on_active_def)
qed

lemma app_inv_steady: "app_inv a \<Longrightarrow> steady a b \<Longrightarrow> app_inv b"
proof -
  assume a: "app_inv a" and "steady a b"
  then show ?thesis unfolding steady_def
  proof (elim disjE exE conjE)
    assume "calm a b" then show ?thesis by (rule app_inv_calm[OF a])
  next
    fix c assume c: "calm a c" and g: "opens_gate c b"
    show ?thesis by (rule app_inv_gate[OF app_inv_calm[OF a c] g])
  qed
qed

lemma running_released:
  assumes "running t a" and "advances r t" and "released r a b"
  shows "app_inv b"
proof -
  obtain f where b: "b = on_active r f a" and m: "\<And>x. marks (f x) = (ar_matchID x, False, ar_resultSubmitting x, ar_resultQueued x)"
    "\<And>x. active_ok (f x) = active_ok x" using assms(3) by (auto simp: released_def)
  have f: "ar_matchID (f x) = ar_matchID x" "\<not> ar_advancing (f x)" "ar_resultSubmitting (f x) = ar_resultSubmitting x"
    "ar_resultQueued (f x) = ar_resultQueued x" for x using m(1)[of x] by (simp_all add: marks_def)
  have ok: "app_ok a" "list_all (task_ok a) (ap_tasks a)" "duty a (t # ap_tasks a)" using assms(1) by (simp_all add: running_def)
  note u = advances_unsent[OF assms(2)]
  have "1 + advance_turns r (ap_tasks a) \<le> of_bool (marked ar_advancing a r)"
    using duty_bounds(1)[OF ok(3), of r] assms(2) by simp
  then have turn: "advance_turns r (ap_tasks a) = 0" "marked ar_advancing a r" by (rule one_turn)+
  obtain x where x: "ap_objects a r = Some x" using marked_object[OF turn(2)] by blast
  have o: "\<not> advances q t" if "q \<noteq> r" for q using that assms(2) by (cases t) (simp_all add: advances_def)
  have "report_turns r (ap_tasks a) \<le> of_bool (ar_resultSubmitting x)" "ar_resultQueued x \<Longrightarrow> \<not> ar_resultSubmitting x"
    using duty_bounds(2,3)[OF ok(3), of r] x u by (simp_all add: marked_def)
  then have "duty b (ap_tasks a)" unfolding b using turn o u
    by (intro duty_on_active[OF ok(3) x]) (simp_all add: f sent_on_active)
  moreover have "app_ok b" "app_le a b" unfolding b using m(2) f(1) by (auto intro: on_active_ok[OF ok(1)])
  moreover have "ap_tasks b = ap_tasks a" by (simp add: b on_active_def)
  ultimately show ?thesis using tasks_ok_le[OF _ ok(2)] by (simp add: app_inv_def)
qed

lemma running_advancing:
  assumes "running t a" and "advances r t" and "advancing r a b"
  shows "app_inv b"
proof -
  obtain c where c: "calm a c" and b: "b = c \<or> (\<exists>u. advances r u \<and> task_ok c u \<and> b = spawn u c) \<or>
      (\<exists>d. released r c d \<and> (app_ok d \<longrightarrow> calm d b))" using assms(3) by (auto simp: advancing_def)
  note run = running_calm[OF assms(1) c]
  note u = advances_unsent[OF assms(2)]
  from b show ?thesis
  proof (elim disjE exE conjE)
    assume "b = c" then show ?thesis using running_end[OF run] u by simp
  next
    fix v assume v: "advances r v" "task_ok c v" "b = spawn v c"
    then show ?thesis using running_exchange[OF run v(2)] advances_same[OF assms(2) v(1)] u advances_unsent[OF v(1)] by simp
  next
    fix d assume d: "released r c d" "app_ok d \<longrightarrow> calm d b"
    have inv: "app_inv d" by (rule running_released[OF run assms(2) d(1)])
    then have "calm d b" using d(2) by (simp add: app_inv_def)
    then show ?thesis by (rule app_inv_calm[OF inv])
  qed
qed

section \<open>Results\<close>

lemma result_tasks [simp]:
  "\<not> advances q (Result_ask r i out after)" "reports q (Result_ask r i out after) \<longleftrightarrow> q = r" "task_ok a (Result_ask r i out after)"
  "\<not> advances q (Result_asking r i after n)" "reports q (Result_asking r i after n) \<longleftrightarrow> q = r" "task_ok a (Result_asking r i after n)"
  "\<not> advances q (Result_send r e)" "reports q (Result_send r e) \<longleftrightarrow> q = r"
  "task_ok a (Result_send r e) \<longleftrightarrow> (\<exists>x. ap_objects a r = Some x \<and> ar_matchID x = e_MatchID e)"
  "\<not> advances q (Result_finish r ok after)" "reports q (Result_finish r ok after) \<longleftrightarrow> q = r" "task_ok a (Result_finish r ok after)"
  "\<not> delivered q (Result_ask r i out after)" "\<not> delivered q (Result_asking r i after n)" "\<not> delivered q (Result_send r e)"
  "delivered q (Result_finish r ok after) \<longleftrightarrow> q = r \<and> ok"
  by (auto simp: advances_def reports_def task_ok_def delivered_def)

lemma calm_after_capture: "app_ok a \<Longrightarrow> calm a (after_capture after a)"
  by (auto simp: after_capture_def calm_refl plain_def advances_def reports_def task_ok_def intro!: calm_spawn split: option.split)

lemma after_capture_inv: "app_inv a \<Longrightarrow> app_inv (after_capture after a)"
  by (rule app_inv_calm[OF _ calm_after_capture]) (simp_all add: app_inv_def)

lemma running_submit_result:
  assumes "running (Submit_result i out after) a"
  shows "\<exists>b. submit_result i out after a = Inr ((), b) \<and> app_inv b"
proof -
  have inv: "app_inv a" by (rule running_end[OF assms]) (simp add: delivered_def)
  have ok: "app_ok a" "list_all (task_ok a) (ap_tasks a)" "duty a (ap_tasks a)" using inv by (simp_all add: app_inv_def)
  let ?f = "\<lambda>x. x\<lparr>ar_resultSubmitting := True\<rparr>"
  have "app_inv (spawn (Result_ask r i out after) (on_active r ?f a))"
    if x: "ap_objects a r = Some x" "\<not> ar_resultSubmitting x" "\<not> ar_resultQueued x" for r x
  proof -
    have "report_turns r (ap_tasks a) = 0" using duty_bounds(2)[OF ok(3), of r] x by (simp add: marked_def)
    moreover have "advance_turns r (ap_tasks a) \<le> of_bool (ar_advancing x)" using duty_bounds(1)[OF ok(3), of r] x by (simp add: marked_def)
    ultimately have "duty (on_active r ?f a) (Result_ask r i out after # ap_tasks a)"
      using x by (intro duty_on_active[OF ok(3) x(1)]) (simp_all add: sent_on_active)
    then have "duty (on_active r ?f a) (Result_ask r i out after # ap_tasks (on_active r ?f a))" by (simp add: on_active_def)
    moreover have "app_ok (on_active r ?f a)" "app_le a (on_active r ?f a)" by (rule on_active_ok[OF ok(1)]; simp)+
    ultimately show ?thesis using tasks_ok_le[OF _ ok(2)] by (intro app_inv_spawn) (simp_all add: on_active_def)
  qed
  then show ?thesis using after_capture_inv[OF inv] by (simp add: submit_result_def split: option.split)
qed

lemma running_result_ask:
  assumes "running (Result_ask r i out after) a"
  shows "\<exists>b. result_ask w r i out after a = Inr ((), b) \<and> app_inv b"
proof -
  have ok: "app_ok a" using assms by (simp add: running_def)
  have "fine a (on_room r (\<lambda>rm. Room_GameResult rm out) a)" by (rule fine_on_room[OF ok GameResult_fine])
  then obtain x c where c: "on_room r (\<lambda>rm. Room_GameResult rm out) a = Inr (x, c)" "calm a c" unfolding fine_def by blast
  note run = running_calm[OF assms c(2)]
  have "app_inv (spawn (Result_ask r i out after) c)" "app_inv (spawn (Result_asking r i after n) c)"
    "app_inv (spawn (Result_finish r False after) c)" for n
    by (rule running_exchange[OF run]; simp)+
  then show ?thesis using c(1) by (simp add: result_ask_def split: option.split sum.split)
qed

lemma running_result_asking:
  assumes "running (Result_asking r i after n) a"
  shows "\<exists>b. result_asking w r i after n a = Inr ((), b) \<and> app_inv b"
proof -
  have ok: "app_ok a" using assms by (simp add: running_def)
  have 1: "app_inv (spawn (Result_asking r i after n) a)" "app_inv (spawn (Result_finish r False after) a)"
    by (rule running_exchange[OF assms]; simp)+
  have 2: "app_inv (result_captured r i after result a)" for result
  proof (cases "ap_objects a r")
    case None
    then show ?thesis using running_end[OF assms] by (simp add: result_captured_def)
  next
    case (Some x)
    have "ap_objects (after_capture after a) = ap_objects a" by (simp add: after_capture_def spawn_def split: option.split)
    then show ?thesis using Some unfolding result_captured_def
      by (auto intro!: running_exchange[OF running_calm[OF assms calm_after_capture[OF ok]]])
  qed
  show ?thesis using 1 2 by (simp add: result_asking_def split: option.split receipt.split sum.split)
qed

lemma sent_writer [simp]: "sent (a\<lparr>ap_resultWriter := w\<rparr>) = sent a" "marked g (a\<lparr>ap_resultWriter := w\<rparr>) = marked g a"
  "match_of (a\<lparr>ap_resultWriter := w\<rparr>) = match_of a"
  by (simp_all add: sent_def marked_def match_of_def fun_eq_iff)

lemma duty_writer:
  assumes "duty a ts" and "ap_resultWriter a = Some w" and "writer_reachable w'" and "wr_accepted w' = wr_accepted w"
  shows "duty (a\<lparr>ap_resultWriter := Some w'\<rparr>) ts"
  using assms by (simp add: duty_def accounted_def)

lemma duty_accepted:
  assumes "duty a (Result_send r e # ts)" and "ap_resultWriter a = Some w" and "writer_reachable w'"
    and "wr_accepted w' = wr_accepted w @ [e]" and "ap_objects a r = Some x" and "ar_matchID x = e_MatchID e"
  shows "duty (a\<lparr>ap_resultWriter := Some w'\<rparr>) (Result_finish r True None # ts)"
proof -
  have "1 + report_turns r ts \<le> of_bool (marked ar_resultSubmitting a r)" using duty_bounds(2)[OF assms(1), of r] by simp
  then have turn: "report_turns r ts = 0" "marked ar_resultSubmitting a r" by (rule one_turn)+
  then have new: "\<not> sent a ts r" using duty_bounds(3)[OF assms(1), of r] none_delivered[OF turn(1)] by (auto simp: sent_def)
  obtain rs where rs: "distinct rs" "map e_MatchID (wr_accepted w) = map (match_of a) rs" "\<And>q. q \<in> set rs \<longleftrightarrow> sent a ts q"
    using assms(1,2) by (auto simp: duty_def accounted_def)
  have "match_of a r = e_MatchID e" using assms(5,6) by (simp add: match_of_def)
  then have "distinct (rs @ [r]) \<and> map e_MatchID (wr_accepted w') = map (match_of a) (rs @ [r]) \<and>
      (\<forall>q. q \<in> set (rs @ [r]) \<longleftrightarrow> sent a (Result_finish r True None # ts) q)"
    using rs new assms(4) by auto
  then have "accounted (a\<lparr>ap_resultWriter := Some w'\<rparr>) (Result_finish r True None # ts)"
    unfolding accounted_def using assms(3) by (intro allI impI conjI exI[of _ "rs @ [r]"]) simp_all
  then show ?thesis using assms(1) by (simp add: duty_def)
qed

lemma app_ok_writer [simp]: "app_ok (a\<lparr>ap_resultWriter := w\<rparr>) = app_ok a"
  by (simp add: app_ok_def cong: option.case_cong)

lemma task_ok_writer [simp]: "task_ok (a\<lparr>ap_resultWriter := w\<rparr>) = task_ok a"
proof
  fix t show "task_ok (a\<lparr>ap_resultWriter := w\<rparr>) t = task_ok a t"
    by (cases t) (simp_all add: task_ok_def pending_ok_def player_of_def)
qed

lemma running_result_send:
  assumes "running (Result_send r e) a"
  shows "\<exists>b. result_send w r e a = Inr ((), b) \<and> app_inv b"
proof -
  have ok: "app_ok a" "list_all (task_ok a) (ap_tasks a)" "duty a (Result_send r e # ap_tasks a)" using assms by (simp_all add: running_def)
  obtain x where x: "ap_objects a r = Some x" "ar_matchID x = e_MatchID e" using assms by (auto simp: running_def)
  show ?thesis
  proof (cases "ap_resultWriter a")
    case None
    have "app_inv (spawn (Result_finish r False None) a)" by (rule running_exchange[OF assms]) simp_all
    then show ?thesis using None by (simp add: result_send_def)
  next
    case (Some writer)
    have reach: "writer_reachable writer" using ok(3) Some by (simp add: duty_def accounted_def)
    obtain err writer' where s: "Submit e writer = Inr (err, writer')"
      "wr_accepted writer' = wr_accepted writer @ (if err = None then [e] else [])" using Submit_total[OF reach] by blast
    have reach': "writer_reachable writer'" using writer_reachable.step[OF reach writer_move.submit[OF s(1)]] .
    let ?a = "a\<lparr>ap_resultWriter := Some writer'\<rparr>"
    show ?thesis
    proof (cases err)
      case None
      have "duty ?a (Result_finish r True None # ap_tasks ?a)" using duty_accepted[OF ok(3) Some reach' _ x] s(2) None by simp
      then have "app_inv (spawn (Result_finish r True None) ?a)" using ok by (intro app_inv_spawn) simp_all
      then show ?thesis using Some s(1) None by (simp add: result_send_def Let_def)
    next
      case (Some e')
      have "duty ?a (Result_send r e # ap_tasks ?a)" using duty_writer[OF ok(3) \<open>ap_resultWriter a = Some writer\<close> reach'] s(2) Some by simp
      then have run: "running (Result_send r e) ?a" using assms by (simp add: running_def)
      have "app_inv (spawn (Result_send r e) ?a)" "app_inv (spawn (Result_finish r False None) ?a)"
        by (rule running_exchange[OF run]; use x in simp)+
      then show ?thesis using \<open>ap_resultWriter a = Some writer\<close> s(1) Some by (simp add: result_send_def Let_def)
    qed
  qed
qed

lemma running_result_finish:
  assumes "running (Result_finish r accepted after) a"
  shows "\<exists>b. result_finish r accepted after a = Inr ((), b) \<and> app_inv b"
proof -
  let ?f = "\<lambda>x. x\<lparr>ar_resultSubmitting := False, ar_resultQueued := (ar_resultQueued x \<or> accepted)\<rparr>"
  let ?b = "on_active r ?f a"
  have ok: "app_ok a" "list_all (task_ok a) (ap_tasks a)" "duty a (Result_finish r accepted after # ap_tasks a)"
    using assms by (simp_all add: running_def)
  have "1 + report_turns r (ap_tasks a) \<le> of_bool (marked ar_resultSubmitting a r)" using duty_bounds(2)[OF ok(3), of r] by simp
  then have turn: "report_turns r (ap_tasks a) = 0" "marked ar_resultSubmitting a r" by (rule one_turn)+
  obtain x where x: "ap_objects a r = Some x" using marked_object[OF turn(2)] by blast
  have q: "marked ar_resultQueued ?b p = (marked ar_resultQueued a p \<or> p = r \<and> accepted)" for p
    using x unfolding marked_on_active by (auto simp: marked_def)
  have "advance_turns r (ap_tasks a) \<le> of_bool (ar_advancing x)" using duty_bounds(1)[OF ok(3), of r] x by (simp add: marked_def)
  moreover have "sent ?b (ap_tasks a) p = sent a (Result_finish r accepted after # ap_tasks a) p" for p
    by (auto simp: sent_def q)
  ultimately have "duty ?b (ap_tasks a)" using turn by (intro duty_on_active[OF ok(3) x]) simp_all
  moreover have "app_ok ?b" "app_le a ?b" by (rule on_active_ok[OF ok(1)]; simp)+
  ultimately have "app_inv ?b" using tasks_ok_le[OF _ ok(2)] by (simp add: app_inv_def on_active_def)
  then show ?thesis using after_capture_inv by (simp add: result_finish_def)
qed

end
