(* ===== verification/AppContract.thy ===== *)
theory AppContract
  imports AppTurns
begin

text \<open>
  Every move of the application keeps its invariant, so no reachable state can panic; the director is asked
  at most once at a time for each room, and the result of each room is accepted at most once.
\<close>

section \<open>Tasks\<close>

lemma running_fine:
  assumes "running t a" and "plain t" and "fine a y"
  shows "\<exists>b. map_sum id snd y = Inr b \<and> app_inv b"
proof -
  obtain x b where y: "y = Inr (x, b)" "calm a b" using assms(3) by (auto simp: fine_def)
  have "\<not> delivered r t" for r using assms(2) delivered_reports by (auto simp: plain_def)
  then show ?thesis using running_end[OF running_calm[OF assms(1) y(2)]] y(1) by simp
qed

lemma running_ex: "\<exists>b. y = Inr ((), b) \<and> app_inv b \<Longrightarrow> \<exists>b. map_sum id snd y = Inr b \<and> app_inv b"
  by auto

lemma plain_tasks:
  "plain (Create_match ps n)" "plain (Match_join r i ps rest n)" "plain (Match_joining r i ps rest n k)"
  "plain (Match_start r i ps held n plan k)" "plain (Match_starting r i ps held n k)"
  "plain (Create_rematch i old ps n)" "plain (Rematch_join i old j new plan ps rest n)" "plain (Rematch_joining i old j new plan ps rest n k)"
  "plain (Rematch_start i old j new plan ps held n k)" "plain (Rematch_starting i old j new ps held n k)" "plain (Rematch_closing old new)"
  "plain (Leave_room s r)" "plain (Leaving_room s r k)" "plain (Leave_former_room r i)" "plain (Leaving_former_room r i k)"
  "plain (Await_choice r i p c m e k)" "plain (Await_delivery i p c m e x)" "plain (Begin_reward i l)"
  "plain (Reward_completed r i l k)" "plain (Reward_completing r i l k)" "plain (Reward_submit r i l d k)" "plain (Reward_submitting r i l k)"
  by (simp_all add: plain_def advances_def reports_def)

lemma running_advance: "running t a \<Longrightarrow> advances r t \<Longrightarrow> \<exists>b. y = Inr ((), b) \<and> advancing r a b \<Longrightarrow> \<exists>b. map_sum id snd y = Inr b \<and> app_inv b"
  using running_advancing by fastforce

lemma running_step:
  assumes "running t a"
  shows "\<exists>b. map_sum id snd (task_step v w t a) = Inr b \<and> app_inv b"
proof -
  have ok: "app_ok a" "task_ok a t" using assms by (simp_all add: running_def)
  note fin = running_fine[OF assms] and adv = running_advance[OF assms]
  show ?thesis
  proof (cases t)
    case (Create_match x1 x2)
    then show ?thesis using ok fine_create_match by (intro fin) (simp_all add: plain_tasks task_step_def task_ok_def)
  next
    case (Match_join x1 x2 x3 x4 x5)
    then show ?thesis using ok fine_match_join by (intro fin) (simp_all add: plain_tasks task_step_def task_ok_def)
  next
    case (Match_joining x1 x2 x3 x4 x5 x6)
    then show ?thesis using ok fine_match_joining by (intro fin) (simp_all add: plain_tasks task_step_def task_ok_def)
  next
    case (Match_start x1 x2 x3 x4 x5 x6 x7)
    then show ?thesis using ok fine_match_start by (intro fin) (simp_all add: plain_tasks task_step_def task_ok_def)
  next
    case (Match_starting x1 x2 x3 x4 x5 x6)
    then show ?thesis using ok fine_match_starting by (intro fin) (simp_all add: plain_tasks task_step_def task_ok_def)
  next
    case (Create_rematch x1 x2 x3 x4)
    then show ?thesis using ok fine_create_rematch by (intro fin) (simp_all add: plain_tasks task_step_def task_ok_def)
  next
    case (Rematch_join x1 x2 x3 x4 x5 x6 x7 x8)
    then show ?thesis using ok fine_rematch_join by (intro fin) (simp_all add: plain_tasks task_step_def task_ok_def)
  next
    case (Rematch_joining x1 x2 x3 x4 x5 x6 x7 x8 x9)
    then show ?thesis using ok fine_rematch_joining by (intro fin) (simp_all add: plain_tasks task_step_def task_ok_def)
  next
    case (Rematch_start x1 x2 x3 x4 x5 x6 x7 x8 x9)
    then show ?thesis using ok fine_rematch_start by (intro fin) (simp_all add: plain_tasks task_step_def task_ok_def)
  next
    case (Rematch_starting x1 x2 x3 x4 x5 x6 x7 x8)
    then show ?thesis using ok fine_rematch_starting by (intro fin) (simp_all add: plain_tasks task_step_def task_ok_def)
  next
    case (Rematch_closing x1 x2)
    then show ?thesis using ok fine_rematch_closing by (intro fin) (simp_all add: plain_tasks task_step_def)
  next
    case (Leave_room x1 x2)
    then show ?thesis using ok fine_leave_room by (intro fin) (simp_all add: plain_tasks task_step_def)
  next
    case (Leaving_room x1 x2 x3)
    then show ?thesis using ok fine_leaving_room by (intro fin) (simp_all add: plain_tasks task_step_def)
  next
    case (Leave_former_room x1 x2)
    then show ?thesis using ok fine_leave_former_room by (intro fin) (simp_all add: plain_tasks task_step_def)
  next
    case (Leaving_former_room x1 x2 x3)
    then show ?thesis using ok fine_leaving_former_room by (intro fin) (simp_all add: plain_tasks task_step_def)
  next
    case (Await_choice x1 x2 x3 x4 x5 x6 x7)
    then show ?thesis using ok fine_await_choice by (intro fin) (simp_all add: plain_tasks task_step_def)
  next
    case (Await_delivery x1 x2 x3 x4 x5 x6)
    then show ?thesis using ok fine_await_delivery by (intro fin) (simp_all add: plain_tasks task_step_def)
  next
    case (Begin_reward x1 x2)
    then show ?thesis using ok fine_begin_reward by (intro fin) (simp_all add: plain_tasks task_step_def)
  next
    case (Reward_completed x1 x2 x3 x4)
    then show ?thesis using ok fine_reward_completed by (intro fin) (simp_all add: plain_tasks task_step_def)
  next
    case (Reward_completing x1 x2 x3 x4)
    then show ?thesis using ok fine_reward_completing by (intro fin) (simp_all add: plain_tasks task_step_def)
  next
    case (Reward_submit x1 x2 x3 x4 x5)
    then show ?thesis using ok fine_reward_submit by (intro fin) (simp_all add: plain_tasks task_step_def)
  next
    case (Reward_submitting x1 x2 x3 x4)
    then show ?thesis using ok fine_reward_submitting by (intro fin) (simp_all add: plain_tasks task_step_def)
  next
    case (Advance_completed x1 x2 x3)
    then show ?thesis using ok advance_completed_ok by (intro adv[of x2]) (simp_all add: task_step_def)
  next
    case (Advance_completing x1 x2 x3)
    then show ?thesis using ok advance_completing_ok by (intro adv[of x2]) (simp_all add: task_step_def)
  next
    case (Advance_submit x1 x2 x3 x4 x5 x6)
    then show ?thesis using ok advance_submit_ok by (intro adv[of x2]) (simp_all add: task_step_def)
  next
    case (Advance_submitting x1 x2 x3 x4 x5 x6 x7)
    then show ?thesis using ok advance_submitting_ok by (intro adv[of x2]) (simp_all add: task_step_def)
  next
    case (Submit_result x1 x2 x3)
    then show ?thesis using running_submit_result assms by (intro running_ex) (simp add: task_step_def)
  next
    case (Result_ask x1 x2 x3 x4)
    then show ?thesis using running_result_ask assms by (intro running_ex) (simp add: task_step_def)
  next
    case (Result_asking x1 x2 x3 x4)
    then show ?thesis using running_result_asking assms by (intro running_ex) (simp add: task_step_def)
  next
    case (Result_send x1 x2)
    then show ?thesis using running_result_send assms by (intro running_ex) (simp add: task_step_def)
  next
    case (Result_finish x1 x2 x3)
    then show ?thesis using running_result_finish assms by (intro running_ex) (simp add: task_step_def)
  qed
qed

section \<open>Consumers\<close>

lemma calm_take_output:
  assumes "app_ok a" and "\<And>rm x q. try_recv (get rm) = (Value x, q) \<Longrightarrow> room_step rm (put q rm)"
  shows "case take_output r get put a of (None, b) \<Rightarrow> b = a | (Some (x, active), b) \<Rightarrow> calm a b"
proof (cases "ap_objects a r")
  case None
  then show ?thesis by (simp add: take_output_def)
next
  case (Some active)
  show ?thesis
  proof (cases "try_recv (get (ar_room active))")
    case (Pair x q)
    have "calm a (a\<lparr>ap_objects := (ap_objects a)(r \<mapsto> active\<lparr>ar_room := put q (ar_room active)\<rparr>)\<rparr>)" if "x = Value y" for y
    proof (rule calm_objects[OF assms(1)])
      fix s z assume z: "ap_objects a s = Some z"
      show "\<exists>y. ((ap_objects a)(r \<mapsto> active\<lparr>ar_room := put q (ar_room active)\<rparr>)) s = Some y \<and> marks y = marks z \<and> (active_ok z \<longrightarrow> active_ok y)"
        using z Some room_reachable.step assms(2)[of "ar_room active" y q] Pair that by (auto simp: marks_def active_ok_def)
    qed (use Some in auto)
    then show ?thesis using Some Pair by (auto simp: take_output_def Let_def split: received.split)
  qed
qed

lemma calm_follow_event: "app_ok a \<Longrightarrow> calm a (follow_event i e a)"
  by (auto simp: follow_event_def calm_refl plain_def advances_def reports_def task_ok_def intro!: calm_spawn split: EventKind.split)

lemma calm_fold_follow: "app_ok a \<Longrightarrow> calm a (fold (follow_event i) es a)"
  by (rule calm_fold) (auto intro: calm_follow_event)

lemma calm_recordEventMetrics: "app_ok a \<Longrightarrow> calm a (recordEventMetrics i es a)"
  by (auto simp: recordEventMetrics_def marks_def intro!: calm_on_active calm_refl split: option.split)

lemma calm_on_listed: "app_ok a \<Longrightarrow> (\<And>x. marks (f x) = marks x) \<Longrightarrow> (\<And>x. active_ok x \<Longrightarrow> active_ok (f x)) \<Longrightarrow> calm a (on_listed i f a)"
  by (auto simp: on_listed_def intro!: calm_on_active calm_refl split: option.split)

lemma fine_observe_events:
  assumes "app_ok a"
  shows "fine a (observe_events v r a)"
proof -
  have t: "case take_output r rm_events (\<lambda>q rm. rm\<lparr>rm_events := q\<rparr>) a of (None, b) \<Rightarrow> b = a | (Some (x, active), b) \<Rightarrow> calm a b"
    by (rule calm_take_output[OF assms room_step.take_events])
  show ?thesis
  proof (cases "take_output r rm_events (\<lambda>q rm. rm\<lparr>rm_events := q\<rparr>) a")
    case (Pair x b)
    show ?thesis
    proof (cases x)
      case None
      then show ?thesis using Pair t calm_refl[OF assms] by (simp add: observe_events_def)
    next
      case (Some y)
      obtain es tk active where y: "y = ((es, tk), active)" by (cases y) auto
      have b: "calm a b" using t Pair Some y by simp
      let ?c = "recordEventMetrics (rm_id (ar_room active)) es b"
      have c: "calm b ?c" by (rule calm_recordEventMetrics[OF calmD(1)[OF b]])
      have h: "hub_ok (ap_hub ?c)" by (rule app_okD(1)[OF calmD(1)[OF c]])
      obtain d h' where d: "EventDispatcher_Dispatch (sv_codec v) sink_Send es (ar_events active) (ap_hub ?c) = Inr (d, h')"
        "hub_le (ap_hub ?c) h'" using Dispatch_le[OF h] by blast
      have e: "calm ?c (?c\<lparr>ap_hub := h'\<rparr>)" by (rule calm_hub[OF calmD(1)[OF c] d(2)])
      let ?e = "on_active r (\<lambda>active. active\<lparr>ar_events := d\<rparr>) (?c\<lparr>ap_hub := h'\<rparr>)"
      have f: "calm (?c\<lparr>ap_hub := h'\<rparr>) ?e" by (rule calm_on_active[OF calmD(1)[OF e]]) (simp_all add: marks_def)
      note g = calm_fold_follow[OF calmD(1)[OF f], of "rm_id (ar_room active)" es]
      show ?thesis using Pair Some y d(1) calm_trans[OF b calm_trans[OF c calm_trans[OF e calm_trans[OF f g]]]]
        by (simp add: observe_events_def Let_def)
    qed
  qed
qed

lemma fine_reward_update:
  assumes "app_ok a"
  shows "fine a (reward_update v i u a)"
proof -
  let ?applied = "ru_Kind u = RewardSelectionApplied"
  let ?b = "if ?applied then on_listed i (\<lambda>x. x\<lparr>ar_rewarded := set_flag (ru_PlayerID u) (ar_rewarded x)\<rparr>) a else a"
  have b: "calm a ?b" using calm_refl[OF assms] by (auto simp: marks_def intro!: calm_on_listed[OF assms])
  show ?thesis
  proof (cases "rewardRecipient i (ru_PlayerID u) a")
    case None
    then show ?thesis using b by (simp add: reward_update_def Let_def)
  next
    case (Some p)
    obtain c s where p: "p = (c, s)" by fastforce
    let ?c = "if se_state (session_at ?b s) = StateInRoom then snd (transition s StateReward ?b) else ?b"
    have c: "calm ?b ?c" using calm_transition[OF calmD(1)[OF b], of StateReward s] calm_refl[OF calmD(1)[OF b]] by simp
    note ok = calmD(1)[OF c]
    let ?y = "case ru_Kind u of
               RewardOptionsAvailable \<Rightarrow> sendMessage (sv_codec v) c 0 MSG_REWARD_OPTIONS
                 (RewardOptions (ru_StageIndex u) (ru_EquipmentIDs u) (ru_DeadlineTick u)) ?c
             | RewardSelectionApplied \<Rightarrow> sendMessage (sv_codec v) c 0 MSG_REWARD_APPLIED (RewardApplied REASON_OK (ru_EquipmentID u)) ?c"
    have "fine ?c (case k of RewardOptionsAvailable \<Rightarrow> sendMessage (sv_codec v) c 0 MSG_REWARD_OPTIONS m ?c
        | RewardSelectionApplied \<Rightarrow> sendMessage (sv_codec v) c 0 MSG_REWARD_APPLIED m' ?c)" for k m m'
      by (cases k) (simp_all only: RewardUpdateKind.case fine_sendMessage[OF ok])
    then have y: "fine ?c ?y" .
    let ?g = "\<lambda>(err :: app_error option, a). Inr ((), if err \<noteq> None then close_connection c a
               else if ?applied then on_listed i (\<lambda>active. active\<lparr>ar_delivered := set_flag (ru_PlayerID u) (ar_delivered active)\<rparr>) a
               else a) :: app_fault + (unit \<times> gameApplication)"
    have "fine ?c (bind_sum ?y ?g)"
    proof (rule fine_bind[OF y])
      fix err d assume "calm ?c d"
      then have ok: "app_ok d" by (rule calmD)
      have "calm d (on_listed i (\<lambda>active. active\<lparr>ar_delivered := set_flag (ru_PlayerID u) (ar_delivered active)\<rparr>) d)"
        by (rule calm_on_listed[OF ok]) (simp_all add: marks_def)
      then show "fine d (?g (err, d))" using calm_close_connection[OF ok] calm_refl[OF ok] by simp
    qed
    then have "fine a (bind_sum ?y ?g)" by (rule fine_calm[OF calm_trans[OF b c]])
    moreover have "reward_update v i u a = bind_sum ?y ?g" unfolding reward_update_def Let_def Some p option.case prod.case by (rule refl)
    ultimately show ?thesis by simp
  qed
qed

lemma fine_reward_updates: "app_ok a \<Longrightarrow> fine a (reward_updates v i us a)"
proof (induction us arbitrary: a)
  case (Cons u us)
  show ?case unfolding reward_updates.simps
    by (rule fine_bind[OF fine_reward_update[OF Cons.prems]]) (auto intro: Cons.IH dest: calmD(1))
qed (simp add: calm_refl)

lemma fine_observe_rewards:
  assumes "app_ok a"
  shows "fine a (observe_rewards v r a)"
proof -
  have t: "case take_output r rm_rewards (\<lambda>q rm. rm\<lparr>rm_rewards := q\<rparr>) a of (None, b) \<Rightarrow> b = a | (Some (x, active), b) \<Rightarrow> calm a b"
    by (rule calm_take_output[OF assms room_step.take_rewards])
  show ?thesis
  proof (cases "take_output r rm_rewards (\<lambda>q rm. rm\<lparr>rm_rewards := q\<rparr>) a")
    case (Pair x b)
    show ?thesis
    proof (cases x)
      case None
      then show ?thesis using Pair t calm_refl[OF assms] by (simp add: observe_rewards_def)
    next
      case (Some y)
      obtain us tk active where y: "y = ((us, tk), active)" by (cases y) auto
      have b: "calm a b" using t Pair Some y by simp
      show ?thesis using Pair Some y fine_calm[OF b fine_reward_updates[OF calmD(1)[OF b]]] by (simp add: observe_rewards_def)
    qed
  qed
qed

lemma fine_observe_snapshots:
  assumes "app_ok a"
  shows "fine a (observe_snapshots v r a)"
proof -
  have t: "case take_output r rm_updates (\<lambda>q rm. rm\<lparr>rm_updates := q\<rparr>) a of (None, b) \<Rightarrow> b = a | (Some (x, active), b) \<Rightarrow> calm a b"
    by (rule calm_take_output[OF assms room_step.take_update])
  have step: "calm b ((recordSnapshotMetrics i snap b)\<lparr>ap_hub := SnapshotDispatcher_Dispatch pb hub_SendSnapshot d snap (ap_hub (recordSnapshotMetrics i snap b))\<rparr>)"
    if ok: "app_ok b" for b i snap pb d
  proof -
    have 1: "calm b (recordSnapshotMetrics i snap b)" unfolding recordSnapshotMetrics_def
      by (rule calm_on_listed[OF ok]) (simp_all add: marks_def)
    then show ?thesis using calm_trans[OF 1 calm_hub[OF calmD(1)[OF 1] SnapshotDispatch_le[OF app_okD(1)[OF calmD(1)[OF 1]]]]] by simp
  qed
  show ?thesis
  proof (cases "take_output r rm_updates (\<lambda>q rm. rm\<lparr>rm_updates := q\<rparr>) a")
    case (Pair x b)
    show ?thesis
    proof (cases x)
      case None
      then show ?thesis using Pair t calm_refl[OF assms] by (simp add: observe_snapshots_def)
    next
      case (Some y)
      obtain snap active where y: "y = (snap, active)" by fastforce
      have b: "calm a b" using t Pair Some y by simp
      show ?thesis using Pair Some y calm_trans[OF b step[OF calmD(1)[OF b]]] by (simp add: observe_snapshots_def Let_def)
    qed
  qed
qed

lemma calm_recordRoomStats: "app_ok a \<Longrightarrow> calm a (recordRoomStats i st a)"
  unfolding recordRoomStats_def by (rule calm_on_listed) (simp_all add: marks_def)

lemma fine_observe_ticks:
  assumes "app_ok a"
  shows "fine a (observe_ticks r a)"
proof -
  have t: "case take_output r rm_samples (\<lambda>q rm. rm\<lparr>rm_samples := q\<rparr>) a of (None, b) \<Rightarrow> b = a | (Some (x, active), b) \<Rightarrow> calm a b"
    by (rule calm_take_output[OF assms room_step.take_sample])
  then show ?thesis using calm_refl[OF assms] calm_trans[OF _ calm_recordRoomStats] calmD(1)
    by (cases "take_output r rm_samples (\<lambda>q rm. rm\<lparr>rm_samples := q\<rparr>) a") (auto simp: observe_ticks_def split: option.split)
qed

lemma calm_room_closed: "app_ok a \<Longrightarrow> calm a (room_closed i st a)"
  using calm_trans[OF calm_recordRoomStats calm_rooms[OF calmD(1)[OF calm_recordRoomStats]]] by (simp add: room_closed_def Let_def)

lemma fine_watch_close:
  assumes "app_ok a"
  shows "fine a (watch_close v r a)"
proof (cases "ap_objects a r")
  case None
  then show ?thesis using calm_refl[OF assms] by (simp add: watch_close_def)
next
  case (Some x)
  have x: "cw_onClose (ar_close x) = None" using app_okD(5)[OF assms Some] by (simp add: active_ok_def)
  obtain c h where c: "CloseWatcher_Run (sv_codec v) sink_Send (ar_room x) (ar_close x) (ap_hub a) = Inr (c, h)"
    "cw_onClose c = None" "hub_le (ap_hub a) h" using CloseWatcher_Run_le[OF app_okD(1)[OF assms] x] by blast
  have 1: "calm a (a\<lparr>ap_hub := h\<rparr>)" by (rule calm_hub[OF assms c(3)])
  let ?b = "on_active r (\<lambda>active. active\<lparr>ar_close := c, ar_watched := True\<rparr>) (a\<lparr>ap_hub := h\<rparr>)"
  have 2: "calm (a\<lparr>ap_hub := h\<rparr>) ?b" using c(2) by (intro calm_on_active[OF calmD(1)[OF 1]]) (simp_all add: marks_def active_ok_def)
  show ?thesis using Some c(1) calm_refl[OF assms] calm_trans[OF calm_trans[OF 1 2] calm_room_closed[OF calmD(1)[OF 2]]]
    by (simp add: watch_close_def)
qed

end
