(* ===== verification/Application.thy ===== *)
theory Application
  imports AppContract
begin

text \<open>
  The moves of the whole application and its properties: it never panics, the director is asked at most
  once at a time for each room, and the result of each room is accepted at most once.
\<close>

section \<open>Moves\<close>

lemma calm_run_room:
  assumes "app_ok a" and "ap_objects a r = Some active" and "rm_pc (ar_room active) = Selecting \<longrightarrow> wake_ready k (ar_room active)"
  shows "fine a (run_room k now ended r a)"
proof -
  have x: "room_reachable (ar_room active)" "cw_onClose (ar_close active) = None"
    using app_okD(5)[OF assms(1,2)] by (simp_all add: active_ok_def)
  obtain rm where rm: "goroutine k now ended (ar_room active) = Inr rm" "room_reachable rm" using goroutine_fine[OF x(1) assms(3)] by blast
  have "calm a (a\<lparr>ap_objects := (ap_objects a)(r \<mapsto> active\<lparr>ar_room := rm\<rparr>)\<rparr>)"
    by (rule calm_objects[OF assms(1)]) (use assms(2) rm(2) x(2) in \<open>auto simp: marks_def active_ok_def\<close>)
  then show ?thesis using assms(2) rm(1) by (simp add: run_room_def on_room_def)
qed

lemma calm_accept:
  assumes "app_ok a"
  shows "calm a (accept_connection a)"
proof -
  let ?h = "ap_hub a" and ?h' = "ap_hub (accept_connection a)"
  have h: "hub_ok ?h" by (rule app_okD(1)[OF assms])
  have all: "sv_all (accept_conn s) = AList.update (length (sv_all s)) (newConnection (sv_counters s)) (sv_all s)" for s
    by (simp add: accept_conn_def Let_def track_def)
  have k: "keys (sv_all (hub_server ?h)) = [0..<length (sv_all (hub_server ?h))]" using h by (simp add: hub_ok_def server_inv_def)
  then have u: "keys (sv_all (hub_server ?h')) = [0..<Suc (length (sv_all (hub_server ?h)))]" by (simp add: accept_connection_def all keys_update)
  then have len: "length (sv_all (hub_server ?h')) = Suc (length (sv_all (hub_server ?h)))" by (metis length_keys length_upt diff_zero)
  have ok: "hub_ok ?h'" using h accept_conn_inv[of "hub_server ?h"] len
    by (fastforce simp: hub_ok_def accept_connection_def)
  have conn: "hub_conn ?h' c = (if c = length (sv_all (hub_server ?h)) then Some (newConnection (sv_counters (hub_server ?h))) else hub_conn ?h c)" for c
    by (auto simp: accept_connection_def hub_conn_def all update_conv')
  have more: "hub_conn ?h' c \<noteq> None" if "hub_conn ?h c \<noteq> None" for c using that by (simp add: conn)
  have p: "part_ok (accept_connection a) p" if "part_ok a p" for p
    using that more by (simp add: part_ok_def) (simp add: accept_connection_def)
  have "app_ok (accept_connection a)"
  proof -
    have "map_option Context (hub_conn ?h' c) = Some (Some s) \<Longrightarrow> s < ap_nsessions a" for c s
      using app_okD(7)[OF assms, of c s] by (auto simp: conn newConnection_def Context_def split: if_splits)
    moreover have "sess_ok (accept_connection a) = sess_ok a" by (simp add: accept_connection_def)
    ultimately show ?thesis using assms ok more p unfolding app_ok_def by (simp add: accept_connection_def cong: option.case_cong)
  qed
  then show ?thesis using more by (intro calmI) (simp_all add: accept_connection_def)
qed

lemma calm_cancel_all:
  assumes "app_ok a"
  shows "calm a (cancel_all a)"
proof -
  have 1: "calm a (a\<lparr>ap_ctxDone := True\<rparr>)" by (rule calmI) (use assms in \<open>simp_all add: app_ok_def cong: option.case_cong\<close>)
  let ?f = "\<lambda>r. map_option (\<lambda>active. active\<lparr>ar_room := (ar_room active)\<lparr>rm_ctxDone := True\<rparr>\<rparr>) (ap_objects a r)"
  have "calm (a\<lparr>ap_ctxDone := True\<rparr>) ((a\<lparr>ap_ctxDone := True\<rparr>)\<lparr>ap_objects := ?f\<rparr>)"
    by (rule calm_objects[OF calmD(1)[OF 1]]) (auto simp: marks_def active_ok_def intro: room_reachable.step room_step.cancel)
  then show ?thesis using calm_trans[OF 1] by (simp add: cancel_all_def)
qed

lemma calm_close_waiting:
  assumes "app_ok a"
  shows "calm a (close_waiting c a)"
proof -
  let ?h = "(ap_hub a)\<lparr>hub_closing := remove1 c (hub_closing (ap_hub a))\<rparr>"
  have "hub_le (ap_hub a) ?h" using app_okD(1)[OF assms] by (simp add: hub_le_def hub_ok_def hub_conn_def)
  then have 1: "calm a (a\<lparr>ap_hub := ?h\<rparr>)" by (rule calm_hub[OF assms])
  show ?thesis unfolding close_waiting_def by (rule calm_trans[OF 1 calm_close_connection[OF calmD(1)[OF 1]]])
qed

lemma app_inv_fine: "app_inv a \<Longrightarrow> fine a y \<Longrightarrow> \<exists>b. map_sum id snd y = Inr b \<and> app_inv b"
  using app_inv_calm by (fastforce simp: fine_def)

lemma app_inv_steadily: "app_inv a \<Longrightarrow> \<exists>b. y = Inr ((), b) \<and> steady a b \<Longrightarrow> \<exists>b. map_sum id snd y = Inr b \<and> app_inv b"
  using app_inv_steady by fastforce

lemma app_inv_move:
  assumes "app_inv a" and "codec_ok (sv_codec v)" and "app_move v a x"
  shows "\<exists>b. x = Inr b \<and> app_inv b"
proof -
  have ok: "app_ok a" using assms(1) by (simp add: app_inv_def)
  note step = app_inv_fine[OF assms(1)] and calm = app_inv_calm[OF assms(1)]
  from assms(3) show ?thesis
  proof cases
    case (read c now h payload)
    then show ?thesis using app_inv_steadily[OF assms(1) read_message_steady[OF ok assms(2)]] by auto
  next
    case (reader c)
    then show ?thesis using app_inv_steadily[OF assms(1) reader_continues_steady[OF ok]] by auto
  next
    case (task ts t us w)
    then show ?thesis using running_step[OF running_start[OF assms(1)]] by auto
  next
    case (room r active k now ended)
    then show ?thesis using step[OF calm_run_room[OF ok]] by auto
  next
    case (events r)
    then show ?thesis using step[OF fine_observe_events[OF ok]] by auto
  next
    case (rewards r)
    then show ?thesis using step[OF fine_observe_rewards[OF ok]] by auto
  next
    case (snapshots r)
    then show ?thesis using step[OF fine_observe_snapshots[OF ok]] by auto
  next
    case (ticks r)
    then show ?thesis using step[OF fine_observe_ticks[OF ok]] by auto
  next
    case (watch r)
    then show ?thesis using step[OF fine_watch_close[OF ok]] by auto
  next
    case accept
    then show ?thesis using calm[OF calm_accept[OF ok]] by auto
  next
    case (connection act c)
    show ?thesis
    proof (cases "hub_conn (ap_hub a) c")
      case None
      then show ?thesis using connection assms(1) by (simp add: on_connection_def)
    next
      case (Some conn)
      let ?c = "conn\<lparr>cn_counters := sv_counters (hub_server (ap_hub a))\<rparr>"
      obtain conn' where m: "link_step act ?c = Inr conn'" "conn_move ?c conn'" "Context conn' = Context ?c"
        using Context_link_step[of ?c act] hub_ok_conn[OF app_okD(1)[OF ok] Some] by auto
      have "hub_le (ap_hub a) (set_conn c conn' (ap_hub a))"
        by (rule set_conn_le[OF app_okD(1)[OF ok] Some m(2)]) (use m(3) in \<open>simp add: Context_def\<close>)
      then show ?thesis using connection calm[OF calm_hub[OF ok]] m(1) Some by (simp add: on_connection_def)
    qed
  next
    case (close c)
    then show ?thesis using calm[OF calm_close_connection[OF ok]] by auto
  next
    case (closing c)
    then show ?thesis using calm[OF calm_close_waiting[OF ok]] by auto
  next
    case cancel
    then show ?thesis using calm[OF calm_cancel_all[OF ok]] by auto
  next
    case (writer job)
    show ?thesis
    proof (cases "ap_resultWriter a")
      case None
      then show ?thesis using writer assms(1) by (simp add: on_writer_def)
    next
      case (Some w)
      have d: "duty a (ap_tasks a)" using assms(1) by (simp add: app_inv_def)
      have "writer_reachable w" using d Some by (simp add: duty_def accounted_def)
      then obtain w' where w': "result_step job w = Inr w'" "writer_reachable w'" "wr_accepted w' = wr_accepted w"
        using result_step_fine by blast
      then have "duty (a\<lparr>ap_resultWriter := Some w'\<rparr>) (ap_tasks a)" using duty_writer[OF d Some] by blast
      then show ?thesis using assms(1) writer Some w'(1) by (simp add: app_inv_def on_writer_def)
    qed
  qed
qed

section \<open>The start\<close>

lemma server_inv_handler: "server_inv (OnDisconnect b s) = server_inv s"
  by (simp add: OnDisconnect_def server_inv_def)

lemma config_ok_limit: "config_ok (c\<lparr>g_StageLimit := n\<rparr>) = config_ok c"
  by (simp add: config_ok_def Config_Validate_def)

lemma set_simps [simp]:
  "app_ok (setEnvironment e a) = app_ok a" "app_ok (setResultWriter w a) = app_ok a"
  "ap_tasks (setResultWriter w a) = ap_tasks a" "ap_tasks (setEnvironment e a) = ap_tasks a"
  "ap_objects (setResultWriter w a) = ap_objects a" "ap_objects (setEnvironment e a) = ap_objects a"
  "ap_resultWriter (setResultWriter w a) = w"
  by (simp_all add: setEnvironment_def setResultWriter_def app_ok_def sess_ok_def part_ok_def session_at_def cong: option.case_cong)

lemma app_inv_start:
  assumes "app_start a"
  shows "app_inv a"
  using assms
proof cases
  case (1 gameplay now b writer environment)
  have h: "hub_ok (NewHub\<lparr>hub_server := OnDisconnect True NewServer\<rparr>)" "hub_conn (NewHub\<lparr>hub_server := OnDisconnect True NewServer\<rparr>) c = None" for c
  proof -
    have s: "server_inv (OnDisconnect True NewServer)" using server_reachable_inv[OF server_reachable.new] by (simp add: server_inv_handler)
    have e: "sv_all (OnDisconnect True NewServer) = []" by (simp add: OnDisconnect_def NewServer_def)
    show "hub_ok (NewHub\<lparr>hub_server := OnDisconnect True NewServer\<rparr>)" using s by (simp add: hub_ok_def NewHub_def keys_def)
    show "hub_conn (NewHub\<lparr>hub_server := OnDisconnect True NewServer\<rparr>) c = None" by (simp add: NewHub_def hub_conn_def e)
  qed
  obtain m where m: "NewMatchmaker 2 = Inr m" "matchmaker_ok m" by (auto simp: NewMatchmaker_def matchmaker_ok_def queue_def)
  have b: "app_ok b" using 1(3) 1(2) h m config_ok_Default
    by (auto simp: buildGameApplication_def app_ok_def config_ok_limit DefaultRoomConfig_def split: sum.splits)
  have e: "ap_tasks b = []" "ap_objects b = (\<lambda>_. None)" using 1(3) m(1) by (auto simp: buildGameApplication_def)
  have w: "writer_reachable w \<and> wr_accepted w = []" if wr: "writer = Some w" for w
  proof -
    obtain options where n: "NewResultWriter True options = Inr w" using 1(4) wr by auto
    then have "wr_accepted w = []" by (auto simp: NewResultWriter_def split: if_splits)
    then show ?thesis using writer_reachable.new[OF n] by simp
  qed
  have "accounted a []" unfolding accounted_def using 1(1) e(2) w by (auto simp: sent_def marked_def)
  then have "duty a []" using 1(1) e(2) by (simp add: duty_def marked_def)
  then show ?thesis using 1(1) b e(1) by (simp add: app_inv_def)
qed

lemma app_reachable_inv:
  assumes "app_reachable v a" and "codec_ok (sv_codec v)"
  shows "app_inv a"
  using assms(1)
proof induction
  case (start a)
  then show ?case by (rule app_inv_start)
next
  case (step a b)
  then show ?case using app_inv_move[OF step.IH assms(2) step.hyps(2)] by auto
qed

section \<open>Properties\<close>

text \<open>A server with a small catalog and a result writer, for the examples.\<close>

definition sample_services :: services where
  "sample_services = \<lparr>sv_codec = sample_codec, sv_pow = (\<lambda>x y. x), sv_text = (\<lambda>_. [])\<rparr>"

definition sample_gameplay :: Gameplay where
  "sample_gameplay = \<lparr>gp_catalog = zero_catalog, gp_rewardDurationTicks = 300, gp_stageLimit = 12, gp_firstStageSeedBase = 1,
     gp_planner = sample_rules, gp_valid = True\<rparr>"

lemma sample_application:
  "\<exists>a w. app_reachable sample_services a \<and> codec_ok (sv_codec sample_services) \<and> ap_resultWriter a = Some w \<and> wr_accepted w = []"
proof -
  obtain w where w: "NewResultWriter True sample_options = Inr w" "wr_accepted w = []"
    by (simp add: NewResultWriter_def sample_options_def DefaultResultWriterOptions_def ResultWriterOptions_Validate_def)
  obtain a where a: "buildGameApplication 0 sample_gameplay = Inr a" by (simp add: buildGameApplication_def NewMatchmaker_def)
  let ?a = "setResultWriter (Some w) (setEnvironment ''test'' a)"
  have "app_start ?a"
    by (rule app_start.intros[OF _ a]) (use w(1) in \<open>auto simp: sample_gameplay_def catalog_ok_zero\<close>)
  then have "app_reachable sample_services ?a" by (rule app_reachable.start)
  then show ?thesis using w(2) by (intro exI[of _ ?a] exI[of _ w])
    (simp add: codec_ok_def sample_services_def sample_codec_def)
qed

text \<open>C17: The assembled game server never panics: from every reachable state of the application, whatever message,
  task, room, consumer, connection or writer takes the next step and in whatever order, the step
  returns a state; there every room is again in a reachable state of a room (so the contract of rooms
  applies to it), and the result writer in a reachable state of a writer.\<close>

theorem app_never_panics:
  assumes "app_reachable v a" and "codec_ok (sv_codec v)" and "app_move v a x"
  shows "\<exists>b. x = Inr b \<and> app_reachable v b \<and> (\<forall>r active. ap_objects b r = Some active \<longrightarrow> room_reachable (ar_room active)) \<and>
    (\<forall>w. ap_resultWriter b = Some w \<longrightarrow> writer_reachable w)"
proof -
  obtain b where b: "x = Inr b" "app_inv b" using app_inv_move[OF app_reachable_inv[OF assms(1,2)] assms(2,3)] by blast
  have "app_reachable v b" using app_reachable.step[OF assms(1)] assms(3) b(1) by simp
  moreover have "room_reachable (ar_room active)" if "ap_objects b r = Some active" for r active
    using app_okD(5)[OF _ that] b(2) by (simp add: app_inv_def active_ok_def)
  moreover have "writer_reachable w" if "ap_resultWriter b = Some w" for w using b(2) that by (simp add: app_inv_def duty_def accounted_def)
  ultimately show ?thesis using b(1) by blast
qed

lemma app_never_panics_witness:
  "\<exists>a b. app_reachable sample_services a \<and> app_move sample_services a (Inr b) \<and> app_reachable sample_services b"
proof -
  obtain a w where a: "app_reachable sample_services a" "codec_ok (sv_codec sample_services)" using sample_application by blast
  have "app_move sample_services a (Inr (accept_connection a))" by (rule app_move.accept)
  then show ?thesis using app_never_panics[OF a, of "Inr (accept_connection a)"] a(1) by blast
qed

text \<open>C18: The director decides one thing at a time for a room: in every reachable state at most one task
  is asking the director for a given room or submitting its plan, and only while the
  room is marked as advancing, so several players who are ready at the same time get one decision.\<close>

theorem one_decision:
  assumes "app_reachable v a" and "codec_ok (sv_codec v)"
  shows "length (filter (advances r) (ap_tasks a)) \<le> 1 \<and>
    (\<forall>t \<in> set (ap_tasks a). advances r t \<longrightarrow> (\<exists>active. ap_objects a r = Some active \<and> ar_advancing active))"
proof -
  have "duty a (ap_tasks a)" using app_reachable_inv[OF assms] by (simp add: app_inv_def)
  then have n: "length (filter (advances r) (ap_tasks a)) \<le> of_bool (marked ar_advancing a r)"
    using duty_bounds(1) by (simp add: advance_turns_def)
  have "marked ar_advancing a r" if "t \<in> set (ap_tasks a)" "advances r t" for t
  proof (rule ccontr)
    assume "\<not> marked ar_advancing a r"
    then have "filter (advances r) (ap_tasks a) = []" using n by simp
    then show False using that by (auto simp: filter_empty_conv)
  qed
  then show ?thesis using n marked_object[of ar_advancing a r] by (cases "marked ar_advancing a r") auto
qed

lemma one_decision_witness:
  "\<exists>a. app_reachable sample_services a \<and> length (filter (advances 0) (ap_tasks a)) \<le> 1"
  using sample_application one_decision[of sample_services _ 0] by blast

text \<open>C19: The result of a match is accepted at most once: in every reachable state the envelopes the result
  writer has accepted are, in order, the results of distinct rooms; a room that is marked as queued is
  one of them and is not being submitted again, and the others are still marked as submitting.\<close>

theorem results_accepted_once:
  assumes "app_reachable v a" and "codec_ok (sv_codec v)" and "ap_resultWriter a = Some w"
  shows "\<exists>rs. distinct rs \<and> map e_MatchID (wr_accepted w) = map (match_of a) rs \<and>
    (\<forall>r \<in> set rs. \<exists>active. ap_objects a r = Some active \<and> (ar_resultQueued active \<noteq> ar_resultSubmitting active)) \<and>
    (\<forall>r active. ap_objects a r = Some active \<and> ar_resultQueued active \<longrightarrow> r \<in> set rs)"
proof -
  have d: "duty a (ap_tasks a)" using app_reachable_inv[OF assms(1,2)] by (simp add: app_inv_def)
  then obtain rs where rs: "distinct rs" "map e_MatchID (wr_accepted w) = map (match_of a) rs"
    "\<And>r. r \<in> set rs \<longleftrightarrow> sent a (ap_tasks a) r" using assms(3) by (auto simp: duty_def accounted_def)
  have "marked (\<lambda>x. ar_resultQueued x \<noteq> ar_resultSubmitting x) a r" if "r \<in> set rs" for r
  proof (cases "marked ar_resultQueued a r")
    case True
    then show ?thesis using duty_bounds(3)[OF d True] by (auto simp: marked_def split: option.splits)
  next
    case False
    then have "report_turns r (ap_tasks a) \<noteq> 0" using that rs(3) none_delivered by (auto simp: sent_def)
    then have "marked ar_resultSubmitting a r" using duty_bounds(2)[OF d, of r] by (cases "marked ar_resultSubmitting a r") auto
    then show ?thesis using False by (auto simp: marked_def split: option.splits)
  qed
  then show ?thesis using rs marked_object by (intro exI[of _ rs]) (fastforce simp: sent_def marked_def)
qed

lemma results_accepted_once_witness:
  "\<exists>a w rs. app_reachable sample_services a \<and> ap_resultWriter a = Some w \<and> distinct rs \<and> map e_MatchID (wr_accepted w) = map (match_of a) rs"
  using sample_application results_accepted_once[of sample_services] by blast

end
