(* ===== verification/Texts.thy ===== *)
theory Texts
  imports Equipment Director
begin

text \<open>
  What the configuration uses of the standard library's text functions: integers and Booleans of \<open>strconv\<close>,
  \<open>strings.SplitN\<close> at the first equality sign, \<open>strings.EqualFold\<close> with the name of the local host, and
  \<open>net.SplitHostPort\<close>.  A string is its UTF-8 bytes.
\<close>

section \<open>Numbers\<close>

definition digit_value :: "char \<Rightarrow> nat option" where
  "digit_value c = (let n = of_char c :: nat in if 48 \<le> n \<and> n \<le> 57 then Some (n - 48) else None)"

fun digits_value :: "nat \<Rightarrow> string \<Rightarrow> nat option" where
  "digits_value acc [] = Some acc"
| "digits_value acc (c # cs) = (case digit_value c of None \<Rightarrow> None | Some d \<Rightarrow> digits_value (10 * acc + d) cs)"

text \<open>\<open>strconv.Atoi\<close>, and \<open>strconv.ParseInt\<close> to base 10 with 64 bits; the text of the error is not used.\<close>

definition Atoi :: "string \<Rightarrow> int option" where
  "Atoi s =
     (let negative = (s \<noteq> [] \<and> hd s = CHR ''-''); digits = (if negative \<or> (s \<noteq> [] \<and> hd s = CHR ''+'') then tl s else s)
      in if digits = [] then None
         else case digits_value 0 digits of None \<Rightarrow> None
           | Some n \<Rightarrow> let v = (if negative then - int n else int n)
             in if - (2 ^ 63) \<le> v \<and> v < 2 ^ 63 then Some v else None)"

definition ParseBool :: "string \<Rightarrow> bool option" where
  "ParseBool s =
     (if s \<in> {''1'', ''t'', ''T'', ''TRUE'', ''true'', ''True''} then Some True
      else if s \<in> {''0'', ''f'', ''F'', ''FALSE'', ''false'', ''False''} then Some False else None)"

section \<open>Splitting\<close>

fun first_index :: "char \<Rightarrow> string \<Rightarrow> nat option" where
  "first_index c [] = None"
| "first_index c (d # ds) = (if d = c then Some 0 else map_option Suc (first_index c ds))"

definition last_index :: "char \<Rightarrow> string \<Rightarrow> nat option" where
  "last_index c s = map_option (\<lambda>i. length s - Suc i) (first_index c (rev s))"

definition split_equals :: "string \<Rightarrow> (string \<times> string) option" where
  "split_equals s = map_option (\<lambda>i. (take i s, drop (Suc i) s)) (first_index (CHR ''='') s)"

definition SplitHostPort :: "string \<Rightarrow> (string \<times> string) option" where
  "SplitHostPort hostport =
     (case last_index (CHR '':'') hostport of None \<Rightarrow> None
      | Some i \<Rightarrow>
        if hd hostport = CHR ''['' then
          (case first_index (CHR '']'') hostport of None \<Rightarrow> None
           | Some e \<Rightarrow>
             if Suc e \<noteq> i \<or> CHR ''['' \<in> set (drop 1 hostport) \<or> CHR '']'' \<in> set (drop (Suc e) hostport) then None
             else Some (take (e - 1) (drop 1 hostport), drop (Suc i) hostport))
        else if CHR '':'' \<in> set (take i hostport) \<or> CHR ''['' \<in> set hostport \<or> CHR '']'' \<in> set hostport then None
        else Some (take i hostport, drop (Suc i) hostport))"

text \<open>Under Unicode's simple folding the long s is the only other spelling of a letter of \<open>localhost\<close>.\<close>

fun fold_letters :: "string \<Rightarrow> string" where
  "fold_letters [] = []"
| "fold_letters (c # cs) =
     (if c = CHR 0xC5 \<and> cs \<noteq> [] \<and> hd cs = CHR 0xBF then CHR ''s'' # fold_letters (tl cs)
      else (let n = of_char c :: nat in if 65 \<le> n \<and> n \<le> 90 then char_of (n + 32) else c) # fold_letters cs)"

definition is_localhost :: "string \<Rightarrow> bool" where
  "is_localhost host \<longleftrightarrow> fold_letters host = ''localhost''"

lemma Atoi_range: "Atoi s = Some v \<Longrightarrow> - (2 ^ 63) \<le> v \<and> v < 2 ^ 63"
  by (auto simp: Atoi_def Let_def split: if_splits option.splits)

text \<open>What Redis needs of an address, as the configuration and the service check it.\<close>

definition host_and_port :: "string \<Rightarrow> bool" where
  "host_and_port addr =
     (case SplitHostPort addr of None \<Rightarrow> False
      | Some (host, port) \<Rightarrow>
        (case Atoi port of None \<Rightarrow> False | Some n \<Rightarrow> TrimSpace host \<noteq> [] \<and> 1 \<le> n \<and> n \<le> 65535))"

end
