(* ===== verification/Tokens.thy ===== *)
theory Tokens
  imports Texts Matches
begin

text \<open>
  The one-time tokens with which a player resumes (\<open>persistence/resume_tokens.go\<close>, \<open>persistence/resume_service.go\<close>).
  Redis is a service: its commands are the record \<open>redis\<close>, an argument of every operation, and the locale
  \<open>redis_service\<close> states the documented behaviour the store relies on: \<open>SET NX\<close> with a time to live, \<open>GETDEL\<close>
  and \<open>DEL\<close> are atomic, other keys are untouched, and a command that fails may or may not have been executed.
\<close>

section \<open>The store\<close>

datatype redis_reply = Reply string | Redis_nil | Redis_error

record 'r redis =
  rd_SetNX :: "string \<Rightarrow> string \<Rightarrow> time \<Rightarrow> 'r \<Rightarrow> bool option \<times> 'r"
  rd_GetDel :: "string \<Rightarrow> 'r \<Rightarrow> redis_reply \<times> 'r"
  rd_Del :: "string \<Rightarrow> 'r \<Rightarrow> bool \<times> 'r"
  rd_Ping :: "'r \<Rightarrow> bool"

datatype resume_error = ErrInvalidRedisClient | ErrInvalidResumeTTL | ErrInvalidResumeToken | ErrInvalidSessionKey
  | ErrResumeTokenExists | ErrResumeTokenNotFound | ErrInvalidResumeRoute | EncodeResumeRoute | ErrCorruptResumeRoute
  | ErrResumeBackend string | ErrInvalidResumeServiceOptions

record ResumeRoute =
  ro_Version :: u8
  ro_SessionID :: u64
  ro_PlayerID :: u64
  ro_RoomID :: u64
  ro_Generation :: u64

definition ResumeRouteVersion :: u8 where "ResumeRouteVersion = 1"

definition ResumeRoute_Validate :: "ResumeRoute \<Rightarrow> resume_error option" where
  "ResumeRoute_Validate r =
     (if ro_Version r \<noteq> ResumeRouteVersion \<or> ro_SessionID r = 0 \<or> ro_PlayerID r = 0 \<or> ro_RoomID r = 0 \<or> ro_Generation r = 0
      then Some ErrInvalidResumeRoute else None)"

text \<open>\<open>crypto/sha256\<close> and \<open>encoding/json\<close>.\<close>

record token_codec =
  tc_sha256 :: "string \<Rightarrow> u8 list"
  tc_marshal :: "ResumeRoute \<Rightarrow> string option"
  tc_unmarshal :: "string \<Rightarrow> ResumeRoute option"

record 'r ResumeTokenStore =
  rs_client :: "'r redis"
  rs_ttl :: time

definition NewResumeTokenStore :: "'r redis option \<Rightarrow> time \<Rightarrow> resume_error + 'r ResumeTokenStore" where
  "NewResumeTokenStore client ttl =
     (case client of None \<Rightarrow> Inl ErrInvalidRedisClient
      | Some client \<Rightarrow> if ttl \<le> 0 then Inl ErrInvalidResumeTTL else Inr \<lparr>rs_client = client, rs_ttl = ttl\<rparr>)"

definition validOpaqueValue :: "string \<Rightarrow> nat \<Rightarrow> bool" where
  "validOpaqueValue value maxBytes \<longleftrightarrow> 0 < length value \<and> length value \<le> maxBytes"

definition maxResumeTokenBytes :: nat where "maxResumeTokenBytes = 256"
definition maxSessionKeyBytes :: nat where "maxSessionKeyBytes = 256"

definition token_key :: "token_codec \<Rightarrow> string \<Rightarrow> string" where
  "token_key tc token = ''odyssey:resume:v1:'' @ hex_string (tc_sha256 tc token)"

definition Issue :: "token_codec \<Rightarrow> 'r ResumeTokenStore \<Rightarrow> string \<Rightarrow> string \<Rightarrow> 'r \<Rightarrow> resume_error option \<times> 'r" where
  "Issue tc s token sessionKey r =
     (if \<not> validOpaqueValue token maxResumeTokenBytes then (Some ErrInvalidResumeToken, r)
      else if \<not> validOpaqueValue sessionKey maxSessionKeyBytes then (Some ErrInvalidSessionKey, r)
      else case rd_SetNX (rs_client s) (token_key tc token) sessionKey (rs_ttl s) r of
          (None, r) \<Rightarrow> (Some (ErrResumeBackend ''issue''), r)
        | (Some stored, r) \<Rightarrow> (if stored then None else Some ErrResumeTokenExists, r))"

definition Consume :: "token_codec \<Rightarrow> 'r ResumeTokenStore \<Rightarrow> string \<Rightarrow> 'r \<Rightarrow> (resume_error + string) \<times> 'r" where
  "Consume tc s token r =
     (if \<not> validOpaqueValue token maxResumeTokenBytes then (Inl ErrInvalidResumeToken, r)
      else case rd_GetDel (rs_client s) (token_key tc token) r of
          (Redis_nil, r) \<Rightarrow> (Inl ErrResumeTokenNotFound, r)
        | (Redis_error, r) \<Rightarrow> (Inl (ErrResumeBackend ''consume''), r)
        | (Reply sessionKey, r) \<Rightarrow> (Inr sessionKey, r))"

definition IssueRoute :: "token_codec \<Rightarrow> 'r ResumeTokenStore \<Rightarrow> string \<Rightarrow> ResumeRoute \<Rightarrow> 'r \<Rightarrow> resume_error option \<times> 'r" where
  "IssueRoute tc s token route r =
     (case ResumeRoute_Validate route of Some e \<Rightarrow> (Some e, r)
      | None \<Rightarrow> (case tc_marshal tc route of None \<Rightarrow> (Some EncodeResumeRoute, r)
        | Some payload \<Rightarrow> Issue tc s token payload r))"

definition ConsumeRoute :: "token_codec \<Rightarrow> 'r ResumeTokenStore \<Rightarrow> string \<Rightarrow> 'r \<Rightarrow> (resume_error + ResumeRoute) \<times> 'r" where
  "ConsumeRoute tc s token r =
     (case Consume tc s token r of (Inl e, r) \<Rightarrow> (Inl e, r)
      | (Inr payload, r) \<Rightarrow>
        (case tc_unmarshal tc payload of None \<Rightarrow> (Inl ErrCorruptResumeRoute, r)
         | Some route \<Rightarrow> (case ResumeRoute_Validate route of Some _ \<Rightarrow> (Inl ErrCorruptResumeRoute, r) | None \<Rightarrow> (Inr route, r))))"

definition Revoke :: "token_codec \<Rightarrow> 'r ResumeTokenStore \<Rightarrow> string \<Rightarrow> 'r \<Rightarrow> resume_error option \<times> 'r" where
  "Revoke tc s token r =
     (if \<not> validOpaqueValue token maxResumeTokenBytes then (Some ErrInvalidResumeToken, r)
      else case rd_Del (rs_client s) (token_key tc token) r of
          (True, r) \<Rightarrow> (None, r) | (False, r) \<Rightarrow> (Some (ErrResumeBackend ''revoke''), r))"

section \<open>The service\<close>

record ResumeServiceOptions =
  so_Addr :: string
  so_DB :: int
  so_TokenTTL :: time
  so_OperationTimeout :: time

definition ResumeServiceOptions_Validate :: "ResumeServiceOptions \<Rightarrow> resume_error option" where
  "ResumeServiceOptions_Validate o' =
     (if TrimSpace (so_Addr o') = [] \<or> so_DB o' < 0 \<or> so_TokenTTL o' \<le> 0 \<or> so_OperationTimeout o' \<le> 0
      then Some ErrInvalidResumeServiceOptions
      else if host_and_port (so_Addr o') then None else Some ErrInvalidResumeServiceOptions)"

definition OpenResumeService :: "(ResumeServiceOptions \<Rightarrow> 'r redis) \<Rightarrow> ResumeServiceOptions \<Rightarrow> 'r \<Rightarrow> resume_error + 'r ResumeTokenStore" where
  "OpenResumeService new_client options r =
     (case ResumeServiceOptions_Validate options of Some e \<Rightarrow> Inl e
      | None \<Rightarrow> let client = new_client options
        in if \<not> rd_Ping client r then Inl (ErrResumeBackend ''startup ping'')
           else NewResumeTokenStore (Some client) (so_TokenTTL options))"

section \<open>What the store relies on\<close>

text \<open>\<open>live r k\<close> is the value of a key with the time it has left, \<open>wait d r\<close> the database after \<open>d\<close> more time.\<close>

locale redis_service =
  fixes client :: "'r redis" and live :: "'r \<Rightarrow> string \<Rightarrow> (string \<times> time) option" and wait :: "time \<Rightarrow> 'r \<Rightarrow> 'r"
  assumes SetNX_law: "0 < ttl \<Longrightarrow> rd_SetNX client k v ttl r = (answer, r') \<Longrightarrow> (\<forall>j. j \<noteq> k \<longrightarrow> live r' j = live r j) \<and>
      (case answer of Some True \<Rightarrow> live r k = None \<and> live r' k = Some (v, ttl) | Some False \<Rightarrow> live r k \<noteq> None \<and> live r' k = live r k
       | None \<Rightarrow> live r' k = live r k \<or> live r k = None \<and> live r' k = Some (v, ttl))"
    and GetDel_law: "rd_GetDel client k r = (got, r') \<Longrightarrow> (\<forall>j. j \<noteq> k \<longrightarrow> live r' j = live r j) \<and>
      (case got of Reply v \<Rightarrow> map_option fst (live r k) = Some v \<and> live r' k = None | Redis_nil \<Rightarrow> live r k = None \<and> live r' k = None
       | Redis_error \<Rightarrow> live r' k = live r k \<or> live r' k = None)"
    and Del_law: "rd_Del client k r = (erased, r') \<Longrightarrow> (\<forall>j. j \<noteq> k \<longrightarrow> live r' j = live r j) \<and>
      (live r' k = None \<or> \<not> erased \<and> live r' k = live r k)"
    and wait_law: "0 \<le> d \<Longrightarrow> live (wait d r) k =
      (case live r k of None \<Rightarrow> None | Some (v, t) \<Rightarrow> if d < t then Some (v, t - d) else None)"

text \<open>A run of the store: calls of any server, and time that passes.\<close>

datatype token_call = Issue_call string string | Issue_route_call string ResumeRoute | Consume_call string
  | Consume_route_call string | Revoke_call string | Pass time

fun token_step :: "token_codec \<Rightarrow> 'r ResumeTokenStore \<Rightarrow> (time \<Rightarrow> 'r \<Rightarrow> 'r) \<Rightarrow> token_call \<Rightarrow> 'r \<Rightarrow> 'r" where
  "token_step tc s wait (Issue_call t v) r = snd (Issue tc s t v r)"
| "token_step tc s wait (Issue_route_call t v) r = snd (IssueRoute tc s t v r)"
| "token_step tc s wait (Consume_call t) r = snd (Consume tc s t r)"
| "token_step tc s wait (Consume_route_call t) r = snd (ConsumeRoute tc s t r)"
| "token_step tc s wait (Revoke_call t) r = snd (Revoke tc s t r)"
| "token_step tc s wait (Pass d) r = wait (max 0 d) r"

abbreviation token_run :: "token_codec \<Rightarrow> 'r ResumeTokenStore \<Rightarrow> (time \<Rightarrow> 'r \<Rightarrow> 'r) \<Rightarrow> token_call list \<Rightarrow> 'r \<Rightarrow> 'r" where
  "token_run tc s wait cs r \<equiv> fold (token_step tc s wait) cs r"

primrec elapsed :: "token_call list \<Rightarrow> time" where
  "elapsed [] = 0"
| "elapsed (c # cs) = (case c of Pass d \<Rightarrow> max 0 d | _ \<Rightarrow> 0) + elapsed cs"

definition issues :: "token_codec \<Rightarrow> string \<Rightarrow> token_call \<Rightarrow> bool" where
  "issues tc t c \<longleftrightarrow> (case c of Issue_call u _ \<Rightarrow> token_key tc u = token_key tc t
     | Issue_route_call u _ \<Rightarrow> token_key tc u = token_key tc t | _ \<Rightarrow> False)"

definition uses :: "token_codec \<Rightarrow> string \<Rightarrow> token_call \<Rightarrow> bool" where
  "uses tc t c \<longleftrightarrow> issues tc t c \<or> (case c of Consume_call u \<Rightarrow> token_key tc u = token_key tc t
     | Consume_route_call u \<Rightarrow> token_key tc u = token_key tc t | Revoke_call u \<Rightarrow> token_key tc u = token_key tc t | _ \<Rightarrow> False)"

lemma elapsed_nonneg: "0 \<le> elapsed cs"
  by (induction cs) (auto split: token_call.split)

context redis_service begin

lemma Issue_live:
  assumes "rs_client s = client" and "0 < rs_ttl s" and "Issue tc s t v r = (answer, r')"
  shows "(\<forall>j. j \<noteq> token_key tc t \<longrightarrow> live r' j = live r j) \<and> (answer = None \<longrightarrow> live r' (token_key tc t) = Some (v, rs_ttl s))"
proof (cases "validOpaqueValue t maxResumeTokenBytes \<and> validOpaqueValue v maxSessionKeyBytes")
  case True
  obtain x r1 where x: "rd_SetNX client (token_key tc t) v (rs_ttl s) r = (x, r1)" by fastforce
  have "answer = (case x of None \<Rightarrow> Some (ErrResumeBackend ''issue'') | Some stored \<Rightarrow> if stored then None else Some ErrResumeTokenExists)"
    "r' = r1" using assms(1,3) True x by (auto simp: Issue_def split: option.splits)
  then show ?thesis using SetNX_law[OF assms(2) x] by (auto split: option.splits if_splits)
qed (use assms(3) in \<open>auto simp: Issue_def split: if_splits\<close>)

lemma Consume_live:
  assumes "rs_client s = client" and "Consume tc s t r = (answer, r')"
  shows "(\<forall>j. j \<noteq> token_key tc t \<longrightarrow> live r' j = live r j) \<and> (live r (token_key tc t) = None \<longrightarrow> live r' (token_key tc t) = None) \<and>
    (case answer of Inr v \<Rightarrow> map_option fst (live r (token_key tc t)) = Some v \<and> live r' (token_key tc t) = None
     | Inl e \<Rightarrow> e = ErrResumeBackend ''consume'' \<or> e = ErrInvalidResumeToken \<and> \<not> validOpaqueValue t maxResumeTokenBytes \<or>
         e = ErrResumeTokenNotFound \<and> live r (token_key tc t) = None)"
proof (cases "validOpaqueValue t maxResumeTokenBytes")
  case True
  obtain x r1 where x: "rd_GetDel client (token_key tc t) r = (x, r1)" by fastforce
  have "r' = r1 \<and> answer = (case x of Redis_nil \<Rightarrow> Inl ErrResumeTokenNotFound | Redis_error \<Rightarrow> Inl (ErrResumeBackend ''consume'') | Reply v \<Rightarrow> Inr v)"
    using assms True x by (cases x) (auto simp: Consume_def)
  then show ?thesis using GetDel_law[OF x] by (cases x) auto
qed (use assms(2) in \<open>auto simp: Consume_def\<close>)

lemma Revoke_live:
  assumes "rs_client s = client" and "Revoke tc s t r = (answer, r')"
  shows "(\<forall>j. j \<noteq> token_key tc t \<longrightarrow> live r' j = live r j) \<and> (live r (token_key tc t) = None \<longrightarrow> live r' (token_key tc t) = None)"
proof (cases "validOpaqueValue t maxResumeTokenBytes")
  case True
  obtain x r1 where x: "rd_Del client (token_key tc t) r = (x, r1)" by fastforce
  have "r' = r1" using assms True x by (cases x) (auto simp: Revoke_def)
  then show ?thesis using Del_law[OF x] by auto
qed (use assms(2) in \<open>auto simp: Revoke_def\<close>)

lemma ConsumeRoute_snd: "snd (ConsumeRoute tc s t r) = snd (Consume tc s t r)"
  by (simp add: ConsumeRoute_def split: prod.split sum.split option.split)

lemma IssueRoute_snd: "snd (IssueRoute tc s t route r) = r \<or> (\<exists>v. snd (IssueRoute tc s t route r) = snd (Issue tc s t v r))"
  by (auto simp: IssueRoute_def split: option.split)

text \<open>A dead key stays dead until somebody issues a token for it.\<close>

lemma step_dead:
  assumes "rs_client s = client" and "0 < rs_ttl s" and "\<not> issues tc t c" and "live r (token_key tc t) = None"
  shows "live (token_step tc s wait c r) (token_key tc t) = None"
proof (cases c)
  case (Issue_call u v)
  then show ?thesis using Issue_live[OF assms(1,2), of tc u v r] assms(3,4) by (simp add: issues_def) (metis prod.collapse)
next
  case (Issue_route_call u v)
  then show ?thesis using Issue_live[OF assms(1,2), of tc u] IssueRoute_snd[of tc s u v r] assms(3,4)
    by (simp add: issues_def) (metis prod.collapse)
next
  case (Consume_call u)
  then show ?thesis using Consume_live[OF assms(1), of tc u r] assms(4) by simp (metis prod.collapse)
next
  case (Consume_route_call u)
  then show ?thesis using Consume_live[OF assms(1), of tc u r] assms(4) by (simp add: ConsumeRoute_snd) (metis prod.collapse)
next
  case (Revoke_call u)
  then show ?thesis using Revoke_live[OF assms(1), of tc u r] assms(4) by simp (metis prod.collapse)
qed (simp add: wait_law assms(4))

lemma run_dead:
  assumes "rs_client s = client" and "0 < rs_ttl s" and "\<forall>c \<in> set cs. \<not> issues tc t c" and "live r (token_key tc t) = None"
  shows "live (token_run tc s wait cs r) (token_key tc t) = None"
  using assms(3,4) by (induction cs arbitrary: r) (simp_all add: step_dead[OF assms(1,2)])

text \<open>A live key that is left alone only grows older.\<close>

lemma step_alone:
  assumes "rs_client s = client" and "0 < rs_ttl s" and "\<not> uses tc t c"
  shows "live (token_step tc s wait c r) (token_key tc t) =
    (case c of Pass d \<Rightarrow> live (wait (max 0 d) r) (token_key tc t) | _ \<Rightarrow> live r (token_key tc t))"
proof (cases c)
  case (Issue_call u v)
  then show ?thesis using Issue_live[OF assms(1,2), of tc u v r] assms(3) by (simp add: uses_def issues_def) (metis prod.collapse)
next
  case (Issue_route_call u v)
  then show ?thesis using Issue_live[OF assms(1,2), of tc u] IssueRoute_snd[of tc s u v r] assms(3)
    by (simp add: uses_def issues_def) (metis prod.collapse)
next
  case (Consume_call u)
  then show ?thesis using Consume_live[OF assms(1), of tc u r] assms(3) by (simp add: uses_def) (metis prod.collapse)
next
  case (Consume_route_call u)
  then show ?thesis using Consume_live[OF assms(1), of tc u r] assms(3) by (simp add: uses_def ConsumeRoute_snd) (metis prod.collapse)
next
  case (Revoke_call u)
  then show ?thesis using Revoke_live[OF assms(1), of tc u r] assms(3) by (simp add: uses_def) (metis prod.collapse)
qed simp

lemma run_alone:
  assumes "rs_client s = client" and "0 < rs_ttl s" and "\<forall>c \<in> set cs. \<not> uses tc t c" and "live r (token_key tc t) = Some (v, d)" and "0 < d"
  shows "live (token_run tc s wait cs r) (token_key tc t) = (if elapsed cs < d then Some (v, d - elapsed cs) else None)"
  using assms(3-5)
proof (induction cs arbitrary: r d)
  case (Cons c cs)
  have un: "\<not> uses tc t c" "\<forall>c \<in> set cs. \<not> uses tc t c" using Cons.prems(1) by auto
  define age where "age = (case c of Pass e \<Rightarrow> max 0 e | _ \<Rightarrow> 0)"
  have age: "0 \<le> age" by (simp add: age_def split: token_call.split)
  let ?r = "token_step tc s wait c r"
  have l: "live ?r (token_key tc t) = (if age < d then Some (v, d - age) else None)"
    using step_alone[OF assms(1,2) un(1), of r] Cons.prems(2,3) by (cases c) (simp_all add: age_def wait_law)
  show ?case
  proof (cases "age < d")
    case True
    then show ?thesis using Cons.IH[OF un(2), of ?r "d - age"] l by (simp add: age_def[symmetric] algebra_simps)
  next
    case False
    have "\<forall>c \<in> set cs. \<not> issues tc t c" using un(2) by (auto simp: uses_def)
    then have "live (token_run tc s wait cs ?r) (token_key tc t) = None" using False l by (intro run_dead[OF assms(1,2)]) simp_all
    then show ?thesis using False elapsed_nonneg[of cs] by (simp add: age_def[symmetric])
  qed
qed simp

end

section \<open>A table with expiry times\<close>

text \<open>The interface can be implemented: a table of keys with their values and the times at which they end.\<close>

record token_table =
  tt_now :: time
  tt_keys :: "(string, string \<times> time) gomap"

definition table_live :: "token_table \<Rightarrow> string \<Rightarrow> (string \<times> time) option" where
  "table_live r k = (case map_of (tt_keys r) k of None \<Rightarrow> None
     | Some (v, e) \<Rightarrow> if tt_now r < e then Some (v, e - tt_now r) else None)"

definition table_wait :: "time \<Rightarrow> token_table \<Rightarrow> token_table" where
  "table_wait d r = r\<lparr>tt_now := tt_now r + d\<rparr>"

definition table_client :: "token_table redis" where
  "table_client = \<lparr>
     rd_SetNX = (\<lambda>k v ttl r. if table_live r k = None
       then (Some True, r\<lparr>tt_keys := AList.update k (v, tt_now r + ttl) (tt_keys r)\<rparr>) else (Some False, r)),
     rd_GetDel = (\<lambda>k r. case table_live r k of None \<Rightarrow> (Redis_nil, r)
       | Some (v, _) \<Rightarrow> (Reply v, r\<lparr>tt_keys := AList.delete k (tt_keys r)\<rparr>)),
     rd_Del = (\<lambda>k r. (True, r\<lparr>tt_keys := AList.delete k (tt_keys r)\<rparr>)),
     rd_Ping = (\<lambda>_. True)\<rparr>"

lemma table_live_delete: "table_live (r\<lparr>tt_keys := AList.delete k (tt_keys r)\<rparr>) j = (if j = k then None else table_live r j)"
  by (simp add: table_live_def delete_conv' split: option.split)

lemma table_live_update: "0 < ttl \<Longrightarrow>
    table_live (r\<lparr>tt_keys := AList.update k (v, tt_now r + ttl) (tt_keys r)\<rparr>) j = (if j = k then Some (v, ttl) else table_live r j)"
  by (simp add: table_live_def update_conv' split: option.split)

interpretation table: redis_service table_client table_live table_wait
proof
  show "(\<forall>j. j \<noteq> k \<longrightarrow> table_live r' j = table_live r j) \<and>
      (case answer of Some True \<Rightarrow> table_live r k = None \<and> table_live r' k = Some (v, ttl)
       | Some False \<Rightarrow> table_live r k \<noteq> None \<and> table_live r' k = table_live r k
       | None \<Rightarrow> table_live r' k = table_live r k \<or> table_live r k = None \<and> table_live r' k = Some (v, ttl))"
    if "0 < ttl" "rd_SetNX table_client k v ttl r = (answer, r')" for ttl k v r answer r'
    using that by (auto simp: table_client_def table_live_update split: if_splits)
  show "(\<forall>j. j \<noteq> k \<longrightarrow> table_live r' j = table_live r j) \<and>
      (case got of Reply v \<Rightarrow> map_option fst (table_live r k) = Some v \<and> table_live r' k = None
       | Redis_nil \<Rightarrow> table_live r k = None \<and> table_live r' k = None
       | Redis_error \<Rightarrow> table_live r' k = table_live r k \<or> table_live r' k = None)"
    if "rd_GetDel table_client k r = (got, r')" for k r got r'
    using that by (auto simp: table_client_def table_live_delete split: option.splits)
  show "(\<forall>j. j \<noteq> k \<longrightarrow> table_live r' j = table_live r j) \<and>
      (table_live r' k = None \<or> \<not> erased \<and> table_live r' k = table_live r k)"
    if "rd_Del table_client k r = (erased, r')" for k r erased r'
    using that by (auto simp: table_client_def table_live_delete)
  show "table_live (table_wait d r) k =
      (case table_live r k of None \<Rightarrow> None | Some (v, t) \<Rightarrow> if d < t then Some (v, t - d) else None)" if "0 \<le> d" for d r k
    using that by (auto simp: table_live_def table_wait_def split: option.split)
qed

section \<open>Properties\<close>

text \<open>C34: A resume token works exactly once and only in time, with any Redis that keeps its documented behaviour:
  after a successful issue that nobody else touches, consuming the token within its time to live gives
  exactly the stored session key or reports a failure of Redis, after that time it is not found;
  and once it has been consumed no later request can use it, until a token is issued again under its key.\<close>

theorem token_once:
  assumes "redis_service client live wait" and "NewResumeTokenStore (Some client) ttl = Inr s"
    and "Issue tc s t v r = (None, r1)" and "\<forall>c \<in> set cs. \<not> uses tc t c" and "Consume tc s t (token_run tc s wait cs r1) = (answer, r2)"
  shows "(elapsed cs < ttl \<longrightarrow> answer \<in> {Inr v, Inl (ErrResumeBackend ''consume'')}) \<and>
    (ttl \<le> elapsed cs \<longrightarrow> answer \<in> {Inl ErrResumeTokenNotFound, Inl (ErrResumeBackend ''consume'')}) \<and>
    (\<forall>ds w. \<not> isl answer \<and> (\<forall>c \<in> set ds. \<not> issues tc t c) \<longrightarrow> fst (Consume tc s t (token_run tc s wait ds r2)) \<noteq> Inr w)"
proof -
  let ?k = "token_key tc t" and ?r = "token_run tc s wait cs r1"
  have s: "rs_client s = client" "0 < rs_ttl s" "rs_ttl s = ttl" using assms(2) by (auto simp: NewResumeTokenStore_def split: if_splits)
  have valid: "validOpaqueValue t maxResumeTokenBytes" using assms(3) by (auto simp: Issue_def split: if_splits)
  have "live r1 ?k = Some (v, ttl)" using redis_service.Issue_live[OF assms(1) s(1,2) assms(3)] s(3) by simp
  then have l: "live ?r ?k = (if elapsed cs < ttl then Some (v, ttl - elapsed cs) else None)"
    using redis_service.run_alone[OF assms(1) s(1,2) assms(4)] s(2,3) by simp
  note c = redis_service.Consume_live[OF assms(1) s(1) assms(5)]
  have "fst (Consume tc s t (token_run tc s wait ds r2)) \<noteq> Inr w"
    if a: "\<not> isl answer" and n: "\<forall>c \<in> set ds. \<not> issues tc t c" for ds w
  proof -
    have "live r2 ?k = None" using c a by (cases answer) simp_all
    then have dead: "live (token_run tc s wait ds r2) ?k = None" by (rule redis_service.run_dead[OF assms(1) s(1,2) n])
    obtain x r3 where x: "Consume tc s t (token_run tc s wait ds r2) = (x, r3)" by fastforce
    show ?thesis using redis_service.Consume_live[OF assms(1) s(1) x] dead x by (cases x) auto
  qed
  then show ?thesis using c l valid by (cases answer) auto
qed

definition sample_token_codec :: token_codec where
  "sample_token_codec = \<lparr>tc_sha256 = (\<lambda>t. map (\<lambda>c. of_nat (of_char c)) t), tc_marshal = (\<lambda>_. None), tc_unmarshal = (\<lambda>_. None)\<rparr>"

lemma token_once_witness:
  "\<exists>s r1 r2. NewResumeTokenStore (Some table_client) 30 = Inr s \<and>
     Issue sample_token_codec s ''secret'' ''7'' \<lparr>tt_now = 0, tt_keys = []\<rparr> = (None, r1) \<and>
     Consume sample_token_codec s ''secret'' (token_run sample_token_codec s table_wait [Pass 29] r1) = (Inr ''7'', r2) \<and>
     fst (Consume sample_token_codec s ''secret'' (token_run sample_token_codec s table_wait [Pass 1, Revoke_call ''other''] r2)) \<noteq> Inr ''7''"
proof -
  let ?s = "\<lparr>rs_client = table_client, rs_ttl = 30\<rparr>"
  let ?k = "token_key sample_token_codec ''secret''"
  define r1 where "r1 = \<lparr>tt_now = 0, tt_keys = [(?k, (''7'', 30))]\<rparr>"
  have s: "NewResumeTokenStore (Some table_client) 30 = Inr ?s" by (simp add: NewResumeTokenStore_def)
  have i: "Issue sample_token_codec ?s ''secret'' ''7'' \<lparr>tt_now = 0, tt_keys = []\<rparr> = (None, r1)"
    by (simp add: Issue_def validOpaqueValue_def maxResumeTokenBytes_def maxSessionKeyBytes_def table_client_def table_live_def r1_def)
  have "fst (Consume sample_token_codec ?s ''secret'' (token_run sample_token_codec ?s table_wait [Pass 29] r1)) = Inr ''7''"
    by (simp add: Consume_def validOpaqueValue_def maxResumeTokenBytes_def table_client_def table_live_def table_wait_def r1_def)
  then obtain r2 where c: "Consume sample_token_codec ?s ''secret'' (token_run sample_token_codec ?s table_wait [Pass 29] r1) = (Inr ''7'', r2)"
    by (metis prod.collapse)
  have "fst (Consume sample_token_codec ?s ''secret'' (token_run sample_token_codec ?s table_wait [Pass 1, Revoke_call ''other''] r2)) \<noteq> Inr ''7''"
    using token_once[OF table.redis_service_axioms s i _ c] by (simp add: uses_def issues_def del: fold.simps)
  then show ?thesis using s i c by blast
qed

end
