(* ===== verification/Settings.thy ===== *)
theory Settings
  imports Tokens Writer App
begin

text \<open>
  The runtime configuration (\<open>config/config.go\<close>): defaults, an optional file of settings and the environment, which wins,
  and the validation of everything the server relies on.  Floating-point parsing and the test for a
  loopback address are library functions and parameters; files are given by what reading them returns.
\<close>

section \<open>Configuration\<close>

record ServerConfig =
  cf_Env :: string
  cf_TCPAddr :: string
  cf_AdminAddr :: string
  cf_MetricsAddr :: string
  cf_PprofAddr :: string
  cf_TickHz :: int
  cf_SnapshotHz :: int
  cf_AIHz :: int
  cf_LogLevel :: string
  cf_MySQLDSN :: string
  cf_RedisAddr :: string
  cf_RedisPass :: string
  cf_RedisDB :: int
  cf_ResumeEnabled :: bool
  cf_ResumeTTLSeconds :: int
  cf_RedisOperationMS :: int
  cf_ResultsEnabled :: bool
  cf_ResultQueueCapacity :: int
  cf_ResultMaxAttempts :: int
  cf_ResultAttemptTimeoutMS :: int
  cf_ResultRetryBackoffMS :: int
  cf_ResultShutdownTimeoutSec :: int
  cf_ResultDeadLetterPath :: string
  cf_EquipmentCatalogPath :: string
  cf_RewardDurationSec :: int
  cf_StageLimit :: int
  cf_FirstStageSeedBase :: i64
  cf_DirectorMinDifficulty :: f64
  cf_DirectorMaxDifficulty :: f64
  cf_DirectorTargetClearTimeSec :: f64
  cf_DirectorTargetDPS :: f64
  cf_DirectorTargetDamageTaken :: f64
  cf_LoginTimeoutSec :: int
  cf_parseErr :: "(string \<times> string) option"

definition Default_config :: ServerConfig where
  "Default_config = \<lparr>cf_Env = ''development'', cf_TCPAddr = ''127.0.0.1:7777'', 
     cf_AdminAddr = ''127.0.0.1:8080'', cf_MetricsAddr = ''0.0.0.0:19091'', cf_PprofAddr = ''127.0.0.1:6060'', 
     cf_TickHz = 30, cf_SnapshotHz = 10, cf_AIHz = 10, cf_LogLevel = ''debug'', 
     cf_MySQLDSN = ''odyssey:odyssey_local_only@tcp(127.0.0.1:13306)/odyssey?parseTime=true&charset=utf8mb4&loc=UTC'', 
     cf_RedisAddr = ''127.0.0.1:6379'', cf_RedisPass = ''odyssey_redis_local_only'', cf_RedisDB = 0, 
     cf_ResumeEnabled = False, cf_ResumeTTLSeconds = 30, cf_RedisOperationMS = 2000, cf_ResultsEnabled = False, 
     cf_ResultQueueCapacity = 256, cf_ResultMaxAttempts = 3, cf_ResultAttemptTimeoutMS = 2000, 
     cf_ResultRetryBackoffMS = 100, cf_ResultShutdownTimeoutSec = 5, 
     cf_ResultDeadLetterPath = ''var/odyssey/result-dead-letter.jsonl'', 
     cf_EquipmentCatalogPath = ''data/equipment/catalog.json'', cf_RewardDurationSec = 10, cf_StageLimit = 12, 
     cf_FirstStageSeedBase = 1, cf_DirectorMinDifficulty = fl (1 / 2), cf_DirectorMaxDifficulty = Fin 10, 
     cf_DirectorTargetClearTimeSec = Fin 45, cf_DirectorTargetDPS = Fin 30, cf_DirectorTargetDamageTaken = Fin 50, 
     cf_LoginTimeoutSec = 5, cf_parseErr = None\<rparr>"

record config_lib =
  cl_ParseFloat :: "string \<Rightarrow> f64 option"
  cl_loopbackIP :: "string \<Rightarrow> bool"

section \<open>Reading settings\<close>

definition recordParseError :: "string \<Rightarrow> string \<Rightarrow> ServerConfig \<Rightarrow> ServerConfig" where
  "recordParseError key value c = (if cf_parseErr c = None then c\<lparr>cf_parseErr := Some (key, value)\<rparr> else c)"

text \<open>\<open>applyInt\<close>, \<open>applyFloat\<close> and \<open>applyBool\<close> differ in the parser and the field.\<close>

definition apply_value :: "string \<Rightarrow> string \<Rightarrow> 'v option \<Rightarrow> ('v \<Rightarrow> ServerConfig \<Rightarrow> ServerConfig) \<Rightarrow> ServerConfig \<Rightarrow> ServerConfig" where
  "apply_value key value parsed put c = (case parsed of None \<Rightarrow> recordParseError key value c | Some n \<Rightarrow> put n c)"

definition applyKey :: "config_lib \<Rightarrow> string \<Rightarrow> string \<Rightarrow> ServerConfig \<Rightarrow> ServerConfig" where
  "applyKey lib key value c =
     (if key = ''ODYSSEY_ENV'' then c\<lparr>cf_Env := value\<rparr>
      else if key = ''ODYSSEY_TCP_ADDR'' then c\<lparr>cf_TCPAddr := value\<rparr>
      else if key = ''ODYSSEY_ADMIN_ADDR'' then c\<lparr>cf_AdminAddr := value\<rparr>
      else if key = ''ODYSSEY_METRICS_ADDR'' then c\<lparr>cf_MetricsAddr := value\<rparr>
      else if key = ''ODYSSEY_PPROF_ADDR'' then c\<lparr>cf_PprofAddr := value\<rparr>
      else if key = ''ODYSSEY_TICK_HZ'' then (case Atoi value of None \<Rightarrow> c | Some n \<Rightarrow> c\<lparr>cf_TickHz := n\<rparr>)
      else if key = ''ODYSSEY_SNAPSHOT_HZ'' then (case Atoi value of None \<Rightarrow> c | Some n \<Rightarrow> c\<lparr>cf_SnapshotHz := n\<rparr>)
      else if key = ''ODYSSEY_AI_HZ'' then (case Atoi value of None \<Rightarrow> c | Some n \<Rightarrow> c\<lparr>cf_AIHz := n\<rparr>)
      else if key = ''ODYSSEY_LOG_LEVEL'' then c\<lparr>cf_LogLevel := value\<rparr>
      else if key = ''ODYSSEY_MYSQL_DSN'' then c\<lparr>cf_MySQLDSN := value\<rparr>
      else if key = ''ODYSSEY_REDIS_ADDR'' then c\<lparr>cf_RedisAddr := value\<rparr>
      else if key = ''ODYSSEY_REDIS_PASSWORD'' then c\<lparr>cf_RedisPass := value\<rparr>
      else if key = ''ODYSSEY_REDIS_DB'' then apply_value key value (Atoi value) (\<lambda>n c. c\<lparr>cf_RedisDB := n\<rparr>) c
      else if key = ''ODYSSEY_RESUME_ENABLED'' then apply_value key value (ParseBool value) (\<lambda>n c. c\<lparr>cf_ResumeEnabled := n\<rparr>) c
      else if key = ''ODYSSEY_RESUME_TTL_SEC'' then apply_value key value (Atoi value) (\<lambda>n c. c\<lparr>cf_ResumeTTLSeconds := n\<rparr>) c
      else if key = ''ODYSSEY_REDIS_OPERATION_TIMEOUT_MS'' then apply_value key value (Atoi value) (\<lambda>n c. c\<lparr>cf_RedisOperationMS := n\<rparr>) c
      else if key = ''ODYSSEY_RESULTS_ENABLED'' then apply_value key value (ParseBool value) (\<lambda>n c. c\<lparr>cf_ResultsEnabled := n\<rparr>) c
      else if key = ''ODYSSEY_RESULT_QUEUE_CAPACITY'' then apply_value key value (Atoi value) (\<lambda>n c. c\<lparr>cf_ResultQueueCapacity := n\<rparr>) c
      else if key = ''ODYSSEY_RESULT_MAX_ATTEMPTS'' then apply_value key value (Atoi value) (\<lambda>n c. c\<lparr>cf_ResultMaxAttempts := n\<rparr>) c
      else if key = ''ODYSSEY_RESULT_ATTEMPT_TIMEOUT_MS'' then apply_value key value (Atoi value) (\<lambda>n c. c\<lparr>cf_ResultAttemptTimeoutMS := n\<rparr>) c
      else if key = ''ODYSSEY_RESULT_RETRY_BACKOFF_MS'' then apply_value key value (Atoi value) (\<lambda>n c. c\<lparr>cf_ResultRetryBackoffMS := n\<rparr>) c
      else if key = ''ODYSSEY_RESULT_SHUTDOWN_TIMEOUT_SEC'' then apply_value key value (Atoi value) (\<lambda>n c. c\<lparr>cf_ResultShutdownTimeoutSec := n\<rparr>) c
      else if key = ''ODYSSEY_RESULT_DEAD_LETTER_PATH'' then c\<lparr>cf_ResultDeadLetterPath := value\<rparr>
      else if key = ''ODYSSEY_EQUIPMENT_CATALOG'' then c\<lparr>cf_EquipmentCatalogPath := value\<rparr>
      else if key = ''ODYSSEY_REWARD_DURATION_SEC'' then apply_value key value (Atoi value) (\<lambda>n c. c\<lparr>cf_RewardDurationSec := n\<rparr>) c
      else if key = ''ODYSSEY_STAGE_LIMIT'' then apply_value key value (Atoi value) (\<lambda>n c. c\<lparr>cf_StageLimit := n\<rparr>) c
      else if key = ''ODYSSEY_FIRST_STAGE_SEED_BASE'' then apply_value key value (Atoi value) (\<lambda>n c. c\<lparr>cf_FirstStageSeedBase := word_of_int n\<rparr>) c
      else if key = ''ODYSSEY_DIRECTOR_MIN_DIFFICULTY'' then apply_value key value (cl_ParseFloat lib value) (\<lambda>n c. c\<lparr>cf_DirectorMinDifficulty := n\<rparr>) c
      else if key = ''ODYSSEY_DIRECTOR_MAX_DIFFICULTY'' then apply_value key value (cl_ParseFloat lib value) (\<lambda>n c. c\<lparr>cf_DirectorMaxDifficulty := n\<rparr>) c
      else if key = ''ODYSSEY_DIRECTOR_TARGET_CLEAR_TIME_SEC'' then apply_value key value (cl_ParseFloat lib value) (\<lambda>n c. c\<lparr>cf_DirectorTargetClearTimeSec := n\<rparr>) c
      else if key = ''ODYSSEY_DIRECTOR_TARGET_DPS'' then apply_value key value (cl_ParseFloat lib value) (\<lambda>n c. c\<lparr>cf_DirectorTargetDPS := n\<rparr>) c
      else if key = ''ODYSSEY_DIRECTOR_TARGET_DAMAGE_TAKEN'' then apply_value key value (cl_ParseFloat lib value) (\<lambda>n c. c\<lparr>cf_DirectorTargetDamageTaken := n\<rparr>) c
      else if key = ''ODYSSEY_LOGIN_TIMEOUT_SEC'' then (case Atoi value of None \<Rightarrow> c | Some n \<Rightarrow> c\<lparr>cf_LoginTimeoutSec := n\<rparr>)
      else c)"

text \<open>What reading the file returns: it may be missing, fail to open, or fail after some lines.\<close>

datatype env_file = No_file | Open_failed | Lines "string list" bool

definition env_line :: "string \<Rightarrow> (string \<times> string) option" where
  "env_line text =
     (let line = TrimSpace text
      in if line = [] \<or> hd line = CHR ''#'' then None
         else map_option (\<lambda>(k, v). (TrimSpace k, TrimSpace v)) (split_equals line))"

definition loadDotEnv :: "(string \<Rightarrow> string \<Rightarrow> ServerConfig \<Rightarrow> ServerConfig) \<Rightarrow> env_file \<Rightarrow> ServerConfig \<Rightarrow> unit + ServerConfig" where
  "loadDotEnv put file c =
     (case file of No_file \<Rightarrow> Inr c
      | Open_failed \<Rightarrow> Inl ()
      | Lines ls failed \<Rightarrow>
        let c = fold (\<lambda>l c. case env_line l of None \<Rightarrow> c | Some (k, v) \<Rightarrow> put k v c) ls c
        in if failed then Inl () else Inr c)"

definition env_has :: "string list \<Rightarrow> string \<Rightarrow> bool" where
  "env_has env k \<longleftrightarrow> k \<noteq> [] \<and> list_ex (\<lambda>e. case split_equals e of None \<Rightarrow> False | Some (j, _) \<Rightarrow> j = k) env"

definition apply_environment :: "config_lib \<Rightarrow> string list \<Rightarrow> ServerConfig \<Rightarrow> ServerConfig" where
  "apply_environment lib env c =
     fold (\<lambda>e c. case split_equals e of None \<Rightarrow> c
       | Some (k, v) \<Rightarrow> if take 8 k = ''ODYSSEY_'' then applyKey lib k v c else c) env c"

section \<open>Validation\<close>

datatype config_error = Config_parse string string | Invalid_setting string | Config_file

definition validateLoopbackListenAddr :: "config_lib \<Rightarrow> string \<Rightarrow> bool" where
  "validateLoopbackListenAddr lib address =
     (case SplitHostPort address of None \<Rightarrow> False | Some (host, _) \<Rightarrow> is_localhost host \<or> cl_loopbackIP lib host)"

definition valid_results :: "ServerConfig \<Rightarrow> bool" where
  "valid_results c \<longleftrightarrow> \<not> (TrimSpace (cf_MySQLDSN c) = [] \<or> cf_ResultQueueCapacity c < 1 \<or> 100000 < cf_ResultQueueCapacity c \<or>
     cf_ResultMaxAttempts c < 1 \<or> 100 < cf_ResultMaxAttempts c \<or> cf_ResultAttemptTimeoutMS c < 10 \<or> 30000 < cf_ResultAttemptTimeoutMS c \<or>
     cf_ResultRetryBackoffMS c < 0 \<or> 30000 < cf_ResultRetryBackoffMS c \<or> cf_ResultShutdownTimeoutSec c < 1 \<or>
     TrimSpace (cf_ResultDeadLetterPath c) = [])"

definition valid_resume :: "ServerConfig \<Rightarrow> bool" where
  "valid_resume c \<longleftrightarrow> \<not> (TrimSpace (cf_RedisAddr c) = [] \<or> cf_RedisDB c < 0 \<or> cf_ResumeTTLSeconds c < 1 \<or> 3600 < cf_ResumeTTLSeconds c \<or>
     cf_RedisOperationMS c < 10 \<or> 30000 < cf_RedisOperationMS c) \<and> host_and_port (cf_RedisAddr c)"

text \<open>The numbers of the director are checked in the random order of a map, so which one is reported is open.\<close>

definition director_numbers :: "ServerConfig \<Rightarrow> f64 list" where
  "director_numbers c = [cf_DirectorMinDifficulty c, cf_DirectorMaxDifficulty c, cf_DirectorTargetClearTimeSec c,
     cf_DirectorTargetDPS c, cf_DirectorTargetDamageTaken c]"

definition Config_check :: "config_lib \<Rightarrow> ServerConfig \<Rightarrow> config_error option" where
  "Config_check lib c =
     (case cf_parseErr c of Some (k, v) \<Rightarrow> Some (Config_parse k v)
      | None \<Rightarrow>
        if cf_TickHz c \<le> 0 then Some (Invalid_setting ''ODYSSEY_TICK_HZ'')
        else if cf_SnapshotHz c \<le> 0 \<or> cf_TickHz c < cf_SnapshotHz c then Some (Invalid_setting ''ODYSSEY_SNAPSHOT_HZ'')
        else if cf_TCPAddr c = [] then Some (Invalid_setting ''ODYSSEY_TCP_ADDR'')
        else if \<not> validateLoopbackListenAddr lib (cf_AdminAddr c) then Some (Invalid_setting ''ODYSSEY_ADMIN_ADDR'')
        else if cf_Env c = ''production'' \<and> \<not> cf_ResumeEnabled c then Some (Invalid_setting ''ODYSSEY_RESUME_ENABLED'')
        else if cf_Env c = ''production'' \<and> \<not> cf_ResultsEnabled c then Some (Invalid_setting ''ODYSSEY_RESULTS_ENABLED'')
        else if cf_ResultsEnabled c \<and> \<not> valid_results c then Some (Invalid_setting ''results'')
        else if cf_ResumeEnabled c \<and> \<not> valid_resume c then Some (Invalid_setting ''resume'')
        else if TrimSpace (cf_EquipmentCatalogPath c) = [] then Some (Invalid_setting ''ODYSSEY_EQUIPMENT_CATALOG'')
        else if cf_RewardDurationSec c < 1 \<or> 3600 < cf_RewardDurationSec c then Some (Invalid_setting ''ODYSSEY_REWARD_DURATION_SEC'')
        else if cf_StageLimit c < 3 \<or> 1000 < cf_StageLimit c then Some (Invalid_setting ''ODYSSEY_STAGE_LIMIT'')
        else if list_ex (\<lambda>v. IsNaN v \<or> IsInf v \<or> v \<le> Fin 0) (director_numbers c) then Some (Invalid_setting ''director'')
        else if cf_DirectorMaxDifficulty c < cf_DirectorMinDifficulty c then Some (Invalid_setting ''difficulty'')
        else None)"

definition Load_config :: "config_lib \<Rightarrow> string list \<Rightarrow> env_file option \<Rightarrow> config_error + ServerConfig" where
  "Load_config lib env file =
     (case (case file of None \<Rightarrow> Inr Default_config
        | Some f \<Rightarrow> loadDotEnv (\<lambda>k v c. if env_has env k then c else applyKey lib k v c) f Default_config) of
        Inl _ \<Rightarrow> Inl Config_file
      | Inr c \<Rightarrow> let c = apply_environment lib env c
        in (case Config_check lib c of None \<Rightarrow> Inr c | Some e \<Rightarrow> Inl e))"

section \<open>The parts of the server that are configured\<close>

text \<open>The file of the equipment catalog: it may fail to open, fail to decode, or fail to close.\<close>

datatype catalog_file = Catalog_missing | Catalog_undecodable | Catalog_decoded u32 "Definition list" bool

datatype bootstrap_error = Bootstrap_config config_error | Bootstrap_world | Bootstrap_open | Bootstrap_parse equip_error | Bootstrap_decode
  | Bootstrap_close | Bootstrap_version u32 | Bootstrap_display equip_id | Bootstrap_director director_error

definition EquipmentCatalogVersion :: u32 where "EquipmentCatalogVersion = 1"

definition slot_text :: "Slot \<Rightarrow> string" where
  "slot_text s = (case s of Weapon \<Rightarrow> ''weapon'' | Relic \<Rightarrow> ''relic'' | Potion \<Rightarrow> ''potion'' | OtherSlot t \<Rightarrow> t)"

definition contains_break :: "string \<Rightarrow> bool" where
  "contains_break s \<longleftrightarrow> list_ex (\<lambda>c. c \<in> {CHR 0x09, CHR 0x0D, CHR 0x0A}) s"

definition displayable :: "Definition \<Rightarrow> bool" where
  "displayable d \<longleftrightarrow> TrimSpace (e_Description d) \<noteq> [] \<and>
     \<not> contains_break (e_Name d) \<and> \<not> contains_break (slot_text (e_Slot d)) \<and> \<not> contains_break (e_Description d)"

fun check_display :: "Catalog \<Rightarrow> equip_id list \<Rightarrow> bootstrap_error option" where
  "check_display k [] = None"
| "check_display k (i # js) =
     (case Lookup k i of None \<Rightarrow> Some (Bootstrap_display i)
      | Some d \<Rightarrow> if displayable d then check_display k js else Some (Bootstrap_display i))"

definition rule_config :: "ServerConfig \<Rightarrow> Config \<Rightarrow> RuleConfig" where
  "rule_config c w = (DefaultRuleConfig (g_Min w) (g_Max w) (g_Spawn w) (cc_MaxMonsters (g_Combat w)))\<lparr>
     rc_MinDifficulty := cf_DirectorMinDifficulty c, rc_MaxDifficulty := cf_DirectorMaxDifficulty c,
     rc_TargetClearTimeSeconds := cf_DirectorTargetClearTimeSec c, rc_TargetDPS := cf_DirectorTargetDPS c,
     rc_TargetDamageTaken := cf_DirectorTargetDamageTaken c\<rparr>"

definition LoadGameplay :: "config_lib \<Rightarrow> ServerConfig option \<Rightarrow> Config \<Rightarrow> catalog_file \<Rightarrow> (bootstrap_error option) + Gameplay" where
  "LoadGameplay lib cfg w file =
     (case cfg of None \<Rightarrow> Inl None
      | Some c \<Rightarrow>
     (case Config_check lib c of Some e \<Rightarrow> Inl (Some (Bootstrap_config e))
      | None \<Rightarrow>
        if \<not> Config_Validate w then Inl (Some Bootstrap_world)
        else case file of Catalog_missing \<Rightarrow> Inl (Some Bootstrap_open)
        | Catalog_undecodable \<Rightarrow> Inl (Some Bootstrap_decode)
        | Catalog_decoded version ds close_failed \<Rightarrow>
          (case NewCatalog version ds of Inl e \<Rightarrow> Inl (Some (Bootstrap_parse e))
           | Inr k \<Rightarrow>
             if close_failed then Inl (Some Bootstrap_close)
             else if c_version k \<noteq> EquipmentCatalogVersion then Inl (Some (Bootstrap_version (c_version k)))
             else case check_display k (IDs k) of Some e \<Rightarrow> Inl (Some e)
               | None \<Rightarrow>
                 (case NewRuleBasedPlanner (rule_config c w) of Inl e \<Rightarrow> Inl (Some (Bootstrap_director e))
                  | Inr planner \<Rightarrow> Inr \<lparr>gp_catalog = k,
                      gp_rewardDurationTicks = word_of_int (cf_RewardDurationSec c) * word_of_int TickRate,
                      gp_stageLimit = word_of_int (cf_StageLimit c), gp_firstStageSeedBase = cf_FirstStageSeedBase c,
                      gp_planner = planner, gp_valid = True\<rparr>))))"

text \<open>What \<open>main\<close> makes of the configuration for the services.\<close>

definition resume_options :: "ServerConfig \<Rightarrow> ResumeServiceOptions" where
  "resume_options c = \<lparr>so_Addr = cf_RedisAddr c, so_DB = cf_RedisDB c, so_TokenTTL = cf_ResumeTTLSeconds c * 10 ^ 9,
     so_OperationTimeout = cf_RedisOperationMS c * 10 ^ 6\<rparr>"

definition result_options :: "ServerConfig \<Rightarrow> ResultWriterOptions" where
  "result_options c = \<lparr>ro_QueueCapacity = cf_ResultQueueCapacity c, ro_MaxAttempts = cf_ResultMaxAttempts c,
     ro_AttemptTimeout = cf_ResultAttemptTimeoutMS c * 10 ^ 6, ro_RetryBackoff = cf_ResultRetryBackoffMS c * 10 ^ 6, ro_FailureSink = False\<rparr>"

end
