(* ===== verification/Startup.thy ===== *)
theory Startup
  imports Settings AppRuns
begin

text \<open>
  From the configuration to a running server: the services that \<open>main\<close> opens (\<open>result_service.go\<close>, \<open>OpenResultStore\<close>,
  \<open>OpenFileFailureSink\<close>) and the start itself.  A configuration that \<open>Load\<close> accepts leaves only what the
  environment decides: whether the driver can read the data source name, whether the services answer, whether the
  files and the port can be opened.
\<close>

section \<open>The result service\<close>

text \<open>What the environment answers: \<open>mysql.ParseDSN\<close>, \<open>sql.Open\<close>, the first ping, the migrations, the directory and the file of
  the dead letters, and the port.  None is success.\<close>

record environment =
  en_ParseDSN :: "string \<Rightarrow> persist_error option"
  en_open :: "persist_error option"
  en_ping :: "persist_error option"
  en_migrate :: "persist_error option"
  en_MkdirAll :: "persist_error option"
  en_OpenFile :: "persist_error option"
  en_listen :: bool

text \<open>\<open>filepath.Clean path == "."\<close> on Unix: a relative path whose elements cancel out.\<close>

fun path_elements :: "string \<Rightarrow> string list" where
  "path_elements [] = [[]]"
| "path_elements (c # cs) = (if c = CHR ''/'' then [] # path_elements cs
     else (case path_elements cs of [] \<Rightarrow> [[c]] | w # ws \<Rightarrow> (c # w) # ws))"

fun clean_elements :: "string list \<Rightarrow> string list \<Rightarrow> string list" where
  "clean_elements st [] = st"
| "clean_elements st (e # es) =
     (if e = [] \<or> e = ''.'' then clean_elements st es
      else if e = ''..'' \<and> st \<noteq> [] \<and> hd st \<noteq> ''..'' then clean_elements (tl st) es
      else clean_elements (e # st) es)"

definition cleans_to_dot :: "string \<Rightarrow> bool" where
  "cleans_to_dot path \<longleftrightarrow> (case path of [] \<Rightarrow> True | c # _ \<Rightarrow> c \<noteq> CHR ''/'' \<and> clean_elements [] (path_elements path) = [])"

definition OpenFileFailureSink :: "environment \<Rightarrow> string \<Rightarrow> persist_error option" where
  "OpenFileFailureSink v path =
     (if cleans_to_dot path \<or> path = [] then Some [ErrInvalidDeadLetter]
      else case en_MkdirAll v of Some err \<Rightarrow> Some err | None \<Rightarrow> en_OpenFile v)"

record ResultStoreOptions =
  st_DSN :: string
  st_OperationTimeout :: duration
  st_ApplyMigrations :: bool

definition ResultStoreOptions_Validate :: "environment \<Rightarrow> ResultStoreOptions \<Rightarrow> persist_error option" where
  "ResultStoreOptions_Validate v o' =
     (if st_DSN o' = [] \<or> st_OperationTimeout o' \<le> 0 then Some [ErrInvalidResultStore]
      else case en_ParseDSN v (st_DSN o') of Some _ \<Rightarrow> Some [ErrInvalidResultStore] | None \<Rightarrow> None)"

record ResultStore =
  rst_operationTimeout :: duration

definition OpenResultStore :: "environment \<Rightarrow> ResultStoreOptions \<Rightarrow> persist_error + ResultStore" where
  "OpenResultStore v o' =
     (case ResultStoreOptions_Validate v o' of Some err \<Rightarrow> Inl err
      | None \<Rightarrow>
        (case en_open v of Some _ \<Rightarrow> Inl [ErrResultBackend]
         | None \<Rightarrow>
           (case en_ping v of Some err \<Rightarrow> Inl (resultBackendError err)
            | None \<Rightarrow>
              if st_ApplyMigrations o' \<and> en_migrate v \<noteq> None then Inl (resultBackendError (the (en_migrate v)))
              else Inr \<lparr>rst_operationTimeout = st_OperationTimeout o'\<rparr>)))"

record ResultServiceOptions =
  vo_Store :: ResultStoreOptions
  vo_Writer :: ResultWriterOptions
  vo_DeadLetterPath :: string

record ResultService =
  rv_store :: ResultStore
  rv_writer :: ResultWriter

text \<open>The sink of the writer is the store that has just been opened, its failure sink the file.\<close>

definition OpenResultService :: "environment \<Rightarrow> ResultServiceOptions \<Rightarrow> persist_error + ResultService" where
  "OpenResultService v o' =
     (case OpenFileFailureSink v (vo_DeadLetterPath o') of Some err \<Rightarrow> Inl err
      | None \<Rightarrow>
        (case OpenResultStore v (vo_Store o') of Inl err \<Rightarrow> Inl err
         | Inr store \<Rightarrow>
           (case NewResultWriter True ((vo_Writer o')\<lparr>ro_FailureSink := True\<rparr>) of Inl err \<Rightarrow> Inl err
            | Inr writer \<Rightarrow> Inr \<lparr>rv_store = store, rv_writer = writer\<rparr>)))"

section \<open>The start of main\<close>

definition result_service_options :: "ServerConfig \<Rightarrow> ResultServiceOptions" where
  "result_service_options c = \<lparr>vo_Store = \<lparr>st_DSN = cf_MySQLDSN c, st_OperationTimeout = cf_ResultAttemptTimeoutMS c * 10 ^ 6,
     st_ApplyMigrations = True\<rparr>, vo_Writer = result_options c, vo_DeadLetterPath = cf_ResultDeadLetterPath c\<rparr>"

datatype start_error = Start_gameplay "bootstrap_error option" | Start_application | Start_resume resume_error
  | Start_results persist_error | Start_listen

text \<open>What \<open>main\<close> does until the server listens, with the application and the token store that are then in use.\<close>

definition start_server :: "config_lib \<Rightarrow> environment \<Rightarrow> (ResumeServiceOptions \<Rightarrow> 'r redis) \<Rightarrow> 'r \<Rightarrow> time \<Rightarrow> catalog_file \<Rightarrow>
    ServerConfig \<Rightarrow> start_error + gameApplication \<times> 'r ResumeTokenStore option" where
  "start_server lib v new_client r now file c =
     (case LoadGameplay lib (Some c) DefaultConfig file of Inl e \<Rightarrow> Inl (Start_gameplay e)
      | Inr g \<Rightarrow>
        (case newConfiguredGameApplication now g of
           Some (Inr a) \<Rightarrow>
             let a = setEnvironment (cf_Env c) a
             in case (if cf_ResumeEnabled c then map_sum id Some (OpenResumeService new_client (resume_options c) r) else Inr None) of
                  Inl e \<Rightarrow> Inl (Start_resume e)
                | Inr tokens \<Rightarrow>
                  (case (if cf_ResultsEnabled c then map_sum id Some (OpenResultService v (result_service_options c)) else Inr None) of
                     Inl e \<Rightarrow> Inl (Start_results e)
                   | Inr service \<Rightarrow>
                     let a = setResultWriter (map_option rv_writer service) a
                     in if en_listen v then Inr (a, tokens) else Inl Start_listen)
         | _ \<Rightarrow> Inl Start_application))"

text \<open>What the configuration cannot promise.\<close>

definition resume_up :: "(ResumeServiceOptions \<Rightarrow> 'r redis) \<Rightarrow> 'r \<Rightarrow> ServerConfig \<Rightarrow> bool" where
  "resume_up new_client r c \<longleftrightarrow> (cf_ResumeEnabled c \<longrightarrow> rd_Ping (new_client (resume_options c)) r)"

definition results_up :: "environment \<Rightarrow> ServerConfig \<Rightarrow> bool" where
  "results_up v c \<longleftrightarrow> (cf_ResultsEnabled c \<longrightarrow> \<not> cleans_to_dot (cf_ResultDeadLetterPath c) \<and> en_MkdirAll v = None \<and>
     en_OpenFile v = None \<and> en_ParseDSN v (cf_MySQLDSN c) = None \<and> en_open v = None \<and> en_ping v = None \<and> en_migrate v = None)"

section \<open>A valid configuration\<close>

lemma Config_check_None:
  assumes "Config_check lib c = None"
  shows "list_all (\<lambda>v. \<not> (IsNaN v \<or> IsInf v \<or> v \<le> Fin 0)) (director_numbers c)"
    "\<not> cf_DirectorMaxDifficulty c < cf_DirectorMinDifficulty c" "3 \<le> cf_StageLimit c" "cf_StageLimit c \<le> 1000"
    "1 \<le> cf_RewardDurationSec c" "cf_RewardDurationSec c \<le> 3600" "cf_ResultsEnabled c \<Longrightarrow> valid_results c"
    "cf_ResumeEnabled c \<Longrightarrow> valid_resume c"
  using assms by (auto simp: Config_check_def list_all_iff list_ex_iff split: option.splits if_splits)

lemma Load_config_check: "Load_config lib env file = Inr c \<Longrightarrow> Config_check lib c = None"
  by (auto simp: Load_config_def Let_def split: sum.splits option.splits)

lemma rule_config_valid:
  assumes "Config_check lib c = None" and "Config_Validate w"
  shows "RuleConfig_validate (rule_config c w) = Inr ()"
proof -
  have n: "\<not> list_ex (\<lambda>v. IsNaN v \<or> IsInf v \<or> v \<le> Fin 0) (director_numbers c)"
    using Config_check_None(1)[OF assms(1)] by (auto simp: list_all_iff list_ex_iff)
  have w: "Vec2_Finite (g_Min w)" "Vec2_Finite (g_Max w)" "Vec2_Finite (g_Spawn w)" "\<not> X (g_Max w) \<le> X (g_Min w)" "\<not> Y (g_Max w) \<le> Y (g_Min w)"
    "\<not> X (g_Spawn w) < X (g_Min w)" "\<not> X (g_Max w) < X (g_Spawn w)" "\<not> Y (g_Spawn w) < Y (g_Min w)" "\<not> Y (g_Max w) < Y (g_Spawn w)"
    "0 < cc_MaxMonsters (g_Combat w)" "cc_MaxMonsters (g_Combat w) \<le> 128"
    using assms(2) unfolding Config_Validate_def CombatConfig_valid_def by blast+
  then show ?thesis using n Config_check_None(2)[OF assms(1)]
    by (simp add: RuleConfig_validate_def rule_config_def DefaultRuleConfig_def director_numbers_def)
qed

lemma check_display_ok: "(\<And>i. i \<in> set js \<Longrightarrow> \<exists>d. Lookup k i = Some d \<and> displayable d) \<Longrightarrow> check_display k js = None"
  by (induction js) fastforce+

lemma small_words:
  assumes "3 \<le> n" and "n \<le> 1000" and "1 \<le> d" and "d \<le> 3600"
  shows "uint (word_of_int n :: u32) = n" "uint (word_of_int d * word_of_int TickRate :: u64) = 30 * d"
proof -
  show "uint (word_of_int n :: u32) = n" using assms by (simp add: uint_word_of_int)
  have e: "(word_of_int d * word_of_int TickRate :: u64) = word_of_int (30 * d)" by (simp add: TickRate_def mult.commute)
  show "uint (word_of_int d * word_of_int TickRate :: u64) = 30 * d" unfolding e using assms by (subst uint_word_of_int) simp
qed

lemma valid_results_options:
  "valid_results c \<Longrightarrow> ResultWriterOptions_Validate ((result_options c)\<lparr>ro_FailureSink := True\<rparr>)"
  by (simp add: valid_results_def ResultWriterOptions_Validate_def result_options_def)

lemma valid_results_store: "valid_results c \<Longrightarrow> cf_MySQLDSN c \<noteq> [] \<and> cf_ResultDeadLetterPath c \<noteq> [] \<and> 0 < cf_ResultAttemptTimeoutMS c"
  by (auto simp: valid_results_def TrimSpace_def)

lemma valid_resume_options: "valid_resume c \<Longrightarrow> ResumeServiceOptions_Validate (resume_options c) = None \<and> 0 < so_TokenTTL (resume_options c)"
  by (simp add: valid_resume_def ResumeServiceOptions_Validate_def resume_options_def)

section \<open>Opening the services\<close>

lemma OpenResumeService_valid:
  assumes "valid_resume c"
  shows "if rd_Ping (new_client (resume_options c)) r then \<exists>s. OpenResumeService new_client (resume_options c) r = Inr s
    else OpenResumeService new_client (resume_options c) r = Inl (ErrResumeBackend ''startup ping'')"
  using valid_resume_options[OF assms] by (simp add: OpenResumeService_def NewResumeTokenStore_def Let_def)

lemma OpenResultStore_valid:
  assumes "valid_results c"
  shows "OpenResultStore v (vo_Store (result_service_options c)) =
    (case en_ParseDSN v (cf_MySQLDSN c) of Some _ \<Rightarrow> Inl [ErrInvalidResultStore]
     | None \<Rightarrow> (case en_open v of Some _ \<Rightarrow> Inl [ErrResultBackend]
       | None \<Rightarrow> (case en_ping v of Some err \<Rightarrow> Inl (resultBackendError err)
         | None \<Rightarrow> (case en_migrate v of Some err \<Rightarrow> Inl (resultBackendError err)
           | None \<Rightarrow> Inr \<lparr>rst_operationTimeout = cf_ResultAttemptTimeoutMS c * 10 ^ 6\<rparr>))))"
  using valid_results_store[OF assms]
  by (simp add: OpenResultStore_def ResultStoreOptions_Validate_def result_service_options_def split: option.split)

lemma OpenResultService_valid:
  assumes "valid_results c" and "cf_ResultsEnabled c"
  shows "if results_up v c
    then \<exists>service options. OpenResultService v (result_service_options c) = Inr service \<and> NewResultWriter True options = Inr (rv_writer service)
    else \<exists>err. OpenResultService v (result_service_options c) = Inl err"
proof (cases "results_up v c")
  case True
  let ?options = "(result_options c)\<lparr>ro_FailureSink := True\<rparr>"
  obtain w where w: "NewResultWriter True ?options = Inr w"
    using valid_results_options[OF assms(1)] by (simp add: NewResultWriter_def)
  have "OpenFileFailureSink v (vo_DeadLetterPath (result_service_options c)) = None"
    using True assms(2) valid_results_store[OF assms(1)] by (simp add: results_up_def OpenFileFailureSink_def result_service_options_def)
  moreover have "\<exists>s. OpenResultStore v (vo_Store (result_service_options c)) = Inr s"
    unfolding OpenResultStore_valid[OF assms(1)] using True assms(2) by (simp add: results_up_def)
  moreover have "vo_Writer (result_service_options c) = result_options c" by (simp add: result_service_options_def)
  ultimately show ?thesis using True w by (auto simp: OpenResultService_def)
next
  case False
  have "OpenFileFailureSink v (vo_DeadLetterPath (result_service_options c)) \<noteq> None \<or>
      (\<exists>err. OpenResultStore v (vo_Store (result_service_options c)) = Inl err)"
    unfolding OpenResultStore_valid[OF assms(1)] using False assms(2)
    by (auto simp: results_up_def OpenFileFailureSink_def result_service_options_def split: option.split)
  then show ?thesis using False by (auto simp: OpenResultService_def split: option.split)
qed

lemma OpenResultService_malformed:
  assumes "valid_results c" and "OpenFileFailureSink v (cf_ResultDeadLetterPath c) = None" and "en_ParseDSN v (cf_MySQLDSN c) \<noteq> None"
  shows "OpenResultService v (result_service_options c) = Inl [ErrInvalidResultStore]"
  using assms(2,3) OpenResultStore_valid[OF assms(1), of v]
  by (auto simp: OpenResultService_def) (simp add: result_service_options_def)

section \<open>Properties\<close>

text \<open>C33: What a configuration that is accepted guarantees about the start: with a catalog file whose items are valid and have texts that
  can be shown, the gameplay is loaded with the configured stage limit and reward time (no wrap-around), the
  configuration of the director is valid and the application is built; the start is refused only by the environment,
  with an error that names what refused.  It is refused exactly if Redis is enabled and does not answer, if results are
  enabled and the dead-letter file, the driver (which alone checks that the data source name is well
  formed), the database or its migrations fail, or if the port cannot be opened; otherwise the
  server starts with a result writer and a token store exactly if they are enabled.\<close>

theorem configured_server_starts:
  assumes "Load_config lib env file = Inr c" and "NewCatalog EquipmentCatalogVersion ds = Inr k"
    and "\<forall>i d. Lookup k i = Some d \<longrightarrow> displayable d"
    and "start = start_server lib v new_client r now (Catalog_decoded EquipmentCatalogVersion ds False) c"
  shows "\<exists>g a. LoadGameplay lib (Some c) DefaultConfig (Catalog_decoded EquipmentCatalogVersion ds False) = Inr g \<and>
    newConfiguredGameApplication now g = Some (Inr a) \<and>
    uint (gp_stageLimit g) = cf_StageLimit c \<and> 3 \<le> cf_StageLimit c \<and>
    uint (gp_rewardDurationTicks g) = 30 * cf_RewardDurationSec c \<and> RuleConfig_validate (gp_planner g) = Inr () \<and>
    (if \<not> resume_up new_client r c then start = Inl (Start_resume (ErrResumeBackend ''startup ping''))
     else if \<not> results_up v c then \<exists>err. start = Inl (Start_results err)
     else if \<not> en_listen v then start = Inl Start_listen
     else \<exists>writer tokens. start = Inr (setResultWriter writer (setEnvironment (cf_Env c) a), tokens) \<and>
       app_start (setResultWriter writer (setEnvironment (cf_Env c) a)) \<and>
       (writer \<noteq> None \<longleftrightarrow> cf_ResultsEnabled c) \<and> (tokens \<noteq> None \<longleftrightarrow> cf_ResumeEnabled c)) \<and>
    (resume_up new_client r c \<and> cf_ResultsEnabled c \<and> OpenFileFailureSink v (cf_ResultDeadLetterPath c) = None \<and>
       en_ParseDSN v (cf_MySQLDSN c) \<noteq> None \<longrightarrow> start = Inl (Start_results [ErrInvalidResultStore]))"
proof -
  have c: "Config_check lib c = None" by (rule Load_config_check[OF assms(1)])
  note v = Config_check_None[OF c]
  have k: "catalog_ok k" "c_version k = EquipmentCatalogVersion" using NewCatalog_ok[OF assms(2)] by auto
  have "\<exists>d. Lookup k i = Some d \<and> displayable d" if "i \<in> set (IDs k)" for i
    using that k(1) assms(3) by (auto simp: catalog_ok_def Lookup_def IDs_def)
  then have d: "check_display k (IDs k) = None" by (rule check_display_ok)
  have w: "Config_Validate DefaultConfig" using config_ok_Default by (simp add: config_ok_def)
  note rule_ok = rule_config_valid[OF c w]
  let ?g = "\<lparr>gp_catalog = k, gp_rewardDurationTicks = word_of_int (cf_RewardDurationSec c) * word_of_int TickRate,
      gp_stageLimit = word_of_int (cf_StageLimit c), gp_firstStageSeedBase = cf_FirstStageSeedBase c,
      gp_planner = rule_config c DefaultConfig, gp_valid = True\<rparr>"
  have g: "LoadGameplay lib (Some c) DefaultConfig (Catalog_decoded EquipmentCatalogVersion ds False) = Inr ?g"
    by (simp add: LoadGameplay_def c w assms(2) k(2) d NewRuleBasedPlanner_def rule_ok)
  obtain a where a: "buildGameApplication now ?g = Inr a"
    by (simp add: buildGameApplication_def NewMatchmaker_def)
  have new: "newConfiguredGameApplication now ?g = Some (Inr a)" using a by (simp add: newConfiguredGameApplication_def)
  have starts: "app_start (setResultWriter w (setEnvironment (cf_Env c) a))"
    if "w = None \<or> (\<exists>x options. w = Some x \<and> NewResultWriter True options = Inr x)" for w
    by (rule app_start.intros[OF _ a that]) (simp add: k(1))
  let ?resume = "if cf_ResumeEnabled c then map_sum id Some (OpenResumeService new_client (resume_options c) r) else Inr None"
  let ?results = "if cf_ResultsEnabled c then map_sum id Some (OpenResultService v (result_service_options c)) else Inr None"
  have start: "start = (case ?resume of Inl e \<Rightarrow> Inl (Start_resume e)
      | Inr tokens \<Rightarrow> (case ?results of Inl e \<Rightarrow> Inl (Start_results e)
        | Inr service \<Rightarrow> if en_listen v then Inr (setResultWriter (map_option rv_writer service) (setEnvironment (cf_Env c) a), tokens)
            else Inl Start_listen))"
    unfolding assms(4) start_server_def g sum.case new option.case Let_def ..
  have resume: "if resume_up new_client r c then \<exists>tokens. ?resume = Inr tokens \<and> (tokens \<noteq> None \<longleftrightarrow> cf_ResumeEnabled c)
      else ?resume = Inl (ErrResumeBackend ''startup ping'')"
    using OpenResumeService_valid[OF v(8), of new_client r] by (auto simp: resume_up_def split: if_splits)
  have results: "if results_up v c then \<exists>service. ?results = Inr service \<and> (service \<noteq> None \<longleftrightarrow> cf_ResultsEnabled c) \<and>
        app_start (setResultWriter (map_option rv_writer service) (setEnvironment (cf_Env c) a))
      else \<exists>err. ?results = Inl err"
  proof (cases "cf_ResultsEnabled c")
    case on: True
    note opened = OpenResultService_valid[OF v(7)[OF on] on, of v]
    show ?thesis
    proof (cases "results_up v c")
      case True
      then obtain service options where s: "OpenResultService v (result_service_options c) = Inr service"
        "NewResultWriter True options = Inr (rv_writer service)" using opened by auto
      have "app_start (setResultWriter (Some (rv_writer service)) (setEnvironment (cf_Env c) a))" using starts s(2) by blast
      then show ?thesis using True on s(1) by simp
    next
      case False
      then show ?thesis using opened on by auto
    qed
  next
    case False
    then show ?thesis using starts[of None] by (simp add: results_up_def)
  qed
  have outcome: "if \<not> resume_up new_client r c then start = Inl (Start_resume (ErrResumeBackend ''startup ping''))
     else if \<not> results_up v c then \<exists>err. start = Inl (Start_results err)
     else if \<not> en_listen v then start = Inl Start_listen
     else \<exists>writer tokens. start = Inr (setResultWriter writer (setEnvironment (cf_Env c) a), tokens) \<and>
       app_start (setResultWriter writer (setEnvironment (cf_Env c) a)) \<and>
       (writer \<noteq> None \<longleftrightarrow> cf_ResultsEnabled c) \<and> (tokens \<noteq> None \<longleftrightarrow> cf_ResumeEnabled c)"
  proof (cases "resume_up new_client r c")
    case up: True
    then obtain tokens where t: "?resume = Inr tokens" "tokens \<noteq> None \<longleftrightarrow> cf_ResumeEnabled c" using resume by auto
    show ?thesis
    proof (cases "results_up v c")
      case True
      then obtain service where s: "?results = Inr service" "service \<noteq> None \<longleftrightarrow> cf_ResultsEnabled c"
        "app_start (setResultWriter (map_option rv_writer service) (setEnvironment (cf_Env c) a))" using results by auto
      have w: "map_option rv_writer service \<noteq> None \<longleftrightarrow> cf_ResultsEnabled c" using s(2) by simp
      have e: "start = (if en_listen v then Inr (setResultWriter (map_option rv_writer service) (setEnvironment (cf_Env c) a), tokens)
          else Inl Start_listen)" unfolding start t(1) s(1) by simp
      show ?thesis using up True s(3) w t(2) unfolding e by auto
    next
      case False
      then obtain err where "?results = Inl err" using results by auto
      then have "start = Inl (Start_results err)" unfolding start t(1) by simp
      then show ?thesis using up False by simp
    qed
  next
    case False
    then have e: "?resume = Inl (ErrResumeBackend ''startup ping'')" using resume by auto
    have "start = Inl (Start_resume (ErrResumeBackend ''startup ping''))" unfolding start e by simp
    then show ?thesis using False by simp
  qed
  have malformed: "start = Inl (Start_results [ErrInvalidResultStore])"
    if m: "resume_up new_client r c \<and> cf_ResultsEnabled c \<and> OpenFileFailureSink v (cf_ResultDeadLetterPath c) = None \<and>
       en_ParseDSN v (cf_MySQLDSN c) \<noteq> None"
  proof -
    obtain tokens where t: "?resume = Inr tokens" using resume m by auto
    have s: "?results = Inl [ErrInvalidResultStore]" using OpenResultService_malformed[OF v(7)] m by simp
    show ?thesis unfolding start t s by simp
  qed
  show ?thesis
    by (intro exI[of _ ?g] exI[of _ a] conjI g new outcome impI malformed)
      (use small_words[OF v(3-6)] rule_ok v(3) in simp_all)
qed

definition sample_lib :: config_lib where
  "sample_lib = \<lparr>cl_ParseFloat = (\<lambda>_. None), cl_loopbackIP = (\<lambda>h. h = ''127.0.0.1'')\<rparr>"

lemma sample_trim: "trim_definition sample_potion = sample_potion"
  by code_simp

lemma sample_displayable: "displayable sample_potion"
  by code_simp

text \<open>A production configuration with the results in a database, in an environment whose driver takes any name but the empty one.\<close>

definition sample_environment :: environment where
  "sample_environment = \<lparr>en_ParseDSN = (\<lambda>dsn. if dsn = [] then Some [OtherPersistError ''dsn''] else None), en_open = None, en_ping = None,
     en_migrate = None, en_MkdirAll = None, en_OpenFile = None, en_listen = True\<rparr>"

definition sample_configuration :: ServerConfig where
  "sample_configuration = Default_config\<lparr>cf_ResultsEnabled := True\<rparr>"

lemma sample_results_config:
  "Load_config sample_lib [''ODYSSEY_RESULTS_ENABLED=true''] None = Inr sample_configuration"
proof -
  have "split_equals ''ODYSSEY_RESULTS_ENABLED=true'' = Some (''ODYSSEY_RESULTS_ENABLED'', ''true'')" by code_simp
  moreover have "ParseBool ''true'' = Some True" by code_simp
  ultimately have a: "apply_environment sample_lib [''ODYSSEY_RESULTS_ENABLED=true''] c = c\<lparr>cf_ResultsEnabled := True\<rparr>" for c
    by (simp add: apply_environment_def applyKey_def apply_value_def)
  have "validateLoopbackListenAddr sample_lib ''127.0.0.1:8080''" by code_simp
  moreover have "TrimSpace ''data/equipment/catalog.json'' \<noteq> []" "TrimSpace (cf_MySQLDSN Default_config) \<noteq> []"
    "TrimSpace (cf_ResultDeadLetterPath Default_config) \<noteq> []" by code_simp+
  moreover have "fl (1 / 2) = Fin (1 / 2)" by code_simp
  ultimately have "Config_check sample_lib (Default_config\<lparr>cf_ResultsEnabled := True\<rparr>) = None"
    by (simp add: Config_check_def Default_config_def director_numbers_def valid_results_def)
  then show ?thesis by (simp add: Load_config_def a sample_configuration_def)
qed

theorem configured_server_starts_witness:
  "\<exists>g a. LoadGameplay sample_lib (Some sample_configuration) DefaultConfig (Catalog_decoded EquipmentCatalogVersion [sample_potion] False) = Inr g \<and>
     start_server sample_lib sample_environment (\<lambda>_. table_client) \<lparr>tt_now = 0, tt_keys = []\<rparr> 0
       (Catalog_decoded EquipmentCatalogVersion [sample_potion] False) sample_configuration = Inr (a, None) \<and> app_start a \<and>
     uint (gp_stageLimit g) = 12 \<and> ap_resultWriter a \<noteq> None"
proof -
  obtain k where k: "NewCatalog EquipmentCatalogVersion [sample_potion] = Inr k" and i: "c_items k = [(3001, sample_potion)]"
    by (simp add: NewCatalog_def EquipmentCatalogVersion_def sample_trim sample_potion_ok) (simp add: sample_potion_def)
  have d: "\<forall>i d. Lookup k i = Some d \<longrightarrow> displayable d" using i sample_displayable by (simp add: Lookup_def)
  have c: "cf_StageLimit sample_configuration = 12" "cf_ResultsEnabled sample_configuration" "\<not> cf_ResumeEnabled sample_configuration"
    by (simp_all add: Default_config_def sample_configuration_def)
  have "\<not> cleans_to_dot (cf_ResultDeadLetterPath sample_configuration)" "cf_MySQLDSN sample_configuration \<noteq> []" by code_simp+
  then have up: "results_up sample_environment sample_configuration" by (simp add: results_up_def sample_environment_def)
  have ready: "en_listen sample_environment" "resume_up (\<lambda>_. table_client) \<lparr>tt_now = 0, tt_keys = []\<rparr> sample_configuration"
    using c by (simp_all add: sample_environment_def resume_up_def)
  obtain g w a where g: "LoadGameplay sample_lib (Some sample_configuration) DefaultConfig (Catalog_decoded EquipmentCatalogVersion [sample_potion] False) = Inr g"
    "uint (gp_stageLimit g) = 12" "app_start (setResultWriter (Some w) (setEnvironment (cf_Env sample_configuration) a))"
    "start_server sample_lib sample_environment (\<lambda>_. table_client) \<lparr>tt_now = 0, tt_keys = []\<rparr> 0
       (Catalog_decoded EquipmentCatalogVersion [sample_potion] False) sample_configuration
     = Inr (setResultWriter (Some w) (setEnvironment (cf_Env sample_configuration) a), None)"
    using configured_server_starts[OF sample_results_config k d refl, where v = sample_environment and new_client = "\<lambda>_. table_client"
        and r = "\<lparr>tt_now = 0, tt_keys = []\<rparr>" and now = 0]
      up ready c by auto
  then show ?thesis by (intro exI[of _ g] exI[of _ "setResultWriter (Some w) (setEnvironment (cf_Env sample_configuration) a)"])
    (simp add: setResultWriter_def)
qed

end
