(* ===== verification/Spec2Isabelle.thy ===== *)
theory Spec2Isabelle
  imports Simulation Director Frame Session Lobby RoomContract Connection Sinks Writer Application Startup
begin

text \<open>
  A verification of the game server of The Return of the Odyssey, the Go module under \<open>server/\<close>.

  \<^bold>\<open>The program.\<close>  Players connect over TCP and exchange length-prefixed frames.  The connection's reader decodes
  them and the application handles login, matchmaking, inputs, reward choices and stage requests.  Two matched players share a
  room, a goroutine that owns one world and advances it thirty times a second; other goroutines only send it commands and
  inputs over bounded channels and receive receipts, snapshots, events and reward updates back.  When a stage is
  cleared the players choose a reward, and once all are ready the director plans the next stage from their performance.
  Results go through a bounded queue to a worker that saves them in MySQL.

  \<^bold>\<open>Theories and sources\<close> (below \<open>server/internal/\<close> unless said otherwise).

  \<^item> \<open>Prelude\<close>: Go maps as association lists with distinct keys, ordered keys, machine integers and times.
    \<open>Float64\<close>: \<open>float64\<close> with its rounding, infinities and NaN, \<open>math.Sqrt\<close>, \<open>math.Hypot\<close>, \<open>math.Round\<close>.
  \<^item> \<open>Entity\<close>: \<open>game/entity\<close>, \<open>game/systems\<close>, \<open>game/stage\<close>.  \<open>Equipment\<close>: \<open>game/equipment\<close>.  \<open>RewardRound\<close>: \<open>game/reward\<close>.
    \<open>Arena\<close>: \<open>game/arena.go\<close> (covers, movement, routing).  \<open>World\<close>: the state of \<open>game/world.go\<close>, input, results and resume views.
    \<open>Rewards\<close>: \<open>game/rewards.go\<close>, \<open>pickups.go\<close>, \<open>ammo.go\<close>.  \<open>Combat\<close>: \<open>game/combat.go\<close>, \<open>performance.go\<close> and the tick \<open>World.Step\<close>.
    \<open>Invariant\<close>, \<open>Ticks\<close>, \<open>CombatStep\<close>, \<open>Simulation\<close>: the well-formedness of worlds, kept by every operation, and its consequences.
  \<^item> \<open>Director\<close>: \<open>game/director\<close> and \<open>game/encounter.go\<close>.
  \<^item> \<open>Protocol\<close>: message types and reasons.  \<open>Frame\<close>: \<open>network/frame.go\<close>.  \<open>Session\<close>: \<open>session/session.go\<close>.
    \<open>Lobby\<close>: \<open>lobby/matchmaker.go\<close>.  \<open>Channel\<close>: Go's buffered channels; sending on a closed one panics.
  \<^item> \<open>Room\<close>: \<open>room/room.go\<close>; \<open>RoomRuns\<close>, \<open>RoomContract\<close>: its invariant, its step relation and its contract.
  \<^item> \<open>Connection\<close>: \<open>network/server.go\<close>.  \<open>Wire\<close>: \<open>convert/\<close>.  \<open>Router\<close>: \<open>router/\<close>.  \<open>Sinks\<close>: \<open>cmd/gameserver/deferred_events.go\<close>
    and the connections as sinks of the dispatchers.
  \<^item> \<open>Results\<close>: \<open>persistence/results.go\<close>.  \<open>Writer\<close>: \<open>persistence/result_writer.go\<close>.
    \<open>Tokens\<close>: \<open>persistence/resume_tokens.go\<close>, \<open>resume_service.go\<close>.
  \<^item> \<open>Texts\<close>, \<open>Settings\<close>: \<open>config/config.go\<close>, \<open>bootstrap/gameplay.go\<close>.  \<open>Startup\<close>: \<open>main.go\<close> up to the
    listening socket, \<open>persistence/result_service.go\<close>, and the opening of the result store and of the dead-letter file.
  \<^item> \<open>Status\<close>: the records of \<open>admin/admin.go\<close> and of the director's metrics.  \<open>App\<close>: the state of
    \<open>cmd/gameserver/application.go\<close> and the message handlers, with \<open>main.go\<close>'s login and ping.  \<open>Matches\<close>: assembling a match or a rematch,
    leaving, disconnecting.  \<open>Stages\<close>: rewards, the advance to the next stage and \<open>results.go\<close>.  \<open>Observers\<close>: the consumers
    of a room's output, and the step of every task.
  \<^item> \<open>AppRuns\<close>: the application as a step relation.  \<open>AppCalm\<close>, \<open>AppSteps\<close>, \<open>AppTasks\<close>, \<open>AppDuty\<close>, \<open>AppTurns\<close>, \<open>AppContract\<close>,
    \<open>Application\<close>: its invariant, one operation at a time, and its properties.

  \<^bold>\<open>How the code is rendered.\<close>  A struct is a record, an enumeration a datatype with a constructor for the values outside
  of it, a machine integer a word of its width, so that arithmetic wraps.  A string is its bytes.  An error or panic is a value of a sum
  type: \<open>Inl\<close> of a fault type where Go would panic, and an error inside \<open>Inr\<close> where the function returns one.  Pointers that are
  shared (sessions, rooms, connections, deferred sinks) are numbers into a store of the application's or the hub's state.
  Floating-point numbers are rational numbers that are rounded as IEEE 754 prescribes after each operation; this is Go's behaviour
  on amd64, which does not fuse multiplication and addition, and the sign of zero plays no part in the code.  Where the code iterates over
  a map in random order, the model takes the order of the association list and the results are either independent of it
  (ordered keys are sorted first) or the dependence is reported as a finding.

  \<^bold>\<open>Concurrency.\<close>  A goroutine is a program counter with a step function: \<open>goroutine\<close> of a room takes one command, one input or one
  tick per step, \<open>writer_step\<close> one choice of a connection's writer (\<open>writer_select\<close> lets
  its select take any branch that is ready), \<open>worker_step\<close> one decision of the result worker.  In the
  application the goroutines started with \<open>go\<close> are tasks in a list; a task runs from one blocking wait to the next
  (a receipt, a timer, the end of a room), and \<open>app_move\<close> lets any reader, task, room, consumer, connection or the result writer take
  the next step; a move is a computation that may panic (\<open>link_step\<close> for a connection, \<open>result_step\<close> for the writer).  The stretch between two waits is one step although the code may interleave inside it where it does not hold
  the application's mutex; a batch of events or reward updates is handled in one step.  Timers and select statements are
  answers given to the step from outside, so every choice is covered.

  \<^bold>\<open>Bounds and fuel.\<close>  Loops over lists are structural recursions.  The search of \<open>routeAroundCover\<close> has as many rounds as
  there are points, since every round visits a new one, and \<open>walk_back\<close> as many; \<open>publish_latest\<close> repeats until its
  one-place channel takes the frame, a partial function that is proved to return; the placement of monsters makes the code's 1024
  attempts.  A task repeats a command at most as often as the code does (10 times to open the first stage, to read
  a completed stage back or to start a reward, 30 times to submit the plan of the next stage).  Termination is proved, not assumed: a room that has been cancelled ends within \<open>room_work\<close> steps, a connection that is
  closed after flushing within two steps of its writer for each queued frame and three more, the result worker within \<open>writer_work\<close> of its queue.

  \<^bold>\<open>What is proved.\<close>  Of the game: a tick never panics from any reachable world and moves along the edges of the stage machine;
  positions, health, magazines, IDs and queues stay in their bounds; a reward round ends at its deadline with the default of every open offer in its player's loadout, an offered choice is
  accepted once; inputs are staged once; results are given only for the outcome the world is in; movement never enters a cover; the route
  search ends; equipment settles consistently; the director's plans are valid and bounded.  Of a room: it never faults, every accepted command is
  answered exactly once, stale inputs are rejected, every run is a sequential run of the game, and a cancelled room ends.
  Of the network: frames round-trip under any chunking, reliable frames arrive in order, the latest snapshot wins, closing flushes, the
  disconnect handler runs once, the set of open connections is exact, events reach every sink or close its connection, a player's snapshot has his own row apart from
  the others' (offers travel in messages of their own), and nothing overtakes the match announcement.  Of the
  services: results are stored once and come back with their time in microseconds, none is lost between the queue and its fate, shutdown drains the queue, a resume token works once
  and in time.  Of the whole server: an accepted configuration with a valid catalog starts it unless the environment refuses
  (Redis, the data source name, the database, the dead-letter file, the port); it never panics from there; the director is asked at
  most once at a time for a room; and the result of a room is accepted at most once.  The interfaces between the parts are locales
  (\<open>fifo\<close>: a bounded queue; \<open>rounding\<close>: monotone rounding; \<open>matching\<close>: a matchmaker; \<open>tickets\<close>: commands and their receipts;
  \<open>event_sink\<close>: a receiver of events; \<open>redis_service\<close>), interpreted on the model's own definitions.

  \<^bold>\<open>Parameters.\<close>  Protocol buffers, JSON, SHA-256, \<open>math.Pow\<close>, \<open>strconv.ParseFloat\<close>, \<open>net.ParseIP\<close>, random numbers and the clock are
  arguments; what a property needs of them is among its hypotheses (\<open>codec_ok\<close>: a decoded vector holds 32-bit
  floats).  MySQL is the two tables with an answer for each statement, its
  \<open>DATETIME(6)\<close> column rounds to microseconds (\<open>datetime6\<close>) and its \<open>JSON\<close> column may rewrite its text (\<open>js_column\<close>); what the driver, the database, the
  file system and the network answer at the start is the record \<open>environment\<close>; Redis a record of commands with its
  documented behaviour as the locale \<open>redis_service\<close>.

  \<^bold>\<open>Not modelled.\<close>  Logging and the publication of metrics (no decision depends on them), the HTTP and WebSocket side of the
  administration API, the sampling loops and the signal handling of \<open>main\<close>, closing files and database pools,
  SQL migrations, the demonstration program, the load bot, and the client and dashboard, which are written in other languages.
\<close>

end
